(* ===== verification/Prelude.thy ===== *)
theory Prelude imports Main "HOL-Library.Char_ord" "HOL-Library.List_Lexorder" begin

text \<open>
  Shared vocabulary of the development: the lemma collections, the generic facts on lists and
  options every component uses, and the small functions of Go's standard library (\<open>strings\<close>,
  \<open>path\<close>) that the modelled code calls. Strings are byte strings, as in Go: a \<open>string\<close> is a
  list of \<open>char\<close>, one per byte, and \<open>List_Lexorder\<close> gives it Go's byte-wise order.
\<close>

named_theorems row_simps "selectors and updates of rows and tables"
named_theorems keeps_inv "operations that keep an invariant"

section \<open>Lists\<close>

text \<open>\<open>COALESCE(MAX(c), 0)\<close> over a column.\<close>

definition coalesce_max :: "int list \<Rightarrow> int" where
  "coalesce_max xs = (case xs of [] \<Rightarrow> 0 | y # ys \<Rightarrow> fold max ys y)"

lemma fold_max_ge: "y \<le> fold max ys (y::int) \<and> (\<forall>x \<in> set ys. x \<le> fold max ys y)"
proof (induction ys arbitrary: y)
  case Nil
  then show ?case by simp
next
  case (Cons a ys)
  from Cons.IH [of "max a y"] show ?case by simp
qed

lemma fold_max_mem: "fold max ys (y::int) \<in> insert y (set ys)"
proof (induction ys arbitrary: y)
  case Nil
  then show ?case by simp
next
  case (Cons a ys)
  from Cons.IH [of "max a y"] show ?case by (auto simp: max_def split: if_splits)
qed

lemma coalesce_max_ge: "x \<in> set xs \<Longrightarrow> x \<le> coalesce_max xs"
  using fold_max_ge by (cases xs) (auto simp: coalesce_max_def)

lemma coalesce_max_mem: "xs \<noteq> [] \<Longrightarrow> coalesce_max xs \<in> set xs"
  using fold_max_mem by (cases xs) (auto simp: coalesce_max_def)

lemma coalesce_max_Nil [simp]: "coalesce_max [] = 0"
  by (simp add: coalesce_max_def)

lemma coalesce_max_fresh: "coalesce_max xs + 1 \<notin> set xs"
  using coalesce_max_ge by fastforce

text \<open>The first element a predicate picks, and what it says of the elements before it.\<close>

lemma find_SomeD: "find P xs = Some x \<Longrightarrow> x \<in> set xs \<and> P x"
  by (induction xs) (auto split: if_splits)

lemma find_None_conv: "find P xs = None \<longleftrightarrow> (\<forall>x \<in> set xs. \<not> P x)"
  by (induction xs) auto

lemma find_Some_ex: "x \<in> set xs \<Longrightarrow> P x \<Longrightarrow> \<exists>y. find P xs = Some y"
  by (induction xs) auto

lemma find_cong_set: "(\<And>x. x \<in> set xs \<Longrightarrow> P x = Q x) \<Longrightarrow> find P xs = find Q xs"
  by (induction xs) auto

lemma find_map_keep:
  "(\<And>x. P (f x) = P x) \<Longrightarrow> find P (map f xs) = map_option f (find P xs)"
  by (induction xs) auto

lemma find_append: "find P (xs @ ys) = (case find P xs of None \<Rightarrow> find P ys | Some x \<Rightarrow> Some x)"
  by (induction xs) auto

text \<open>At most one element has a given key.\<close>

lemma distinct_map_eqD:
  "distinct (map f xs) \<Longrightarrow> x \<in> set xs \<Longrightarrow> y \<in> set xs \<Longrightarrow> f x = f y \<Longrightarrow> x = y"
  by (metis distinct_map inj_onD)

lemma find_unique_key:
  assumes "distinct (map f xs)" and "x \<in> set xs"
  shows "find (\<lambda>y. f y = f x) xs = Some x"
  using assms by (induction xs) (auto simp: rev_image_eqI)

lemma filter_unique_key:
  assumes "distinct (map f xs)" and "x \<in> set xs"
  shows "filter (\<lambda>y. f y = f x) xs = [x]"
  using assms by (induction xs) (auto simp: filter_empty_conv rev_image_eqI)

lemma distinct_map_filterI: "distinct (map f xs) \<Longrightarrow> distinct (map f (filter P xs))"
  by (induction xs) auto

lemma sorted_wrt_map_filterI:
  "sorted_wrt R (map f xs) \<Longrightarrow> sorted_wrt R (map f (filter P xs))"
  by (induction xs) auto

lemma sorted_less_distinct: "sorted_wrt (<) (xs :: int list) \<Longrightarrow> distinct xs"
  by (induction xs) auto

section \<open>Results\<close>

text \<open>Go's pair of a value and an error: the error, or the value.\<close>

fun is_ok :: "'e + 'a \<Rightarrow> bool" where
  "is_ok (Inl _) = False"
| "is_ok (Inr _) = True"

lemma is_ok_iff: "is_ok r \<longleftrightarrow> (\<exists>x. r = Inr x)"
  by (cases r) auto

section \<open>Go strings\<close>

definition has_prefix :: "string \<Rightarrow> string \<Rightarrow> bool" where
  "has_prefix s p \<longleftrightarrow> take (length p) s = p"

definition has_suffix :: "string \<Rightarrow> string \<Rightarrow> bool" where
  "has_suffix s p \<longleftrightarrow> has_prefix (rev s) (rev p)"

definition trim_prefix :: "string \<Rightarrow> string \<Rightarrow> string" where
  "trim_prefix s p = (if has_prefix s p then drop (length p) s else s)"

definition trim_suffix :: "string \<Rightarrow> string \<Rightarrow> string" where
  "trim_suffix s p = (if has_suffix s p then take (length s - length p) s else s)"

definition cut_prefix :: "string \<Rightarrow> string \<Rightarrow> string option" where
  "cut_prefix s p = (if has_prefix s p then Some (drop (length p) s) else None)"

lemma has_prefix_append [simp]: "has_prefix (p @ s) p"
  by (simp add: has_prefix_def)

lemma has_prefix_iff: "has_prefix s p \<longleftrightarrow> (\<exists>t. s = p @ t)"
proof
  assume "has_prefix s p"
  then have "s = p @ drop (length p) s"
    by (metis append_take_drop_id has_prefix_def)
  then show "\<exists>t. s = p @ t" by blast
qed auto

lemma has_suffix_append [simp]: "has_suffix (s @ p) p"
  by (simp add: has_suffix_def)

lemma trim_suffix_append [simp]: "trim_suffix (s @ p) p = s"
  by (simp add: trim_suffix_def)

lemma cut_prefix_append [simp]: "cut_prefix (p @ s) p = Some s"
  by (simp add: cut_prefix_def)

text \<open>\<open>strings.Split(s, "c")\<close> for a one-byte separator, and \<open>strings.Join\<close>.\<close>

fun split_on :: "char \<Rightarrow> string \<Rightarrow> string list" where
  "split_on c [] = [[]]"
| "split_on c (x # xs) =
     (if x = c then [] # split_on c xs
      else (case split_on c xs of [] \<Rightarrow> [[x]] | y # ys \<Rightarrow> (x # y) # ys))"

fun join :: "string \<Rightarrow> string list \<Rightarrow> string" where
  "join sep [] = []"
| "join sep [x] = x"
| "join sep (x # y # zs) = x @ sep @ join sep (y # zs)"

lemma split_on_not_Nil [simp]: "split_on c s \<noteq> []"
  by (induction s) (auto split: list.splits)

lemma join_cons_char: "join sep ((x # y) # ys) = x # join sep (y # ys)"
  by (cases ys) auto

lemma join_Nil_cons: "ys \<noteq> [] \<Longrightarrow> join sep ([] # ys) = sep @ join sep ys"
  by (cases ys) auto

lemma join_split_on [simp]: "join [c] (split_on c s) = s"
proof (induction s)
  case (Cons x xs)
  then show ?case
    by (cases "split_on c xs") (auto simp: join_cons_char join_Nil_cons)
qed simp

lemma split_on_no_sep: "p \<in> set (split_on c s) \<Longrightarrow> c \<notin> set p"
  by (induction s arbitrary: p) (fastforce split: list.splits if_splits)+

lemma split_on_id: "c \<notin> set s \<Longrightarrow> split_on c s = [s]"
  by (induction s) auto

lemma split_on_append_sep:
  "c \<notin> set s \<Longrightarrow> split_on c (s @ c # t) = s # split_on c t"
  by (induction s) auto

lemma split_on_join:
  "xs \<noteq> [] \<Longrightarrow> \<forall>x \<in> set xs. c \<notin> set x \<Longrightarrow> split_on c (join [c] xs) = xs"
  by (induction "[c]" xs rule: join.induct) (auto simp: split_on_id split_on_append_sep)

end
