(* ===== verification/Session.thy ===== *)
theory Session imports Prelude begin

text \<open>
  The shape every function of \<open>internal/storage\<close> has: a sequence of SQL statements against one
  database, each of which the engine may refuse (a full disk, a lost file: the \<open>if err != nil\<close>
  after every call), optionally inside a transaction (\<open>db.Begin\<close>, \<open>defer tx.Rollback()\<close>,
  \<open>tx.Commit\<close>). A session is the engine's script of outcomes, one entry per engine call, with
  the database: \<open>True\<close> at the head makes the next call fail, and past the end of the script every
  call succeeds. Theorems about \<open>([], d)\<close> are about a healthy engine; theorems about an arbitrary
  script hold whatever call fails.

  The combinators take the rest of the function as a continuation, so a definition reads in the
  order of the Go statements.
\<close>

datatype db_error =
    ErrNotFound | ErrForbidden | ErrInvalidInput | ErrNotOwner
  | ErrAlreadyClaimed | ErrNoUpdateFields
  | ErrDependencyCycle | ErrSelfDependency
  | ErrNoRunQueued | ErrNoTurnPending | ErrNotTerminal
  | ErrTokenExists | ErrTokenName | ErrUserExists | ErrUserName | ErrShortPassword
  | ErrBadCredentials | ErrNoPassword
  | ErrSSHKeyExists | ErrInvalidSSHKey
  | ErrBcrypt | ErrRand
  | ErrNoRows
  | ErrUnique | ErrForeignKey
  | ErrEngine

type_synonym 'd session = "bool list \<times> 'd"
type_synonym ('d, 'a) dbm = "'d session \<Rightarrow> (db_error + 'a) \<times> 'd session"

definition ok :: "'a \<Rightarrow> ('d, 'a) dbm" where
  "ok x = (\<lambda>s. (Inr x, s))"

definition err :: "db_error \<Rightarrow> ('d, 'a) dbm" where
  "err e = (\<lambda>s. (Inl e, s))"

text \<open>A statement that only reads.\<close>

fun query :: "('d \<Rightarrow> 'a) \<Rightarrow> ('a \<Rightarrow> ('d, 'b) dbm) \<Rightarrow> ('d, 'b) dbm" where
  "query f k ([], d) = k (f d) ([], d)"
| "query f k (False # fs, d) = k (f d) (fs, d)"
| "query f k (True # fs, d) = (Inl ErrEngine, (fs, d))"

text \<open>A statement that writes; it may be refused by a constraint of the schema.\<close>

fun exec :: "('d \<Rightarrow> (db_error + 'a) \<times> 'd) \<Rightarrow> ('a \<Rightarrow> ('d, 'b) dbm) \<Rightarrow> ('d, 'b) dbm" where
  "exec f k ([], d) =
     (case f d of (Inl e, _) \<Rightarrow> (Inl e, ([], d)) | (Inr x, d') \<Rightarrow> k x ([], d'))"
| "exec f k (False # fs, d) =
     (case f d of (Inl e, _) \<Rightarrow> (Inl e, (fs, d)) | (Inr x, d') \<Rightarrow> k x (fs, d'))"
| "exec f k (True # fs, d) = (Inl ErrEngine, (fs, d))"

text \<open>Needed where a statement's continuation is a recursive call.\<close>

lemma query_cong [fundef_cong]:
  assumes "f = f'" and "s = s'" and "\<And>fs. k (f' (snd s')) (fs, snd s') = k' (f' (snd s')) (fs, snd s')"
  shows "query f k s = query f' k' s'"
proof -
  obtain fs d where "s' = (fs, d)" by fastforce
  with assms show ?thesis by (cases "(f', k, fs, d)" rule: query.cases) auto
qed

text \<open>A transaction: an error of the body, or of the commit, restores the database.\<close>

fun commit :: "'d \<Rightarrow> (db_error + 'a) \<times> 'd session \<Rightarrow> (db_error + 'a) \<times> 'd session" where
  "commit d (Inl e, (fs, d')) = (Inl e, (fs, d))"
| "commit d (Inr x, (True # fs, d')) = (Inl ErrEngine, (fs, d))"
| "commit d (Inr x, (False # fs, d')) = (Inr x, (fs, d'))"
| "commit d (Inr x, ([], d')) = (Inr x, ([], d'))"

fun tx :: "('d, 'a) dbm \<Rightarrow> ('d, 'a) dbm" where
  "tx m (True # fs, d) = (Inl ErrEngine, (fs, d))"
| "tx m (False # fs, d) = commit d (m (fs, d))"
| "tx m ([], d) = commit d (m ([], d))"

text \<open>A function that calls another and goes on with its value, its errors passed through.\<close>

definition bind :: "('d, 'a) dbm \<Rightarrow> ('a \<Rightarrow> ('d, 'b) dbm) \<Rightarrow> ('d, 'b) dbm" where
  "bind m k s = (case m s of (Inl e, s') \<Rightarrow> (Inl e, s') | (Inr x, s') \<Rightarrow> k x s')"

text \<open>A function that calls another and looks at its error (\<open>if err != nil\<close> with a fallback).\<close>

definition attempt :: "('d, 'a) dbm \<Rightarrow> (db_error + 'a \<Rightarrow> ('d, 'b) dbm) \<Rightarrow> ('d, 'b) dbm" where
  "attempt m k s = (case m s of (r, s') \<Rightarrow> k r s')"

lemma ok_apply [simp]: "ok x s = (Inr x, s)"
  by (simp add: ok_def)

lemma err_apply [simp]: "err e s = (Inl e, s)"
  by (simp add: err_def)

text \<open>A statement whose function went on to succeed did succeed itself.\<close>

lemma query_InrE:
  assumes "query f k (fs, d) = (Inr x, s)"
  obtains gs where "k (f d) (gs, d) = (Inr x, s)"
  using assms by (cases "(f, k, fs, d)" rule: query.cases) auto

lemma query_cases:
  "query f k (fs, d) = y \<Longrightarrow> (\<exists>gs. y = k (f d) (gs, d)) \<or> (\<exists>gs. y = (Inl ErrEngine, (gs, d)))"
  by (cases "(f, k, fs, d)" rule: query.cases) auto

lemma exec_cases:
  "exec f k (fs, d) = y \<Longrightarrow> (\<exists>x d' gs. f d = (Inr x, d') \<and> y = k x (gs, d')) \<or> (\<exists>e gs. y = (Inl e, (gs, d)))"
  by (cases "(f, k, fs, d)" rule: exec.cases) (auto split: prod.splits sum.splits)

lemma exec_InrE:
  assumes "exec f k (fs, d) = (Inr x, s)"
  obtains y d' gs where "f d = (Inr y, d')" and "k y (gs, d') = (Inr x, s)"
  using assms by (cases "(f, k, fs, d)" rule: exec.cases) (auto split: prod.splits sum.splits)

text \<open>The database a function leaves on a healthy engine.\<close>

definition after :: "('d, 'a) dbm \<Rightarrow> 'd \<Rightarrow> 'd" where
  "after m d = snd (snd (m ([], d)))"

section \<open>Atomicity and invariants\<close>

text \<open>A transaction that reports an error has changed nothing, whatever statement failed.\<close>

lemma commit_error: "commit d r = (Inl e, (fs, d')) \<Longrightarrow> d' = d"
  by (cases "(d, r)" rule: commit.cases) auto

lemma tx_atomic: "tx m (fs, d) = (Inl e, (fs', d')) \<Longrightarrow> d' = d"
  by (cases "(m, fs, d)" rule: tx.cases) (auto dest: commit_error)

lemma commit_ok: "commit d r = (Inr x, (fs', d')) \<Longrightarrow> \<exists>fs. r = (Inr x, (fs, d'))"
  by (cases "(d, r)" rule: commit.cases) auto

lemma tx_ok:
  "tx m (fs, d) = (Inr x, (fs', d')) \<Longrightarrow> \<exists>gs gs'. m (gs, d) = (Inr x, (gs', d'))"
  by (cases "(m, fs, d)" rule: tx.cases) (force dest: commit_ok)+

lemma tx_InrE:
  assumes "tx m (fs, d) = (Inr x, (fs', d'))"
  obtains gs gs' where "m (gs, d) = (Inr x, (gs', d'))"
  using tx_ok [OF assms] by blast

text \<open>
  \<open>keeps I d m\<close>: started on the database \<open>d\<close>, \<open>m\<close> leaves a database that satisfies \<open>I\<close>, under
  every script of the engine.
\<close>

definition keeps :: "('d \<Rightarrow> bool) \<Rightarrow> 'd \<Rightarrow> ('d, 'a) dbm \<Rightarrow> bool" where
  "keeps I d m \<longleftrightarrow> (\<forall>fs. I (snd (snd (m (fs, d)))))"

lemma keepsD: "keeps I d m \<Longrightarrow> m (fs, d) = (r, (fs', d')) \<Longrightarrow> I d'"
  by (auto simp: keeps_def) (metis snd_conv)

lemma keeps_ok [keeps_inv]: "I d \<Longrightarrow> keeps I d (ok x)"
  by (simp add: keeps_def)

lemma keeps_err [keeps_inv]: "I d \<Longrightarrow> keeps I d (err e)"
  by (simp add: keeps_def)

lemma keeps_query [keeps_inv]:
  assumes "I d" and "keeps I d (k (f d))"
  shows "keeps I d (query f k)"
  unfolding keeps_def
proof
  fix fs
  show "I (snd (snd (query f k (fs, d))))"
    using assms by (cases "(f, k, fs, d)" rule: query.cases) (auto simp: keeps_def)
qed

lemma keeps_exec [keeps_inv]:
  assumes "I d" and "\<And>x d'. f d = (Inr x, d') \<Longrightarrow> keeps I d' (k x)"
  shows "keeps I d (exec f k)"
  unfolding keeps_def
proof
  fix fs
  show "I (snd (snd (exec f k (fs, d))))"
    using assms
    by (cases "(f, k, fs, d)" rule: exec.cases) (auto simp: keeps_def split: prod.splits sum.splits)
qed

lemma keeps_tx [keeps_inv]:
  assumes "I d" and "keeps I d m"
  shows "keeps I d (tx m)"
  unfolding keeps_def
proof
  fix fs
  obtain r fs' d' where eq: "tx m (fs, d) = (r, (fs', d'))" by (metis surj_pair)
  show "I (snd (snd (tx m (fs, d))))"
  proof (cases r)
    case (Inl e)
    with eq tx_atomic [of m fs d e fs' d'] assms(1) show ?thesis by simp
  next
    case (Inr x)
    with eq tx_ok [of m fs d x fs' d'] obtain gs gs' where "m (gs, d) = (Inr x, (gs', d'))" by auto
    with keepsD [OF assms(2)] eq show ?thesis by simp
  qed
qed

lemma keeps_bind:
  assumes "keeps I d m" and "\<And>x d'. I d' \<Longrightarrow> keeps I d' (k x)"
  shows "keeps I d (bind m k)"
  unfolding keeps_def
proof
  fix fs
  obtain r fs' d' where eq: "m (fs, d) = (r, (fs', d'))" by (metis surj_pair)
  with keepsD [OF assms(1)] have "I d'" by blast
  with eq assms(2) [of d'] show "I (snd (snd (bind m k (fs, d))))"
    by (auto simp: bind_def keeps_def split: sum.splits)
qed

lemma keeps_attempt:
  assumes "keeps I d m" and "\<And>r d'. I d' \<Longrightarrow> keeps I d' (k r)"
  shows "keeps I d (attempt m k)"
  unfolding keeps_def
proof
  fix fs
  obtain r fs' d' where eq: "m (fs, d) = (r, (fs', d'))" by (metis surj_pair)
  with keepsD [OF assms(1)] have "I d'" by blast
  with eq assms(2) [of d'] show "I (snd (snd (attempt m k (fs, d))))"
    by (auto simp: attempt_def keeps_def)
qed

lemma keeps_if [keeps_inv]:
  "(b \<Longrightarrow> keeps I d m) \<Longrightarrow> (\<not> b \<Longrightarrow> keeps I d n) \<Longrightarrow> keeps I d (if b then m else n)"
  by simp

lemma keeps_option [keeps_inv]:
  "(x = None \<Longrightarrow> keeps I d m) \<Longrightarrow> (\<And>y. x = Some y \<Longrightarrow> keeps I d (n y)) \<Longrightarrow>
   keeps I d (case x of None \<Rightarrow> m | Some y \<Rightarrow> n y)"
  by (cases x) auto

lemma keeps_list [keeps_inv]:
  "(xs = [] \<Longrightarrow> keeps I d m) \<Longrightarrow> (\<And>y ys. xs = y # ys \<Longrightarrow> keeps I d (n y ys)) \<Longrightarrow>
   keeps I d (case xs of [] \<Rightarrow> m | y # ys \<Rightarrow> n y ys)"
  by (cases xs) auto

lemma keeps_sum [keeps_inv]:
  "(\<And>e. r = Inl e \<Longrightarrow> keeps I d (m e)) \<Longrightarrow> (\<And>y. r = Inr y \<Longrightarrow> keeps I d (n y)) \<Longrightarrow>
   keeps I d (case r of Inl e \<Rightarrow> m e | Inr y \<Rightarrow> n y)"
  by (cases r) auto

lemma keeps_prod [keeps_inv]:
  "(\<And>x y. p = (x, y) \<Longrightarrow> keeps I d (m x y)) \<Longrightarrow> keeps I d (case p of (x, y) \<Rightarrow> m x y)"
  by (cases p) auto

section \<open>Tables\<close>

text \<open>
  A table with \<open>INTEGER PRIMARY KEY AUTOINCREMENT\<close>: its rows in rowid order and the largest rowid
  ever handed out (\<open>sqlite_sequence\<close>), so an id is never used twice. An \<open>INSERT\<close> gets the next id;
  \<open>UPDATE ... WHERE\<close> and \<open>DELETE ... WHERE\<close> touch the rows that match.
\<close>

record 'r table =
  rows :: "'r list"
  seqno :: int

definition empty_table :: "'r table" where
  "empty_table = \<lparr>rows = [], seqno = 0\<rparr>"

definition insert_row :: "(int \<Rightarrow> 'r) \<Rightarrow> 'r table \<Rightarrow> 'r \<times> 'r table" where
  "insert_row mk t = (let r = mk (seqno t + 1) in (r, \<lparr>rows = rows t @ [r], seqno = seqno t + 1\<rparr>))"

definition update_where :: "('r \<Rightarrow> bool) \<Rightarrow> ('r \<Rightarrow> 'r) \<Rightarrow> 'r table \<Rightarrow> 'r table" where
  "update_where P f t = t\<lparr>rows := map (\<lambda>r. if P r then f r else r) (rows t)\<rparr>"

definition delete_where :: "('r \<Rightarrow> bool) \<Rightarrow> 'r table \<Rightarrow> 'r table" where
  "delete_where P t = t\<lparr>rows := filter (\<lambda>r. \<not> P r) (rows t)\<rparr>"

text \<open>\<open>UPDATE ... RETURNING\<close>, of which the code scans the first row.\<close>

definition update_returning :: "('r \<Rightarrow> bool) \<Rightarrow> ('r \<Rightarrow> 'r) \<Rightarrow> 'r table \<Rightarrow> 'r option \<times> 'r table" where
  "update_returning P f t = (map_option f (find P (rows t)), update_where P f t)"

definition count_where :: "('r \<Rightarrow> bool) \<Rightarrow> 'r table \<Rightarrow> int" where
  "count_where P t = int (length (filter P (rows t)))"

definition select_where :: "('r \<Rightarrow> bool) \<Rightarrow> 'r table \<Rightarrow> 'r list" where
  "select_where P t = filter P (rows t)"

definition select_one :: "('r \<Rightarrow> bool) \<Rightarrow> 'r table \<Rightarrow> 'r option" where
  "select_one P t = find P (rows t)"

definition exists_where :: "('r \<Rightarrow> bool) \<Rightarrow> 'r table \<Rightarrow> bool" where
  "exists_where P t \<longleftrightarrow> list_ex P (rows t)"

lemma exists_where_iff: "exists_where P t \<longleftrightarrow> (\<exists>r \<in> set (rows t). P r)"
  by (simp add: exists_where_def list_ex_iff)

lemma select_one_SomeD: "select_one P t = Some r \<Longrightarrow> r \<in> set (rows t) \<and> P r"
  by (simp add: select_one_def find_SomeD)

lemma select_one_None: "select_one P t = None \<longleftrightarrow> \<not> exists_where P t"
  by (simp add: select_one_def find_None_conv exists_where_iff)

lemma count_where_0: "count_where P t = 0 \<longleftrightarrow> \<not> exists_where P t"
  by (simp add: count_where_def exists_where_iff filter_empty_conv)

lemma rows_update_where [row_simps]:
  "rows (update_where P f t) = map (\<lambda>r. if P r then f r else r) (rows t)"
  by (simp add: update_where_def)

lemma exists_update_where:
  assumes "\<And>r. P (f r) = P r"
  shows "exists_where P (update_where Q f t) = exists_where P t"
  by (simp only: exists_where_iff rows_update_where set_map bex_simps if_distrib [of P] assms if_cancel)

lemma exists_insert: "exists_where P t \<Longrightarrow> exists_where P (snd (insert_row mk t))"
  by (auto simp: exists_where_iff insert_row_def Let_def)

lemma seqno_update_where [row_simps]: "seqno (update_where P f t) = seqno t"
  by (simp add: update_where_def)

lemma rows_delete_where [row_simps]:
  "rows (delete_where P t) = filter (\<lambda>r. \<not> P r) (rows t)"
  by (simp add: delete_where_def)

lemma seqno_delete_where [row_simps]: "seqno (delete_where P t) = seqno t"
  by (simp add: delete_where_def)

lemma insert_row_simps [row_simps]:
  "fst (insert_row mk t) = mk (seqno t + 1)"
  "rows (snd (insert_row mk t)) = rows t @ [mk (seqno t + 1)]"
  "seqno (snd (insert_row mk t)) = seqno t + 1"
  by (simp_all add: insert_row_def Let_def)

text \<open>Ids increase along the table and never exceed the counter.\<close>

definition ids_ok :: "('r \<Rightarrow> int) \<Rightarrow> 'r table \<Rightarrow> bool" where
  "ids_ok rid t \<longleftrightarrow> sorted_wrt (<) (map rid (rows t)) \<and> (\<forall>r \<in> set (rows t). 0 < rid r \<and> rid r \<le> seqno t) \<and> 0 \<le> seqno t"

lemma ids_ok_distinct: "ids_ok rid t \<Longrightarrow> distinct (map rid (rows t))"
  by (simp add: ids_ok_def sorted_less_distinct)

lemma ids_ok_empty [simp]: "ids_ok rid empty_table"
  by (simp add: ids_ok_def empty_table_def)

lemma ids_ok_insert:
  "ids_ok rid t \<Longrightarrow> (\<And>i. rid (mk i) = i) \<Longrightarrow> ids_ok rid (snd (insert_row mk t))"
  by (auto simp: ids_ok_def row_simps sorted_wrt_append intro: zless_add1_eq [THEN iffD2] order.strict_trans1)

lemma ids_ok_update:
  assumes "ids_ok rid t" and "\<And>r. rid (f r) = rid r"
  shows "ids_ok rid (update_where P f t)"
proof -
  have ids: "map rid (rows (update_where P f t)) = map rid (rows t)"
    using assms(2) by (simp add: row_simps)
  have "\<forall>r \<in> set (rows (update_where P f t)). 0 < rid r \<and> rid r \<le> seqno t"
    using assms by (auto simp: ids_ok_def row_simps)
  with assms(1) show ?thesis
    unfolding ids_ok_def ids seqno_update_where by blast
qed

lemma ids_ok_delete: "ids_ok rid t \<Longrightarrow> ids_ok rid (delete_where P t)"
  by (auto simp: ids_ok_def row_simps sorted_wrt_map_filterI)

lemma select_one_id:
  assumes "ids_ok rid t" and "r \<in> set (rows t)"
  shows "select_one (\<lambda>x. rid x = rid r) t = Some r"
  using find_unique_key [OF ids_ok_distinct [OF assms(1)] assms(2)] by (simp add: select_one_def)

text \<open>The row \<open>ORDER BY id LIMIT 1\<close> picks is the first in the table.\<close>

lemma find_sorted_least:
  "sorted_wrt (<) (map rid xs) \<Longrightarrow> find P xs = Some r \<Longrightarrow> x \<in> set xs \<Longrightarrow> P x \<Longrightarrow> rid r \<le> (rid x :: int)"
  by (induction xs) (auto split: if_splits intro: order.strict_implies_order)

lemma select_one_least:
  "ids_ok rid t \<Longrightarrow> select_one P t = Some r \<Longrightarrow> x \<in> set (rows t) \<Longrightarrow> P x \<Longrightarrow> rid r \<le> rid x"
  by (auto simp: ids_ok_def select_one_def intro: find_sorted_least)

end
