(* ===== verification/Schema.thy ===== *)
theory Schema imports Session Complex_Main begin

text \<open>
  The database of \<open>internal/storage/migrations.go\<close>: one record per table, after the last
  migration, with the column order of the \<open>CREATE TABLE\<close> statements. Text columns whose values the
  code enumerates (issue states, run statuses, ...) are datatypes with the source's constants as
  constructors; nullable columns are options; times are unix seconds and \<open>now\<close> is what
  \<open>strftime('%s','now')\<close> yields while a function runs; the JSON arrays in \<open>issues.labels\<close> and
  \<open>ci_jobs.needs\<close> are the lists they encode; a \<open>REAL\<close> is a rational number.
\<close>

section \<open>Enumerated columns\<close>

datatype issue_state = IssueTodo | IssueInProgress | IssueDone | IssueClosed

datatype run_status =
    RunQueued | RunRunning | RunAwaitingInput | RunFinishing
  | RunSuccess | RunFailed | RunCanceled | RunError | RunInterrupted | RunStalled

datatype run_kind = RunKindCI | RunKindAgent | RunKindSpecVerify

datatype job_status =
    JobQueued | JobRunning | JobSuccess | JobFailed | JobSkipped | JobError | JobInterrupted

datatype turn_status = TurnPending | TurnRunning | TurnDone | TurnError

datatype pr_state = PROpen | PRMerged | PRClosed

datatype review_state = PRReviewApproved | PRReviewChangesRequested

section \<open>Rows\<close>

record user_row =
  u_id :: int
  u_name :: string
  u_created :: int
  u_password :: "string option"

record repo_row =
  r_id :: int
  r_owner :: int
  r_name :: string
  r_created :: int
  r_ci_enabled :: bool
  r_visibility :: string
  r_require_approval :: bool
  r_protected_refs :: string

record issue_row =
  i_id :: int
  i_repo :: int
  i_number :: int
  i_title :: string
  i_body :: string
  i_author :: string
  i_state :: issue_state
  i_created :: int
  i_updated :: int
  i_assignee :: "string option"
  i_claimed :: "int option"
  i_parent :: "int option"
  i_labels :: "string list"

record comment_row =
  c_id :: int
  c_issue :: int
  c_author :: string
  c_body :: string
  c_created :: int

record dep_row =
  d_id :: int
  d_repo :: int
  d_issue :: int
  d_on :: int
  d_created :: int

record token_row =
  t_id :: int
  t_name :: string
  t_hash :: string
  t_created :: int
  t_last_used :: "int option"
  t_revoked :: "int option"
  t_user :: "int option"

record run_row =
  ru_id :: int
  ru_repo :: int
  ru_number :: int
  ru_sha :: string
  ru_ref :: string
  ru_event :: string
  ru_trigger :: string
  ru_status :: run_status
  ru_claimed :: "int option"
  ru_created :: int
  ru_started :: "int option"
  ru_finished :: "int option"
  ru_msg :: string
  ru_author :: string
  ru_kind :: run_kind
  ru_issue :: "int option"
  ru_model :: string
  ru_profile :: string
  ru_spec :: string

record job_row =
  j_id :: int
  j_run :: int
  j_name :: string
  j_status :: job_status
  j_exit :: "int option"
  j_created :: int
  j_started :: "int option"
  j_finished :: "int option"
  j_needs :: "string list"

record turn_row =
  tn_id :: int
  tn_run :: int
  tn_seq :: int
  tn_author :: string
  tn_body :: string
  tn_status :: turn_status
  tn_claimed :: "int option"
  tn_created :: int
  tn_started :: "int option"
  tn_finished :: "int option"

record pull_row =
  p_id :: int
  p_repo :: int
  p_number :: int
  p_base :: string
  p_head :: string
  p_title :: string
  p_body :: string
  p_author :: string
  p_state :: pr_state
  p_created :: int
  p_updated :: int
  p_merged :: "int option"
  p_merge_base :: "string option"
  p_merge_head :: "string option"

record review_row =
  rv_id :: int
  rv_repo :: int
  rv_pr :: int
  rv_author :: string
  rv_state :: review_state
  rv_updated :: int

record code_comment_row =
  cc_id :: int
  cc_repo :: int
  cc_ref :: string
  cc_path :: string
  cc_start :: int
  cc_end :: int
  cc_sha :: string
  cc_author :: string
  cc_body :: string
  cc_resolved :: bool
  cc_created :: int

record key_row =
  k_id :: int
  k_token :: int
  k_fingerprint :: string
  k_public :: string
  k_comment :: string
  k_created :: int
  k_last_used :: "int option"

record event_row =
  e_id :: int
  e_type :: string
  e_repo :: "int option"
  e_actor :: string
  e_payload :: string
  e_created :: int

record cron_row =
  cr_id :: int
  cr_repo :: int
  cr_expr :: string
  cr_last :: "int option"

record member_row =
  m_id :: int
  m_repo :: int
  m_user :: int
  m_role :: string
  m_created :: int

record verification_row =
  v_id :: int
  v_repo :: int
  v_spec :: string
  v_path :: string
  v_sha :: string
  v_alignment :: rat
  v_result :: string
  v_verifier :: string
  v_created :: int

record setting_row =
  s_key :: string
  s_value :: string
  s_updated :: int

record db =
  users :: "user_row table"
  repos :: "repo_row table"
  issues :: "issue_row table"
  issue_comments :: "comment_row table"
  issue_dependencies :: "dep_row table"
  tokens :: "token_row table"
  ci_runs :: "run_row table"
  ci_jobs :: "job_row table"
  agent_turns :: "turn_row table"
  pull_requests :: "pull_row table"
  pr_reviews :: "review_row table"
  code_comments :: "code_comment_row table"
  ssh_keys :: "key_row table"
  events :: "event_row table"
  cron_schedules :: "cron_row table"
  repo_members :: "member_row table"
  spec_verifications :: "verification_row table"
  settings :: "setting_row list"
  now :: int

definition empty_db :: "int \<Rightarrow> db" where
  "empty_db t = \<lparr>users = empty_table, repos = empty_table, issues = empty_table,
     issue_comments = empty_table, issue_dependencies = empty_table, tokens = empty_table,
     ci_runs = empty_table, ci_jobs = empty_table, agent_turns = empty_table,
     pull_requests = empty_table, pr_reviews = empty_table, code_comments = empty_table,
     ssh_keys = empty_table, events = empty_table, cron_schedules = empty_table,
     repo_members = empty_table, spec_verifications = empty_table, settings = [], now = t\<rparr>"

text \<open>\<open>REFERENCES repos(id)\<close>, with \<open>foreign_keys(1)\<close> on every connection.\<close>

definition repo_exists :: "int \<Rightarrow> db \<Rightarrow> bool" where
  "repo_exists rid d = exists_where (\<lambda>r. r_id r = rid) (repos d)"

section \<open>Durations\<close>

text \<open>
  A \<open>time.Duration\<close> is a count of nanoseconds; \<open>int64(d.Seconds())\<close> drops the fraction. The code
  calls it on positive durations only.
\<close>

definition duration_seconds :: "int \<Rightarrow> int" where
  "duration_seconds d = d div 1000000000"

section \<open>Per-scope numbering\<close>

text \<open>
  \<open>SELECT COALESCE(MAX(number), 0) + 1 ... WHERE repo_id = ?\<close>: issues, pull requests and runs are
  numbered per repository and agent turns per run, each by this query followed by an \<open>INSERT\<close> in
  the same transaction.
\<close>

definition next_number :: "('r \<Rightarrow> int) \<Rightarrow> ('r \<Rightarrow> int) \<Rightarrow> int \<Rightarrow> 'r table \<Rightarrow> int" where
  "next_number scope num s t = coalesce_max (map num (filter (\<lambda>r. scope r = s) (rows t))) + 1"

definition numbered_ok :: "('r \<Rightarrow> int) \<Rightarrow> ('r \<Rightarrow> int) \<Rightarrow> ('r \<Rightarrow> int) \<Rightarrow> 'r table \<Rightarrow> bool" where
  "numbered_ok rid scope num t \<longleftrightarrow>
     ids_ok rid t \<and> distinct (map (\<lambda>r. (scope r, num r)) (rows t)) \<and> (\<forall>r \<in> set (rows t). 0 < num r)"

lemma next_number_greater:
  "r \<in> set (rows t) \<Longrightarrow> scope r = s \<Longrightarrow> num r < next_number scope num s t"
  using coalesce_max_ge [of "num r" "map num (filter (\<lambda>r. scope r = s) (rows t))"]
  by (simp add: next_number_def)

lemma next_number_pos:
  assumes "\<forall>r \<in> set (rows t). 0 < num r"
  shows "0 < next_number scope num s t"
proof (cases "filter (\<lambda>r. scope r = s) (rows t)")
  case Nil
  then show ?thesis by (simp add: next_number_def)
next
  case (Cons r rs)
  then have "r \<in> set (filter (\<lambda>r. scope r = s) (rows t))" by simp
  then have "r \<in> set (rows t)" and "scope r = s" by auto
  with assms next_number_greater [of r t scope s num] show ?thesis by force
qed

text \<open>The interface of a numbered table: what the rows an allocating \<open>INSERT\<close> builds carry.\<close>

locale numbered_table =
  fixes rid :: "'r \<Rightarrow> int" and scope :: "'r \<Rightarrow> int" and num :: "'r \<Rightarrow> int"
    and mk :: "'p \<Rightarrow> int \<Rightarrow> int \<Rightarrow> int \<Rightarrow> 'r"
  assumes rid_mk: "rid (mk p s n i) = i"
    and scope_mk: "scope (mk p s n i) = s"
    and num_mk: "num (mk p s n i) = n"
begin

lemma alloc_keeps:
  assumes "numbered_ok rid scope num t"
  shows "numbered_ok rid scope num (snd (insert_row (mk p s (next_number scope num s t)) t))"
proof -
  let ?n = "next_number scope num s t"
  have "(s, ?n) \<notin> set (map (\<lambda>r. (scope r, num r)) (rows t))"
    using next_number_greater [where scope = scope and num = num and s = s and t = t] by force
  moreover have "0 < ?n"
    using assms next_number_pos by (auto simp: numbered_ok_def)
  moreover have "ids_ok rid (snd (insert_row (mk p s ?n) t))"
    using assms by (auto simp: numbered_ok_def rid_mk intro: ids_ok_insert)
  ultimately show ?thesis
    using assms by (auto simp: numbered_ok_def row_simps scope_mk num_mk)
qed

lemma alloc_number:
  "fst (insert_row (mk p s (next_number scope num s t)) t) = r \<Longrightarrow>
   scope r = s \<and> num r = next_number scope num s t \<and> rid r = seqno t + 1"
  by (auto simp: row_simps rid_mk scope_mk num_mk)

lemma alloc_above:
  "x \<in> set (rows t) \<Longrightarrow> scope x = s \<Longrightarrow>
   num x < num (fst (insert_row (mk p s (next_number scope num s t)) t))"
  by (simp add: row_simps num_mk next_number_greater)

end

lemma numbered_ok_update:
  assumes "numbered_ok rid scope num t"
    and "\<And>r. rid (f r) = rid r" and "\<And>r. scope (f r) = scope r" and "\<And>r. num (f r) = num r"
  shows "numbered_ok rid scope num (update_where P f t)"
proof -
  have "map (\<lambda>r. (scope r, num r)) (rows (update_where P f t)) = map (\<lambda>r. (scope r, num r)) (rows t)"
    using assms by (simp add: row_simps)
  moreover have "\<forall>r \<in> set (rows (update_where P f t)). 0 < num r"
    using assms by (auto simp: numbered_ok_def row_simps)
  ultimately show ?thesis
    using assms(1) ids_ok_update [of rid t f P] assms(2) unfolding numbered_ok_def by metis
qed

lemma numbered_ok_delete:
  "numbered_ok rid scope num t \<Longrightarrow> numbered_ok rid scope num (delete_where P t)"
  by (auto simp: numbered_ok_def ids_ok_delete distinct_map_filterI)
     (auto simp: row_simps distinct_map_filterI)

lemma numbered_ok_unique:
  assumes "numbered_ok rid scope num t" and "x \<in> set (rows t)" and "y \<in> set (rows t)"
    and "scope x = scope y" and "num x = num y"
  shows "x = y"
  using assms distinct_map_eqD [of "\<lambda>r. (scope r, num r)" "rows t" x y]
  by (simp add: numbered_ok_def)

text \<open>With \<open>UNIQUE (scope, number)\<close> a lookup by both finds the row, or there is none.\<close>

lemma numbered_lookup:
  assumes "numbered_ok rid scope num t" and "x \<in> set (rows t)"
  shows "select_one (\<lambda>r. scope r = scope x \<and> num r = num x) t = Some x"
proof -
  have "distinct (map (\<lambda>r. (scope r, num r)) (rows t))"
    using assms(1) by (simp add: numbered_ok_def)
  from find_unique_key [OF this assms(2)] show ?thesis
    by (simp add: select_one_def)
qed

section \<open>Reading the clock, and the tail of an update\<close>

definition time_now :: "(int \<Rightarrow> (db, 'a) dbm) \<Rightarrow> (db, 'a) dbm" where
  "time_now k = (\<lambda>(fs, d). k (now d) (fs, d))"

lemma time_now_apply [simp]: "time_now k (fs, d) = k (now d) (fs, d)"
  by (simp add: time_now_def)

lemma keeps_time_now [keeps_inv]: "keeps I d (k (now d)) \<Longrightarrow> keeps I d (time_now k)"
  by (simp add: keeps_def)

text \<open>\<open>RowsAffected\<close>: no row updated is \<open>ErrNotFound\<close>.\<close>

definition affected :: "int \<Rightarrow> (db, unit) dbm" where
  "affected n = (if n = 0 then err ErrNotFound else ok ())"

lemma affected_keeps: "I d \<Longrightarrow> keeps I d (affected n)"
  by (simp add: affected_def keeps_def)

section \<open>Unique columns\<close>

text \<open>A table with a \<open>UNIQUE\<close> column, and what an \<open>INSERT\<close> of a row with a new key keeps.\<close>

definition keyed_ok :: "('r \<Rightarrow> int) \<Rightarrow> ('r \<Rightarrow> 'k) \<Rightarrow> 'r table \<Rightarrow> bool" where
  "keyed_ok rid key t \<longleftrightarrow> ids_ok rid t \<and> distinct (map key (rows t))"

lemma keyed_lookup:
  assumes "keyed_ok rid key t" and "x \<in> set (rows t)"
  shows "select_one (\<lambda>r. key r = key x) t = Some x"
  using assms find_unique_key by (auto simp: keyed_ok_def select_one_def)

lemma keyed_unique:
  "keyed_ok rid key t \<Longrightarrow> x \<in> set (rows t) \<Longrightarrow> y \<in> set (rows t) \<Longrightarrow> key x = key y \<Longrightarrow> x = y"
  by (auto simp: keyed_ok_def intro: distinct_map_eqD)

lemma keyed_ok_update:
  assumes "keyed_ok rid key t" and "\<And>r. rid (f r) = rid r" and "\<And>r. key (f r) = key r"
  shows "keyed_ok rid key (update_where P f t)"
proof -
  have "map key (rows (update_where P f t)) = map key (rows t)"
    using assms(3) by (simp add: row_simps)
  then show ?thesis using assms by (simp add: keyed_ok_def ids_ok_update)
qed

lemma keyed_ok_delete: "keyed_ok rid key t \<Longrightarrow> keyed_ok rid key (delete_where P t)"
  by (auto simp: keyed_ok_def ids_ok_delete row_simps distinct_map_filterI)

lemma keyed_ok_empty [simp]: "keyed_ok rid key empty_table"
  by (simp add: keyed_ok_def empty_table_def ids_ok_def)

locale keyed_table =
  fixes rid :: "'r \<Rightarrow> int" and key :: "'r \<Rightarrow> 'k" and mk :: "'p \<Rightarrow> int \<Rightarrow> 'r" and pkey :: "'p \<Rightarrow> 'k"
  assumes rid_mk: "rid (mk p i) = i"
    and key_mk: "key (mk p i) = pkey p"
begin

lemma insert_keeps:
  assumes "keyed_ok rid key t" and "\<not> exists_where (\<lambda>r. key r = pkey p) t"
  shows "keyed_ok rid key (snd (insert_row (mk p) t))"
  using assms by (force simp: keyed_ok_def ids_ok_insert rid_mk row_simps key_mk exists_where_iff)

lemma insert_found:
  assumes "\<not> exists_where (\<lambda>r. key r = pkey p) t"
  shows "select_one (\<lambda>r. key r = pkey p) (snd (insert_row (mk p) t)) = Some (mk p (seqno t + 1))"
proof -
  have "find (\<lambda>r. key r = pkey p) (rows t) = None"
    using assms by (simp add: find_None_conv exists_where_iff)
  then show ?thesis by (simp add: select_one_def row_simps find_append key_mk)
qed

lemma insert_other:
  "k \<noteq> pkey p \<Longrightarrow> select_one (\<lambda>r. key r = k) (snd (insert_row (mk p) t)) = select_one (\<lambda>r. key r = k) t"
  by (simp add: select_one_def row_simps find_append key_mk split: option.splits)

end

end
