(* ===== verification/Issues.thy ===== *)
theory Issues imports Schema begin

text \<open>
  \<open>internal/storage/issues.go\<close>, the writing half: allocation of per-repository numbers, partial
  updates, deletion, and the claim lease (\<open>Claim\<close>, \<open>Unclaim\<close>, \<open>ExpireClaims\<close>) that serves the
  fleet as a lock. The listing queries are in \<open>IssueList\<close>.
\<close>

section \<open>The wire types\<close>

record child_summary =
  ch_number :: int
  ch_title :: string
  ch_state :: issue_state

record issue_ref =
  ref_number :: int
  ref_title :: string
  ref_state :: issue_state

record epic_progress =
  ep_total :: int
  ep_done :: int

record issue =
  is_id :: int
  is_number :: int
  is_title :: string
  is_body :: string
  is_author :: string
  is_state :: issue_state
  is_assignee :: "string option"
  is_claimed_at :: "int option"
  is_parent :: "int option"
  is_children :: "child_summary list"
  is_depends_on :: "issue_ref list"
  is_blocks :: "issue_ref list"
  is_progress :: "epic_progress option"
  is_labels :: "string list"
  is_created :: int
  is_updated :: int

record create_issue_request =
  cir_title :: string
  cir_body :: string
  cir_author :: string
  cir_parent :: "int option"
  cir_labels :: "string list"

definition scan_issue :: "issue_row \<Rightarrow> issue" where
  "scan_issue r = \<lparr>is_id = i_id r, is_number = i_number r, is_title = i_title r,
     is_body = i_body r, is_author = i_author r, is_state = i_state r,
     is_assignee = i_assignee r, is_claimed_at = i_claimed r, is_parent = i_parent r,
     is_children = [], is_depends_on = [], is_blocks = [], is_progress = None,
     is_labels = i_labels r, is_created = i_created r, is_updated = i_updated r\<rparr>"

section \<open>Create, read, delete\<close>

definition issue_at :: "int \<Rightarrow> int \<Rightarrow> issue_row \<Rightarrow> bool" where
  "issue_at repo n r \<longleftrightarrow> i_repo r = repo \<and> i_number r = n"

definition issue_exists :: "int \<Rightarrow> int \<Rightarrow> db \<Rightarrow> bool" where
  "issue_exists repo n d = exists_where (issue_at repo n) (issues d)"

definition select_issue :: "int \<Rightarrow> int \<Rightarrow> db \<Rightarrow> issue_row option" where
  "select_issue repo n d = select_one (issue_at repo n) (issues d)"

definition mk_issue ::
  "create_issue_request \<times> int option \<times> int \<Rightarrow> int \<Rightarrow> int \<Rightarrow> int \<Rightarrow> issue_row" where
  "mk_issue p repo n i = (case p of (req, parent, t) \<Rightarrow>
     \<lparr>i_id = i, i_repo = repo, i_number = n, i_title = cir_title req, i_body = cir_body req,
      i_author = cir_author req, i_state = IssueTodo, i_created = t, i_updated = t,
      i_assignee = None, i_claimed = None, i_parent = parent, i_labels = cir_labels req\<rparr>)"

definition insert_issue ::
  "int \<Rightarrow> int \<Rightarrow> create_issue_request \<Rightarrow> int option \<Rightarrow> db \<Rightarrow> (db_error + issue_row) \<times> db" where
  "insert_issue repo n req parent d =
     (if \<not> repo_exists repo d then (Inl ErrForeignKey, d)
      else if issue_exists repo n d then (Inl ErrUnique, d)
      else (let (r, t) = insert_row (mk_issue (req, parent, now d) repo n) (issues d)
            in (Inr r, d\<lparr>issues := t\<rparr>)))"

definition create_issue :: "int \<Rightarrow> create_issue_request \<Rightarrow> (db, issue) dbm" where
  "create_issue repo req =
     tx (query (\<lambda>d. next_number i_repo i_number repo (issues d)) (\<lambda>n.
       let insert = (\<lambda>parent. exec (insert_issue repo n req parent) (\<lambda>r. ok (scan_issue r))) in
       (case cir_parent req of
          None \<Rightarrow> insert None
        | Some p \<Rightarrow>
            if 0 < p then
              query (issue_exists repo p) (\<lambda>found.
                if found then insert (Some p) else err ErrInvalidInput)
            else insert None)))"

definition get_issue :: "int \<Rightarrow> int \<Rightarrow> (db, issue) dbm" where
  "get_issue repo n =
     query (select_issue repo n) (\<lambda>r.
       case r of None \<Rightarrow> err ErrNotFound | Some r \<Rightarrow> ok (scan_issue r))"

definition delete_comments_of :: "int \<Rightarrow> db \<Rightarrow> (db_error + unit) \<times> db" where
  "delete_comments_of iid d =
     (Inr (), d\<lparr>issue_comments := delete_where (\<lambda>c. c_issue c = iid) (issue_comments d)\<rparr>)"

definition delete_edges_of :: "int \<Rightarrow> int \<Rightarrow> db \<Rightarrow> (db_error + unit) \<times> db" where
  "delete_edges_of repo n d =
     (Inr (), d\<lparr>issue_dependencies :=
        delete_where (\<lambda>e. d_repo e = repo \<and> (d_issue e = n \<or> d_on e = n)) (issue_dependencies d)\<rparr>)"

text \<open>\<open>DELETE FROM issues WHERE id = ?\<close> with the cascade on \<open>issue_comments\<close>.\<close>

definition delete_issue_row :: "int \<Rightarrow> db \<Rightarrow> (db_error + unit) \<times> db" where
  "delete_issue_row iid d =
     (Inr (), d\<lparr>issues := delete_where (\<lambda>r. i_id r = iid) (issues d),
        issue_comments := delete_where (\<lambda>c. c_issue c = iid) (issue_comments d)\<rparr>)"

definition delete_issue :: "int \<Rightarrow> int \<Rightarrow> (db, unit) dbm" where
  "delete_issue repo n =
     tx (query (select_issue repo n) (\<lambda>r.
       case r of
         None \<Rightarrow> err ErrNotFound
       | Some r \<Rightarrow>
           exec (delete_comments_of (i_id r)) (\<lambda>_.
           exec (delete_edges_of repo n) (\<lambda>_.
           exec (delete_issue_row (i_id r)) (\<lambda>_. ok ())))))"

section \<open>Partial update\<close>

record issue_changes =
  ch_set_state :: "issue_state option"
  ch_set_title :: "string option"
  ch_set_body :: "string option"
  ch_set_parent :: "int option"
  ch_set_labels :: "string list option"

text \<open>The \<open>SET\<close> list: the fields given, and \<open>updated_at\<close>; parent 0 stands for \<open>NULL\<close>.\<close>

definition apply_changes :: "issue_changes \<Rightarrow> int \<Rightarrow> issue_row \<Rightarrow> issue_row" where
  "apply_changes c t r = r\<lparr>
     i_updated := t,
     i_state := (case ch_set_state c of None \<Rightarrow> i_state r | Some x \<Rightarrow> x),
     i_title := (case ch_set_title c of None \<Rightarrow> i_title r | Some x \<Rightarrow> x),
     i_body := (case ch_set_body c of None \<Rightarrow> i_body r | Some x \<Rightarrow> x),
     i_parent := (case ch_set_parent c of None \<Rightarrow> i_parent r | Some p \<Rightarrow> if p = 0 then None else Some p),
     i_labels := (case ch_set_labels c of None \<Rightarrow> i_labels r | Some x \<Rightarrow> x)\<rparr>"

definition no_changes :: "issue_changes \<Rightarrow> bool" where
  "no_changes c \<longleftrightarrow> ch_set_state c = None \<and> ch_set_title c = None \<and> ch_set_body c = None \<and>
     ch_set_parent c = None \<and> ch_set_labels c = None"

definition update_issue_row ::
  "int \<Rightarrow> int \<Rightarrow> issue_changes \<Rightarrow> db \<Rightarrow> (db_error + issue_row option) \<times> db" where
  "update_issue_row repo n c d =
     (let (r, t) = update_returning (issue_at repo n) (apply_changes c (now d)) (issues d)
      in (Inr r, d\<lparr>issues := t\<rparr>))"

definition update_issue :: "int \<Rightarrow> int \<Rightarrow> issue_changes \<Rightarrow> (db, issue) dbm" where
  "update_issue repo n c =
     (let write =
        (if no_changes c then err ErrNoUpdateFields
         else exec (update_issue_row repo n c) (\<lambda>r.
                case r of None \<Rightarrow> err ErrNotFound | Some r \<Rightarrow> ok (scan_issue r)))
      in case ch_set_parent c of
           None \<Rightarrow> write
         | Some p \<Rightarrow>
             if p = 0 then write
             else query (issue_exists repo p) (\<lambda>found.
                    if \<not> found then err ErrInvalidInput
                    else if p = n then err ErrInvalidInput
                    else write))"

section \<open>The claim lease\<close>

text \<open>\<open>claimed_at <= now - lease\<close>, false when \<open>claimed_at\<close> is \<open>NULL\<close>.\<close>

definition lease_expired :: "int \<Rightarrow> int \<Rightarrow> issue_row \<Rightarrow> bool" where
  "lease_expired lease t r =
     (case i_claimed r of None \<Rightarrow> False | Some c \<Rightarrow> c \<le> t - duration_seconds lease)"

definition claimable :: "string \<Rightarrow> int \<Rightarrow> int \<Rightarrow> issue_row \<Rightarrow> bool" where
  "claimable a lease t r \<longleftrightarrow>
     i_assignee r = None \<or> i_assignee r = Some a \<or> (0 < lease \<and> lease_expired lease t r)"

definition take_claim :: "string \<Rightarrow> issue_state option \<Rightarrow> int \<Rightarrow> issue_row \<Rightarrow> issue_row" where
  "take_claim a st t r = r\<lparr>i_assignee := Some a, i_claimed := Some t, i_updated := t,
     i_state := (case st of None \<Rightarrow> i_state r | Some s \<Rightarrow> s)\<rparr>"

definition drop_claim :: "int \<Rightarrow> issue_row \<Rightarrow> issue_row" where
  "drop_claim t r = r\<lparr>i_assignee := None, i_claimed := None, i_updated := t\<rparr>"

definition claim_row ::
  "int \<Rightarrow> int \<Rightarrow> string \<Rightarrow> issue_state option \<Rightarrow> int \<Rightarrow> db \<Rightarrow> (db_error + int) \<times> db" where
  "claim_row repo n a st lease d =
     (let P = (\<lambda>r. issue_at repo n r \<and> claimable a lease (now d) r)
      in (Inr (count_where P (issues d)),
          d\<lparr>issues := update_where P (take_claim a st (now d)) (issues d)\<rparr>))"

definition claim :: "int \<Rightarrow> int \<Rightarrow> string \<Rightarrow> issue_state option \<Rightarrow> int \<Rightarrow> (db, issue) dbm" where
  "claim repo n a st lease =
     tx (exec (claim_row repo n a st lease) (\<lambda>k.
       if k = 0 then
         query (issue_exists repo n) (\<lambda>found.
           if found then err ErrAlreadyClaimed else err ErrNotFound)
       else
         query (select_issue repo n) (\<lambda>r.
           case r of None \<Rightarrow> err ErrNoRows | Some r \<Rightarrow> ok (scan_issue r))))"

definition unclaim_row :: "int \<Rightarrow> int \<Rightarrow> db \<Rightarrow> (db_error + issue_row option) \<times> db" where
  "unclaim_row repo n d =
     (let (r, t) = update_returning (issue_at repo n) (drop_claim (now d)) (issues d)
      in (Inr r, d\<lparr>issues := t\<rparr>))"

definition unclaim :: "int \<Rightarrow> int \<Rightarrow> string \<Rightarrow> (db, issue) dbm" where
  "unclaim repo n caller =
     tx (query (select_issue repo n) (\<lambda>cur.
       case cur of
         None \<Rightarrow> err ErrNotFound
       | Some cur \<Rightarrow>
           (case i_assignee cur of
              None \<Rightarrow> ok (scan_issue cur)
            | Some a \<Rightarrow>
                if a \<noteq> caller then err ErrNotOwner
                else exec (unclaim_row repo n) (\<lambda>r.
                       case r of None \<Rightarrow> err ErrNoRows | Some r \<Rightarrow> ok (scan_issue r)))))"

definition issue_terminal :: "issue_state \<Rightarrow> bool" where
  "issue_terminal s \<longleftrightarrow> s = IssueDone \<or> s = IssueClosed"

definition expirable :: "int \<Rightarrow> int \<Rightarrow> issue_row \<Rightarrow> bool" where
  "expirable lease t r \<longleftrightarrow>
     i_assignee r \<noteq> None \<and> \<not> issue_terminal (i_state r) \<and> lease_expired lease t r"

definition expire_claims :: "int \<Rightarrow> (db, int) dbm" where
  "expire_claims lease =
     (if lease \<le> 0 then ok 0
      else exec (\<lambda>d. let P = expirable lease (now d)
                 in (Inr (count_where P (issues d)),
                     d\<lparr>issues := update_where P (drop_claim (now d)) (issues d)\<rparr>)) ok)"

section \<open>The invariant of the table\<close>

text \<open>
  Ids and per-repository numbers are unique, and \<open>claimed_at\<close> is set exactly when \<open>assignee\<close> is
  (the comment of migration 4).
\<close>

definition lease_ok :: "issue_row \<Rightarrow> bool" where
  "lease_ok r \<longleftrightarrow> (i_assignee r = None \<longleftrightarrow> i_claimed r = None)"

definition issues_ok :: "db \<Rightarrow> bool" where
  "issues_ok d \<longleftrightarrow>
     numbered_ok i_id i_repo i_number (issues d) \<and> (\<forall>r \<in> set (rows (issues d)). lease_ok r)"

lemma mk_issue_sel [row_simps]:
  "i_id (mk_issue p repo n i) = i" "i_repo (mk_issue p repo n i) = repo"
  "i_number (mk_issue p repo n i) = n" "i_parent (mk_issue p repo n i) = fst (snd p)"
  "i_assignee (mk_issue p repo n i) = None" "i_claimed (mk_issue p repo n i) = None"
  by (simp_all add: mk_issue_def split: prod.splits)

interpretation issue_numbers: numbered_table i_id i_repo i_number mk_issue
  by unfold_locales (simp_all add: row_simps)

lemma apply_changes_sel [row_simps]:
  "i_id (apply_changes c t r) = i_id r" "i_repo (apply_changes c t r) = i_repo r"
  "i_number (apply_changes c t r) = i_number r" "i_assignee (apply_changes c t r) = i_assignee r"
  "i_claimed (apply_changes c t r) = i_claimed r"
  by (simp_all add: apply_changes_def)

lemma take_claim_sel [row_simps]:
  "i_id (take_claim a st t r) = i_id r" "i_repo (take_claim a st t r) = i_repo r"
  "i_number (take_claim a st t r) = i_number r" "i_assignee (take_claim a st t r) = Some a"
  "i_claimed (take_claim a st t r) = Some t"
  by (simp_all add: take_claim_def)

lemma drop_claim_sel [row_simps]:
  "i_id (drop_claim t r) = i_id r" "i_repo (drop_claim t r) = i_repo r"
  "i_number (drop_claim t r) = i_number r" "i_assignee (drop_claim t r) = None"
  "i_claimed (drop_claim t r) = None" "i_state (drop_claim t r) = i_state r"
  by (simp_all add: drop_claim_def)

lemma issues_ok_update:
  assumes "issues_ok d" and "\<And>r. i_id (f r) = i_id r" and "\<And>r. i_repo (f r) = i_repo r"
    and "\<And>r. i_number (f r) = i_number r"
    and "\<And>r. r \<in> set (rows (issues d)) \<Longrightarrow> P r \<Longrightarrow> lease_ok r \<Longrightarrow> lease_ok (f r)"
  shows "issues_ok (d\<lparr>issues := update_where P f (issues d)\<rparr>)"
  using assms by (auto simp: issues_ok_def row_simps intro!: numbered_ok_update)

lemma issues_ok_delete:
  "issues_ok d \<Longrightarrow> issues_ok (d\<lparr>issues := delete_where P (issues d)\<rparr>)"
  by (auto simp: issues_ok_def row_simps numbered_ok_delete)

lemma issues_ok_insert:
  assumes "issues_ok d"
  shows "issues_ok (d\<lparr>issues := snd (insert_row (mk_issue p repo (next_number i_repo i_number repo (issues d))) (issues d))\<rparr>)"
  using assms issue_numbers.alloc_keeps
  by (auto simp: issues_ok_def row_simps lease_ok_def)

lemma issues_ok_cong: "issues d' = issues d \<Longrightarrow> issues_ok d' = issues_ok d"
  by (simp add: issues_ok_def)

lemma insert_issue_keeps:
  "issues_ok d \<Longrightarrow>
   insert_issue repo (next_number i_repo i_number repo (issues d)) req parent d = (Inr r, d') \<Longrightarrow>
   issues_ok d'"
  using issues_ok_insert
  by (fastforce simp: insert_issue_def Let_def split: if_splits prod.splits dest: arg_cong [where f = snd])

lemma create_issue_keeps: "issues_ok d \<Longrightarrow> keeps issues_ok d (create_issue repo req)"
  unfolding create_issue_def Let_def
  by (intro keeps_inv) (auto dest: insert_issue_keeps)

lemma delete_issue_keeps: "issues_ok d \<Longrightarrow> keeps issues_ok d (delete_issue repo n)"
  unfolding delete_issue_def
  by (intro keeps_inv)
     (auto simp: delete_comments_of_def delete_edges_of_def delete_issue_row_def
       issues_ok_delete issues_ok_cong issues_ok_def row_simps numbered_ok_delete)

lemma update_issue_keeps: "issues_ok d \<Longrightarrow> keeps issues_ok d (update_issue repo n c)"
  unfolding update_issue_def Let_def
  by (intro keeps_inv)
     (auto simp: update_issue_row_def update_returning_def lease_ok_def row_simps
       intro!: issues_ok_update)

lemma claim_keeps: "issues_ok d \<Longrightarrow> keeps issues_ok d (claim repo n a st lease)"
  unfolding claim_def
  by (intro keeps_inv)
     (auto simp: claim_row_def Let_def lease_ok_def row_simps intro!: issues_ok_update)

lemma unclaim_keeps: "issues_ok d \<Longrightarrow> keeps issues_ok d (unclaim repo n caller)"
  unfolding unclaim_def
  by (intro keeps_inv)
     (auto simp: unclaim_row_def update_returning_def lease_ok_def row_simps intro!: issues_ok_update)

lemma expire_claims_keeps: "issues_ok d \<Longrightarrow> keeps issues_ok d (expire_claims lease)"
  unfolding expire_claims_def
  by (intro keeps_inv)
     (auto simp: Let_def lease_ok_def row_simps intro!: issues_ok_update)

lemmas issue_writes_keep =
  create_issue_keeps delete_issue_keeps update_issue_keeps claim_keeps unclaim_keeps
  expire_claims_keeps

end
