(* ===== verification/IssueLocks.thy ===== *)
theory IssueLocks imports Issues begin

text \<open>
  What the issue table promises the fleet. The claim columns are abstracted to a lock table
  (\<open>lock_of\<close>: who holds an issue, since when), \<open>Claim\<close> and \<open>Unclaim\<close> are shown to implement the
  acquire and release of that abstract lock, and a held lock survives every interleaving of the
  other operations until its lease runs out. The numbering theorems at the end include the
  behaviour the code does not intend: a number freed by a delete is handed out again.
\<close>

section \<open>The abstract lock\<close>

type_synonym lock_table = "int \<times> int \<Rightarrow> (string \<times> int) option"

definition row_lock :: "issue_row \<Rightarrow> (string \<times> int) option" where
  "row_lock r = (case (i_assignee r, i_claimed r) of (Some a, Some c) \<Rightarrow> Some (a, c) | _ \<Rightarrow> None)"

definition lock_of :: "db \<Rightarrow> lock_table" where
  "lock_of d k = Option.bind (select_issue (fst k) (snd k) d) row_lock"

text \<open>The specification: a lock may be taken when it is free, one's own, or its lease has run out.\<close>

definition may_acquire :: "lock_table \<Rightarrow> int \<times> int \<Rightarrow> string \<Rightarrow> int \<Rightarrow> int \<Rightarrow> bool" where
  "may_acquire L k a lease t =
     (case L k of None \<Rightarrow> True
      | Some (b, c) \<Rightarrow> b = a \<or> (0 < lease \<and> c \<le> t - duration_seconds lease))"

section \<open>Selecting a row after a write\<close>

lemma select_issue_update [row_simps]:
  assumes "\<And>r. i_repo (f r) = i_repo r" and "\<And>r. i_number (f r) = i_number r"
  shows "select_issue repo n (d\<lparr>issues := update_where P f (issues d)\<rparr>) =
    map_option (\<lambda>r. if P r then f r else r) (select_issue repo n d)"
  using assms find_map_keep [of "issue_at repo n" "\<lambda>r. if P r then f r else r" "rows (issues d)"]
  by (simp add: select_issue_def select_one_def row_simps issue_at_def)

lemma select_issue_exists: "issue_exists repo n d \<longleftrightarrow> select_issue repo n d \<noteq> None"
  by (auto simp: issue_exists_def select_issue_def select_one_None)

lemma select_issue_at: "select_issue repo n d = Some r \<Longrightarrow> r \<in> set (rows (issues d)) \<and> i_repo r = repo \<and> i_number r = n"
  by (auto simp: select_issue_def issue_at_def dest: select_one_SomeD)

lemma select_issue_unique:
  assumes "issues_ok d" and "r \<in> set (rows (issues d))" and "i_repo r = repo" and "i_number r = n"
  shows "select_issue repo n d = Some r"
  using numbered_lookup [of i_id i_repo i_number "issues d" r] assms
  by (simp add: issues_ok_def select_issue_def issue_at_def [abs_def])

lemma count_claim_0:
  assumes "issues_ok d"
  shows "count_where (\<lambda>r. issue_at repo n r \<and> P r) (issues d) = 0 \<longleftrightarrow>
    (case select_issue repo n d of None \<Rightarrow> True | Some r \<Rightarrow> \<not> P r)"
proof (cases "select_issue repo n d")
  case None
  then have "\<forall>x \<in> set (rows (issues d)). \<not> issue_at repo n x"
    by (simp add: select_issue_def select_one_None exists_where_iff)
  with None show ?thesis
    by (auto simp: count_where_0 exists_where_iff)
next
  case (Some r)
  with select_issue_at select_issue_unique [OF assms] show ?thesis
    by (fastforce simp: count_where_0 exists_where_iff issue_at_def)
qed

lemma may_acquire_row:
  assumes "issues_ok d" and "select_issue repo n d = Some r"
  shows "may_acquire (lock_of d) (repo, n) a lease t = claimable a lease t r"
proof -
  have "lease_ok r"
    using assms select_issue_at by (auto simp: issues_ok_def)
  with assms(2) show ?thesis
    by (auto simp: may_acquire_def lock_of_def row_lock_def claimable_def lease_expired_def
        lease_ok_def split: option.splits)
qed

section \<open>Claim and unclaim implement the lock\<close>

lemma claim_outcome:
  assumes "issues_ok d"
  shows "claim repo n a st lease ([], d) =
    (case select_issue repo n d of
       None \<Rightarrow> (Inl ErrNotFound, ([], d))
     | Some r \<Rightarrow>
         if claimable a lease (now d) r
         then (Inr (scan_issue (take_claim a st (now d) r)), ([], snd (claim_row repo n a st lease d)))
         else (Inl ErrAlreadyClaimed, ([], d)))"
  using count_claim_0 [OF assms, of repo n "claimable a lease (now d)"]
  by (auto simp: claim_def claim_row_def Let_def select_issue_exists row_simps issue_at_def
      dest: select_issue_at split: option.splits)

lemma lock_of_claim_row:
  assumes "select_issue repo n d = Some r" and "claimable a lease (now d) r"
  shows "lock_of (snd (claim_row repo n a st lease d)) = (lock_of d)((repo, n) \<mapsto> (a, now d))"
proof
  fix k :: "int \<times> int"
  show "lock_of (snd (claim_row repo n a st lease d)) k = ((lock_of d)((repo, n) \<mapsto> (a, now d))) k"
  proof (cases "k = (repo, n)")
    case True
    with assms show ?thesis
      by (auto simp: lock_of_def claim_row_def Let_def row_simps row_lock_def issue_at_def
          dest: select_issue_at)
  next
    case False
    have "select_issue (fst k) (snd k) (snd (claim_row repo n a st lease d)) = select_issue (fst k) (snd k) d"
      using False
      by (cases "select_issue (fst k) (snd k) d")
         (auto simp: claim_row_def Let_def row_simps issue_at_def prod_eq_iff dest: select_issue_at)
    with False show ?thesis by (simp add: lock_of_def)
  qed
qed

text \<open>C2: On a healthy engine \<open>Claim\<close> is the acquire of the abstract lock: it reports a missing issue
  as \<open>ErrNotFound\<close>, refuses a live claim of another agent with \<open>ErrAlreadyClaimed\<close>, leaving the
  database as it was in both cases, and otherwise makes the caller the holder from now on and
  changes no other issue's lock.\<close>

theorem claim_implements_acquire:
  assumes "issues_ok d"
  shows "\<exists>res d'. claim repo n a st lease ([], d) = (res, ([], d')) \<and>
    (if \<not> issue_exists repo n d then res = Inl ErrNotFound \<and> d' = d
     else if \<not> may_acquire (lock_of d) (repo, n) a lease (now d)
          then res = Inl ErrAlreadyClaimed \<and> d' = d
     else (\<exists>iss. res = Inr iss \<and> is_assignee iss = Some a \<and> is_claimed_at iss = Some (now d)) \<and>
          lock_of d' = (lock_of d)((repo, n) \<mapsto> (a, now d)) \<and> issues_ok d')"
proof (cases "select_issue repo n d")
  case None
  with claim_outcome [OF assms, of repo n a st lease] show ?thesis
    by (simp add: select_issue_exists)
next
  case (Some r)
  have "issues_ok (snd (claim_row repo n a st lease d))"
    using assms by (auto simp: claim_row_def Let_def lease_ok_def row_simps intro!: issues_ok_update)
  with Some claim_outcome [OF assms, of repo n a st lease] may_acquire_row [OF assms Some]
    lock_of_claim_row [OF Some] show ?thesis
    by (auto simp: select_issue_exists scan_issue_def row_simps)
qed

definition demo_issues :: db where
  "demo_issues =
     (let r = (\<lambda>p n i. mk_issue (\<lparr>cir_title = ''t'', cir_body = '''', cir_author = ''alice'',
                   cir_parent = None, cir_labels = []\<rparr>, p, 100) 1 n i)
      in (empty_db 1000)\<lparr>repos := \<lparr>rows = [\<lparr>r_id = 1, r_owner = 1, r_name = ''w'', r_created = 0,
              r_ci_enabled = False, r_visibility = ''public'', r_require_approval = False,
              r_protected_refs = ''''\<rparr>], seqno = 1\<rparr>,
           issues := \<lparr>rows = [r None 1 1, take_claim ''bob'' None 900 (r (Some 4) 2 2), r None 3 3,
              r (Some 3) 4 5], seqno = 5\<rparr>\<rparr>)"

lemma demo_issues_ok: "issues_ok demo_issues"
  by (simp add: demo_issues_def issues_ok_def numbered_ok_def ids_ok_def lease_ok_def row_simps)

theorem claim_implements_acquire_witness:
  "\<exists>res d'. claim 1 2 ''carol'' None 60000000000 ([], demo_issues) = (res, ([], d')) \<and>
    (if \<not> issue_exists 1 2 demo_issues then res = Inl ErrNotFound \<and> d' = demo_issues
     else if \<not> may_acquire (lock_of demo_issues) (1, 2) ''carol'' 60000000000 (now demo_issues)
          then res = Inl ErrAlreadyClaimed \<and> d' = demo_issues
     else (\<exists>iss. res = Inr iss \<and> is_assignee iss = Some ''carol'' \<and> is_claimed_at iss = Some (now demo_issues)) \<and>
          lock_of d' = (lock_of demo_issues)((1, 2) \<mapsto> (''carol'', now demo_issues)) \<and> issues_ok d')"
  by (rule claim_implements_acquire [OF demo_issues_ok])

lemma unclaim_outcome:
  "unclaim repo n a ([], d) =
    (case select_issue repo n d of
       None \<Rightarrow> (Inl ErrNotFound, ([], d))
     | Some r \<Rightarrow>
         (case i_assignee r of
            None \<Rightarrow> (Inr (scan_issue r), ([], d))
          | Some b \<Rightarrow>
              if b \<noteq> a then (Inl ErrNotOwner, ([], d))
              else (Inr (scan_issue (drop_claim (now d) r)), ([], snd (unclaim_row repo n d)))))"
  by (auto simp: unclaim_def unclaim_row_def update_returning_def Let_def select_issue_def
      select_one_def split: option.splits)

lemma lock_of_unclaim_row: "lock_of (snd (unclaim_row repo n d)) = (lock_of d)((repo, n) := None)"
proof
  fix k :: "int \<times> int"
  show "lock_of (snd (unclaim_row repo n d)) k = ((lock_of d)((repo, n) := None)) k"
    by (cases "select_issue (fst k) (snd k) d")
       (auto simp: lock_of_def unclaim_row_def update_returning_def Let_def row_simps row_lock_def
         issue_at_def prod_eq_iff dest: select_issue_at)
qed

text \<open>\<open>Unclaim\<close> is the release: only the holder's call removes a lock; for anyone else it
  answers \<open>ErrNotOwner\<close>, and on an unclaimed or missing issue it changes nothing.\<close>

theorem unclaim_implements_release:
  assumes "issues_ok d"
  shows "\<exists>res d'. unclaim repo n a ([], d) = (res, ([], d')) \<and>
    (case lock_of d (repo, n) of
       None \<Rightarrow> d' = d \<and> (if issue_exists repo n d then is_ok res else res = Inl ErrNotFound)
     | Some (b, c) \<Rightarrow>
         if b = a then is_ok res \<and> lock_of d' = (lock_of d)((repo, n) := None)
         else res = Inl ErrNotOwner \<and> d' = d)"
proof (cases "select_issue repo n d")
  case None
  with unclaim_outcome [of repo n a d] show ?thesis
    by (simp add: select_issue_exists lock_of_def)
next
  case (Some r)
  then have "lease_ok r"
    using assms select_issue_at by (auto simp: issues_ok_def)
  with Some unclaim_outcome [of repo n a d] lock_of_unclaim_row [of repo n d] show ?thesis
    by (auto simp: select_issue_exists lock_of_def row_lock_def lease_ok_def split: option.splits)
qed

theorem unclaim_implements_release_witness:
  "\<exists>res d'. unclaim 1 2 ''bob'' ([], demo_issues) = (res, ([], d')) \<and>
    (case lock_of demo_issues (1, 2) of
       None \<Rightarrow> d' = demo_issues \<and> (if issue_exists 1 2 demo_issues then is_ok res else res = Inl ErrNotFound)
     | Some (b, c) \<Rightarrow>
         if b = ''bob'' then is_ok res \<and> lock_of d' = (lock_of demo_issues)((1, 2) := None)
         else res = Inl ErrNotOwner \<and> d' = demo_issues)"
  by (rule unclaim_implements_release [OF demo_issues_ok])

section \<open>Deletion\<close>

text \<open>What is left when an issue is deleted: nothing of it in any of the three tables.\<close>

definition without_issue :: "issue_row \<Rightarrow> db \<Rightarrow> db" where
  "without_issue r d = d\<lparr>issues := delete_where (\<lambda>x. i_id x = i_id r) (issues d),
     issue_comments := delete_where (\<lambda>c. c_issue c = i_id r) (issue_comments d),
     issue_dependencies := delete_where (\<lambda>e. d_repo e = i_repo r \<and>
       (d_issue e = i_number r \<or> d_on e = i_number r)) (issue_dependencies d)\<rparr>"

lemma delete_where_idem [simp]: "delete_where P (delete_where P t) = delete_where P t"
  by (simp add: delete_where_def)

lemma delete_steps:
  assumes "delete_comments_of (i_id r) d = (Inr x, d1)" and "delete_edges_of (i_repo r) (i_number r) d1 = (Inr y, d2)"
    and "delete_issue_row (i_id r) d2 = (Inr z, d3)"
  shows "d3 = without_issue r d"
  using assms by (auto simp: delete_comments_of_def delete_edges_of_def delete_issue_row_def without_issue_def)

lemma delete_steps':
  "delete_issue_row (i_id r) d2 = (Inr z, d3) \<Longrightarrow> delete_edges_of repo n d1 = (Inr y, d2) \<Longrightarrow>
   delete_comments_of (i_id r) d = (Inr x, d1) \<Longrightarrow> select_issue repo n d = Some r \<Longrightarrow>
   d3 = without_issue r d"
  by (drule select_issue_at) (simp add: delete_steps)

lemma delete_issue_cases:
  assumes "delete_issue repo n (fs, d) = (res, (fs', d'))"
  shows "case res of Inl e \<Rightarrow> d' = d
    | Inr _ \<Rightarrow> \<exists>r. select_issue repo n d = Some r \<and> d' = without_issue r d"
proof (cases res)
  case (Inl e)
  with assms show ?thesis
    unfolding delete_issue_def by (auto dest: tx_atomic)
next
  case (Inr u)
  from assms [unfolded delete_issue_def Inr]
  obtain r where "select_issue repo n d = Some r" and "d' = without_issue r d"
    by (auto elim!: tx_InrE exec_InrE query_InrE split: option.splits) (drule (3) delete_steps', blast)
  with Inr show ?thesis by auto
qed

section \<open>A held lock survives every interleaving\<close>

text \<open>
  What the rest of the fleet can do after \<open>a\<close> claimed \<open>k\<close>: any operation of the table by anyone, deletions
  included, except \<open>a\<close>'s own \<open>Unclaim\<close> of \<open>k\<close>, under any failures of the engine; the cascade of a
  deleted repository; operations on other tables; and the clock advancing to a time before the
  deadline. All claims and sweeps use the deployment's one lease.
\<close>

inductive peer_step :: "string \<Rightarrow> int \<times> int \<Rightarrow> int \<Rightarrow> int \<Rightarrow> db \<Rightarrow> db \<Rightarrow> bool"
  for a k lease deadline where
  peer_claim: "claim repo n b st lease (fs, d) = (r, (fs', d')) \<Longrightarrow> peer_step a k lease deadline d d'"
| peer_unclaim: "b \<noteq> a \<or> (repo, n) \<noteq> k \<Longrightarrow> unclaim repo n b (fs, d) = (r, (fs', d')) \<Longrightarrow>
    peer_step a k lease deadline d d'"
| peer_expire: "expire_claims lease (fs, d) = (m, (fs', d')) \<Longrightarrow> peer_step a k lease deadline d d'"
| peer_update: "update_issue repo n c (fs, d) = (r, (fs', d')) \<Longrightarrow> peer_step a k lease deadline d d'"
| peer_create: "create_issue repo req (fs, d) = (r, (fs', d')) \<Longrightarrow> peer_step a k lease deadline d d'"
| peer_delete: "delete_issue repo n (fs, d) = (u, (fs', d')) \<Longrightarrow> peer_step a k lease deadline d d'"
| peer_cascade: "issues d' = delete_where (\<lambda>r. i_repo r = repo) (issues d) \<Longrightarrow> now d' = now d \<Longrightarrow>
    peer_step a k lease deadline d d'"
| peer_other: "issues d' = issues d \<Longrightarrow> now d' = now d \<Longrightarrow> peer_step a k lease deadline d d'"
| peer_tick: "now d \<le> t \<Longrightarrow> t < deadline \<Longrightarrow> peer_step a k lease deadline d (d\<lparr>now := t\<rparr>)"

definition held :: "string \<Rightarrow> int \<times> int \<Rightarrow> int \<Rightarrow> int \<Rightarrow> db \<Rightarrow> bool" where
  "held a k lease deadline d \<longleftrightarrow> issues_ok d \<and> now d < deadline \<and>
     (\<exists>c. lock_of d k = Some (a, c) \<and> deadline \<le> c + duration_seconds lease \<and> c \<le> now d)"

lemma held_cong: "issues d' = issues d \<Longrightarrow> now d' = now d \<Longrightarrow> held a k lease dl d' = held a k lease dl d"
  by (simp add: held_def issues_ok_def lock_of_def select_issue_def)

lemma row_lock_SomeD: "row_lock r = Some (a, c) \<Longrightarrow> i_assignee r = Some a \<and> i_claimed r = Some c"
  by (auto simp: row_lock_def split: option.splits)

lemma held_update:
  assumes "held a k lease dl d"
    and "\<And>r. i_id (f r) = i_id r" and "\<And>r. i_repo (f r) = i_repo r" and "\<And>r. i_number (f r) = i_number r"
    and "\<And>r. lease_ok r \<Longrightarrow> lease_ok (f r)"
    and "\<And>r c. select_issue (fst k) (snd k) d = Some r \<Longrightarrow> P r \<Longrightarrow> row_lock r = Some (a, c) \<Longrightarrow>
        c \<le> now d \<Longrightarrow> now d < c + duration_seconds lease \<Longrightarrow>
        \<exists>c'. row_lock (f r) = Some (a, c') \<and> c \<le> c' \<and> c' \<le> now d"
  shows "held a k lease dl (d\<lparr>issues := update_where P f (issues d)\<rparr>)"
proof -
  from assms(1) obtain r c where r: "select_issue (fst k) (snd k) d = Some r" "row_lock r = Some (a, c)"
    and c: "dl \<le> c + duration_seconds lease" "c \<le> now d" and dl: "now d < dl" and inv: "issues_ok d"
    by (auto simp: held_def lock_of_def split: bind_splits)
  have "issues_ok (d\<lparr>issues := update_where P f (issues d)\<rparr>)"
    using inv assms(2-5) by (auto intro!: issues_ok_update)
  moreover have "\<exists>c'. row_lock (if P r then f r else r) = Some (a, c') \<and> c \<le> c' \<and> c' \<le> now d"
    using assms(6) [OF r(1)] r(2) c dl by auto
  ultimately show ?thesis
    using r c dl assms(3,4) by (fastforce simp: held_def lock_of_def row_simps)
qed

lemma held_insert:
  assumes "held a k lease dl d"
    and "insert_issue repo (next_number i_repo i_number repo (issues d)) req parent d = (Inr x, d')"
  shows "held a k lease dl d'"
proof -
  have "issues_ok d'" using assms insert_issue_keeps by (auto simp: held_def)
  moreover have "lock_of d' k = lock_of d k"
  proof -
    obtain r where "select_issue (fst k) (snd k) d = Some r"
      using assms(1) by (auto simp: held_def lock_of_def split: bind_splits)
    moreover have "rows (issues d') = rows (issues d) @ [x]"
      using assms(2) by (auto simp: insert_issue_def insert_row_def Let_def split: if_splits)
    ultimately show ?thesis
      by (auto simp: lock_of_def select_issue_def select_one_def find_append)
  qed
  moreover have "now d' = now d"
    using assms(2) by (auto simp: insert_issue_def Let_def split: if_splits prod.splits)
  ultimately show ?thesis using assms(1) by (simp add: held_def)
qed

lemma held_delete_row:
  assumes "held a k lease dl d" and "select_issue repo n d = Some r" and "(repo, n) \<noteq> k"
  shows "held a k lease dl (snd (delete_issue_row (i_id r) d))"
proof -
  from assms(1) obtain x c where x: "select_issue (fst k) (snd k) d = Some x" and inv: "issues_ok d"
    by (auto simp: held_def lock_of_def split: bind_splits)
  have x_in: "x \<in> set (rows (issues d))" "i_repo x = fst k" "i_number x = snd k"
    using select_issue_at [OF x] by auto
  have "distinct (map i_id (rows (issues d)))"
    using inv by (auto simp: issues_ok_def numbered_ok_def ids_ok_distinct)
  then have "i_id x \<noteq> i_id r"
    using x_in select_issue_at [OF assms(2)] assms(3) by (metis distinct_map_eqD prod.collapse)
  moreover have inv': "issues_ok (snd (delete_issue_row (i_id r) d))"
    using inv by (auto simp: delete_issue_row_def issues_ok_def row_simps numbered_ok_delete)
  ultimately have "select_issue (fst k) (snd k) (snd (delete_issue_row (i_id r) d)) = Some x"
    using x_in by (intro select_issue_unique) (auto simp: delete_issue_row_def row_simps)
  with x inv' assms(1) show ?thesis
    by (auto simp: held_def lock_of_def delete_issue_row_def)
qed

lemma held_claim: "held a k lease dl d \<Longrightarrow> keeps (held a k lease dl) d (claim repo n b st lease)"
  unfolding claim_def
  by (intro keeps_inv)
     (auto simp: claim_row_def Let_def lease_ok_def row_simps row_lock_def claimable_def
       lease_expired_def split: option.splits intro!: held_update)

lemma held_unclaim_row:
  assumes "held a k lease dl d" and "b \<noteq> a \<or> (repo, n) \<noteq> k"
    and "select_issue repo n d = Some r" and "i_assignee r = Some b"
  shows "held a k lease dl (snd (unclaim_row repo n d))"
proof -
  have "held a k lease dl (d\<lparr>issues := update_where (issue_at repo n) (drop_claim (now d)) (issues d)\<rparr>)"
  proof (rule held_update [OF assms(1)])
    fix x c
    assume x: "select_issue (fst k) (snd k) d = Some x" "issue_at repo n x" "row_lock x = Some (a, c)"
    then have "k = (repo, n)"
      using select_issue_at [OF x(1)] by (auto simp: issue_at_def prod_eq_iff)
    with x assms show "\<exists>c'. row_lock (drop_claim (now d) x) = Some (a, c') \<and> c \<le> c' \<and> c' \<le> now d"
      by (auto dest: row_lock_SomeD)
  qed (simp_all add: row_simps lease_ok_def)
  then show ?thesis by (simp add: unclaim_row_def update_returning_def)
qed

lemma held_unclaim_row':
  "unclaim_row repo n d = (x, d') \<Longrightarrow> held a k lease dl d \<Longrightarrow> b \<noteq> a \<or> (repo, n) \<noteq> k \<Longrightarrow>
   select_issue repo n d = Some r \<Longrightarrow> i_assignee r = Some b \<Longrightarrow> held a k lease dl d'"
  using held_unclaim_row by (metis snd_conv)

lemma held_unclaim:
  "held a k lease dl d \<Longrightarrow> b \<noteq> a \<or> (repo, n) \<noteq> k \<Longrightarrow> keeps (held a k lease dl) d (unclaim repo n b)"
  unfolding unclaim_def
  by (intro keeps_inv) (auto intro: held_unclaim_row')

lemma held_expire: "held a k lease dl d \<Longrightarrow> keeps (held a k lease dl) d (expire_claims lease)"
  unfolding expire_claims_def
  by (intro keeps_inv)
     (auto simp: Let_def lease_ok_def row_simps expirable_def lease_expired_def dest!: row_lock_SomeD
       intro!: held_update)

lemma held_update_issue: "held a k lease dl d \<Longrightarrow> keeps (held a k lease dl) d (update_issue repo n c)"
  unfolding update_issue_def Let_def
  by (intro keeps_inv)
     (auto simp: update_issue_row_def update_returning_def lease_ok_def row_simps row_lock_def
       intro!: held_update)

lemma held_create: "held a k lease dl d \<Longrightarrow> keeps (held a k lease dl) d (create_issue repo req)"
  unfolding create_issue_def Let_def
  by (intro keeps_inv) (auto intro: held_insert)

lemma delete_edges_frame:
  "delete_comments_of i d = (Inr x, d1) \<Longrightarrow> issues d1 = issues d \<and> now d1 = now d"
  "delete_edges_of repo n d = (Inr y, d1) \<Longrightarrow> issues d1 = issues d \<and> now d1 = now d"
  by (auto simp: delete_comments_of_def delete_edges_of_def)

lemma held_frame:
  "issues d' = issues d \<and> now d' = now d \<Longrightarrow> held a k lease dl d \<Longrightarrow> held a k lease dl d'"
  using held_cong by blast

lemma held_delete_row':
  assumes "held a k lease dl d" and "(repo, n) \<noteq> k" and "select_issue repo n d = Some r"
    and "issues d2 = issues d \<and> now d2 = now d" and "delete_issue_row (i_id r) d2 = (z, d3)"
  shows "held a k lease dl d3"
proof -
  have "held a k lease dl d2" and "select_issue repo n d2 = Some r"
    using assms held_frame by (auto simp: select_issue_def)
  with held_delete_row [OF _ _ assms(2)] assms(5) show ?thesis by (metis snd_conv)
qed

lemma held_delete:
  assumes "held a k lease dl d" and "(repo, n) \<noteq> k"
  shows "keeps (held a k lease dl) d (delete_issue repo n)"
  unfolding delete_issue_def
proof (intro keeps_inv)
  fix r x d1 y d2 z d3
  assume r: "select_issue repo n d = Some r" and 1: "delete_comments_of (i_id r) d = (Inr x, d1)"
    and 2: "delete_edges_of repo n d1 = (Inr y, d2)" and 3: "delete_issue_row (i_id r) d2 = (Inr z, d3)"
  from 1 2 have eq: "issues d2 = issues d \<and> now d2 = now d"
    using delete_edges_frame by metis
  show "held a k lease dl d3" by (rule held_delete_row' [OF assms r eq 3])
qed (use assms delete_edges_frame held_frame in metis)+

text \<open>The rows keep their ids and places: a row afterwards is new, or was there at the same number.\<close>

definition tracks :: "db \<Rightarrow> db \<Rightarrow> bool" where
  "tracks d d' \<longleftrightarrow> seqno (issues d) \<le> seqno (issues d') \<and>
     (\<forall>r' \<in> set (rows (issues d')). i_id r' \<le> seqno (issues d) \<longrightarrow>
       (\<exists>r \<in> set (rows (issues d)). i_id r = i_id r' \<and> i_repo r = i_repo r' \<and> i_number r = i_number r'))"

lemma tracks_refl [simp]: "tracks d d"
  by (auto simp: tracks_def)

lemma tracks_update:
  assumes "\<And>r. i_id (f r) = i_id r" and "\<And>r. i_repo (f r) = i_repo r" and "\<And>r. i_number (f r) = i_number r"
  shows "tracks d (d\<lparr>issues := update_where P f (issues d)\<rparr>)"
  using assms by (auto simp: tracks_def row_simps)

lemma tracks_delete: "tracks d (without_issue r d)"
  by (auto simp: tracks_def without_issue_def row_simps)

lemma tracks_insert: "insert_issue repo n req parent d = (Inr x, d') \<Longrightarrow> tracks d d'"
  by (auto simp: insert_issue_def Let_def tracks_def row_simps insert_row_def split: if_splits)

lemma tracks_unclaim: "unclaim_row repo n d = (x, d') \<Longrightarrow> tracks d d'"
  by (auto simp: unclaim_row_def update_returning_def row_simps intro!: tracks_update)

lemma issue_ops_track:
  "keeps (tracks d) d (claim repo n a st lease)" "keeps (tracks d) d (unclaim repo n b)"
  "keeps (tracks d) d (expire_claims lease)" "keeps (tracks d) d (update_issue repo n c)"
  "keeps (tracks d) d (create_issue repo req)"
  unfolding claim_def unclaim_def expire_claims_def update_issue_def create_issue_def Let_def
  by (intro keeps_inv; auto simp: claim_row_def update_issue_row_def update_returning_def Let_def row_simps
      intro!: tracks_update dest: tracks_insert tracks_unclaim)+

lemma delete_tracks: "delete_issue repo n (fs, d) = (res, (fs', d')) \<Longrightarrow> tracks d d'"
  by (auto dest!: delete_issue_cases simp: tracks_delete split: sum.splits)

lemma held_cascade:
  assumes "held a k lease dl d" and "issues d' = delete_where (\<lambda>r. i_repo r = repo) (issues d)" and "now d' = now d"
    and "fst k \<noteq> repo"
  shows "held a k lease dl d'"
proof -
  obtain x where x: "select_issue (fst k) (snd k) d = Some x" and ok: "issues_ok d"
    using assms(1) by (auto simp: held_def lock_of_def split: bind_splits)
  have ok': "issues_ok d'" using ok assms(2) by (auto simp: issues_ok_def row_simps numbered_ok_delete)
  have "select_issue (fst k) (snd k) d' = Some x"
    using select_issue_at [OF x] assms(2,4) by (intro select_issue_unique [OF ok']) (auto simp: row_simps)
  with x ok' assms(1,3) show ?thesis by (auto simp: held_def lock_of_def)
qed

text \<open>The issue of an id is still there and held, or it is gone for good: no id is given twice.\<close>

definition held_or_gone :: "string \<Rightarrow> int \<times> int \<Rightarrow> int \<Rightarrow> int \<Rightarrow> int \<Rightarrow> db \<Rightarrow> bool" where
  "held_or_gone a k lease deadline i d \<longleftrightarrow> issues_ok d \<and> i \<le> seqno (issues d) \<and>
     (\<forall>r \<in> set (rows (issues d)). i_id r = i \<longrightarrow> (i_repo r, i_number r) = k \<and> held a k lease deadline d)"

lemma gone_step:
  assumes "held_or_gone a k lease dl i d" and "tracks d d'" and "issues_ok d'"
    and "held a k lease dl d \<Longrightarrow> \<exists>r \<in> set (rows (issues d')). i_id r = i \<Longrightarrow> held a k lease dl d'"
  shows "held_or_gone a k lease dl i d'"
proof -
  have "(i_repo r', i_number r') = k \<and> held a k lease dl d'" if r': "r' \<in> set (rows (issues d'))" "i_id r' = i" for r'
  proof -
    from assms(1,2) r' obtain r where "r \<in> set (rows (issues d))" "i_id r = i" "i_repo r = i_repo r'" "i_number r = i_number r'"
      by (fastforce simp: held_or_gone_def tracks_def)
    with assms(1,4) r' show ?thesis by (auto simp: held_or_gone_def)
  qed
  with assms(1-3) show ?thesis by (auto simp: held_or_gone_def tracks_def)
qed

lemma peer_step_held_or_gone: "peer_step a k lease dl d d' \<Longrightarrow> held_or_gone a k lease dl i d \<Longrightarrow> held_or_gone a k lease dl i d'"
proof (induction rule: peer_step.induct)
  case (peer_delete repo n fs d u fs' d')
  then have ok: "issues_ok d" by (simp add: held_or_gone_def)
  show ?case
  proof (rule gone_step [OF peer_delete(2) delete_tracks [OF peer_delete(1)] keepsD [OF delete_issue_keeps [OF ok] peer_delete(1)]])
    assume h: "held a k lease dl d" and i: "\<exists>r \<in> set (rows (issues d')). i_id r = i"
    show "held a k lease dl d'"
    proof (cases "(repo, n) = k \<and> u \<noteq> Inl (projl u)")
      case True
      then obtain r where r: "select_issue repo n d = Some r" "d' = without_issue r d"
        using delete_issue_cases [OF peer_delete(1)] by (cases u) auto
      from i r(2) obtain x where x: "x \<in> set (rows (issues d))" "i_id x = i" "i_id x \<noteq> i_id r"
        by (auto simp: without_issue_def row_simps)
      then have "(i_repo x, i_number x) = k" using peer_delete(2) by (auto simp: held_or_gone_def)
      then have "select_issue repo n d = Some x" using True x(1) select_issue_unique [OF ok] by auto
      with r(1) x(3) show ?thesis by simp
    next
      case False
      then show ?thesis
        using h keepsD [OF held_delete [OF h] peer_delete(1)] delete_issue_cases [OF peer_delete(1)] by (cases u) auto
    qed
  qed
next
  case (peer_cascade d' repo d)
  have "tracks d d'" and "issues_ok d'"
    using peer_cascade by (auto simp: tracks_def held_or_gone_def issues_ok_def row_simps numbered_ok_delete)
  then show ?case
  proof (rule gone_step [OF peer_cascade(3)])
    assume h: "held a k lease dl d" and "\<exists>r \<in> set (rows (issues d')). i_id r = i"
    then obtain r where "r \<in> set (rows (issues d))" "i_id r = i" "i_repo r \<noteq> repo" using peer_cascade(1) by (auto simp: row_simps)
    with peer_cascade(3) have "fst k \<noteq> repo" by (auto simp: held_or_gone_def)
    then show "held a k lease dl d'" by (rule held_cascade [OF h peer_cascade(1,2)])
  qed
next
  case (peer_other d' d)
  then show ?case using held_cong [OF peer_other(1,2)] by (auto simp: held_or_gone_def issues_ok_def)
next
  case (peer_tick d t)
  then show ?case
    by (auto simp: held_or_gone_def held_def issues_ok_def lock_of_def select_issue_def)
next
  case (peer_claim repo n b st fs d r fs' d')
  then show ?case
    using gone_step [OF peer_claim(2) keepsD [OF issue_ops_track(1) peer_claim(1)]] keepsD [OF claim_keeps peer_claim(1)]
      keepsD [OF held_claim peer_claim(1)] by (auto simp: held_or_gone_def)
next
  case (peer_unclaim b repo n fs d r fs' d')
  then show ?case
    using gone_step [OF peer_unclaim(3) keepsD [OF issue_ops_track(2) peer_unclaim(2)]] keepsD [OF unclaim_keeps peer_unclaim(2)]
      keepsD [OF held_unclaim peer_unclaim(2)] by (auto simp: held_or_gone_def)
next
  case (peer_expire fs d m fs' d')
  then show ?case
    using gone_step [OF peer_expire(2) keepsD [OF issue_ops_track(3) peer_expire(1)]] keepsD [OF expire_claims_keeps peer_expire(1)]
      keepsD [OF held_expire peer_expire(1)] by (auto simp: held_or_gone_def)
next
  case (peer_update repo n c fs d r fs' d')
  then show ?case
    using gone_step [OF peer_update(2) keepsD [OF issue_ops_track(4) peer_update(1)]] keepsD [OF update_issue_keeps peer_update(1)]
      keepsD [OF held_update_issue peer_update(1)] by (auto simp: held_or_gone_def)
next
  case (peer_create repo req fs d r fs' d')
  then show ?case
    using gone_step [OF peer_create(2) keepsD [OF issue_ops_track(5) peer_create(1)]] keepsD [OF create_issue_keeps peer_create(1)]
      keepsD [OF held_create peer_create(1)] by (auto simp: held_or_gone_def)
qed

lemma claim_success:
  assumes "claim repo n a st lease (fs, d) = (Inr iss, (fs', d0))"
  shows "d0 = snd (claim_row repo n a st lease d) \<and>
    count_where (\<lambda>r. issue_at repo n r \<and> claimable a lease (now d) r) (issues d) \<noteq> 0"
proof -
  from assms [unfolded claim_def] show ?thesis
    by (auto simp: claim_row_def Let_def elim!: tx_InrE exec_InrE query_InrE
        split: if_splits option.splits)
qed

lemma claim_success_held:
  assumes "issues_ok d" and "claim repo n a st lease (fs, d) = (Inr iss, (fs', d0))"
    and "0 < duration_seconds lease"
  shows "held a (repo, n) lease (now d + duration_seconds lease) d0"
proof -
  note c = claim_success [OF assms(2)]
  obtain r where r: "select_issue repo n d = Some r" "claimable a lease (now d) r"
    using c count_claim_0 [OF assms(1), of repo n "claimable a lease (now d)"]
    by (auto split: option.splits)
  have "issues_ok d0"
    using keepsD [OF claim_keeps [OF assms(1)] assms(2)] .
  moreover have "lock_of d0 (repo, n) = Some (a, now d)"
    using c lock_of_claim_row [OF r] by simp
  moreover have "now d0 = now d"
    using c by (simp add: claim_row_def Let_def)
  ultimately show ?thesis using assms(3) by (simp add: held_def)
qed

lemma claim_success_row:
  assumes "issues_ok d" and "claim repo n a st lease (fs, d) = (Inr iss, (fs', d0))" and "0 < duration_seconds lease"
  shows "held_or_gone a (repo, n) lease (now d + duration_seconds lease) (is_id iss) d0"
proof -
  note h = claim_success_held [OF assms]
  have ok: "issues_ok d0" using h by (simp add: held_def)
  obtain r where r: "select_issue repo n d0 = Some r" "iss = scan_issue r"
    using assms(2) unfolding claim_def
    by (auto simp: claim_row_def Let_def elim!: tx_InrE exec_InrE query_InrE split: if_splits option.splits)
  note at = select_issue_at [OF r(1)]
  have ids: "ids_ok i_id (issues d0)" using ok by (auto simp: issues_ok_def numbered_ok_def)
  have "x = r" if "x \<in> set (rows (issues d0))" "i_id x = i_id r" for x
    using that at ids_ok_distinct [OF ids] by (metis distinct_map_eqD)
  then show ?thesis
    using ok at ids h r(2) by (auto simp: held_or_gone_def ids_ok_def scan_issue_def)
qed

lemma refused_while_held:
  assumes "held a (repo, n) lease dl d" and "b \<noteq> a"
  shows "\<exists>e gs'. claim repo n b st lease (gs, d) = (Inl e, (gs', d))"
    and "claim repo n b st lease ([], d) = (Inl ErrAlreadyClaimed, ([], d))"
proof -
  from assms(1) obtain r c where r: "select_issue repo n d = Some r" "row_lock r = Some (a, c)"
    "now d < c + duration_seconds lease" "issues_ok d"
    by (auto simp: held_def lock_of_def split: bind_splits)
  then have free: "\<not> claimable b lease (now d) r"
    using assms(2) by (auto simp: claimable_def lease_expired_def dest!: row_lock_SomeD)
  with r claim_outcome [of d repo n b st lease]
  show "claim repo n b st lease ([], d) = (Inl ErrAlreadyClaimed, ([], d))" by simp
  obtain x gs' d' where c: "claim repo n b st lease (gs, d) = (x, (gs', d'))" by (metis surj_pair)
  show "\<exists>e gs'. claim repo n b st lease (gs, d) = (Inl e, (gs', d))"
  proof (cases x)
    case (Inl e)
    with c show ?thesis unfolding claim_def by (auto dest: tx_atomic)
  next
    case (Inr i)
    with claim_success c have "count_where (\<lambda>r. issue_at repo n r \<and> claimable b lease (now d) r) (issues d) \<noteq> 0" by blast
    with count_claim_0 [OF r(4), of repo n "claimable b lease (now d)"] r(1) free show ?thesis by simp
  qed
qed

definition demo_claimed :: db where
  "demo_claimed = snd (claim_row 1 1 ''carol'' None 60000000000 demo_issues)"

definition demo_row :: issue_row where
  "demo_row = hd (rows (issues demo_issues))"

text \<open>C1: Between a successful \<open>Claim\<close> and the end of its lease the claim is exclusive: whatever the
  rest of the fleet does in any order and under any engine failures (anything but the holder's own
  \<open>Unclaim\<close>, with every claim under the deployment's one positive lease), the claimed issue is
  either deleted or at its number and the caller's, and a claim of it by somebody else fails without
  changing the database, with \<open>ErrAlreadyClaimed\<close> when the engine answers.\<close>

theorem claim_exclusive:
  assumes "issues_ok d" and "0 < duration_seconds lease"
    and "claim repo n a st lease (fs, d) = (Inr iss, (fs', d0))"
    and "(peer_step a (repo, n) lease (now d + duration_seconds lease))\<^sup>*\<^sup>* d0 d1"
    and "b \<noteq> a" and "r \<in> set (rows (issues d1))" and "i_id r = is_id iss"
  shows "i_repo r = repo \<and> i_number r = n \<and> i_assignee r = Some a \<and>
    (\<exists>e gs'. claim repo n b st' lease (gs, d1) = (Inl e, (gs', d1))) \<and>
    claim repo n b st' lease ([], d1) = (Inl ErrAlreadyClaimed, ([], d1))"
proof -
  have "held_or_gone a (repo, n) lease (now d + duration_seconds lease) (is_id iss) d1"
    using assms(4) claim_success_row [OF assms(1,3,2)]
    by (induction rule: rtranclp_induct) (auto dest: peer_step_held_or_gone)
  with assms(6,7) have k: "i_repo r = repo" "i_number r = n" "issues_ok d1"
    and h: "held a (repo, n) lease (now d + duration_seconds lease) d1" by (auto simp: held_or_gone_def)
  have "select_issue repo n d1 = Some r" by (rule select_issue_unique [OF k(3) assms(6) k(1,2)])
  with h have "i_assignee r = Some a" by (auto simp: held_def lock_of_def dest!: row_lock_SomeD)
  with k refused_while_held [OF h assms(5)] show ?thesis by blast
qed

theorem claim_exclusive_witness:
  "let d = demo_claimed\<lparr>now := 1030\<rparr> in i_assignee (hd (rows (issues d))) = Some ''carol'' \<and>
    (\<exists>e gs'. claim 1 1 ''dave'' None 60000000000 ([False, True], d) = (Inl e, (gs', d))) \<and>
    claim 1 1 ''dave'' None 60000000000 ([], d) = (Inl ErrAlreadyClaimed, ([], d))"
proof -
  have claimed: "claim 1 1 ''carol'' None 60000000000 ([], demo_issues) =
      (Inr (scan_issue (take_claim ''carol'' None 1000 demo_row)), ([], demo_claimed))"
    by code_simp
  have "peer_step ''carol'' (1, 1) 60000000000 (now demo_issues + duration_seconds 60000000000)
      demo_claimed (demo_claimed\<lparr>now := 1030\<rparr>)"
    by (rule peer_tick) (simp_all add: demo_claimed_def demo_issues_def empty_db_def claim_row_def Let_def duration_seconds_def)
  then have step: "(peer_step ''carol'' (1, 1) 60000000000 (now demo_issues + duration_seconds 60000000000))\<^sup>*\<^sup>*
      demo_claimed (demo_claimed\<lparr>now := 1030\<rparr>)" ..
  have lease: "0 < duration_seconds 60000000000" and other: "''dave'' \<noteq> ''carol''" by (simp_all add: duration_seconds_def)
  have row: "hd (rows (issues (demo_claimed\<lparr>now := 1030\<rparr>))) \<in> set (rows (issues (demo_claimed\<lparr>now := 1030\<rparr>)))"
    "i_id (hd (rows (issues (demo_claimed\<lparr>now := 1030\<rparr>)))) = is_id (scan_issue (take_claim ''carol'' None 1000 demo_row))"
    by code_simp+
  from claim_exclusive [OF demo_issues_ok lease claimed step other row] show ?thesis by (auto simp: Let_def)
qed

section \<open>Every operation keeps the table well formed\<close>

inductive issue_step :: "db \<Rightarrow> db \<Rightarrow> bool" where
  "create_issue repo req (fs, d) = (r, (fs', d')) \<Longrightarrow> issue_step d d'"
| "delete_issue repo n (fs, d) = (u, (fs', d')) \<Longrightarrow> issue_step d d'"
| "update_issue repo n c (fs, d) = (r, (fs', d')) \<Longrightarrow> issue_step d d'"
| "claim repo n a st lease (fs, d) = (r, (fs', d')) \<Longrightarrow> issue_step d d'"
| "unclaim repo n a (fs, d) = (r, (fs', d')) \<Longrightarrow> issue_step d d'"
| "expire_claims lease (fs, d) = (m, (fs', d')) \<Longrightarrow> issue_step d d'"
| "issue_step d (d\<lparr>now := t\<rparr>)"

lemma issue_step_ok: "issue_step d d' \<Longrightarrow> issues_ok d \<Longrightarrow> issues_ok d'"
proof (induction rule: issue_step.induct)
  case (7 d t)
  then show ?case by (simp add: issues_ok_def)
qed (erule keepsD [rotated], erule issue_writes_keep)+

definition demo_fresh :: db where
  "demo_fresh = demo_issues\<lparr>issues := empty_table\<rparr>"

definition demo_req :: create_issue_request where
  "demo_req = \<lparr>cir_title = ''new'', cir_body = '''', cir_author = ''bob'', cir_parent = None,
     cir_labels = []\<rparr>"

definition demo_first :: db where
  "demo_first = snd (snd (create_issue 1 demo_req ([], demo_fresh)))"

text \<open>C3: Whatever sequence of issue operations runs, with whatever statement of any of them failing,
  the table stays well formed: ids and per-repository numbers are unique and positive, and an
  issue has a claim time exactly when it has an assignee.\<close>

theorem issue_table_invariant:
  assumes "issues d0 = empty_table" and "issue_step\<^sup>*\<^sup>* d0 d" and "r \<in> set (rows (issues d))"
  shows "0 < i_id r \<and> (\<forall>x \<in> set (rows (issues d)). i_id x = i_id r \<longrightarrow> x = r) \<and>
    0 < i_number r \<and> select_issue (i_repo r) (i_number r) d = Some r \<and>
    (\<forall>x \<in> set (rows (issues d)). i_repo x = i_repo r \<and> i_number x = i_number r \<longrightarrow> x = r) \<and>
    (i_assignee r = None \<longleftrightarrow> i_claimed r = None)"
proof -
  have "issues_ok d0"
    using assms(1) by (simp add: issues_ok_def numbered_ok_def empty_table_def ids_ok_def)
  with assms(2) have "issues_ok d"
    by (induction rule: rtranclp_induct) (blast intro: issue_step_ok)+
  moreover from this have ids: "ids_ok i_id (issues d)" by (simp add: issues_ok_def numbered_ok_def)
  then have "x = r" if "x \<in> set (rows (issues d))" "i_id x = i_id r" for x
    using that assms(3) ids_ok_distinct by (metis distinct_map_eqD)
  moreover have "x = r" if "x \<in> set (rows (issues d))" "i_repo x = i_repo r" "i_number x = i_number r" for x
    using that assms(3) select_issue_unique [OF \<open>issues_ok d\<close>] by (metis option.inject)
  ultimately show ?thesis
    using ids assms(3) select_issue_unique [of d r] by (auto simp: issues_ok_def numbered_ok_def lease_ok_def ids_ok_def)
qed

theorem issue_table_invariant_witness:
  "let r = hd (rows (issues demo_first)) in
   0 < i_id r \<and> 0 < i_number r \<and> select_issue (i_repo r) (i_number r) demo_first = Some r \<and>
   (i_assignee r = None \<longleftrightarrow> i_claimed r = None)"
proof -
  have fresh: "issues demo_fresh = empty_table" by (simp add: demo_fresh_def)
  have "issue_step demo_fresh demo_first"
    unfolding demo_first_def by (rule issue_step.intros(1)) (simp add: prod_eq_iff)
  then have reach: "issue_step\<^sup>*\<^sup>* demo_fresh demo_first" ..
  have "rows (issues demo_first) \<noteq> []" by code_simp
  then have "hd (rows (issues demo_first)) \<in> set (rows (issues demo_first))" by simp
  from issue_table_invariant [OF fresh reach this] show ?thesis by (simp add: Let_def)
qed

definition demo_create :: create_issue_request where
  "demo_create = \<lparr>cir_title = ''new'', cir_body = '''', cir_author = ''bob'', cir_parent = Some 1,
     cir_labels = [''bug'']\<rparr>"

section \<open>Create and delete\<close>

definition parent_arg :: "create_issue_request \<Rightarrow> int option" where
  "parent_arg req = (case cir_parent req of None \<Rightarrow> None | Some p \<Rightarrow> if 0 < p then Some p else None)"

lemma next_number_unused: "\<not> issue_exists repo (next_number i_repo i_number repo (issues d)) d"
  using next_number_greater [of _ "issues d" i_repo repo i_number]
  by (force simp: issue_exists_def exists_where_iff issue_at_def)

lemma create_outcome:
  assumes "repo_exists repo d"
  shows "create_issue repo req ([], d) =
    (if \<exists>p. parent_arg req = Some p \<and> \<not> issue_exists repo p d then (Inl ErrInvalidInput, ([], d))
     else (let mk = mk_issue (req, parent_arg req, now d) repo (next_number i_repo i_number repo (issues d))
           in (Inr (scan_issue (fst (insert_row mk (issues d)))),
               ([], d\<lparr>issues := snd (insert_row mk (issues d))\<rparr>))))"
  using assms next_number_unused [of repo d]
  by (auto simp: create_issue_def Let_def parent_arg_def insert_issue_def
        split: option.splits prod.splits)

lemma select_issue_insert:
  assumes "i_repo x = repo'" and "i_number x = n'" and "\<not> issue_exists repo' n' d"
    and "rows t = rows (issues d) @ [x]"
  shows "select_issue repo n (d\<lparr>issues := t\<rparr>) = (if (repo, n) = (repo', n') then Some x else select_issue repo n d)"
  using assms select_issue_exists [of repo' n' d]
  by (auto simp: select_issue_def select_one_def find_append issue_at_def split: option.splits)

text \<open>On a healthy engine \<open>CreateIssue\<close> refuses a parent that is not an issue of the repository and
  otherwise inserts a \<open>todo\<close>, unclaimed issue with the request's fields under a number above every
  number in use there; reading it back returns what the call returned, and no other issue changes.\<close>

theorem create_issue_spec:
  assumes "repo_exists repo d"
  shows "\<exists>res d'. create_issue repo req ([], d) = (res, ([], d')) \<and>
    (if \<exists>p. parent_arg req = Some p \<and> \<not> issue_exists repo p d then res = Inl ErrInvalidInput \<and> d' = d
     else \<exists>iss. res = Inr iss \<and> is_title iss = cir_title req \<and> is_body iss = cir_body req \<and>
        is_author iss = cir_author req \<and> is_labels iss = cir_labels req \<and> is_state iss = IssueTodo \<and>
        is_assignee iss = None \<and> is_parent iss = parent_arg req \<and>
        (\<forall>r \<in> set (rows (issues d)). i_repo r = repo \<longrightarrow> i_number r < is_number iss) \<and>
        get_issue repo (is_number iss) ([], d') = (Inr iss, ([], d')) \<and>
        (\<forall>s m. (s, m) \<noteq> (repo, is_number iss) \<longrightarrow> select_issue s m d' = select_issue s m d))"
proof -
  let ?n = "next_number i_repo i_number repo (issues d)"
  let ?x = "mk_issue (req, parent_arg req, now d) repo ?n (seqno (issues d) + 1)"
  have sel: "select_issue s m (d\<lparr>issues := snd (insert_row (mk_issue (req, parent_arg req, now d) repo ?n) (issues d))\<rparr>) =
      (if (s, m) = (repo, ?n) then Some ?x else select_issue s m d)" for s m
    by (rule select_issue_insert [OF _ _ next_number_unused]) (simp_all add: row_simps)
  have num: "is_number (scan_issue ?x) = ?n"
    by (simp add: scan_issue_def row_simps)
  have fields: "is_title (scan_issue ?x) = cir_title req \<and> is_body (scan_issue ?x) = cir_body req \<and>
      is_author (scan_issue ?x) = cir_author req \<and> is_labels (scan_issue ?x) = cir_labels req \<and>
      is_state (scan_issue ?x) = IssueTodo \<and> is_assignee (scan_issue ?x) = None \<and>
      is_parent (scan_issue ?x) = parent_arg req"
    by (simp add: scan_issue_def mk_issue_def)
  show ?thesis
    using create_outcome [OF assms, of req] sel num fields next_number_greater [of _ "issues d" i_repo repo i_number]
    by (auto simp: Let_def row_simps get_issue_def simp del: mk_issue_sel)
qed

theorem create_issue_spec_witness:
  "\<exists>res d'. create_issue 1 demo_create ([], demo_issues) = (res, ([], d')) \<and>
    (if \<exists>p. parent_arg demo_create = Some p \<and> \<not> issue_exists 1 p demo_issues
     then res = Inl ErrInvalidInput \<and> d' = demo_issues
     else \<exists>iss. res = Inr iss \<and> is_title iss = cir_title demo_create \<and> is_body iss = cir_body demo_create \<and>
        is_author iss = cir_author demo_create \<and> is_labels iss = cir_labels demo_create \<and>
        is_state iss = IssueTodo \<and>
        is_assignee iss = None \<and> is_parent iss = parent_arg demo_create \<and>
        (\<forall>r \<in> set (rows (issues demo_issues)). i_repo r = 1 \<longrightarrow> i_number r < is_number iss) \<and>
        get_issue 1 (is_number iss) ([], d') = (Inr iss, ([], d')) \<and>
        (\<forall>s m. (s, m) \<noteq> (1, is_number iss) \<longrightarrow> select_issue s m d' = select_issue s m demo_issues))"
  by (rule create_issue_spec) (simp add: demo_issues_def repo_exists_def exists_where_def)

lemma select_without:
  assumes "issues_ok d" and "select_issue repo n d = Some r"
  shows "select_issue s m (without_issue r d) = (if (s, m) = (repo, n) then None else select_issue s m d)"
proof (cases "(s, m) = (repo, n)")
  case True
  have "\<not> issue_at repo n x" if "x \<in> set (rows (issues d))" "i_id x \<noteq> i_id r" for x
    using select_issue_unique [OF assms(1) that(1)] that assms(2) by (auto simp: issue_at_def)
  with True show ?thesis
    by (auto simp: without_issue_def select_issue_def select_one_None exists_where_iff row_simps)
next
  case False
  have inv: "issues_ok (without_issue r d)"
    using assms(1) by (auto simp: without_issue_def issues_ok_def row_simps numbered_ok_delete)
  have "distinct (map i_id (rows (issues d)))"
    using assms(1) by (auto simp: issues_ok_def numbered_ok_def ids_ok_distinct)
  then have "x \<in> set (rows (issues (without_issue r d)))" if "select_issue s m d = Some x" for x
    using that False select_issue_at [OF that] select_issue_at [OF assms(2)]
      distinct_map_eqD [of i_id "rows (issues d)" x r]
    by (auto simp: without_issue_def row_simps)
  then have "select_issue s m (without_issue r d) = Some x" if "select_issue s m d = Some x" for x
    using that select_issue_unique [OF inv] select_issue_at by blast
  moreover have "select_issue s m (without_issue r d) = None" if "select_issue s m d = None"
    using that by (auto simp: without_issue_def select_issue_def select_one_None exists_where_iff row_simps)
  ultimately show ?thesis using False by (cases "select_issue s m d") auto
qed

text \<open>\<open>DeleteIssue\<close> is all or nothing: whatever statement fails, a reported error leaves the
  database as it was, and success removes exactly the issue, its comments and every dependency edge
  that touches it; the issue is then gone and no edge mentions it.\<close>

theorem delete_issue_spec:
  assumes "issues_ok d" and "delete_issue repo n (fs, d) = (res, (fs', d'))"
  shows "case res of
      Inl e \<Rightarrow> d' = d
    | Inr _ \<Rightarrow> \<exists>r. select_issue repo n d = Some r \<and> d' = without_issue r d \<and>
        select_issue repo n d' = None \<and>
        \<not> (\<exists>e \<in> set (rows (issue_dependencies d')). d_repo e = repo \<and> (d_issue e = n \<or> d_on e = n)) \<and>
        \<not> (\<exists>c \<in> set (rows (issue_comments d')). c_issue c = i_id r)"
proof (cases res)
  case (Inl e)
  with delete_issue_cases [OF assms(2)] show ?thesis by simp
next
  case (Inr u)
  with delete_issue_cases [OF assms(2)]
  obtain r where r: "select_issue repo n d = Some r" and d': "d' = without_issue r d" by auto
  with select_without [OF assms(1) r, of repo n] have "select_issue repo n d' = None" by simp
  with r d' select_issue_at [OF r] Inr show ?thesis
    by (auto simp: without_issue_def row_simps)
qed

text \<open>Numbers are not monotonic: deleting the newest issue frees its number, the next
  \<open>CreateIssue\<close> hands it out again, and the children of the deleted issue, whose parent links
  \<open>DeleteIssue\<close> leaves dangling, become children of the new, unrelated one.\<close>

theorem number_reused_after_delete:
  assumes "issues_ok d" and "repo_exists repo d" and "select_issue repo n d = Some r"
    and "next_number i_repo i_number repo (issues (without_issue r d)) = n"
    and "c \<in> set (rows (issues d))" and "i_repo c = repo" and "i_parent c = Some n" and "c \<noteq> r"
    and "parent_arg req = None"
  shows "\<exists>d1 iss d2. delete_issue repo n ([], d) = (Inr (), ([], d1)) \<and>
    create_issue repo req ([], d1) = (Inr iss, ([], d2)) \<and> is_number iss = n \<and>
    select_issue repo (i_number c) d2 = Some c"
proof -
  note at = select_issue_at [OF assms(3)]
  have del: "delete_issue repo n ([], d) = (Inr (), ([], without_issue r d))"
    using assms(3) at
    by (simp add: delete_issue_def delete_comments_of_def delete_edges_of_def delete_issue_row_def
        without_issue_def)
  have keep: "c \<in> set (rows (issues (without_issue r d)))" "repo_exists repo (without_issue r d)"
    using assms(1,2,5,8) at
      distinct_map_eqD [of i_id "rows (issues d)" c r]
    by (auto simp: without_issue_def row_simps issues_ok_def numbered_ok_def repo_exists_def
        dest: ids_ok_distinct)
  have inv: "issues_ok (without_issue r d)"
    using keepsD [OF delete_issue_keeps [OF assms(1)] del] .
  obtain d2 where new: "create_issue repo req ([], without_issue r d) =
      (Inr (scan_issue (mk_issue (req, None, now (without_issue r d)) repo n (seqno (issues (without_issue r d)) + 1))),
       ([], d2))" "rows (issues d2) = rows (issues (without_issue r d)) @
         [mk_issue (req, None, now (without_issue r d)) repo n (seqno (issues (without_issue r d)) + 1)]"
    using create_outcome [OF keep(2), of req] assms(4,9) by (simp add: Let_def row_simps)
  have "select_issue repo (i_number c) d2 = Some c"
    using keepsD [OF create_issue_keeps [OF inv] new(1)] keep(1) new(2) assms(6)
    by (intro select_issue_unique) auto
  with del new(1) show ?thesis
    by (simp add: scan_issue_def row_simps)
qed

theorem delete_issue_spec_witness:
  "case fst (delete_issue 1 4 ([False, False], demo_issues)) of
      Inl e \<Rightarrow> snd (snd (delete_issue 1 4 ([False, False], demo_issues))) = demo_issues
    | Inr _ \<Rightarrow> \<exists>r. select_issue 1 4 demo_issues = Some r \<and>
        snd (snd (delete_issue 1 4 ([False, False], demo_issues))) = without_issue r demo_issues \<and>
        select_issue 1 4 (snd (snd (delete_issue 1 4 ([False, False], demo_issues)))) = None \<and>
        \<not> (\<exists>e \<in> set (rows (issue_dependencies (snd (snd (delete_issue 1 4 ([False, False], demo_issues)))))).
            d_repo e = 1 \<and> (d_issue e = 4 \<or> d_on e = 4)) \<and>
        \<not> (\<exists>c \<in> set (rows (issue_comments (snd (snd (delete_issue 1 4 ([False, False], demo_issues)))))).
            c_issue c = i_id r)"
  by (rule delete_issue_spec [OF demo_issues_ok]) (simp add: prod_eq_iff)

theorem number_reused_after_delete_witness:
  "\<exists>d1 iss d2. delete_issue 1 4 ([], demo_issues) = (Inr (), ([], d1)) \<and>
    create_issue 1 demo_req ([], d1) = (Inr iss, ([], d2)) \<and> is_number iss = 4 \<and>
    select_issue 1 (i_number (rows (issues demo_issues) ! 1)) d2 = Some (rows (issues demo_issues) ! 1)"
  by (rule number_reused_after_delete [OF demo_issues_ok, where r = "rows (issues demo_issues) ! 3"]; code_simp)

section \<open>The reaper\<close>

lemma expire_outcome:
  "0 < lease \<Longrightarrow> expire_claims lease ([], d) =
    (Inr (count_where (expirable lease (now d)) (issues d)),
     ([], d\<lparr>issues := update_where (expirable lease (now d)) (drop_claim (now d)) (issues d)\<rparr>))"
  by (simp add: expire_claims_def Let_def)

text \<open>\<open>ExpireClaims\<close> releases exactly the locks of unfinished issues whose lease has run out,
  counts them, and touches nothing else: no live lease, no attribution of a \<open>done\<close> or \<open>closed\<close>
  issue, no state.\<close>

theorem expire_claims_spec:
  assumes "issues_ok d" and "0 < lease"
  shows "\<exists>k d'. expire_claims lease ([], d) = (Inr k, ([], d')) \<and>
    (\<forall>repo n. map_option i_state (select_issue repo n d') = map_option i_state (select_issue repo n d)) \<and>
    (\<forall>repo n. lock_of d' (repo, n) =
      (case (select_issue repo n d, lock_of d (repo, n)) of
         (Some r, Some (a, c)) \<Rightarrow>
           if \<not> issue_terminal (i_state r) \<and> c \<le> now d - duration_seconds lease then None else Some (a, c)
       | _ \<Rightarrow> None)) \<and>
    k = int (card {r \<in> set (rows (issues d)). \<exists>a c. row_lock r = Some (a, c) \<and>
      \<not> issue_terminal (i_state r) \<and> c \<le> now d - duration_seconds lease})"
proof -
  let ?t = "now d"
  have lease: "expirable lease ?t r \<longleftrightarrow> (\<exists>a c. row_lock r = Some (a, c) \<and>
      \<not> issue_terminal (i_state r) \<and> c \<le> ?t - duration_seconds lease)" for r
    by (auto simp: expirable_def lease_expired_def row_lock_def split: option.splits)
  have dist: "distinct (rows (issues d))"
    using assms(1) by (auto simp: issues_ok_def numbered_ok_def distinct_map dest: ids_ok_distinct)
  have "length (filter (expirable lease ?t) (rows (issues d))) =
      card {r \<in> set (rows (issues d)). expirable lease ?t r}"
    using dist by (metis distinct_card distinct_filter set_filter)
  moreover have "lock_of (d\<lparr>issues := update_where (expirable lease ?t) (drop_claim ?t) (issues d)\<rparr>) (repo, n) =
      (case (select_issue repo n d, lock_of d (repo, n)) of
         (Some r, Some (a, c)) \<Rightarrow>
           if \<not> issue_terminal (i_state r) \<and> c \<le> ?t - duration_seconds lease then None else Some (a, c)
       | _ \<Rightarrow> None)" for repo n
    using lease by (auto simp: lock_of_def row_simps row_lock_def split: option.splits)
  ultimately show ?thesis
    using expire_outcome [OF assms(2), of d]
    by (auto simp: count_where_def row_simps lease [symmetric] option.map_comp comp_def if_distrib
        cong: if_cong)
qed

theorem expire_claims_spec_witness:
  "\<exists>k d'. expire_claims 60000000000 ([], demo_issues) = (Inr k, ([], d')) \<and>
    (\<forall>repo n. map_option i_state (select_issue repo n d') = map_option i_state (select_issue repo n demo_issues)) \<and>
    (\<forall>repo n. lock_of d' (repo, n) =
      (case (select_issue repo n demo_issues, lock_of demo_issues (repo, n)) of
         (Some r, Some (a, c)) \<Rightarrow>
           if \<not> issue_terminal (i_state r) \<and> c \<le> now demo_issues - duration_seconds 60000000000
           then None else Some (a, c)
       | _ \<Rightarrow> None)) \<and>
    k = int (card {r \<in> set (rows (issues demo_issues)). \<exists>a c. row_lock r = Some (a, c) \<and>
      \<not> issue_terminal (i_state r) \<and> c \<le> now demo_issues - duration_seconds 60000000000})"
  by (rule expire_claims_spec [OF demo_issues_ok]) simp

end
