(* ===== verification/Dependencies.thy ===== *)
theory Dependencies imports IssueLocks begin

text \<open>
  \<open>internal/storage/dependencies.go\<close>: the depends-on graph between the issues of a repository,
  the depth-first cycle check in front of every insert, and the invariant the ready and blocked
  views rely on: the graph is acyclic and both ends of every edge exist.
\<close>

section \<open>Operations\<close>

definition dep_at :: "int \<Rightarrow> int \<Rightarrow> int \<Rightarrow> dep_row \<Rightarrow> bool" where
  "dep_at repo n m e \<longleftrightarrow> d_repo e = repo \<and> d_issue e = n \<and> d_on e = m"

definition depends_on_numbers :: "int \<Rightarrow> int \<Rightarrow> db \<Rightarrow> int list" where
  "depends_on_numbers repo n d =
     map d_on (select_where (\<lambda>e. d_repo e = repo \<and> d_issue e = n) (issue_dependencies d))"

text \<open>
  The loop of \<open>dependsOnReaches\<close>, the stack's top first. The engine does not promise an order of
  the rows; the result does not depend on it.
\<close>

function depends_on_reaches :: "int \<Rightarrow> int \<Rightarrow> int list \<Rightarrow> int list \<Rightarrow> (db, bool) dbm" where
  "depends_on_reaches repo target [] visited (fs, d) = (Inr False, (fs, d))"
| "depends_on_reaches repo target (cur # stack) visited (fs, d) =
     (if cur = target then (Inr True, (fs, d))
      else if cur \<in> set visited then depends_on_reaches repo target stack visited (fs, d)
      else query (depends_on_numbers repo cur)
             (\<lambda>next. depends_on_reaches repo target (rev next @ stack) (cur # visited)) (fs, d))"
  by pat_completeness auto

definition sources :: "int \<Rightarrow> db \<Rightarrow> int set" where
  "sources repo d = d_issue ` {e \<in> set (rows (issue_dependencies d)). d_repo e = repo}"

lemma depends_on_numbers_empty: "n \<notin> sources repo d \<Longrightarrow> depends_on_numbers repo n d = []"
  by (auto simp: depends_on_numbers_def select_where_def sources_def filter_empty_conv)

lemma finite_sources [simp]: "finite (sources repo d)"
  by (simp add: sources_def)

text \<open>Each iteration visits a node with outgoing edges for the first time, or shortens the stack.\<close>

termination depends_on_reaches
proof (relation "measures [\<lambda>(repo, target, stack, visited, fs, d). card (sources repo d - set visited),
    \<lambda>(repo, target, stack, visited, fs, d). length stack]")
  fix repo target cur :: int and stack visited fs fs' and d :: db
  assume "cur \<notin> set visited"
  then show "((repo, target, rev (depends_on_numbers repo cur (snd (fs, d))) @ stack, cur # visited, fs', snd (fs, d)),
      (repo, target, cur # stack, visited, fs, d)) \<in> measures
      [\<lambda>(repo, target, stack, visited, fs, d). card (sources repo d - set visited),
       \<lambda>(repo, target, stack, visited, fs, d). length stack]"
  proof (cases "cur \<in> sources repo d")
    case True
    with \<open>cur \<notin> set visited\<close> have "sources repo d - insert cur (set visited) \<subset> sources repo d - set visited"
      by auto
    then show ?thesis by (simp add: psubset_card_mono)
  next
    case False
    then have "sources repo d - insert cur (set visited) = sources repo d - set visited" by auto
    with False show ?thesis by (simp add: depends_on_numbers_empty)
  qed
qed auto

definition insert_dep :: "int \<Rightarrow> int \<Rightarrow> int \<Rightarrow> db \<Rightarrow> (db_error + unit) \<times> db" where
  "insert_dep repo n m d =
     (if exists_where (dep_at repo n m) (issue_dependencies d) then (Inr (), d)
      else if \<not> repo_exists repo d then (Inl ErrForeignKey, d)
      else (Inr (), d\<lparr>issue_dependencies := snd (insert_row (\<lambda>i.
             \<lparr>d_id = i, d_repo = repo, d_issue = n, d_on = m, d_created = now d\<rparr>) (issue_dependencies d))\<rparr>))"

definition add_dependency :: "int \<Rightarrow> int \<Rightarrow> int \<Rightarrow> (db, unit) dbm" where
  "add_dependency repo n m =
     (if n = m then err ErrSelfDependency
      else tx (query (issue_exists repo n) (\<lambda>a. if \<not> a then err ErrInvalidInput else
               query (issue_exists repo m) (\<lambda>b. if \<not> b then err ErrInvalidInput else
               bind (depends_on_reaches repo n [m] []) (\<lambda>reaches.
                 if reaches then err ErrDependencyCycle
                 else exec (insert_dep repo n m) ok)))))"

definition delete_dep :: "int \<Rightarrow> int \<Rightarrow> int \<Rightarrow> db \<Rightarrow> (db_error + unit) \<times> db" where
  "delete_dep repo n m d =
     (Inr (), d\<lparr>issue_dependencies := delete_where (dep_at repo n m) (issue_dependencies d)\<rparr>)"

definition remove_dependency :: "int \<Rightarrow> int \<Rightarrow> int \<Rightarrow> (db, unit) dbm" where
  "remove_dependency repo n m = exec (delete_dep repo n m) ok"

definition scan_ref :: "issue_row \<Rightarrow> issue_ref" where
  "scan_ref r = \<lparr>ref_number = i_number r, ref_title = i_title r, ref_state = i_state r\<rparr>"

definition list_dependencies :: "int \<Rightarrow> int \<Rightarrow> (db, issue_ref list) dbm" where
  "list_dependencies repo n = query (\<lambda>d. sort_key ref_number
     [scan_ref i. e \<leftarrow> rows (issue_dependencies d), d_repo e = repo \<and> d_issue e = n,
                  i \<leftarrow> rows (issues d), i_repo i = d_repo e \<and> i_number i = d_on e]) ok"

definition list_dependents :: "int \<Rightarrow> int \<Rightarrow> (db, issue_ref list) dbm" where
  "list_dependents repo n = query (\<lambda>d. sort_key ref_number
     [scan_ref i. e \<leftarrow> rows (issue_dependencies d), d_repo e = repo \<and> d_on e = n,
                  i \<leftarrow> rows (issues d), i_repo i = d_repo e \<and> i_number i = d_issue e]) ok"

section \<open>The cycle check decides reachability\<close>

definition dep_edges :: "int \<Rightarrow> db \<Rightarrow> (int \<times> int) set" where
  "dep_edges repo d = {(d_issue e, d_on e) | e. e \<in> set (rows (issue_dependencies d)) \<and> d_repo e = repo}"

lemma set_depends_on_numbers: "set (depends_on_numbers repo n d) = {m. (n, m) \<in> dep_edges repo d}"
  by (auto simp: depends_on_numbers_def select_where_def dep_edges_def)

lemma closed_reach:
  assumes "(v, t) \<in> E\<^sup>*" and "v \<in> V" and "t \<notin> V" and "\<forall>v \<in> V. \<forall>w. (v, w) \<in> E \<longrightarrow> w \<in> V \<union> S"
  shows "\<exists>s \<in> S. (s, t) \<in> E\<^sup>*"
  using assms by (induction rule: converse_rtrancl_induct) blast+

lemma depends_on_reaches_sound:
  assumes "depends_on_reaches repo target stack visited (fs, d) = (res, (fs', d'))"
    and "target \<notin> set visited"
    and "\<forall>v \<in> set visited. \<forall>w. (v, w) \<in> dep_edges repo d \<longrightarrow> w \<in> set visited \<union> set stack"
  shows "d' = d \<and> (case res of Inl e \<Rightarrow> e = ErrEngine
    | Inr b \<Rightarrow> b = (\<exists>s \<in> set stack. (s, target) \<in> (dep_edges repo d)\<^sup>*))"
  using assms
proof (induction repo target stack visited "(fs, d)" arbitrary: fs d res fs' d' rule: depends_on_reaches.induct)
  case (1 repo target visited fs d)
  then show ?case by auto
next
  case (2 repo target cur stack visited fs d)
  let ?E = "dep_edges repo d"
  consider "cur = target" | "cur \<noteq> target" "cur \<in> set visited" | "cur \<noteq> target" "cur \<notin> set visited" by blast
  then show ?case
  proof cases
    case 1
    with "2.prems" show ?thesis by auto
  next
    case 2
    have "\<forall>v \<in> set visited. \<forall>w. (v, w) \<in> ?E \<longrightarrow> w \<in> set visited \<union> set stack"
      using "2.prems"(3) 2 by auto
    with "2.hyps"(1) [OF 2] "2.prems"(1,2) 2
    have "d' = d \<and> (case res of Inl e \<Rightarrow> e = ErrEngine | Inr b \<Rightarrow> b = (\<exists>s \<in> set stack. (s, target) \<in> ?E\<^sup>*))"
      by simp
    moreover have "(cur, target) \<in> ?E\<^sup>* \<Longrightarrow> \<exists>s \<in> set stack. (s, target) \<in> ?E\<^sup>*"
      using closed_reach [of cur target ?E "set visited" "set stack"] "2.prems"(2,3) 2 by auto
    ultimately show ?thesis by (auto split: sum.splits)
  next
    case 3
    let ?next = "rev (depends_on_numbers repo cur d) @ stack"
    have closed: "\<forall>v \<in> set (cur # visited). \<forall>w. (v, w) \<in> ?E \<longrightarrow> w \<in> set (cur # visited) \<union> set ?next"
      using "2.prems"(3) by (auto simp: set_depends_on_numbers)
    have step: "(\<exists>s \<in> set ?next. (s, target) \<in> ?E\<^sup>*) \<longleftrightarrow> (\<exists>s \<in> set (cur # stack). (s, target) \<in> ?E\<^sup>*)"
      using 3 by (auto simp: set_depends_on_numbers intro: converse_rtrancl_into_rtrancl elim: converse_rtranclE)
    show ?thesis
    proof (cases fs)
      case Nil
      have "depends_on_reaches repo target ?next (cur # visited) ([], d) = (res, (fs', d'))"
        using "2.prems"(1) 3 Nil by simp
      from "2.hyps"(2) [OF 3, of "[]", simplified, OF this [simplified]] show ?thesis
        using 3 "2.prems"(2) closed step by (simp split: sum.splits)
    next
      case (Cons f gs)
      show ?thesis
      proof (cases f)
        case True
        with "2.prems"(1) 3 Cons show ?thesis by auto
      next
        case False
        have "depends_on_reaches repo target ?next (cur # visited) (gs, d) = (res, (fs', d'))"
          using "2.prems"(1) 3 Cons False by simp
        from "2.hyps"(2) [OF 3, of gs, simplified, OF this [simplified]] show ?thesis
          using 3 "2.prems"(2) closed step by (simp split: sum.splits)
      qed
    qed
  qed
qed

lemma reaches_healthy:
  assumes "n \<noteq> m"
  shows "depends_on_reaches repo n [m] [] ([], d) = (Inr ((m, n) \<in> (dep_edges repo d)\<^sup>*), ([], d))"
proof -
  obtain res fs' d' where eq: "depends_on_reaches repo n [m] [] ([], d) = (res, (fs', d'))" by (metis surj_pair)
  have script: "fst (snd (depends_on_reaches repo t stack vis ([], d))) = [] \<and>
      is_ok (fst (depends_on_reaches repo t stack vis ([], d)))" for t stack vis
    by (induction repo t stack vis "([] :: bool list, d)" arbitrary: d rule: depends_on_reaches.induct) auto
  from depends_on_reaches_sound [OF eq] eq script [of n "[m]" "[]"] show ?thesis
    by (auto split: sum.splits)
qed

text \<open>Whatever the graph (a cycle already in the table included) and whatever query fails, the
  search of \<open>dependsOnReaches\<close> returns, changes nothing, and if it reports an answer the answer is
  whether \<open>target\<close> can be reached from \<open>from\<close> along depends-on edges.\<close>

theorem depends_on_reaches_correct:
  "\<exists>res fs'. depends_on_reaches repo target [start] [] (fs, d) = (res, (fs', d)) \<and>
     (res = Inl ErrEngine \<or> res = Inr ((start, target) \<in> (dep_edges repo d)\<^sup>*)) \<and>
     (fs = [] \<longrightarrow> is_ok res)"
proof -
  obtain res fs' d' where eq: "depends_on_reaches repo target [start] [] (fs, d) = (res, (fs', d'))"
    by (metis surj_pair)
  have "is_ok (fst (depends_on_reaches repo t stack vis ([], d)))" for t stack vis
    by (induction repo t stack vis "([] :: bool list, d)" arbitrary: d rule: depends_on_reaches.induct) auto
  then have "fs = [] \<Longrightarrow> is_ok res" using eq by (metis fst_conv)
  with depends_on_reaches_sound [OF eq] eq show ?thesis
    by (auto split: sum.splits)
qed

theorem depends_on_reaches_correct_witness:
  "\<exists>res fs'. depends_on_reaches 1 3 [1] [] ([], demo_issues) = (res, (fs', demo_issues)) \<and>
     (res = Inl ErrEngine \<or> res = Inr ((1, 3) \<in> (dep_edges 1 demo_issues)\<^sup>*)) \<and>
     (([] :: bool list) = [] \<longrightarrow> is_ok res)"
  by (rule depends_on_reaches_correct)

section \<open>The graph stays acyclic\<close>

definition deps_ok :: "db \<Rightarrow> bool" where
  "deps_ok d \<longleftrightarrow> (\<forall>repo. acyclic (dep_edges repo d)) \<and>
     (\<forall>e \<in> set (rows (issue_dependencies d)).
        issue_exists (d_repo e) (d_issue e) d \<and> issue_exists (d_repo e) (d_on e) d)"

lemma deps_ok_cong:
  assumes "issue_dependencies d' = issue_dependencies d"
    and "\<And>repo n. issue_exists repo n d \<Longrightarrow> issue_exists repo n d'" and "deps_ok d"
  shows "deps_ok d'"
  using assms by (auto simp: deps_ok_def dep_edges_def acyclic_def)

lemma deps_ok_fewer:
  assumes "set (rows (issue_dependencies d')) \<subseteq> set (rows (issue_dependencies d))"
    and "\<And>e. e \<in> set (rows (issue_dependencies d')) \<Longrightarrow>
      issue_exists (d_repo e) (d_issue e) d' \<and> issue_exists (d_repo e) (d_on e) d'" and "deps_ok d"
  shows "deps_ok d'"
proof -
  have "dep_edges repo d' \<subseteq> dep_edges repo d" for repo
    using assms(1) by (auto simp: dep_edges_def)
  then have "\<forall>repo. acyclic (dep_edges repo d')"
    using assms(3) unfolding deps_ok_def by (meson acyclic_subset)
  with assms(2) show ?thesis by (auto simp: deps_ok_def)
qed

lemma dep_edges_snoc:
  "rows (issue_dependencies d') = rows (issue_dependencies d) @ [x] \<Longrightarrow>
   dep_edges repo d' = (if d_repo x = repo then insert (d_issue x, d_on x) (dep_edges repo d) else dep_edges repo d)"
  by (auto simp: dep_edges_def)

lemma insert_dep_edges:
  assumes "insert_dep repo n m d = (Inr u, d')"
  shows "dep_edges repo' d' = (if repo' = repo then insert (n, m) (dep_edges repo' d) else dep_edges repo' d)"
proof (cases "exists_where (dep_at repo n m) (issue_dependencies d)")
  case True
  then have "(n, m) \<in> dep_edges repo d"
    by (auto simp: exists_where_iff dep_at_def dep_edges_def)
  with True assms show ?thesis by (auto simp: insert_dep_def)
next
  case False
  with assms have "rows (issue_dependencies d') = rows (issue_dependencies d) @
      [\<lparr>d_id = seqno (issue_dependencies d) + 1, d_repo = repo, d_issue = n, d_on = m, d_created = now d\<rparr>]"
    by (auto simp: insert_dep_def row_simps split: if_splits)
  from dep_edges_snoc [OF this, of repo'] show ?thesis by auto
qed

lemma insert_dep_rows:
  "insert_dep repo n m d = (Inr u, d') \<Longrightarrow> issues d' = issues d \<and>
   (e \<in> set (rows (issue_dependencies d')) \<longrightarrow>
      e \<in> set (rows (issue_dependencies d)) \<or> (d_repo e = repo \<and> d_issue e = n \<and> d_on e = m))"
  by (auto simp: insert_dep_def row_simps split: if_splits)

lemma insert_dep_keeps:
  assumes "insert_dep repo n m d = (Inr u, d')" and "deps_ok d" and "(m, n) \<notin> (dep_edges repo d)\<^sup>*"
    and "issue_exists repo n d" and "issue_exists repo m d"
  shows "deps_ok d'"
proof -
  have "acyclic (dep_edges repo' d')" for repo'
    using assms(2,3) by (simp add: insert_dep_edges [OF assms(1)] deps_ok_def acyclic_insert)
  moreover have "issue_exists (d_repo e) (d_issue e) d' \<and> issue_exists (d_repo e) (d_on e) d'"
    if "e \<in> set (rows (issue_dependencies d'))" for e
    using insert_dep_rows [OF assms(1), of e] that assms(2,4,5) by (auto simp: deps_ok_def issue_exists_def)
  ultimately show ?thesis by (simp add: deps_ok_def)
qed

lemma bind_reaches_keeps:
  assumes "I d" and "(m, n) \<notin> (dep_edges repo d)\<^sup>* \<Longrightarrow> keeps I d (k False)" and "keeps I d (k True)"
  shows "keeps I d (bind (depends_on_reaches repo n [m] []) k)"
  unfolding keeps_def
proof
  fix fs
  obtain res fs' d' where eq: "depends_on_reaches repo n [m] [] (fs, d) = (res, (fs', d'))"
    by (metis surj_pair)
  from depends_on_reaches_sound [OF eq] have d': "d' = d"
    and res: "\<And>b. res = Inr b \<Longrightarrow> b = ((m, n) \<in> (dep_edges repo d)\<^sup>*)"
    by auto
  have "keeps I d (k b)" if "res = Inr b" for b
    using res [OF that] assms(2,3) by (cases b) auto
  with eq d' \<open>I d\<close> show "I (snd (snd (bind (depends_on_reaches repo n [m] []) k (fs, d))))"
    by (cases res) (auto simp: bind_def keeps_def simp del: depends_on_reaches.simps)
qed

lemma add_dependency_keeps: "deps_ok d \<Longrightarrow> keeps deps_ok d (add_dependency repo n m)"
  unfolding add_dependency_def
  by (intro keeps_inv bind_reaches_keeps) (auto dest: insert_dep_keeps intro: keeps_inv)

lemma remove_dependency_keeps: "deps_ok d \<Longrightarrow> keeps deps_ok d (remove_dependency repo n m)"
  unfolding remove_dependency_def delete_dep_def
proof (intro keeps_inv)
  fix u d'
  assume ok: "deps_ok d"
    and "(Inr (), d\<lparr>issue_dependencies := delete_where (dep_at repo n m) (issue_dependencies d)\<rparr>) = (Inr u, d')"
  then have "d' = d\<lparr>issue_dependencies := delete_where (dep_at repo n m) (issue_dependencies d)\<rparr>" by simp
  with ok show "deps_ok d'"
    by (intro deps_ok_fewer [OF _ _ ok]) (auto simp: deps_ok_def row_simps issue_exists_def)
qed

text \<open>The issue operations other than the delete leave every existing number in place.\<close>

definition grows :: "db \<Rightarrow> db \<Rightarrow> bool" where
  "grows d d' \<longleftrightarrow> issue_dependencies d' = issue_dependencies d \<and>
     (\<forall>repo n. issue_exists repo n d \<longrightarrow> issue_exists repo n d')"

lemma grows_update:
  assumes "grows d d'" and "\<And>r. i_repo (f r) = i_repo r" and "\<And>r. i_number (f r) = i_number r"
  shows "grows d (d'\<lparr>issues := update_where P f (issues d')\<rparr>)"
  using assms by (auto simp: grows_def select_issue_exists row_simps)

lemma grows_refl [simp]: "grows d d"
  by (simp add: grows_def)

lemma insert_issue_grows: "insert_issue repo n req p d = (Inr r, d') \<Longrightarrow> grows d d'"
  by (auto simp: insert_issue_def grows_def Let_def insert_row_def issue_exists_def exists_where_iff
      split: if_splits)

lemma create_issue_grows: "keeps (grows d) d (create_issue repo req)"
  unfolding create_issue_def Let_def by (intro keeps_inv) (auto intro: insert_issue_grows)

lemma update_issue_grows: "keeps (grows d) d (update_issue repo n c)"
  unfolding update_issue_def Let_def
  by (intro keeps_inv) (auto simp: update_issue_row_def update_returning_def row_simps intro!: grows_update)

lemma claim_grows: "keeps (grows d) d (claim repo n a st lease)"
  unfolding claim_def
  by (intro keeps_inv) (auto simp: claim_row_def Let_def row_simps intro!: grows_update)

lemma unclaim_grows: "keeps (grows d) d (unclaim repo n a)"
  unfolding unclaim_def
  by (intro keeps_inv) (auto simp: unclaim_row_def update_returning_def row_simps intro!: grows_update)

lemma expire_grows: "keeps (grows d) d (expire_claims lease)"
  unfolding expire_claims_def
  by (intro keeps_inv) (auto simp: Let_def row_simps intro!: grows_update)

lemma grows_deps_ok: "grows d d' \<Longrightarrow> deps_ok d \<Longrightarrow> deps_ok d'"
  using deps_ok_cong by (auto simp: grows_def)

lemma delete_issue_deps_ok:
  assumes "delete_issue repo n (fs, d) = (res, (fs', d'))" and "issues_ok d" and "deps_ok d"
  shows "deps_ok d'"
proof (cases res)
  case (Inl e)
  with delete_issue_cases [OF assms(1)] assms(3) show ?thesis by simp
next
  case (Inr u)
  with delete_issue_cases [OF assms(1)] obtain r where
    r: "select_issue repo n d = Some r" and d': "d' = without_issue r d" by auto
  have at: "i_repo r = repo" "i_number r = n" using select_issue_at [OF r] by auto
  have "issue_exists s m d'" if "issue_exists s m d" "(s, m) \<noteq> (repo, n)" for s m
    using that select_without [OF assms(2) r] by (auto simp: select_issue_exists d')
  moreover have "set (rows (issue_dependencies d')) =
      {e \<in> set (rows (issue_dependencies d)). \<not> (d_repo e = repo \<and> (d_issue e = n \<or> d_on e = n))}"
    by (auto simp: d' without_issue_def row_simps at)
  ultimately show ?thesis
    using assms(3) by (intro deps_ok_fewer [of d' d]) (auto simp: deps_ok_def)
qed

inductive graph_step :: "db \<Rightarrow> db \<Rightarrow> bool" where
  graph_issue: "issue_step d d' \<Longrightarrow> graph_step d d'"
| graph_add: "add_dependency repo n m (fs, d) = (u, (fs', d')) \<Longrightarrow> graph_step d d'"
| graph_remove: "remove_dependency repo n m (fs, d) = (u, (fs', d')) \<Longrightarrow> graph_step d d'"

lemma issue_step_deps_ok:
  assumes "issue_step d d'" and "issues_ok d" and "deps_ok d"
  shows "deps_ok d'"
  using assms(1)
proof (cases rule: issue_step.cases)
  case 1
  with keepsD [OF create_issue_grows] assms(3) show ?thesis by (blast intro: grows_deps_ok)
next
  case 2
  with delete_issue_deps_ok assms show ?thesis by blast
next
  case 3
  with keepsD [OF update_issue_grows] assms(3) show ?thesis by (blast intro: grows_deps_ok)
next
  case 4
  with keepsD [OF claim_grows] assms(3) show ?thesis by (blast intro: grows_deps_ok)
next
  case 5
  with keepsD [OF unclaim_grows] assms(3) show ?thesis by (blast intro: grows_deps_ok)
next
  case 6
  with keepsD [OF expire_grows] assms(3) show ?thesis by (blast intro: grows_deps_ok)
next
  case (7 t)
  with assms(3) show ?thesis by (auto simp: deps_ok_def dep_edges_def issue_exists_def)
qed

lemma add_dependency_issues: "keeps (\<lambda>d'. issues d' = issues d) d (add_dependency repo n m)"
  unfolding add_dependency_def
  by (intro keeps_inv bind_reaches_keeps) (auto dest: insert_dep_rows intro: keeps_inv)

lemma remove_dependency_issues: "keeps (\<lambda>d'. issues d' = issues d) d (remove_dependency repo n m)"
  unfolding remove_dependency_def by (intro keeps_inv) (auto simp: delete_dep_def)

lemma graph_step_ok:
  assumes "graph_step d d'" and "issues_ok d \<and> deps_ok d"
  shows "issues_ok d' \<and> deps_ok d'"
  using assms(1)
proof cases
  case graph_issue
  with assms(2) issue_step_ok issue_step_deps_ok show ?thesis by blast
next
  case graph_add
  then have "issues d' = issues d" by (rule keepsD [OF add_dependency_issues])
  moreover have "deps_ok d'"
    using assms(2) graph_add by (blast intro: keepsD [OF add_dependency_keeps])
  ultimately show ?thesis using assms(2) issues_ok_cong by blast
next
  case graph_remove
  then have "issues d' = issues d" by (rule keepsD [OF remove_dependency_issues])
  moreover have "deps_ok d'"
    using assms(2) graph_remove by (blast intro: keepsD [OF remove_dependency_keeps])
  ultimately show ?thesis using assms(2) issues_ok_cong by blast
qed

lemma graph_reach_ok:
  "graph_step\<^sup>*\<^sup>* d0 d \<Longrightarrow> issues_ok d0 \<and> deps_ok d0 \<Longrightarrow> issues_ok d \<and> deps_ok d"
  by (induction rule: rtranclp_induct) (blast dest: graph_step_ok)+

lemma fresh_ok:
  "issues d = empty_table \<Longrightarrow> issue_dependencies d = empty_table \<Longrightarrow> issues_ok d \<and> deps_ok d"
  by (simp add: issues_ok_def numbered_ok_def empty_table_def ids_ok_def deps_ok_def dep_edges_def acyclic_def)

text \<open>C4: However issue and dependency operations interleave, and whatever statement of them fails, the
  depends-on graph of every repository stays acyclic and no edge dangles: both its issues exist.\<close>

theorem dependency_graph_invariant:
  assumes "issues d0 = empty_table" and "issue_dependencies d0 = empty_table"
    and "graph_step\<^sup>*\<^sup>* d0 d"
  shows "acyclic (dep_edges repo d) \<and>
    (e \<in> set (rows (issue_dependencies d)) \<longrightarrow>
       issue_exists (d_repo e) (d_issue e) d \<and> issue_exists (d_repo e) (d_on e) d)"
  using graph_reach_ok [OF assms(3) fresh_ok [OF assms(1,2)]] by (auto simp: deps_ok_def)

definition demo_two :: db where
  "demo_two = snd (snd (create_issue 1 demo_req ([], demo_first)))"

definition demo_edge :: db where
  "demo_edge = snd (snd (add_dependency 1 1 2 ([], demo_two)))"

lemma create_step: "issue_step d (snd (snd (create_issue repo req (fs, d))))"
  by (rule issue_step.intros(1)) (simp add: prod_eq_iff)

lemma add_dep_step: "graph_step d (snd (snd (add_dependency repo n m (fs, d))))"
  by (rule graph_add) (simp add: prod_eq_iff)

lemma demo_edge_reached: "graph_step\<^sup>*\<^sup>* demo_fresh demo_edge"
proof -
  have "graph_step demo_fresh demo_first"
    unfolding demo_first_def by (intro graph_issue create_step)
  moreover have "graph_step demo_first demo_two"
    unfolding demo_two_def by (intro graph_issue create_step)
  moreover have "graph_step demo_two demo_edge"
    unfolding demo_edge_def by (rule add_dep_step)
  ultimately show ?thesis by (meson rtranclp.rtrancl_refl rtranclp.rtrancl_into_rtrancl)
qed

theorem dependency_graph_invariant_witness:
  "acyclic (dep_edges 1 demo_edge) \<and> issue_exists 1 1 demo_edge \<and> issue_exists 1 2 demo_edge"
proof -
  have "hd (rows (issue_dependencies demo_edge)) \<in> set (rows (issue_dependencies demo_edge)) \<and>
      d_repo (hd (rows (issue_dependencies demo_edge))) = 1 \<and>
      d_issue (hd (rows (issue_dependencies demo_edge))) = 1 \<and>
      d_on (hd (rows (issue_dependencies demo_edge))) = 2" by code_simp
  then show ?thesis
    using dependency_graph_invariant [OF _ _ demo_edge_reached, of 1 "hd (rows (issue_dependencies demo_edge))"]
    by (simp add: demo_fresh_def demo_issues_def empty_db_def)
qed

text \<open>On a healthy engine \<open>AddDependency\<close> refuses a self edge, a missing issue and an edge that
  would close a cycle, each with its own error and without a change, and otherwise the edge is in
  the graph afterwards, once, and no other edge changed. \<open>RemoveDependency\<close> takes it out again.\<close>

theorem add_dependency_spec:
  assumes "repo_exists repo d"
  shows "\<exists>res d'. add_dependency repo n m ([], d) = (res, ([], d')) \<and>
    (if n = m then res = Inl ErrSelfDependency \<and> d' = d
     else if \<not> (issue_exists repo n d \<and> issue_exists repo m d) then res = Inl ErrInvalidInput \<and> d' = d
     else if (m, n) \<in> (dep_edges repo d)\<^sup>* then res = Inl ErrDependencyCycle \<and> d' = d
     else res = Inr () \<and> dep_edges repo d' = insert (n, m) (dep_edges repo d) \<and>
       (\<forall>s. s \<noteq> repo \<longrightarrow> dep_edges s d' = dep_edges s d) \<and>
       remove_dependency repo n m ([], d') = (Inr (), ([], snd (delete_dep repo n m d'))) \<and>
       dep_edges repo (snd (delete_dep repo n m d')) = dep_edges repo d - {(n, m)})"
proof -
  have del: "dep_edges s (snd (delete_dep repo n m x)) = (if s = repo then dep_edges s x - {(n, m)} else dep_edges s x)" for s x
    by (auto simp: delete_dep_def dep_edges_def row_simps dep_at_def)
  have ins: "fst (insert_dep repo n m d) = Inr ()"
    using assms by (simp add: insert_dep_def)
  then have edges: "dep_edges s (snd (insert_dep repo n m d)) =
      (if s = repo then insert (n, m) (dep_edges s d) else dep_edges s d)" for s
    by (intro insert_dep_edges [of repo n m d "()"]) (simp add: prod_eq_iff)
  have rem: "remove_dependency repo n m ([], x) = (Inr (), ([], snd (delete_dep repo n m x)))" for x
    by (simp add: remove_dependency_def delete_dep_def)
  have run: "add_dependency repo n m ([], d) =
      (if n = m then (Inl ErrSelfDependency, ([], d))
       else if \<not> (issue_exists repo n d \<and> issue_exists repo m d) then (Inl ErrInvalidInput, ([], d))
       else if (m, n) \<in> (dep_edges repo d)\<^sup>* then (Inl ErrDependencyCycle, ([], d))
       else (Inr (), ([], snd (insert_dep repo n m d))))"
    using reaches_healthy [of n m repo d] ins
    by (cases "insert_dep repo n m d")
       (auto simp: add_dependency_def bind_def simp del: depends_on_reaches.simps)
  show ?thesis
    unfolding run by (auto simp: edges del rem)
qed

theorem add_dependency_spec_witness:
  "\<exists>res d'. add_dependency 1 2 1 ([], demo_edge) = (res, ([], d')) \<and>
    (if (2 :: int) = 1 then res = Inl ErrSelfDependency \<and> d' = demo_edge
     else if \<not> (issue_exists 1 2 demo_edge \<and> issue_exists 1 1 demo_edge) then res = Inl ErrInvalidInput \<and> d' = demo_edge
     else if (1, 2) \<in> (dep_edges 1 demo_edge)\<^sup>* then res = Inl ErrDependencyCycle \<and> d' = demo_edge
     else res = Inr () \<and> dep_edges 1 d' = insert (2, 1) (dep_edges 1 demo_edge) \<and>
       (\<forall>s. s \<noteq> 1 \<longrightarrow> dep_edges s d' = dep_edges s demo_edge) \<and>
       remove_dependency 1 2 1 ([], d') = (Inr (), ([], snd (delete_dep 1 2 1 d'))) \<and>
       dep_edges 1 (snd (delete_dep 1 2 1 d')) = dep_edges 1 demo_edge - {(2, 1)})"
  by (rule add_dependency_spec) code_simp

end
