(* ===== verification/GoText.thy ===== *)
theory GoText imports Prelude begin

text \<open>
  The text functions of Go's standard library and of SQLite that the modelled code calls:
  \<open>strings.Fields\<close>, \<open>strings.TrimSpace\<close>, \<open>strconv.Itoa\<close> and SQLite's LIKE operator, on byte strings.
  White space is Unicode's, as in Go, recognised by its UTF-8 encoding; no text holds a NUL byte.
\<close>

section \<open>White space\<close>

text \<open>The width in bytes of the white space at the head of a string, 0 when there is none.\<close>

fun space_width :: "string \<Rightarrow> nat" where
  "space_width [] = 0"
| "space_width (c # s) =
     (let b = (\<lambda>i. of_char (s ! i) :: nat); n = of_char c :: nat in
      if n \<in> {9, 10, 11, 12, 13, 32} then 1
      else if n = 0xC2 \<and> s \<noteq> [] \<and> b 0 \<in> {0x85, 0xA0} then 2
      else if 2 \<le> length s \<and>
              (n = 0xE1 \<and> b 0 = 0x9A \<and> b 1 = 0x80
               \<or> n = 0xE2 \<and> b 0 = 0x80 \<and> (0x80 \<le> b 1 \<and> b 1 \<le> 0x8A \<or> b 1 \<in> {0xA8, 0xA9, 0xAF})
               \<or> n = 0xE2 \<and> b 0 = 0x81 \<and> b 1 = 0x9F
               \<or> n = 0xE3 \<and> b 0 = 0x80 \<and> b 1 = 0x80) then 3
      else 0)"

text \<open>\<open>strings.Fields\<close>, with the field read so far in reverse.\<close>

function fields_go :: "string \<Rightarrow> string \<Rightarrow> string list" where
  "fields_go acc [] = (if acc = [] then [] else [rev acc])"
| "fields_go acc (c # s) =
     (if space_width (c # s) = 0 then fields_go (c # acc) s
      else (if acc = [] then [] else [rev acc]) @ fields_go [] (drop (space_width (c # s)) (c # s)))"
  by pat_completeness auto

termination by (relation "measure (\<lambda>(acc, s). length s)") auto

definition strings_fields :: "string \<Rightarrow> string list" where
  "strings_fields s = fields_go [] s"

lemma space_width_nonempty: "0 < space_width s \<Longrightarrow> s \<noteq> []"
  by (cases s) auto

text \<open>\<open>strings.TrimSpace\<close>: the white space runes at the head, then those at the end.\<close>

function trim_left :: "string \<Rightarrow> string" where
  "trim_left s = (if space_width s = 0 then s else trim_left (drop (space_width s) s))"
  by pat_completeness auto

termination by (relation "measure length") (auto intro!: diff_less dest: space_width_nonempty)

definition space_width_end :: "string \<Rightarrow> nat" where
  "space_width_end s =
     (case find (\<lambda>w. w \<le> length s \<and> space_width (drop (length s - w) s) = w) [1, 2, 3] of
        None \<Rightarrow> 0 | Some w \<Rightarrow> w)"

lemma space_width_end_nonempty: "0 < space_width_end s \<Longrightarrow> s \<noteq> []"
  by (auto simp: space_width_end_def split: option.splits dest!: find_SomeD)

function trim_right :: "string \<Rightarrow> string" where
  "trim_right s = (if space_width_end s = 0 then s else trim_right (take (length s - space_width_end s) s))"
  by pat_completeness auto

termination by (relation "measure length") (auto intro!: diff_less dest: space_width_end_nonempty)

declare trim_left.simps [simp del] trim_right.simps [simp del]

definition trim_space :: "string \<Rightarrow> string" where
  "trim_space s = trim_right (trim_left s)"

section \<open>Decimal numbers\<close>

fun digits :: "nat \<Rightarrow> string" where
  "digits n = (if n < 10 then [char_of (48 + n)] else digits (n div 10) @ [char_of (48 + n mod 10)])"

definition itoa :: "int \<Rightarrow> string" where
  "itoa i = (if i < 0 then CHR ''-'' # digits (nat (- i)) else digits (nat i))"

section \<open>LIKE\<close>

definition lower :: "char \<Rightarrow> char" where
  "lower c = (let n = of_char c :: nat in if 65 \<le> n \<and> n \<le> 90 then char_of (n + 32) else c)"

fun skip_utf8 :: "string \<Rightarrow> string" where
  "skip_utf8 [] = []"
| "skip_utf8 (c # s) =
     (if 0xC0 \<le> (of_char c :: nat)
      then dropWhile (\<lambda>x. 0x80 \<le> (of_char x :: nat) \<and> (of_char x :: nat) < 0xC0) s else s)"

text \<open>\<open>s LIKE p ESCAPE '\'\<close>.\<close>

function like :: "string \<Rightarrow> string \<Rightarrow> bool" where
  "like [] s = (s = [])"
| "like (p # ps) s =
     (if p = CHR ''%'' then like ps s \<or> (case s of [] \<Rightarrow> False | _ # s' \<Rightarrow> like (p # ps) s')
      else if p = CHR 0x5C then
        (case (ps, s) of (q # qs, c # s') \<Rightarrow> lower c = lower q \<and> like qs s' | _ \<Rightarrow> False)
      else (case s of [] \<Rightarrow> False
            | c # s' \<Rightarrow> if p = CHR ''_'' then like ps (skip_utf8 s) else lower c = lower p \<and> like ps s'))"
  by pat_completeness auto

termination by (relation "measures [\<lambda>(p, s). length p, \<lambda>(p, s). length s]") auto

lemma like_literal:
  "c \<noteq> CHR ''%'' \<Longrightarrow> c \<noteq> CHR 0x5C \<Longrightarrow> c \<noteq> CHR ''_'' \<Longrightarrow>
   like (c # ps) s \<longleftrightarrow> (\<exists>x s'. s = x # s' \<and> lower x = lower c \<and> like ps s')"
  by (cases s) simp_all

lemma like_quoted:
  "like (CHR 0x5C # q # qs) s \<longleftrightarrow> (\<exists>x s'. s = x # s' \<and> lower x = lower q \<and> like qs s')"
  by (cases s) simp_all

declare like.simps [simp del]

lemma like_percent: "like (CHR ''%'' # p) s \<longleftrightarrow> (\<exists>u v. s = u @ v \<and> like p v)"
proof (induction s)
  case Nil
  then show ?case by (simp add: like.simps)
next
  case (Cons c s)
  have "like (CHR ''%'' # p) (c # s) \<longleftrightarrow> like p (c # s) \<or> like (CHR ''%'' # p) s"
    by (simp add: like.simps(2))
  also have "\<dots> \<longleftrightarrow> like p (c # s) \<or> (\<exists>u v. s = u @ v \<and> like p v)" by (simp only: Cons.IH)
  also have "\<dots> \<longleftrightarrow> (\<exists>u v. c # s = u @ v \<and> like p v)"
    by (auto simp: Cons_eq_append_conv)
  finally show ?case .
qed

end
