(* ===== verification/Search.thy ===== *)
theory Search imports GoText begin

text \<open>
  The free-text search of \<open>internal/storage\<close>: the escaping of a search term and the LIKE pattern that is
  bound for it, shared by the issue and the pull request lists.
\<close>

fun like_escape :: "string \<Rightarrow> string" where
  "like_escape [] = []"
| "like_escape (c # s) =
     (if c = CHR 0x5C \<or> c = CHR ''%'' \<or> c = CHR ''_'' then CHR 0x5C # c # like_escape s
      else c # like_escape s)"

definition term_pattern :: "string \<Rightarrow> string" where
  "term_pattern t = ''%'' @ like_escape t @ ''%''"

lemma like_escaped:
  "like (like_escape t @ p) s \<longleftrightarrow> (\<exists>m s'. s = m @ s' \<and> map lower m = map lower t \<and> like p s')"
proof (induction t arbitrary: s)
  case Nil
  then show ?case by simp
next
  case (Cons c t)
  have "like (like_escape (c # t) @ p) s \<longleftrightarrow>
      (\<exists>x s'. s = x # s' \<and> lower x = lower c \<and> like (like_escape t @ p) s')"
    by (simp add: like_quoted like_literal)
  also have "\<dots> \<longleftrightarrow> (\<exists>m s'. s = m @ s' \<and> map lower m = map lower (c # t) \<and> like p s')"
    by (simp add: Cons.IH map_eq_Cons_conv) (metis append_Cons)
  finally show ?case .
qed

definition contains_ci :: "string \<Rightarrow> string \<Rightarrow> bool" where
  "contains_ci s t \<longleftrightarrow> (\<exists>u m v. s = u @ m @ v \<and> map lower m = map lower t)"

text \<open>The pattern \<open>ListIssues\<close> binds for a search term matches exactly the texts that contain the
  term as a substring, up to ASCII case: whatever wildcards and escape characters the term holds,
  they stand for themselves.\<close>

theorem like_pattern_is_substring: "like (term_pattern t) s \<longleftrightarrow> contains_ci s t"
proof -
  have "like ''%'' v" for v by (simp add: like_percent like.simps(1))
  then show ?thesis
    by (auto simp: term_pattern_def contains_ci_def like_percent like_escaped)
qed

end
