(* ===== verification/IssueList.thy ===== *)
theory IssueList imports Dependencies Search "HOL-Library.Product_Lexorder" "HOL-Library.Multiset" begin

text \<open>
  \<open>internal/storage/issues.go\<close>, the reading half: the free-text search and its LIKE patterns, the
  filters and computed views of \<open>ListIssues\<close>, paging and its agreement with \<open>CountIssues\<close>, the
  children of an epic. LIKE is SQLite's (no text holds a NUL byte); a query string is split as
  \<open>strings.Fields\<close> does, the multi-byte Unicode spaces included.
\<close>

section \<open>Search terms and LIKE\<close>

definition max_search_terms :: nat where
  "max_search_terms = 8"

definition search_terms :: "string \<Rightarrow> string list" where
  "search_terms q = take max_search_terms (strings_fields q)"

section \<open>Filters and views\<close>

datatype issue_sort = IssueSortNewest | IssueSortOldest | IssueSortRecentlyUpdated

record list_filter =
  lf_states :: "issue_state list"
  lf_assignee :: string
  lf_author :: string
  lf_query :: string
  lf_label :: string
  lf_sort :: "issue_sort option"
  lf_limit :: int
  lf_offset :: int
  lf_ready :: bool
  lf_blocked :: bool
  lf_epics :: bool

definition issue_filters :: "list_filter \<Rightarrow> issue_row \<Rightarrow> bool" where
  "issue_filters f r \<longleftrightarrow>
     (lf_states f \<noteq> [] \<longrightarrow> i_state r \<in> set (lf_states f)) \<and>
     (if lf_assignee f = ''null'' then i_assignee r = None
      else lf_assignee f \<noteq> '''' \<longrightarrow> i_assignee r = Some (lf_assignee f)) \<and>
     (lf_author f \<noteq> '''' \<longrightarrow> i_author r = lf_author f) \<and>
     (\<forall>t \<in> set (search_terms (lf_query f)).
        like (term_pattern t) (i_title r) \<or> like (term_pattern t) (i_body r)) \<and>
     (lf_label f \<noteq> '''' \<longrightarrow> lf_label f \<in> set (i_labels r))"

definition has_unmet_dep :: "db \<Rightarrow> issue_row \<Rightarrow> bool" where
  "has_unmet_dep d r \<longleftrightarrow>
     exists_where (\<lambda>e. d_repo e = i_repo r \<and> d_issue e = i_number r \<and>
       exists_where (\<lambda>t. i_repo t = d_repo e \<and> i_number t = d_on e \<and> \<not> issue_terminal (i_state t)) (issues d))
     (issue_dependencies d)"

definition is_epic :: "db \<Rightarrow> issue_row \<Rightarrow> bool" where
  "is_epic d r \<longleftrightarrow> exists_where (\<lambda>c. i_repo c = i_repo r \<and> i_parent c = Some (i_number r)) (issues d)"

definition ready_blocked_filters :: "list_filter \<Rightarrow> db \<Rightarrow> issue_row \<Rightarrow> bool" where
  "ready_blocked_filters f d r \<longleftrightarrow>
     (if lf_ready f then i_state r = IssueTodo \<and> i_assignee r = None \<and> \<not> is_epic d r \<and> \<not> has_unmet_dep d r
      else if lf_blocked f then i_state r = IssueTodo \<and> \<not> is_epic d r \<and> has_unmet_dep d r
      else True) \<and>
     (lf_epics f \<longrightarrow> is_epic d r)"

definition issue_matches :: "int \<Rightarrow> list_filter \<Rightarrow> db \<Rightarrow> issue_row \<Rightarrow> bool" where
  "issue_matches repo f d r \<longleftrightarrow> i_repo r = repo \<and> issue_filters f r \<and> ready_blocked_filters f d r"

section \<open>Ordering and paging\<close>

definition title_hits :: "string \<Rightarrow> issue_row \<Rightarrow> int" where
  "title_hits q r = int (length (filter (\<lambda>t. like (term_pattern t) (i_title r)) (search_terms q)))"

text \<open>The columns of ORDER BY; those sorted descending are negated.\<close>

definition issue_order :: "list_filter \<Rightarrow> issue_row \<Rightarrow> int \<times> int" where
  "issue_order f r = (case lf_sort f of
       None \<Rightarrow> (- title_hits (lf_query f) r, - i_number r)
     | Some IssueSortNewest \<Rightarrow> (0, - i_number r)
     | Some IssueSortOldest \<Rightarrow> (0, i_number r)
     | Some IssueSortRecentlyUpdated \<Rightarrow> (- i_updated r, - i_number r))"

definition page_limit :: "list_filter \<Rightarrow> int" where
  "page_limit f = (let l = (if lf_limit f \<le> 0 then 100 else lf_limit f) in if 1000 < l then 1000 else l)"

definition page :: "list_filter \<Rightarrow> 'a list \<Rightarrow> 'a list" where
  "page f xs = take (nat (page_limit f)) (if 0 < lf_offset f then drop (nat (lf_offset f)) xs else xs)"

definition list_issues :: "int \<Rightarrow> list_filter \<Rightarrow> (db, issue list) dbm" where
  "list_issues repo f = query (\<lambda>d.
     page f (map scan_issue (sort_key (issue_order f) (select_where (issue_matches repo f d) (issues d))))) ok"

definition count_issues :: "int \<Rightarrow> list_filter \<Rightarrow> (db, int) dbm" where
  "count_issues repo f = query (\<lambda>d. count_where (issue_matches repo f d) (issues d)) ok"

text \<open>The join with \<open>repos\<close> and \<open>users\<close> of the fleet-wide view: the issue with its owner's and
  repository's names.\<close>

definition issues_with_repo :: "list_filter \<Rightarrow> db \<Rightarrow> (issue_row \<times> string \<times> string) list" where
  "issues_with_repo f d =
     [(i, u_name u, r_name r). i \<leftarrow> rows (issues d), r \<leftarrow> rows (repos d), r_id r = i_repo i,
        u \<leftarrow> rows (users d), u_id u = r_owner r \<and> issue_filters f i]"

definition list_all_issues :: "list_filter \<Rightarrow> (db, (issue \<times> string \<times> string) list) dbm" where
  "list_all_issues f = query (\<lambda>d.
     page f (map (\<lambda>(i, o_r). (scan_issue i, o_r))
       (sort_key (\<lambda>(i, _). (- title_hits (lf_query f) i, - i_updated i, - i_id i)) (issues_with_repo f d)))) ok"

definition count_all_issues :: "list_filter \<Rightarrow> (db, int) dbm" where
  "count_all_issues f = query (\<lambda>d. int (length (issues_with_repo f d))) ok"

definition children :: "int \<Rightarrow> int \<Rightarrow> db \<Rightarrow> issue_row list" where
  "children repo n d = select_where (\<lambda>r. i_repo r = repo \<and> i_parent r = Some n) (issues d)"

definition list_children :: "int \<Rightarrow> int \<Rightarrow> (db, child_summary list) dbm" where
  "list_children repo n = query (\<lambda>d. map (\<lambda>r. \<lparr>ch_number = i_number r, ch_title = i_title r, ch_state = i_state r\<rparr>)
     (sort_key i_number (children repo n d))) ok"

definition progress_of :: "issue_row list \<Rightarrow> epic_progress" where
  "progress_of cs = \<lparr>ep_total = int (length cs), ep_done = int (length (filter (\<lambda>r. issue_terminal (i_state r)) cs))\<rparr>"

text \<open>\<open>GROUP BY parent_number\<close>: the keys of the groups.\<close>

definition parent_numbers :: "int \<Rightarrow> db \<Rightarrow> int list" where
  "parent_numbers repo d = concat (map (\<lambda>r. if i_repo r = repo then
     (case i_parent r of None \<Rightarrow> [] | Some p \<Rightarrow> [p]) else []) (rows (issues d)))"

definition child_progress :: "int \<Rightarrow> (db, int \<Rightarrow> epic_progress option) dbm" where
  "child_progress repo = query (\<lambda>d.
     map_of (map (\<lambda>p. (p, progress_of (children repo p d))) (remdups (parent_numbers repo d)))) ok"

section \<open>Pages\<close>

definition all_matches :: "int \<Rightarrow> list_filter \<Rightarrow> db \<Rightarrow> issue_row list" where
  "all_matches repo f d = sort_key (issue_order f) (filter (issue_matches repo f d) (rows (issues d)))"

lemma issue_matches_page [simp]:
  "issue_matches repo (f\<lparr>lf_limit := l, lf_offset := k\<rparr>) d = issue_matches repo f d"
  "issue_order (f\<lparr>lf_limit := l, lf_offset := k\<rparr>) = issue_order f"
  by (auto simp: issue_matches_def issue_filters_def ready_blocked_filters_def issue_order_def
      split: option.splits issue_sort.splits)

lemma concat_pages:
  "0 < l \<Longrightarrow> concat (map (\<lambda>k. take l (drop (k * l) xs)) [0..<n]) = take (n * l) xs"
  by (induction n) (simp_all add: take_add [symmetric] add.commute)

lemma list_issues_page:
  assumes "0 < l" and "l \<le> 1000"
  shows "list_issues repo (f\<lparr>lf_limit := int l, lf_offset := int (k * l)\<rparr>) ([], d) =
    (Inr (map scan_issue (take l (drop (k * l) (all_matches repo f d)))), ([], d))"
  using assms
  by (cases "k * l = 0")
     (auto simp: list_issues_def page_def page_limit_def all_matches_def select_where_def take_map drop_map
       nat_mult_distrib)

text \<open>\<open>CountIssues\<close> and the pages of \<open>ListIssues\<close> agree: under any filter, view and sort, the
  matching issues appear each exactly once, in the order of the sort, when consecutive pages are
  read one after the other, and the count is their number, so exactly the pages below it hold rows.\<close>

theorem list_issues_pages:
  assumes "0 < l" and "l \<le> 1000"
  shows "\<exists>all. count_issues repo f ([], d) = (Inr (int (length all)), ([], d)) \<and>
    mset all = mset (filter (issue_matches repo f d) (rows (issues d))) \<and>
    sorted (map (issue_order f) all) \<and>
    (\<forall>k. list_issues repo (f\<lparr>lf_limit := int l, lf_offset := int (k * l)\<rparr>) ([], d) =
      (Inr (map scan_issue (take l (drop (k * l) all))), ([], d))) \<and>
    concat (map (\<lambda>k. take l (drop (k * l) all)) [0..<length all div l + 1]) = all"
proof (intro exI [of _ "all_matches repo f d"] conjI allI)
  show "count_issues repo f ([], d) = (Inr (int (length (all_matches repo f d))), ([], d))"
    by (simp add: count_issues_def count_where_def all_matches_def)
  show "list_issues repo (f\<lparr>lf_limit := int l, lf_offset := int (k * l)\<rparr>) ([], d) =
      (Inr (map scan_issue (take l (drop (k * l) (all_matches repo f d)))), ([], d))" for k
    by (rule list_issues_page [OF assms])
  have "length (all_matches repo f d) \<le> (length (all_matches repo f d) div l + 1) * l"
    using assms(1) by (metis add.commute dividend_less_div_times less_imp_le mult.commute mult_Suc_right plus_1_eq_Suc)
  then show "concat (map (\<lambda>k. take l (drop (k * l) (all_matches repo f d)))
      [0..<length (all_matches repo f d) div l + 1]) = all_matches repo f d"
    by (subst concat_pages [OF assms(1)]) simp
qed (simp_all add: all_matches_def)

definition demo_filter :: list_filter where
  "demo_filter = \<lparr>lf_states = [], lf_assignee = '''', lf_author = '''', lf_query = ''t'', lf_label = '''',
     lf_sort = None, lf_limit = 0, lf_offset = 0, lf_ready = False, lf_blocked = False, lf_epics = False\<rparr>"

theorem list_issues_pages_witness:
  "\<exists>all. count_issues 1 demo_filter ([], demo_issues) = (Inr (int (length all)), ([], demo_issues)) \<and>
    mset all = mset (filter (issue_matches 1 demo_filter demo_issues) (rows (issues demo_issues))) \<and>
    sorted (map (issue_order demo_filter) all) \<and>
    (\<forall>k. list_issues 1 (demo_filter\<lparr>lf_limit := int 2, lf_offset := int (k * 2)\<rparr>) ([], demo_issues) =
      (Inr (map scan_issue (take 2 (drop (k * 2) all))), ([], demo_issues))) \<and>
    concat (map (\<lambda>k. take 2 (drop (k * 2) all)) [0..<length all div 2 + 1]) = all"
  by (rule list_issues_pages) simp_all

section \<open>Work is never stuck\<close>

definition unfinished :: "int \<Rightarrow> db \<Rightarrow> issue_row set" where
  "unfinished repo d = {r \<in> set (rows (issues d)). i_repo r = repo \<and> \<not> issue_terminal (i_state r)}"

lemma has_unmet_dep_iff:
  assumes "i_repo r = repo"
  shows "has_unmet_dep d r \<longleftrightarrow> (\<exists>t \<in> unfinished repo d. (i_number r, i_number t) \<in> dep_edges repo d)"
  using assms by (auto simp: has_unmet_dep_def exists_where_iff unfinished_def dep_edges_def) metis+

lemma finite_edges: "finite (dep_edges repo d)"
  by (rule finite_subset [of _ "(\<lambda>e. (d_issue e, d_on e)) ` set (rows (issue_dependencies d))"])
     (auto simp: dep_edges_def)

text \<open>A dependency chain ends, so the first unfinished issue on it has its dependencies met.\<close>

lemma some_unblocked:
  assumes "issues_ok d" and "deps_ok d" and "unfinished repo d \<noteq> {}"
  shows "\<exists>r \<in> unfinished repo d. \<not> has_unmet_dep d r"
proof -
  have "wf ((dep_edges repo d)\<inverse>)"
    using assms(2) finite_edges by (auto simp: deps_ok_def intro: finite_acyclic_wf_converse)
  moreover obtain n where "n \<in> i_number ` unfinished repo d" using assms(3) by auto
  ultimately obtain m where m: "m \<in> i_number ` unfinished repo d"
    "\<And>k. (k, m) \<in> (dep_edges repo d)\<inverse> \<Longrightarrow> k \<notin> i_number ` unfinished repo d"
    by (metis wfE_min)
  then obtain r where r: "r \<in> unfinished repo d" "i_number r = m" by auto
  moreover have "i_repo r = repo" using r(1) by (simp add: unfinished_def)
  ultimately show ?thesis using m(2) has_unmet_dep_iff [of r repo d] by blast
qed

definition ready_filter :: list_filter where
  "ready_filter = demo_filter\<lparr>lf_query := '''', lf_ready := True\<rparr>"

text \<open>The issues that can be worked on: unclaimed, \<open>todo\<close>, no children, nothing unfinished that they depend on.\<close>

definition ready_issues :: "int \<Rightarrow> db \<Rightarrow> issue_row set" where
  "ready_issues repo d = {r \<in> set (rows (issues d)). i_repo r = repo \<and> i_state r = IssueTodo \<and> i_assignee r = None \<and>
     (\<forall>c \<in> set (rows (issues d)). i_repo c = repo \<longrightarrow> i_parent c \<noteq> Some (i_number r)) \<and>
     (\<forall>t \<in> set (rows (issues d)). i_repo t = repo \<longrightarrow> (i_number r, i_number t) \<in> dep_edges repo d \<longrightarrow> issue_terminal (i_state t))}"

lemma ready_matches:
  assumes "r \<in> set (rows (issues d))"
  shows "issue_matches repo ready_filter d r \<longleftrightarrow> r \<in> ready_issues repo d"
proof -
  have [simp]: "search_terms [] = []"
    by (simp add: search_terms_def strings_fields_def)
  have "issue_matches repo ready_filter d r \<longleftrightarrow> i_repo r = repo \<and> i_state r = IssueTodo \<and>
      i_assignee r = None \<and> \<not> is_epic d r \<and> \<not> has_unmet_dep d r"
    by (auto simp: issue_matches_def ready_filter_def demo_filter_def issue_filters_def
        ready_blocked_filters_def)
  moreover have "is_epic d r \<longleftrightarrow> (\<exists>c \<in> set (rows (issues d)). i_repo c = repo \<and> i_parent c = Some (i_number r))"
    if "i_repo r = repo" using that by (auto simp: is_epic_def exists_where_iff)
  moreover have "has_unmet_dep d r \<longleftrightarrow> (\<exists>t \<in> set (rows (issues d)). i_repo t = repo \<and>
      (i_number r, i_number t) \<in> dep_edges repo d \<and> \<not> issue_terminal (i_state t))"
    if "i_repo r = repo" unfolding has_unmet_dep_iff [OF that] unfinished_def by blast
  ultimately show ?thesis using assms by (auto simp: ready_issues_def)
qed

text \<open>Rows of one repository sorted by a key that orders the numbers downwards have them strictly falling.\<close>

lemma sorted_numbers_fall:
  assumes "issues_ok d" and "\<And>r. key r = (0 :: int, - i_number r)"
  shows "sorted_wrt (\<lambda>x y. i_number y < i_number x) (sort_key key (filter (\<lambda>r. i_repo r = repo \<and> P r) (rows (issues d))))"
    (is "sorted_wrt _ ?l")
proof -
  let ?xs = "filter (\<lambda>r. i_repo r = repo \<and> P r) (rows (issues d))"
  have num: "distinct (map (\<lambda>r. (i_repo r, i_number r)) (rows (issues d)))"
    using assms(1) by (simp add: issues_ok_def numbered_ok_def)
  then have inj: "inj_on (\<lambda>r. (i_repo r, i_number r)) (set (rows (issues d)))" and dist: "distinct ?xs"
    unfolding distinct_map by (blast, blast intro: distinct_filter)
  have "x = y" if "x \<in> set ?xs" "y \<in> set ?xs" "i_number x = i_number y" for x y
    using that inj_onD [OF inj, of x y] by simp
  moreover have "distinct ?l" using dist by simp
  ultimately have ne: "i_number (?l ! i) \<noteq> i_number (?l ! j)" if "i < j" "j < length ?l" for i j
    using that nth_eq_iff_index_eq [of ?l i j] nth_mem [of i ?l] nth_mem [of j ?l] unfolding set_sort by force
  have "sorted_wrt (\<lambda>x y. key x \<le> key y) ?l" using sorted_sort_key [of key ?xs] by (simp only: sorted_map)
  then have le: "i_number (?l ! j) \<le> i_number (?l ! i)" if "i < j" "j < length ?l" for i j
    using that by (force simp: sorted_wrt_iff_nth_less assms(2))
  show ?thesis
    unfolding sorted_wrt_iff_nth_less
  proof (intro allI impI)
    fix i j
    assume "i < j" "j < length ?l"
    from ne [OF this] le [OF this] show "i_number (?l ! j) < i_number (?l ! i)" by linarith
  qed
qed

lemma take_falling:
  assumes "sorted_wrt (\<lambda>x y. i_number y < i_number x) xs" and "r \<in> set xs" and "r \<notin> set (take n xs)"
  shows "length (take n xs) = n \<and> (\<forall>x \<in> set (take n xs). i_number r < i_number x)"
proof -
  have "xs = take n xs @ drop n xs" by simp
  then have "r \<in> set (drop n xs)" using assms(2,3) by (metis Un_iff set_append)
  moreover from this have "n \<le> length xs" by (cases "n \<le> length xs") auto
  ultimately show ?thesis
    using assms(1) sorted_wrt_append [of "\<lambda>x y. i_number y < i_number x" "take n xs" "drop n xs"] by auto
qed

text \<open>C5: Work is never stuck on dependencies. In every state the issue operations reach, the ready view (with no
  other filter and the default limit of 100) lists ready issues only, the unclaimed \<open>todo\<close> issues without
  children whose dependencies are all done or closed, newest number first and each once; one it leaves
  out has a lower number than the 100 it lists; and as long as a repository has unfinished issues and all of these are
  unclaimed \<open>todo\<close> leaves, the list is not empty.\<close>

theorem ready_list_nonempty:
  assumes "issues d0 = empty_table" and "issue_dependencies d0 = empty_table" and "graph_step\<^sup>*\<^sup>* d0 d"
  shows "\<exists>out. list_issues repo ready_filter ([], d) = (Inr (map scan_issue out), ([], d)) \<and>
    set out \<subseteq> ready_issues repo d \<and> sorted_wrt (\<lambda>x y. i_number y < i_number x) out \<and>
    (\<forall>r \<in> ready_issues repo d. r \<in> set out \<or> length out = 100 \<and> (\<forall>x \<in> set out. i_number r < i_number x)) \<and>
    (unfinished repo d \<noteq> {} \<and> (\<forall>r \<in> unfinished repo d. i_state r = IssueTodo \<and> i_assignee r = None \<and> \<not> is_epic d r) \<longrightarrow> out \<noteq> [])"
proof -
  note inv = graph_reach_ok [OF assms(3) fresh_ok [OF assms(1,2)]]
  let ?all = "all_matches repo ready_filter d"
  have [simp]: "search_terms [] = []"
    by (simp add: search_terms_def strings_fields_def)
  have set: "set ?all = ready_issues repo d"
    using ready_matches [of _ d repo] by (auto simp: all_matches_def ready_issues_def)
  have falls: "sorted_wrt (\<lambda>x y. i_number y < i_number x) ?all"
  proof -
    have "filter (issue_matches repo ready_filter d) (rows (issues d)) =
        filter (\<lambda>r. i_repo r = repo \<and> issue_matches repo ready_filter d r) (rows (issues d))"
      by (rule filter_cong) (auto simp: issue_matches_def)
    then show ?thesis
      using inv sorted_numbers_fall [of d "issue_order ready_filter" repo "issue_matches repo ready_filter d"]
      by (simp add: all_matches_def issue_order_def ready_filter_def demo_filter_def title_hits_def)
  qed
  have list: "list_issues repo ready_filter ([], d) = (Inr (map scan_issue (take 100 ?all)), ([], d))"
    by (simp add: list_issues_def page_def page_limit_def all_matches_def select_where_def
        ready_filter_def demo_filter_def take_map)
  have work: "take 100 ?all \<noteq> []"
    if todo: "unfinished repo d \<noteq> {}" "\<forall>r \<in> unfinished repo d. i_state r = IssueTodo \<and> i_assignee r = None \<and> \<not> is_epic d r"
  proof -
    obtain r where r: "r \<in> unfinished repo d" "\<not> has_unmet_dep d r"
      using some_unblocked inv todo(1) by blast
    then have in_d: "r \<in> set (rows (issues d))" "i_repo r = repo" by (simp_all add: unfinished_def)
    moreover have "i_state r = IssueTodo" "i_assignee r = None" "\<not> is_epic d r" using todo(2) r(1) by blast+
    ultimately have "issue_matches repo ready_filter d r"
      using r(2) by (simp add: issue_matches_def ready_filter_def demo_filter_def issue_filters_def ready_blocked_filters_def)
    with in_d(1) have "r \<in> set (filter (issue_matches repo ready_filter d) (rows (issues d)))" by simp
    then have "?all \<noteq> []" by (metis all_matches_def empty_iff empty_set set_sort)
    then show ?thesis by simp
  qed
  have "set (take 100 ?all) \<subseteq> ready_issues repo d" unfolding set [symmetric] by (rule set_take_subset)
  moreover have "sorted_wrt (\<lambda>x y. i_number y < i_number x) (take 100 ?all)" using falls by (rule sorted_wrt_take)
  moreover have "r \<in> set (take 100 ?all) \<or> length (take 100 ?all) = 100 \<and> (\<forall>x \<in> set (take 100 ?all). i_number r < i_number x)"
    if "r \<in> ready_issues repo d" for r
    using take_falling [OF falls, of r 100] that set by blast
  ultimately show ?thesis using list work by blast
qed

theorem ready_list_nonempty_witness:
  "\<exists>out. list_issues 1 ready_filter ([], demo_edge) = (Inr (map scan_issue out), ([], demo_edge)) \<and>
    set out \<subseteq> ready_issues 1 demo_edge \<and> out \<noteq> []"
proof -
  have fresh: "issues demo_fresh = empty_table" "issue_dependencies demo_fresh = empty_table"
    by (simp_all add: demo_fresh_def demo_issues_def empty_db_def)
  have "rows (issues demo_edge) \<noteq> [] \<and> (\<forall>r \<in> set (rows (issues demo_edge)). i_repo r = 1 \<and>
      i_state r = IssueTodo \<and> i_assignee r = None \<and> \<not> is_epic demo_edge r)" by code_simp
  then have "unfinished 1 demo_edge \<noteq> {}"
    and "\<forall>r \<in> unfinished 1 demo_edge. i_state r = IssueTodo \<and> i_assignee r = None \<and> \<not> is_epic demo_edge r"
    by (auto simp: unfinished_def issue_terminal_def neq_Nil_conv)
  with ready_list_nonempty [OF fresh demo_edge_reached, of 1] show ?thesis by blast
qed

section \<open>Epics\<close>

text \<open>The progress \<open>ChildProgress\<close> reports for an issue, present exactly for epics, counts the
  children \<open>ListChildren\<close> lists and those of them that are done or closed.\<close>

theorem child_progress_spec:
  "\<exists>prog. child_progress repo ([], d) = (Inr prog, ([], d)) \<and>
    (\<forall>n. (prog n \<noteq> None) = (\<exists>r \<in> set (rows (issues d)). i_repo r = repo \<and> i_parent r = Some n)) \<and>
    (\<forall>n. \<exists>cs. list_children repo n ([], d) = (Inr cs, ([], d)) \<and>
      (prog n = None \<and> cs = [] \<or>
       prog n = Some \<lparr>ep_total = int (length cs), ep_done = int (length (filter (\<lambda>c. issue_terminal (ch_state c)) cs))\<rparr>))"
proof -
  let ?ps = "remdups (parent_numbers repo d)"
  let ?prog = "map_of (map (\<lambda>p. (p, progress_of (children repo p d))) ?ps)"
  let ?cs = "\<lambda>n. map (\<lambda>r. \<lparr>ch_number = i_number r, ch_title = i_title r, ch_state = i_state r\<rparr>)
     (sort_key i_number (children repo n d))"
  have parents: "n \<in> set ?ps \<longleftrightarrow> (\<exists>r \<in> set (rows (issues d)). i_repo r = repo \<and> i_parent r = Some n)" for n
    unfolding parent_numbers_def set_remdups set_concat set_map
    by (auto split: if_splits option.splits intro!: bexI)
  have prog: "map_of (map (\<lambda>p. (p, g p)) ps) n = (if n \<in> set ps then Some (g n) else None)" for g ps n
    by (induction ps) auto
  have none: "children repo n d = [] \<longleftrightarrow> n \<notin> set ?ps" for n
    unfolding parents by (auto simp: children_def select_where_def filter_empty_conv)
  have fin: "length (filter (\<lambda>c. issue_terminal (ch_state c)) (?cs n)) =
      length (filter (\<lambda>r. issue_terminal (i_state r)) (children repo n d))" for n
    by (simp add: filter_map comp_def filter_sort)
  show ?thesis
  proof (intro exI [of _ ?prog] conjI allI)
    fix n
    show "(?prog n \<noteq> None) = (\<exists>r \<in> set (rows (issues d)). i_repo r = repo \<and> i_parent r = Some n)"
      using parents [of n] by (simp add: prog)
    show "\<exists>cs. list_children repo n ([], d) = (Inr cs, ([], d)) \<and>
      (?prog n = None \<and> cs = [] \<or>
       ?prog n = Some \<lparr>ep_total = int (length cs), ep_done = int (length (filter (\<lambda>c. issue_terminal (ch_state c)) cs))\<rparr>)"
      using fin [of n] none [of n]
      by (intro exI [of _ "?cs n"], cases "children repo n d = []")
         (simp_all add: list_children_def prog progress_of_def)
  qed (simp add: child_progress_def)
qed

end
