(* ===== verification/Runs.thy ===== *)
theory Runs imports IssueList begin

text \<open>
  \<open>internal/storage/ci.go\<close>: pipeline and agent runs and their jobs as a work queue in the database.
  Runs are enqueued, claimed under a lease, finished, reconciled after a restart and pruned; the
  rows of \<open>ci_runs\<close> and \<open>ci_jobs\<close> stand for the structs \<open>CIRun\<close> and \<open>CIJob\<close>, which \<open>scanRun\<close> and
  \<open>scanJob\<close> fill column by column. The turns of agent runs are in \<open>Turns\<close>.
\<close>

section \<open>Statuses and kinds\<close>

fun run_terminal :: "run_status \<Rightarrow> bool" where
  "run_terminal RunSuccess = True"
| "run_terminal RunFailed = True"
| "run_terminal RunCanceled = True"
| "run_terminal RunError = True"
| "run_terminal RunInterrupted = True"
| "run_terminal RunStalled = True"
| "run_terminal _ = False"

definition agent_run_kinds :: "run_kind list" where
  "agent_run_kinds = [RunKindAgent, RunKindSpecVerify]"

definition is_agent :: "run_kind \<Rightarrow> bool" where
  "is_agent k \<longleftrightarrow> k \<in> set agent_run_kinds"

definition default_execution_model :: string where
  "default_execution_model = ''claude-edit''"

definition default_tool_profile :: string where
  "default_tool_profile = ''full''"

definition valid_tool_profile :: "string \<Rightarrow> bool" where
  "valid_tool_profile p \<longleftrightarrow> p = ''full'' \<or> p = ''review''"

section \<open>Statements on the table\<close>

definition update_runs :: "(run_row \<Rightarrow> bool) \<Rightarrow> (run_row \<Rightarrow> run_row) \<Rightarrow> db \<Rightarrow> (db_error + int) \<times> db" where
  "update_runs P f d = (Inr (count_where P (ci_runs d)), d\<lparr>ci_runs := update_where P f (ci_runs d)\<rparr>)"

definition update_jobs :: "(job_row \<Rightarrow> bool) \<Rightarrow> (job_row \<Rightarrow> job_row) \<Rightarrow> db \<Rightarrow> (db_error + int) \<times> db" where
  "update_jobs P f d = (Inr (count_where P (ci_jobs d)), d\<lparr>ci_jobs := update_where P f (ci_jobs d)\<rparr>)"

definition update_turns :: "(turn_row \<Rightarrow> bool) \<Rightarrow> (turn_row \<Rightarrow> turn_row) \<Rightarrow> db \<Rightarrow> (db_error + int) \<times> db" where
  "update_turns P f d = (Inr (count_where P (agent_turns d)), d\<lparr>agent_turns := update_where P f (agent_turns d)\<rparr>)"

definition run_exists :: "int \<Rightarrow> db \<Rightarrow> bool" where
  "run_exists rid d = exists_where (\<lambda>r. ru_id r = rid) (ci_runs d)"

section \<open>Enqueue and read\<close>

record new_run =
  nr_kind :: "run_kind option"
  nr_issue :: "int option"
  nr_model :: string
  nr_profile :: string
  nr_spec :: string
  nr_sha :: string
  nr_msg :: string
  nr_author :: string
  nr_ref :: string
  nr_event :: string
  nr_trigger :: string

definition mk_run :: "new_run \<times> int \<Rightarrow> int \<Rightarrow> int \<Rightarrow> int \<Rightarrow> run_row" where
  "mk_run p repo n i = (case p of (r, t) \<Rightarrow>
     \<lparr>ru_id = i, ru_repo = repo, ru_number = n, ru_sha = nr_sha r, ru_ref = nr_ref r,
      ru_event = nr_event r, ru_trigger = nr_trigger r, ru_status = RunQueued, ru_claimed = None,
      ru_created = t, ru_started = None, ru_finished = None, ru_msg = nr_msg r, ru_author = nr_author r,
      ru_kind = (case nr_kind r of None \<Rightarrow> RunKindCI | Some k \<Rightarrow> k), ru_issue = nr_issue r,
      ru_model = (if nr_model r = '''' then default_execution_model else nr_model r),
      ru_profile = (if nr_profile r = '''' then default_tool_profile else nr_profile r),
      ru_spec = nr_spec r\<rparr>)"

definition run_at :: "int \<Rightarrow> int \<Rightarrow> run_row \<Rightarrow> bool" where
  "run_at repo n r \<longleftrightarrow> ru_repo r = repo \<and> ru_number r = n"

definition insert_run :: "int \<Rightarrow> int \<Rightarrow> new_run \<Rightarrow> db \<Rightarrow> (db_error + run_row) \<times> db" where
  "insert_run repo n nr d =
     (if \<not> repo_exists repo d then (Inl ErrForeignKey, d)
      else if exists_where (run_at repo n) (ci_runs d) then (Inl ErrUnique, d)
      else (let (r, t) = insert_row (mk_run (nr, now d) repo n) (ci_runs d)
            in (Inr r, d\<lparr>ci_runs := t\<rparr>)))"

definition enqueue_run :: "int \<Rightarrow> new_run \<Rightarrow> (db, run_row) dbm" where
  "enqueue_run repo nr =
     tx (query (\<lambda>d. next_number ru_repo ru_number repo (ci_runs d)) (\<lambda>n.
         exec (insert_run repo n nr) ok))"

definition get_run :: "int \<Rightarrow> int \<Rightarrow> (db, run_row) dbm" where
  "get_run repo n = query (\<lambda>d. select_one (run_at repo n) (ci_runs d)) (\<lambda>r.
     case r of None \<Rightarrow> err ErrNotFound | Some r \<Rightarrow> ok r)"

record run_filter =
  rf_kind :: "run_kind option"
  rf_statuses :: "run_status list"
  rf_query :: string
  rf_limit :: int

definition clamp_limit :: "run_filter \<Rightarrow> int" where
  "clamp_limit f = (if rf_limit f \<le> 0 then 100 else if 1000 < rf_limit f then 1000 else rf_limit f)"

definition run_filters :: "run_filter \<Rightarrow> run_row \<Rightarrow> bool" where
  "run_filters f r \<longleftrightarrow>
     (if rf_kind f = Some RunKindAgent then ru_kind r \<in> set agent_run_kinds
      else case rf_kind f of None \<Rightarrow> True | Some k \<Rightarrow> ru_kind r = k) \<and>
     (rf_statuses f \<noteq> [] \<longrightarrow> ru_status r \<in> set (rf_statuses f)) \<and>
     (rf_query f \<noteq> '''' \<longrightarrow>
        (let pat = term_pattern (rf_query f) in
         like pat (ru_msg r) \<or> like pat (ru_author r) \<or> like pat (ru_ref r) \<or> like pat (ru_trigger r)))"

definition list_runs :: "int \<Rightarrow> run_filter \<Rightarrow> (db, run_row list) dbm" where
  "list_runs repo f = query (\<lambda>d. take (nat (clamp_limit f))
     (sort_key (\<lambda>r. - ru_number r) (select_where (\<lambda>r. ru_repo r = repo \<and> run_filters f r) (ci_runs d)))) ok"

text \<open>The select list of \<open>ListAllRuns\<close> leaves \<open>spec_path\<close> out.\<close>

definition list_all_runs :: "run_filter \<Rightarrow> (db, (run_row \<times> string \<times> string) list) dbm" where
  "list_all_runs f = query (\<lambda>d. take (nat (clamp_limit f))
     (sort_key (\<lambda>(r, _). (- ru_created r, - ru_id r))
       [(r\<lparr>ru_spec := ''''\<rparr>, u_name u, r_name p). r \<leftarrow> rows (ci_runs d),
          p \<leftarrow> rows (repos d), r_id p = ru_repo r,
          u \<leftarrow> rows (users d), u_id u = r_owner p \<and> run_filters f r])) ok"

definition active_ci_run_ids_for_ref :: "int \<Rightarrow> string \<Rightarrow> (db, int list) dbm" where
  "active_ci_run_ids_for_ref repo ref = query (\<lambda>d. map ru_id (select_where (\<lambda>r. ru_repo r = repo \<and>
     ru_ref r = ref \<and> ru_kind r = RunKindCI \<and> ru_status r \<in> {RunQueued, RunRunning}) (ci_runs d))) ok"

definition count_active_runs :: "int \<Rightarrow> (db, int) dbm" where
  "count_active_runs repo = query (\<lambda>d. count_where (\<lambda>r. ru_repo r = repo \<and>
     ru_status r \<in> {RunQueued, RunRunning, RunAwaitingInput, RunFinishing}) (ci_runs d)) ok"

section \<open>Claiming under a lease\<close>

text \<open>
  The predicate both statements of \<open>ClaimNextRunOfKind\<close> and \<open>ClaimNextTurn\<close> carry: a row that waits,
  or one that is being worked on past its lease.
\<close>

definition may_take ::
  "('r \<Rightarrow> bool) \<Rightarrow> ('r \<Rightarrow> bool) \<Rightarrow> ('r \<Rightarrow> int option) \<Rightarrow> int \<Rightarrow> int \<Rightarrow> 'r \<Rightarrow> bool" where
  "may_take waiting busy claimed lease t r \<longleftrightarrow>
     waiting r \<or> (0 < lease \<and> busy r \<and>
       (case claimed r of None \<Rightarrow> False | Some c \<Rightarrow> c \<le> t - duration_seconds lease))"

definition run_waiting :: "run_kind \<Rightarrow> run_row \<Rightarrow> bool" where
  "run_waiting k r \<longleftrightarrow> ru_kind r = k \<and> ru_status r = RunQueued"

definition run_busy :: "run_kind \<Rightarrow> run_row \<Rightarrow> bool" where
  "run_busy k r \<longleftrightarrow> ru_kind r = k \<and> ru_status r = RunRunning"

definition run_claimable :: "run_kind \<Rightarrow> int \<Rightarrow> int \<Rightarrow> run_row \<Rightarrow> bool" where
  "run_claimable k = may_take (run_waiting k) (run_busy k) ru_claimed"

definition start_run :: "int \<Rightarrow> run_row \<Rightarrow> run_row" where
  "start_run t r = r\<lparr>ru_status := RunRunning, ru_claimed := Some t,
     ru_started := (case ru_started r of None \<Rightarrow> Some t | Some s \<Rightarrow> Some s)\<rparr>"

definition take_run :: "int \<Rightarrow> run_kind \<Rightarrow> int \<Rightarrow> db \<Rightarrow> (db_error + run_row option) \<times> db" where
  "take_run i k lease d =
     (let (r, t) = update_returning (\<lambda>r. ru_id r = i \<and> run_claimable k lease (now d) r) (start_run (now d)) (ci_runs d)
      in (Inr r, d\<lparr>ci_runs := t\<rparr>))"

definition claim_next_run_of_kind :: "run_kind \<Rightarrow> int \<Rightarrow> (db, run_row) dbm" where
  "claim_next_run_of_kind k lease =
     tx (query (\<lambda>d. select_one (run_claimable k lease (now d)) (ci_runs d)) (\<lambda>r.
       case r of
         None \<Rightarrow> err ErrNoRunQueued
       | Some r \<Rightarrow> exec (take_run (ru_id r) k lease) (\<lambda>r'.
           case r' of None \<Rightarrow> err ErrNoRunQueued | Some r' \<Rightarrow> ok r')))"

definition claim_next_run :: "int \<Rightarrow> (db, run_row) dbm" where
  "claim_next_run = claim_next_run_of_kind RunKindCI"

section \<open>Finishing, reconciling, pruning\<close>

definition end_run :: "run_status \<Rightarrow> int \<Rightarrow> run_row \<Rightarrow> run_row" where
  "end_run s t r = r\<lparr>ru_status := s, ru_finished := Some t\<rparr>"

definition finish_run :: "int \<Rightarrow> run_status \<Rightarrow> (db, unit) dbm" where
  "finish_run i s =
     (if \<not> run_terminal s then err ErrNotTerminal
      else exec (\<lambda>d. update_runs (\<lambda>r. ru_id r = i) (end_run s (now d)) d) affected)"

definition run_in_flight :: "run_status \<Rightarrow> bool" where
  "run_in_flight s \<longleftrightarrow> s \<in> {RunRunning, RunAwaitingInput, RunFinishing}"

definition orphan_run :: "db \<Rightarrow> int \<Rightarrow> bool" where
  "orphan_run d i \<longleftrightarrow> exists_where (\<lambda>r. ru_id r = i \<and> run_in_flight (ru_status r)) (ci_runs d)"

definition reconcile_orphan_runs :: "(db, int) dbm" where
  "reconcile_orphan_runs =
     tx (exec (\<lambda>d. update_jobs (\<lambda>j. j_status j \<in> {JobRunning, JobQueued} \<and> orphan_run d (j_run j))
                 (\<lambda>j. j\<lparr>j_status := JobInterrupted, j_finished := Some (now d)\<rparr>) d) (\<lambda>_.
         exec (\<lambda>d. update_turns (\<lambda>t. tn_status t \<in> {TurnPending, TurnRunning} \<and> orphan_run d (tn_run t))
                 (\<lambda>t. t\<lparr>tn_status := TurnError, tn_finished := Some (now d)\<rparr>) d) (\<lambda>_.
         exec (\<lambda>d. update_runs (\<lambda>r. run_in_flight (ru_status r)) (end_run RunInterrupted (now d)) d) ok)))"

record prunable_run =
  pr_owner :: string
  pr_repo :: string
  pr_number :: int

definition newer_runs :: "run_row \<Rightarrow> db \<Rightarrow> int" where
  "newer_runs r d = count_where (\<lambda>n. ru_repo n = ru_repo r \<and> ru_number r < ru_number n) (ci_runs d)"

definition prunable :: "int \<Rightarrow> db \<Rightarrow> run_row \<Rightarrow> bool" where
  "prunable keep d r \<longleftrightarrow>
     ru_status r \<in> {RunSuccess, RunFailed, RunCanceled, RunError} \<and> keep \<le> newer_runs r d"

definition prunable_runs :: "int \<Rightarrow> db \<Rightarrow> (int \<times> prunable_run) list" where
  "prunable_runs keep d =
     [(ru_id r, \<lparr>pr_owner = u_name u, pr_repo = r_name p, pr_number = ru_number r\<rparr>).
        r \<leftarrow> rows (ci_runs d), p \<leftarrow> rows (repos d), r_id p = ru_repo r,
        u \<leftarrow> rows (users d), u_id u = r_owner p \<and> prunable keep d r]"

definition delete_jobs_of :: "int \<Rightarrow> db \<Rightarrow> (db_error + unit) \<times> db" where
  "delete_jobs_of i d = (Inr (), d\<lparr>ci_jobs := delete_where (\<lambda>j. j_run j = i) (ci_jobs d)\<rparr>)"

text \<open>\<open>DELETE FROM ci_runs WHERE id = ?\<close> with the cascades on jobs and turns.\<close>

definition delete_run_row :: "int \<Rightarrow> db \<Rightarrow> (db_error + unit) \<times> db" where
  "delete_run_row i d = (Inr (), d\<lparr>ci_runs := delete_where (\<lambda>r. ru_id r = i) (ci_runs d),
     ci_jobs := delete_where (\<lambda>j. j_run j = i) (ci_jobs d),
     agent_turns := delete_where (\<lambda>t. tn_run t = i) (agent_turns d)\<rparr>)"

primrec delete_runs :: "int list \<Rightarrow> (db, unit) dbm" where
  "delete_runs [] = ok ()"
| "delete_runs (i # is) = exec (delete_jobs_of i) (\<lambda>_. exec (delete_run_row i) (\<lambda>_. delete_runs is))"

definition prune_runs :: "int \<Rightarrow> (db, prunable_run list) dbm" where
  "prune_runs keep =
     (if keep \<le> 0 then ok []
      else tx (query (prunable_runs keep) (\<lambda>ps.
        if ps = [] then ok []
        else bind (delete_runs (map fst ps)) (\<lambda>_. ok (map snd ps)))))"

section \<open>Jobs\<close>

definition job_at :: "int \<Rightarrow> string \<Rightarrow> job_row \<Rightarrow> bool" where
  "job_at run nm j \<longleftrightarrow> j_run j = run \<and> j_name j = nm"

definition reset_job :: "string list \<Rightarrow> job_row \<Rightarrow> job_row" where
  "reset_job needs j = j\<lparr>j_needs := needs, j_status := JobQueued, j_exit := None,
     j_started := None, j_finished := None\<rparr>"

definition upsert_job :: "int \<Rightarrow> string \<Rightarrow> string list \<Rightarrow> db \<Rightarrow> (db_error + job_row) \<times> db" where
  "upsert_job run nm needs d =
     (case select_one (job_at run nm) (ci_jobs d) of
        Some j \<Rightarrow> (Inr (reset_job needs j),
                   d\<lparr>ci_jobs := update_where (job_at run nm) (reset_job needs) (ci_jobs d)\<rparr>)
      | None \<Rightarrow>
          if \<not> run_exists run d then (Inl ErrForeignKey, d)
          else (let (j, t) = insert_row (\<lambda>i. \<lparr>j_id = i, j_run = run, j_name = nm, j_status = JobQueued,
                       j_exit = None, j_created = now d, j_started = None, j_finished = None,
                       j_needs = needs\<rparr>) (ci_jobs d)
                in (Inr j, d\<lparr>ci_jobs := t\<rparr>)))"

definition create_job :: "int \<Rightarrow> string \<Rightarrow> string list \<Rightarrow> (db, job_row) dbm" where
  "create_job run nm needs = exec (upsert_job run nm needs) ok"

definition start_job :: "int \<Rightarrow> (db, unit) dbm" where
  "start_job i = exec (\<lambda>d. update_jobs (\<lambda>j. j_id j = i)
     (\<lambda>j. j\<lparr>j_status := JobRunning, j_started := Some (now d)\<rparr>) d) affected"

definition finish_job :: "int \<Rightarrow> job_status \<Rightarrow> int option \<Rightarrow> (db, unit) dbm" where
  "finish_job i s code = exec (\<lambda>d. update_jobs (\<lambda>j. j_id j = i)
     (\<lambda>j. j\<lparr>j_status := s, j_exit := code, j_finished := Some (now d)\<rparr>) d) affected"

definition list_jobs :: "int \<Rightarrow> (db, job_row list) dbm" where
  "list_jobs run = query (\<lambda>d. select_where (\<lambda>j. j_run j = run) (ci_jobs d)) ok"

section \<open>Opt-in and schedules\<close>

definition repo_ci_enabled :: "int \<Rightarrow> (db, bool) dbm" where
  "repo_ci_enabled i = query (\<lambda>d. select_one (\<lambda>r. r_id r = i) (repos d)) (\<lambda>r.
     case r of None \<Rightarrow> err ErrNotFound | Some r \<Rightarrow> ok (r_ci_enabled r))"

definition update_repos :: "(repo_row \<Rightarrow> bool) \<Rightarrow> (repo_row \<Rightarrow> repo_row) \<Rightarrow> db \<Rightarrow> (db_error + int) \<times> db" where
  "update_repos P f d = (Inr (count_where P (repos d)), d\<lparr>repos := update_where P f (repos d)\<rparr>)"

definition set_repo_ci_enabled :: "int \<Rightarrow> bool \<Rightarrow> (db, unit) dbm" where
  "set_repo_ci_enabled i b = exec (update_repos (\<lambda>r. r_id r = i) (\<lambda>r. r\<lparr>r_ci_enabled := b\<rparr>)) affected"

definition delete_crons :: "(cron_row \<Rightarrow> bool) \<Rightarrow> db \<Rightarrow> (db_error + unit) \<times> db" where
  "delete_crons P d = (Inr (), d\<lparr>cron_schedules := delete_where P (cron_schedules d)\<rparr>)"

definition insert_cron :: "int \<Rightarrow> string \<Rightarrow> db \<Rightarrow> (db_error + unit) \<times> db" where
  "insert_cron repo e d =
     (if exists_where (\<lambda>c. cr_repo c = repo \<and> cr_expr c = e) (cron_schedules d) then (Inr (), d)
      else if \<not> repo_exists repo d then (Inl ErrForeignKey, d)
      else (Inr (), d\<lparr>cron_schedules := snd (insert_row (\<lambda>i.
             \<lparr>cr_id = i, cr_repo = repo, cr_expr = e, cr_last = None\<rparr>) (cron_schedules d))\<rparr>))"

primrec insert_crons :: "int \<Rightarrow> string list \<Rightarrow> (db, unit) dbm" where
  "insert_crons repo [] = ok ()"
| "insert_crons repo (e # es) = exec (insert_cron repo e) (\<lambda>_. insert_crons repo es)"

definition upsert_cron_schedules :: "int \<Rightarrow> string list \<Rightarrow> (db, unit) dbm" where
  "upsert_cron_schedules repo exprs =
     tx (if exprs = [] then exec (delete_crons (\<lambda>c. cr_repo c = repo)) ok
         else exec (delete_crons (\<lambda>c. cr_repo c = repo \<and> cr_expr c \<notin> set exprs)) (\<lambda>_.
              insert_crons repo exprs))"

definition list_cron_schedules :: "int \<Rightarrow> (db, cron_row list) dbm" where
  "list_cron_schedules repo = query (\<lambda>d. select_where (\<lambda>c. cr_repo c = repo) (cron_schedules d)) ok"

definition update_cron_last_fired :: "int \<Rightarrow> int \<Rightarrow> (db, unit) dbm" where
  "update_cron_last_fired i t = exec (\<lambda>d. (Inr (), d\<lparr>cron_schedules :=
     update_where (\<lambda>c. cr_id c = i) (\<lambda>c. c\<lparr>cr_last := Some t\<rparr>) (cron_schedules d)\<rparr>)) ok"

end
