(* ===== verification/Turns.thy ===== *)
theory Turns imports Runs begin

text \<open>
  \<open>internal/storage/agent_turns.go\<close>: the turns of an agent run's conversation and the transitions
  that are particular to agent runs, parking between turns, finishing and cancelling.
\<close>

definition mk_turn :: "string \<times> string \<times> int \<Rightarrow> int \<Rightarrow> int \<Rightarrow> int \<Rightarrow> turn_row" where
  "mk_turn p run n i = (case p of (author, body, t) \<Rightarrow>
     \<lparr>tn_id = i, tn_run = run, tn_seq = n, tn_author = author, tn_body = body,
      tn_status = TurnPending, tn_claimed = None, tn_created = t, tn_started = None, tn_finished = None\<rparr>)"

definition insert_turn :: "int \<Rightarrow> int \<Rightarrow> string \<Rightarrow> string \<Rightarrow> db \<Rightarrow> (db_error + turn_row) \<times> db" where
  "insert_turn run n author body d =
     (if \<not> run_exists run d then (Inl ErrForeignKey, d)
      else if exists_where (\<lambda>t. tn_run t = run \<and> tn_seq t = n) (agent_turns d) then (Inl ErrUnique, d)
      else (let (r, t) = insert_row (mk_turn (author, body, now d) run n) (agent_turns d)
            in (Inr r, d\<lparr>agent_turns := t\<rparr>)))"

definition enqueue_turn :: "int \<Rightarrow> string \<Rightarrow> string \<Rightarrow> (db, turn_row) dbm" where
  "enqueue_turn run author body =
     tx (query (\<lambda>d. next_number tn_run tn_seq run (agent_turns d)) (\<lambda>n.
         exec (insert_turn run n author body) ok))"

definition list_turns :: "int \<Rightarrow> (db, turn_row list) dbm" where
  "list_turns run = query (\<lambda>d. sort_key tn_seq (select_where (\<lambda>t. tn_run t = run) (agent_turns d))) ok"

section \<open>Dispatch\<close>

definition run_of :: "turn_row \<Rightarrow> db \<Rightarrow> run_row option" where
  "run_of t d = select_one (\<lambda>r. ru_id r = tn_run t) (ci_runs d)"

definition turn_waiting :: "db \<Rightarrow> turn_row \<Rightarrow> bool" where
  "turn_waiting d t \<longleftrightarrow> tn_status t = TurnPending \<and>
     (case run_of t d of None \<Rightarrow> False | Some r \<Rightarrow> ru_status r = RunAwaitingInput)"

definition turn_busy :: "turn_row \<Rightarrow> bool" where
  "turn_busy t \<longleftrightarrow> tn_status t = TurnRunning"

definition turn_claimable :: "db \<Rightarrow> int \<Rightarrow> int \<Rightarrow> turn_row \<Rightarrow> bool" where
  "turn_claimable d = may_take (turn_waiting d) turn_busy tn_claimed"

definition start_turn :: "int \<Rightarrow> turn_row \<Rightarrow> turn_row" where
  "start_turn t r = r\<lparr>tn_status := TurnRunning, tn_claimed := Some t,
     tn_started := (case tn_started r of None \<Rightarrow> Some t | Some s \<Rightarrow> Some s)\<rparr>"

text \<open>The join with \<open>ci_runs\<close> of the first \<open>SELECT\<close>; the \<open>UPDATE\<close> does not repeat the kind.\<close>

definition next_turn :: "int \<Rightarrow> db \<Rightarrow> turn_row option" where
  "next_turn lease d = select_one (\<lambda>t.
     (case run_of t d of None \<Rightarrow> False | Some r \<Rightarrow> ru_kind r = RunKindAgent) \<and>
     turn_claimable d lease (now d) t) (agent_turns d)"

definition take_turn :: "int \<Rightarrow> int \<Rightarrow> db \<Rightarrow> (db_error + turn_row option) \<times> db" where
  "take_turn i lease d =
     (let (r, t) = update_returning (\<lambda>t. tn_id t = i \<and> turn_claimable d lease (now d) t)
                     (start_turn (now d)) (agent_turns d)
      in (Inr r, d\<lparr>agent_turns := t\<rparr>))"

definition claim_next_turn :: "int \<Rightarrow> (db, turn_row \<times> run_row) dbm" where
  "claim_next_turn lease =
     tx (query (next_turn lease) (\<lambda>t.
       case t of
         None \<Rightarrow> err ErrNoTurnPending
       | Some t \<Rightarrow> exec (take_turn (tn_id t) lease) (\<lambda>t'.
           case t' of
             None \<Rightarrow> err ErrNoTurnPending
           | Some t' \<Rightarrow>
               exec (update_runs (\<lambda>r. ru_id r = tn_run t) (\<lambda>r. r\<lparr>ru_status := RunRunning\<rparr>)) (\<lambda>_.
               query (\<lambda>d. select_one (\<lambda>r. ru_id r = tn_run t) (ci_runs d)) (\<lambda>r.
                 case r of None \<Rightarrow> err ErrNoRows | Some r \<Rightarrow> ok (t', r))))))"

definition list_expired_awaiting_runs :: "int \<Rightarrow> (db, run_row list) dbm" where
  "list_expired_awaiting_runs age =
     (if age \<le> 0 then ok []
      else query (\<lambda>d. select_where (\<lambda>r. ru_kind r = RunKindAgent \<and> ru_status r = RunAwaitingInput \<and>
        (case ru_started r of None \<Rightarrow> False | Some s \<Rightarrow> s \<le> now d - duration_seconds age)) (ci_runs d)) ok)"

section \<open>Transitions\<close>

definition finish_turn :: "int \<Rightarrow> turn_status \<Rightarrow> (db, unit) dbm" where
  "finish_turn i s = exec (\<lambda>d. update_turns (\<lambda>t. tn_id t = i)
     (\<lambda>t. t\<lparr>tn_status := s, tn_finished := Some (now d)\<rparr>) d) affected"

definition mark_run_awaiting_input :: "int \<Rightarrow> (db, unit) dbm" where
  "mark_run_awaiting_input i = exec (update_runs (\<lambda>r. ru_id r = i \<and> ru_status r = RunRunning)
     (\<lambda>r. r\<lparr>ru_status := RunAwaitingInput\<rparr>)) affected"

definition mark_run_finishing :: "int \<Rightarrow> (db, unit) dbm" where
  "mark_run_finishing i = exec (update_runs (\<lambda>r. ru_id r = i \<and> ru_status r = RunAwaitingInput)
     (\<lambda>r. r\<lparr>ru_status := RunFinishing\<rparr>)) affected"

definition cancel_agent_run :: "int \<Rightarrow> (db, unit) dbm" where
  "cancel_agent_run i = exec (\<lambda>d. update_runs (\<lambda>r. ru_id r = i \<and> ru_kind r = RunKindAgent \<and>
       ru_status r \<in> {RunQueued, RunRunning, RunAwaitingInput, RunFinishing}) (end_run RunCanceled (now d)) d) affected"

definition cancel_ci_run :: "int \<Rightarrow> (db, unit) dbm" where
  "cancel_ci_run i = exec (\<lambda>d. update_runs (\<lambda>r. ru_id r = i \<and> ru_kind r = RunKindCI \<and>
       ru_status r = RunQueued) (end_run RunCanceled (now d)) d) affected"

definition take_finishing_run :: "int \<Rightarrow> db \<Rightarrow> (db_error + run_row option) \<times> db" where
  "take_finishing_run i d =
     (let (r, t) = update_returning (\<lambda>r. ru_id r = i \<and> ru_status r = RunFinishing)
                     (\<lambda>r. r\<lparr>ru_status := RunRunning\<rparr>) (ci_runs d)
      in (Inr r, d\<lparr>ci_runs := t\<rparr>))"

definition claim_next_finishing_run :: "(db, run_row) dbm" where
  "claim_next_finishing_run =
     tx (query (\<lambda>d. select_one (\<lambda>r. ru_kind r = RunKindAgent \<and> ru_status r = RunFinishing) (ci_runs d)) (\<lambda>r.
       case r of
         None \<Rightarrow> err ErrNoRunQueued
       | Some r \<Rightarrow> exec (take_finishing_run (ru_id r)) (\<lambda>r'.
           case r' of None \<Rightarrow> err ErrNoRunQueued | Some r' \<Rightarrow> ok r')))"

end
