(* ===== verification/RunQueue.thy ===== *)
theory RunQueue imports Turns begin

text \<open>
  The run and turn tables as a work queue. The locale \<open>work_queue\<close> states what a claim of the oldest
  row gives, for any table worked off under a lease; it is interpreted for the runs of each kind and
  for the turns. Then the life cycle of a run under every operation, in any order and with any
  failures: no run is claimed twice within a lease, and how the statuses follow each other.
\<close>

section \<open>The oldest row of a queue\<close>

locale work_queue =
  fixes rid :: "'r \<Rightarrow> int" and waiting busy :: "'r \<Rightarrow> bool" and claimed :: "'r \<Rightarrow> int option"
    and start :: "int \<Rightarrow> 'r \<Rightarrow> 'r"
  assumes rid_start: "rid (start t r) = rid r"
    and not_waiting: "\<not> waiting (start t r)"
    and claimed_start: "claimed (start t r) = Some t"
begin

lemma taken_is_leased:
  "0 < lease \<Longrightarrow> t' < t + duration_seconds lease \<Longrightarrow> \<not> may_take waiting busy claimed lease t' (start t r)"
  by (simp add: may_take_def not_waiting claimed_start)

lemma oldest_first:
  "ids_ok rid tab \<Longrightarrow> select_one (may_take waiting busy claimed lease t) tab = Some r \<Longrightarrow>
   x \<in> set (rows tab) \<Longrightarrow> may_take waiting busy claimed lease t x \<Longrightarrow> rid r \<le> rid x"
  by (rule select_one_least)

text \<open>The compare-and-set of the selected row hits it and nothing else.\<close>

lemma cas_hits:
  assumes "ids_ok rid tab" and "r \<in> set (rows tab)" and "may_take waiting busy claimed lease t r"
  shows "update_returning (\<lambda>x. rid x = rid r \<and> may_take waiting busy claimed lease t x) (start t) tab =
    (Some (start t r), update_where (\<lambda>x. x = r) (start t) tab)"
proof -
  have uniq: "x \<in> set (rows tab) \<Longrightarrow> rid x = rid r \<Longrightarrow> x = r" for x
    using assms(1,2) by (metis distinct_map_eqD ids_ok_distinct)
  have "find (\<lambda>x. rid x = rid r \<and> may_take waiting busy claimed lease t x) (rows tab) = find (\<lambda>x. x = r) (rows tab)"
    using uniq assms(3) by (intro find_cong_set) auto
  moreover have "find (\<lambda>x. x = r) (rows tab) = Some r"
    using find_Some_ex [OF assms(2), of "\<lambda>x. x = r"] find_SomeD by fastforce
  moreover have "update_where (\<lambda>x. rid x = rid r \<and> may_take waiting busy claimed lease t x) (start t) tab =
      update_where (\<lambda>x. x = r) (start t) tab"
    using uniq assms(3) by (auto simp: update_where_def intro!: arg_cong [where f = "\<lambda>x. rows_update x tab"])
  ultimately show ?thesis by (simp add: update_returning_def)
qed

lemma nothing_left: "select_one (may_take waiting busy claimed lease t) tab = None \<Longrightarrow>
  x \<in> set (rows tab) \<Longrightarrow> \<not> waiting x"
  by (auto simp: select_one_None exists_where_iff may_take_def)

end

lemma start_run_sel [row_simps]:
  "ru_id (start_run t r) = ru_id r" "ru_repo (start_run t r) = ru_repo r" "ru_number (start_run t r) = ru_number r"
  "ru_kind (start_run t r) = ru_kind r" "ru_status (start_run t r) = RunRunning" "ru_claimed (start_run t r) = Some t"
  "ru_started (start_run t r) = (case ru_started r of None \<Rightarrow> Some t | Some s \<Rightarrow> Some s)"
  by (simp_all add: start_run_def)

lemma end_run_sel [row_simps]:
  "ru_id (end_run s t r) = ru_id r" "ru_repo (end_run s t r) = ru_repo r" "ru_number (end_run s t r) = ru_number r"
  "ru_kind (end_run s t r) = ru_kind r" "ru_status (end_run s t r) = s" "ru_claimed (end_run s t r) = ru_claimed r"
  by (simp_all add: end_run_def)

lemma start_turn_sel [row_simps]:
  "tn_id (start_turn t r) = tn_id r" "tn_run (start_turn t r) = tn_run r" "tn_seq (start_turn t r) = tn_seq r"
  "tn_status (start_turn t r) = TurnRunning" "tn_claimed (start_turn t r) = Some t"
  by (simp_all add: start_turn_def)

interpretation run_queue: work_queue ru_id "run_waiting k" "run_busy k" ru_claimed start_run for k
  by unfold_locales (simp_all add: row_simps run_waiting_def)

interpretation turn_queue: work_queue tn_id "turn_waiting d" turn_busy tn_claimed start_turn for d
  by unfold_locales (simp_all add: row_simps turn_waiting_def)

lemma mk_run_sel [row_simps]:
  "ru_id (mk_run p repo n i) = i" "ru_repo (mk_run p repo n i) = repo" "ru_number (mk_run p repo n i) = n"
  "ru_status (mk_run p repo n i) = RunQueued" "ru_claimed (mk_run p repo n i) = None"
  by (simp_all add: mk_run_def split: prod.splits)

lemma mk_turn_sel [row_simps]:
  "tn_id (mk_turn p run n i) = i" "tn_run (mk_turn p run n i) = run" "tn_seq (mk_turn p run n i) = n"
  by (simp_all add: mk_turn_def split: prod.splits)

interpretation run_numbers: numbered_table ru_id ru_repo ru_number mk_run
  by unfold_locales (simp_all add: row_simps)

interpretation turn_numbers: numbered_table tn_id tn_run tn_seq mk_turn
  by unfold_locales (simp_all add: row_simps)

definition runs_ok :: "db \<Rightarrow> bool" where
  "runs_ok d \<longleftrightarrow> numbered_ok ru_id ru_repo ru_number (ci_runs d)"

lemma runs_ok_ids: "runs_ok d \<Longrightarrow> ids_ok ru_id (ci_runs d)"
  by (simp add: runs_ok_def numbered_ok_def)

text \<open>On a healthy engine \<open>ClaimNextRunOfKind\<close> serves in order and never idles: if a run of the
  kind is queued, or running past a positive lease, the one with the least id is claimed; its row
  becomes running with the lease stamped now and the first start kept, no other row changes, and the
  returned run is that row. Only when there is none does it answer \<open>ErrNoRunQueued\<close>.\<close>

theorem claim_next_run_spec:
  assumes "runs_ok d"
  shows "\<exists>res d'. claim_next_run_of_kind k lease ([], d) = (res, ([], d')) \<and>
    (case res of
       Inl e \<Rightarrow> e = ErrNoRunQueued \<and> d' = d \<and> (\<forall>x \<in> set (rows (ci_runs d)). \<not> run_claimable k lease (now d) x)
     | Inr r' \<Rightarrow> \<exists>r \<in> set (rows (ci_runs d)). run_claimable k lease (now d) r \<and> r' = start_run (now d) r \<and>
         (\<forall>x \<in> set (rows (ci_runs d)). run_claimable k lease (now d) x \<longrightarrow> ru_id r \<le> ru_id x) \<and>
         d' = d\<lparr>ci_runs := update_where (\<lambda>x. x = r) (start_run (now d)) (ci_runs d)\<rparr>)"
proof (cases "select_one (run_claimable k lease (now d)) (ci_runs d)")
  case None
  moreover from None have "\<forall>x \<in> set (rows (ci_runs d)). \<not> run_claimable k lease (now d) x"
    by (simp add: select_one_None exists_where_iff)
  ultimately show ?thesis
    by (simp add: claim_next_run_of_kind_def)
next
  case (Some r)
  note ids = runs_ok_ids [OF assms]
  have r: "r \<in> set (rows (ci_runs d))" "run_claimable k lease (now d) r"
    using select_one_SomeD [OF Some] by auto
  have "take_run (ru_id r) k lease d =
      (Inr (Some (start_run (now d) r)), d\<lparr>ci_runs := update_where (\<lambda>x. x = r) (start_run (now d)) (ci_runs d)\<rparr>)"
    using run_queue.cas_hits [OF ids r(1) r(2) [unfolded run_claimable_def]]
    by (simp add: take_run_def run_claimable_def)
  then have "claim_next_run_of_kind k lease ([], d) = (Inr (start_run (now d) r),
      ([], d\<lparr>ci_runs := update_where (\<lambda>x. x = r) (start_run (now d)) (ci_runs d)\<rparr>))"
    using Some by (simp add: claim_next_run_of_kind_def)
  moreover have "\<forall>x \<in> set (rows (ci_runs d)). run_claimable k lease (now d) x \<longrightarrow> ru_id r \<le> ru_id x"
    using run_queue.oldest_first [OF ids Some [unfolded run_claimable_def]]
    by (auto simp: run_claimable_def)
  ultimately show ?thesis using r by auto
qed

section \<open>How a run evolves\<close>

text \<open>
  What one operation may do to the runs: \<open>evolves E d d'\<close> relates the database at its start to any it
  passes through. Every run afterwards is new or was there before, with the same id, repository,
  number and kind, a status reached by \<open>E\<close> and a claim that is the old one or made now.
\<close>

definition evolves :: "(run_status \<Rightarrow> run_status \<Rightarrow> bool) \<Rightarrow> db \<Rightarrow> db \<Rightarrow> bool" where
  "evolves E d d' \<longleftrightarrow> now d' = now d \<and> runs_ok d' \<and> seqno (ci_runs d) \<le> seqno (ci_runs d') \<and>
     (\<forall>r' \<in> set (rows (ci_runs d')). ru_id r' \<le> seqno (ci_runs d) \<longrightarrow>
       (\<exists>r \<in> set (rows (ci_runs d)). ru_id r = ru_id r' \<and> ru_kind r' = ru_kind r \<and>
          E (ru_status r) (ru_status r') \<and> ru_claimed r' \<in> {ru_claimed r, Some (now d)}))"

lemma evolves_refl: "runs_ok d \<Longrightarrow> (\<And>s. E s s) \<Longrightarrow> evolves E d d"
  by (auto simp: evolves_def)

lemma evolves_frame: "evolves E d d1 \<Longrightarrow> ci_runs d2 = ci_runs d1 \<Longrightarrow> now d2 = now d1 \<Longrightarrow> evolves E d d2"
  by (simp add: evolves_def runs_ok_def)

lemma evolves_delete: "evolves E d d1 \<Longrightarrow> ci_runs d2 = delete_where P (ci_runs d1) \<Longrightarrow> now d2 = now d1 \<Longrightarrow> evolves E d d2"
  by (auto simp: evolves_def runs_ok_def row_simps numbered_ok_delete)

lemma evolves_update:
  assumes "runs_ok d" and "ci_runs d' = update_where P f (ci_runs d)" and "now d' = now d" and "\<And>s. E s s"
    and "\<And>r. ru_id (f r) = ru_id r \<and> ru_repo (f r) = ru_repo r \<and> ru_number (f r) = ru_number r \<and>
      ru_kind (f r) = ru_kind r \<and> ru_claimed (f r) \<in> {ru_claimed r, Some (now d)}"
    and "\<And>r. r \<in> set (rows (ci_runs d)) \<Longrightarrow> P r \<Longrightarrow> E (ru_status r) (ru_status (f r))"
  shows "evolves E d d'"
proof -
  have "runs_ok d'"
    using assms(1,2,5) by (simp add: runs_ok_def numbered_ok_update)
  moreover have "\<exists>r \<in> set (rows (ci_runs d)). ru_id r = ru_id r' \<and> ru_kind r' = ru_kind r \<and>
          E (ru_status r) (ru_status r') \<and> ru_claimed r' \<in> {ru_claimed r, Some (now d)}"
    if "r' \<in> set (rows (ci_runs d'))" for r'
  proof -
    from that assms(2) obtain r where r: "r \<in> set (rows (ci_runs d))" "r' = (if P r then f r else r)"
      by (auto simp: row_simps)
    with assms(4-6) show ?thesis by (intro bexI [of _ r]) auto
  qed
  ultimately show ?thesis using assms(2,3) by (simp add: evolves_def row_simps)
qed

lemma evolves_insert:
  assumes "runs_ok d" and "insert_run repo (next_number ru_repo ru_number repo (ci_runs d)) nr d = (Inr r, d')"
    and "\<And>s. E s s"
  shows "evolves E d d'"
proof -
  have d': "d' = d\<lparr>ci_runs := snd (insert_row (mk_run (nr, now d) repo (next_number ru_repo ru_number repo (ci_runs d))) (ci_runs d))\<rparr>"
    using assms(2) by (auto simp: insert_run_def Let_def split: if_splits prod.splits)
  moreover have "runs_ok d'"
    using assms(1) run_numbers.alloc_keeps by (simp add: d' runs_ok_def)
  ultimately show ?thesis
    using assms(3) by (auto simp: evolves_def row_simps)
qed

text \<open>The life cycle: a run can be finished, cancelled or interrupted from anywhere, and otherwise
  moves along queued, running, awaiting input, finishing, running.\<close>

definition run_edge :: "run_status \<Rightarrow> run_status \<Rightarrow> bool" where
  "run_edge s s' \<longleftrightarrow> s' = s \<or> run_terminal s' \<or>
     (s, s') \<in> {(RunQueued, RunRunning), (RunRunning, RunAwaitingInput), (RunAwaitingInput, RunFinishing),
        (RunAwaitingInput, RunRunning), (RunFinishing, RunRunning)}"

lemma run_edge_refl [simp]: "run_edge s s"
  by (simp add: run_edge_def)

lemma enqueue_evolves: "runs_ok d \<Longrightarrow> keeps (evolves run_edge d) d (enqueue_run repo nr)"
  unfolding enqueue_run_def by (intro keeps_inv) (auto intro: evolves_refl evolves_insert)

lemma claim_run_evolves: "runs_ok d \<Longrightarrow> keeps (evolves run_edge d) d (claim_next_run_of_kind k lease)"
  unfolding claim_next_run_of_kind_def
  by (intro keeps_inv)
     (auto simp: evolves_refl take_run_def update_returning_def row_simps run_claimable_def may_take_def
       run_waiting_def run_busy_def run_edge_def intro!: evolves_update)

lemma finish_run_evolves: "runs_ok d \<Longrightarrow> keeps (evolves run_edge d) d (finish_run i s)"
  unfolding finish_run_def
  by (intro keeps_inv affected_keeps)
     (auto simp: evolves_refl update_runs_def row_simps run_edge_def intro!: evolves_update)

lemma update_runs_evolves:
  assumes "runs_ok d" and "\<And>r. ru_id (f r) = ru_id r \<and> ru_repo (f r) = ru_repo r \<and> ru_number (f r) = ru_number r \<and>
      ru_kind (f r) = ru_kind r \<and> ru_claimed (f r) = ru_claimed r"
    and "\<And>r. P r \<Longrightarrow> run_edge (ru_status r) (ru_status (f r))"
  shows "keeps (evolves run_edge d) d (exec (update_runs P f) affected)"
  using assms
  by (intro keeps_inv affected_keeps) (auto simp: evolves_refl update_runs_def intro!: evolves_update)

lemma exec_now: "exec (\<lambda>d. F (now d) d) k (fs, d) = exec (F (now d)) k (fs, d)"
  by (cases "(F (now d), k, fs, d)" rule: exec.cases) auto

lemma keeps_exec_now: "keeps I d (exec (F (now d)) k) \<Longrightarrow> keeps I d (exec (\<lambda>d. F (now d) d) k)"
  by (simp add: keeps_def exec_now)

lemma cancel_agent_evolves: "runs_ok d \<Longrightarrow> keeps (evolves run_edge d) d (cancel_agent_run i)"
  unfolding cancel_agent_run_def
  by (rule keeps_exec_now [where F = "\<lambda>t. update_runs _ (end_run RunCanceled t)"], rule update_runs_evolves)
     (auto simp: row_simps run_edge_def)

lemma cancel_ci_evolves: "runs_ok d \<Longrightarrow> keeps (evolves run_edge d) d (cancel_ci_run i)"
  unfolding cancel_ci_run_def
  by (rule keeps_exec_now [where F = "\<lambda>t. update_runs _ (end_run RunCanceled t)"], rule update_runs_evolves)
     (auto simp: row_simps run_edge_def)

lemma mark_evolves:
  "runs_ok d \<Longrightarrow> keeps (evolves run_edge d) d (mark_run_awaiting_input i)"
  "runs_ok d \<Longrightarrow> keeps (evolves run_edge d) d (mark_run_finishing i)"
  unfolding mark_run_awaiting_input_def mark_run_finishing_def
  by (rule update_runs_evolves; simp add: run_edge_def)+

lemma claim_finishing_evolves: "runs_ok d \<Longrightarrow> keeps (evolves run_edge d) d claim_next_finishing_run"
  unfolding claim_next_finishing_run_def
  by (intro keeps_inv)
     (auto simp: evolves_refl take_finishing_run_def update_returning_def run_edge_def intro!: evolves_update)

lemma reconcile_evolves: "runs_ok d \<Longrightarrow> keeps (evolves run_edge d) d reconcile_orphan_runs"
proof -
  assume ok: "runs_ok d"
  have frame: "ci_runs d2 = ci_runs d \<Longrightarrow> now d2 = now d \<Longrightarrow> evolves run_edge d d2" for d2
    using ok by (auto intro: evolves_frame [OF evolves_refl])
  have last: "ci_runs d3 = update_where (\<lambda>r. run_in_flight (ru_status r)) (end_run RunInterrupted (now d)) (ci_runs d) \<Longrightarrow>
      now d3 = now d \<Longrightarrow> evolves run_edge d d3" for d3
    using ok by (auto simp: row_simps run_edge_def intro: evolves_update)
  show ?thesis
    unfolding reconcile_orphan_runs_def
    by (intro keeps_inv) (auto simp: update_jobs_def update_turns_def update_runs_def intro: frame last)
qed

lemma delete_runs_evolves: "evolves E d d1 \<Longrightarrow> keeps (evolves E d) d1 (delete_runs is)"
proof (induction "is" arbitrary: d1)
  case Nil
  then show ?case unfolding delete_runs.simps by (rule keeps_ok)
next
  case (Cons i "is")
  show ?case
    unfolding delete_runs.simps
  proof (intro keeps_inv)
    fix u d2 v d3
    assume "delete_jobs_of i d1 = (Inr u, d2)" and "delete_run_row i d2 = (Inr v, d3)"
    with Cons.prems have "evolves E d d3"
      by (auto simp: delete_jobs_of_def delete_run_row_def intro: evolves_delete)
    then show "keeps (evolves E d) d3 (delete_runs is)" by (rule Cons.IH)
  next
    fix u d2
    assume "delete_jobs_of i d1 = (Inr u, d2)"
    with Cons.prems show "evolves E d d2"
      by (auto simp: delete_jobs_of_def intro: evolves_frame)
  qed (rule Cons.prems)
qed

lemma prune_evolves: "runs_ok d \<Longrightarrow> keeps (evolves run_edge d) d (prune_runs keep)"
  unfolding prune_runs_def
  by (intro keeps_inv keeps_bind delete_runs_evolves) (auto simp: evolves_refl)

lemma frame_evolves:
  assumes "runs_ok d" and "\<And>d1 x d2. f d1 = (Inr x, d2) \<Longrightarrow> ci_runs d2 = ci_runs d1 \<and> now d2 = now d1"
    and "\<And>x d1. evolves run_edge d d1 \<Longrightarrow> keeps (evolves run_edge d) d1 (k x)"
  shows "keeps (evolves run_edge d) d (exec f k)"
  using assms by (intro keeps_inv) (blast intro: evolves_refl evolves_frame run_edge_refl)+

lemma job_ops_evolve:
  assumes "runs_ok d"
  shows "keeps (evolves run_edge d) d (create_job i nm needs)"
    and "keeps (evolves run_edge d) d (start_job i)"
    and "keeps (evolves run_edge d) d (finish_job i s c)"
    and "keeps (evolves run_edge d) d (finish_turn i ts)"
  unfolding create_job_def start_job_def finish_job_def finish_turn_def
  by (intro frame_evolves [OF assms] affected_keeps keeps_ok;
      auto simp: upsert_job_def update_jobs_def update_turns_def Let_def
        split: option.splits if_splits prod.splits)+

lemma enqueue_turn_evolves: "runs_ok d \<Longrightarrow> keeps (evolves run_edge d) d (enqueue_turn i a b)"
  unfolding enqueue_turn_def
  by (intro keeps_inv)
     (auto simp: evolves_refl insert_turn_def Let_def split: if_splits prod.splits
       intro!: evolves_frame [OF evolves_refl])

text \<open>A turn is taken while its run awaits input, or taken over after its lease, which looks at the turn alone: its run may
  have ended in the meantime.\<close>

definition spares_ended :: "int \<Rightarrow> db \<Rightarrow> bool" where
  "spares_ended lease d \<longleftrightarrow> (case next_turn lease d of None \<Rightarrow> True
     | Some t \<Rightarrow> \<not> turn_busy t \<or> (case run_of t d of None \<Rightarrow> True | Some r \<Rightarrow> \<not> run_terminal (ru_status r)))"

definition step_edge :: "bool \<Rightarrow> run_status \<Rightarrow> run_status \<Rightarrow> bool" where
  "step_edge steals s s' \<longleftrightarrow> run_edge s s' \<or> (steals \<and> s' = RunRunning)"

lemma step_edge_refl [simp]: "step_edge steals s s"
  by (simp add: step_edge_def)

lemma open_edge: "\<not> run_terminal s \<Longrightarrow> run_edge s RunRunning"
  by (cases s) (simp_all add: run_edge_def)

lemma next_turn_run:
  assumes "next_turn lease d = Some t" and "runs_ok d" and "x \<in> set (rows (ci_runs d))" and "ru_id x = tn_run t"
  shows "step_edge (\<not> spares_ended lease d) (ru_status x) RunRunning"
proof -
  have "run_of t d = Some x"
    using select_one_id [OF runs_ok_ids [OF assms(2)] assms(3)] assms(4) by (simp add: run_of_def)
  moreover have "turn_claimable d lease (now d) t"
    using assms(1) by (auto simp: next_turn_def dest!: select_one_SomeD)
  ultimately show ?thesis
    using assms(1) open_edge [of "ru_status x"]
    by (auto simp: turn_claimable_def may_take_def turn_waiting_def step_edge_def spares_ended_def run_edge_def)
qed

lemma take_turn_frame: "take_turn i lease d = (Inr r, d') \<Longrightarrow> ci_runs d' = ci_runs d \<and> now d' = now d"
  by (auto simp: take_turn_def Let_def split: prod.splits)

lemma claim_turn_evolves:
  assumes "runs_ok d"
  shows "keeps (evolves (step_edge (\<not> spares_ended lease d)) d) d (claim_next_turn lease)"
  unfolding claim_next_turn_def
proof (intro keeps_inv)
  fix t :: turn_row and r d1
  assume "take_turn (tn_id t) lease d = (Inr r, d1)"
  then have d1: "ci_runs d1 = ci_runs d \<and> now d1 = now d" by (rule take_turn_frame)
  then show ev: "evolves (step_edge (\<not> spares_ended lease d)) d d1"
    using assms by (auto intro: evolves_frame [OF evolves_refl])
  show "evolves (step_edge (\<not> spares_ended lease d)) d d1" by (rule ev)
  fix n d2
  assume t: "next_turn lease d = Some t"
    and "update_runs (\<lambda>r. ru_id r = tn_run t) (\<lambda>r. r\<lparr>ru_status := RunRunning\<rparr>) d1 = (Inr n, d2)"
  then have d2: "ci_runs d2 = update_where (\<lambda>r. ru_id r = tn_run t) (\<lambda>r. r\<lparr>ru_status := RunRunning\<rparr>) (ci_runs d)"
      "now d2 = now d"
    using d1 by (auto simp: update_runs_def)
  have ev2: "evolves (step_edge (\<not> spares_ended lease d)) d d2"
    by (rule evolves_update [OF assms d2]) (use next_turn_run [OF t assms] in auto)
  show "evolves (step_edge (\<not> spares_ended lease d)) d d2" by (rule ev2)
  show "evolves (step_edge (\<not> spares_ended lease d)) d d2" by (rule ev2)
  show "evolves (step_edge (\<not> spares_ended lease d)) d d2" by (rule ev2)
qed (use assms in \<open>auto intro: evolves_refl\<close>)

section \<open>Every operation, in any order\<close>

text \<open>One operation of the runs, jobs and turns, with any failures; \<open>steals\<close> says whether a turn of an ended run may
  be taken over after its lease. Time only advances.\<close>

inductive run_step :: "bool \<Rightarrow> db \<Rightarrow> db \<Rightarrow> bool" for steals where
  "enqueue_run repo nr (fs, d) = (r, (fs', d')) \<Longrightarrow> run_step steals d d'"
| "claim_next_run_of_kind k lease (fs, d) = (r, (fs', d')) \<Longrightarrow> run_step steals d d'"
| "finish_run i s (fs, d) = (u, (fs', d')) \<Longrightarrow> run_step steals d d'"
| "cancel_agent_run i (fs, d) = (u, (fs', d')) \<Longrightarrow> run_step steals d d'"
| "cancel_ci_run i (fs, d) = (u, (fs', d')) \<Longrightarrow> run_step steals d d'"
| "mark_run_awaiting_input i (fs, d) = (u, (fs', d')) \<Longrightarrow> run_step steals d d'"
| "mark_run_finishing i (fs, d) = (u, (fs', d')) \<Longrightarrow> run_step steals d d'"
| "claim_next_finishing_run (fs, d) = (r, (fs', d')) \<Longrightarrow> run_step steals d d'"
| "reconcile_orphan_runs (fs, d) = (n, (fs', d')) \<Longrightarrow> run_step steals d d'"
| "prune_runs keep (fs, d) = (ps, (fs', d')) \<Longrightarrow> run_step steals d d'"
| "create_job i nm needs (fs, d) = (j, (fs', d')) \<Longrightarrow> run_step steals d d'"
| "start_job i (fs, d) = (u, (fs', d')) \<Longrightarrow> run_step steals d d'"
| "finish_job i js c (fs, d) = (u, (fs', d')) \<Longrightarrow> run_step steals d d'"
| "enqueue_turn i a b (fs, d) = (t, (fs', d')) \<Longrightarrow> run_step steals d d'"
| "finish_turn i ts (fs, d) = (u, (fs', d')) \<Longrightarrow> run_step steals d d'"
| turn: "steals \<or> spares_ended lease d \<Longrightarrow> claim_next_turn lease (fs, d) = (tr, (fs', d')) \<Longrightarrow> run_step steals d d'"
| tick: "now d \<le> t \<Longrightarrow> run_step steals d (d\<lparr>now := t\<rparr>)"

lemmas run_ops_evolve =
  enqueue_evolves claim_run_evolves finish_run_evolves cancel_agent_evolves cancel_ci_evolves
  mark_evolves claim_finishing_evolves reconcile_evolves prune_evolves job_ops_evolve enqueue_turn_evolves

lemma evolves_mono: "evolves E d d' \<Longrightarrow> (\<And>s s'. E s s' \<Longrightarrow> F s s') \<Longrightarrow> evolves F d d'"
  unfolding evolves_def by blast

lemma run_step_evolves:
  assumes "run_step steals d d'" and "runs_ok d"
  shows "(\<exists>t \<ge> now d. d' = d\<lparr>now := t\<rparr>) \<or> evolves (step_edge steals) d d'"
proof -
  have edge: "evolves run_edge d d' \<Longrightarrow> evolves (step_edge steals) d d'"
    by (erule evolves_mono) (simp add: step_edge_def)
  from assms show ?thesis
  proof (induction rule: run_step.induct)
    case (turn lease d fs tr fs' d')
    then have "evolves (step_edge (\<not> spares_ended lease d)) d d'" by (blast intro: keepsD [OF claim_turn_evolves])
    then have "evolves (step_edge steals) d d'"
      by (rule evolves_mono) (use turn(1) in \<open>auto simp: step_edge_def\<close>)
    then show ?case ..
  next
    case (tick d t)
    then show ?case by auto
  qed (rule disjI2, rule evolves_mono, erule keepsD [rotated], erule run_ops_evolve, simp add: step_edge_def)+
qed

lemma runs_ok_now: "runs_ok (d\<lparr>now := t\<rparr>) = runs_ok d"
  by (simp add: runs_ok_def)

text \<open>Over many steps: what a run's status and claim can have become, by a relation that is closed.\<close>

lemma run_steps_track:
  assumes "(run_step steals)\<^sup>*\<^sup>* d0 d" and "runs_ok d0"
    and "\<And>s. S s s" and "\<And>a b c. S a b \<Longrightarrow> step_edge steals b c \<Longrightarrow> S a c"
  shows "runs_ok d \<and> now d0 \<le> now d \<and> seqno (ci_runs d0) \<le> seqno (ci_runs d) \<and>
    (\<forall>r' \<in> set (rows (ci_runs d)). ru_id r' \<le> seqno (ci_runs d0) \<longrightarrow>
      (\<exists>r \<in> set (rows (ci_runs d0)). ru_id r = ru_id r' \<and> ru_kind r' = ru_kind r \<and> S (ru_status r) (ru_status r') \<and>
        (ru_claimed r' = ru_claimed r \<or> (\<exists>c \<ge> now d0. ru_claimed r' = Some c))))"
  using assms(1,2)
proof (induction rule: rtranclp_induct)
  case base
  then show ?case using assms(3) by blast
next
  case (step d1 d2)
  then have IH: "runs_ok d1" "now d0 \<le> now d1" "seqno (ci_runs d0) \<le> seqno (ci_runs d1)" by auto
  from run_step_evolves [OF step(2) IH(1)] show ?case
  proof
    assume "\<exists>t \<ge> now d1. d2 = d1\<lparr>now := t\<rparr>"
    with step.IH [OF step.prems] show ?thesis by (auto simp: runs_ok_now)
  next
    assume ev: "evolves (step_edge steals) d1 d2"
    have "\<exists>r \<in> set (rows (ci_runs d0)). ru_id r = ru_id r2 \<and> ru_kind r2 = ru_kind r \<and> S (ru_status r) (ru_status r2) \<and>
        (ru_claimed r2 = ru_claimed r \<or> (\<exists>c \<ge> now d0. ru_claimed r2 = Some c))"
      if r2: "r2 \<in> set (rows (ci_runs d2))" "ru_id r2 \<le> seqno (ci_runs d0)" for r2
    proof -
      from ev r2 IH(3) obtain r1 where r1: "r1 \<in> set (rows (ci_runs d1))" "ru_id r1 = ru_id r2" "ru_kind r2 = ru_kind r1"
        "step_edge steals (ru_status r1) (ru_status r2)" "ru_claimed r2 \<in> {ru_claimed r1, Some (now d1)}"
        by (force simp: evolves_def)
      with step.IH [OF step.prems] r2(2) obtain r where "r \<in> set (rows (ci_runs d0))" "ru_id r = ru_id r1"
        "ru_kind r1 = ru_kind r" "S (ru_status r) (ru_status r1)"
        "ru_claimed r1 = ru_claimed r \<or> (\<exists>c \<ge> now d0. ru_claimed r1 = Some c)"
        by metis
      with r1 IH(2) assms(4) show ?thesis by (intro bexI [of _ r]) auto
    qed
    with ev IH show ?thesis by (auto simp: evolves_def)
  qed
qed

lemma claim_run_takes:
  assumes "claim_next_run_of_kind k lease (fs, d) = (Inr r, (fs', d'))" and "runs_ok d"
  shows "runs_ok d' \<and> now d' = now d \<and> r \<in> set (rows (ci_runs d')) \<and> ru_id r \<le> seqno (ci_runs d') \<and>
    ru_status r = RunRunning \<and> ru_claimed r = Some (now d) \<and>
    (\<exists>x \<in> set (rows (ci_runs d)). ru_id x = ru_id r \<and> run_claimable k lease (now d) x)"
proof -
  have ok: "runs_ok d'" "now d' = now d"
    using keepsD [OF claim_run_evolves [OF assms(2)] assms(1)] by (auto simp: evolves_def)
  from assms(1) [unfolded claim_next_run_of_kind_def] obtain x where
    x: "select_one (run_claimable k lease (now d)) (ci_runs d) = Some x"
    and take: "take_run (ru_id x) k lease d = (Inr (Some r), d')"
    by (auto elim!: tx_InrE query_InrE exec_InrE split: option.splits)
  note x_in = select_one_SomeD [OF x]
  have "take_run (ru_id x) k lease d =
      (Inr (Some (start_run (now d) x)), d\<lparr>ci_runs := update_where (\<lambda>y. y = x) (start_run (now d)) (ci_runs d)\<rparr>)"
    using run_queue.cas_hits [OF runs_ok_ids [OF assms(2)], of x k lease "now d"] x_in
    by (simp add: take_run_def run_claimable_def)
  with take have r: "r = start_run (now d) x"
    and d': "ci_runs d' = update_where (\<lambda>y. y = x) (start_run (now d)) (ci_runs d)" by auto
  have "r \<in> set (rows (ci_runs d'))" using x_in by (auto simp: r d' row_simps)
  moreover have "ru_id r \<le> seqno (ci_runs d')"
    using runs_ok_ids [OF ok(1)] calculation by (auto simp: ids_ok_def)
  ultimately show ?thesis using ok x_in by (auto simp: r row_simps)
qed

text \<open>C6: No run is claimed twice within its lease: once \<open>ClaimNextRunOfKind\<close> handed a run out, no later
  claim of any kind returns it again before the lease has run out (never, when the lease is not
  positive), whatever operations of any component of the queue run in between and fail in any way.\<close>

theorem no_double_claim:
  assumes "runs_ok d"
    and "claim_next_run_of_kind k lease (fs, d) = (Inr r, (fs', d0))"
    and "(run_step steals)\<^sup>*\<^sup>* d0 d1"
    and "lease2 \<le> 0 \<or> now d1 < now d + duration_seconds lease2"
    and "claim_next_run_of_kind k2 lease2 (gs, d1) = (Inr r2, (gs', d2))"
  shows "ru_id r2 \<noteq> ru_id r"
proof
  assume same: "ru_id r2 = ru_id r"
  note first = claim_run_takes [OF assms(2,1)]
  have track: "runs_ok d1 \<and> (\<forall>r' \<in> set (rows (ci_runs d1)). ru_id r' \<le> seqno (ci_runs d0) \<longrightarrow>
      (\<exists>r \<in> set (rows (ci_runs d0)). ru_id r = ru_id r' \<and>
        (ru_status r' = RunQueued \<longrightarrow> ru_status r = RunQueued) \<and>
        (ru_claimed r' = ru_claimed r \<or> (\<exists>c \<ge> now d0. ru_claimed r' = Some c))))"
    using run_steps_track [OF assms(3), of "\<lambda>s s'. s' = RunQueued \<longrightarrow> s = RunQueued"] first
    by (fastforce simp: step_edge_def run_edge_def)
  from claim_run_takes [OF assms(5)] track obtain y where
    y: "y \<in> set (rows (ci_runs d1))" "ru_id y = ru_id r" "run_claimable k2 lease2 (now d1) y"
    using same by auto
  from track y(1,2) first obtain x where x: "x \<in> set (rows (ci_runs d0))" "ru_id x = ru_id r"
    "ru_status y = RunQueued \<longrightarrow> ru_status x = RunQueued"
    "ru_claimed y = ru_claimed x \<or> (\<exists>c \<ge> now d0. ru_claimed y = Some c)" by force
  have "x = r"
    using x(1,2) first ids_ok_distinct [OF runs_ok_ids] by (metis distinct_map_eqD)
  with x(3,4) first have "ru_status y \<noteq> RunQueued" "\<exists>c \<ge> now d. ru_claimed y = Some c" by auto
  with y(3) assms(4) show False
    by (auto simp: run_claimable_def may_take_def run_waiting_def)
qed

definition demo_run :: new_run where
  "demo_run = \<lparr>nr_kind = None, nr_issue = None, nr_model = '''', nr_profile = '''', nr_spec = '''',
     nr_sha = ''abc'', nr_msg = ''m'', nr_author = ''bob'', nr_ref = ''refs/heads/main'',
     nr_event = ''push'', nr_trigger = ''''\<rparr>"

definition demo_runs :: db where
  "demo_runs = snd (snd (enqueue_run 1 demo_run (snd (enqueue_run 1 demo_run ([], demo_fresh)))))"

lemma demo_runs_ok: "runs_ok demo_runs"
proof -
  have "runs_ok demo_fresh"
    by (simp add: demo_fresh_def demo_issues_def empty_db_def runs_ok_def numbered_ok_def empty_table_def ids_ok_def)
  then have "runs_ok (snd (snd (enqueue_run 1 demo_run ([], demo_fresh))))"
    using enqueue_evolves [of demo_fresh 1 demo_run] by (auto simp: keeps_def evolves_def)
  then show ?thesis
    using enqueue_evolves [of "snd (snd (enqueue_run 1 demo_run ([], demo_fresh)))" 1 demo_run]
    by (auto simp: keeps_def evolves_def demo_runs_def) (metis prod.collapse)
qed

theorem claim_next_run_spec_witness:
  "\<exists>res d'. claim_next_run_of_kind RunKindCI 0 ([], demo_runs) = (res, ([], d')) \<and>
    (case res of
       Inl e \<Rightarrow> e = ErrNoRunQueued \<and> d' = demo_runs \<and>
         (\<forall>x \<in> set (rows (ci_runs demo_runs)). \<not> run_claimable RunKindCI 0 (now demo_runs) x)
     | Inr r' \<Rightarrow> \<exists>r \<in> set (rows (ci_runs demo_runs)). run_claimable RunKindCI 0 (now demo_runs) r \<and>
         r' = start_run (now demo_runs) r \<and>
         (\<forall>x \<in> set (rows (ci_runs demo_runs)). run_claimable RunKindCI 0 (now demo_runs) x \<longrightarrow> ru_id r \<le> ru_id x) \<and>
         d' = demo_runs\<lparr>ci_runs := update_where (\<lambda>x. x = r) (start_run (now demo_runs)) (ci_runs demo_runs)\<rparr>)"
  by (rule claim_next_run_spec [OF demo_runs_ok])

definition demo_taken :: db where
  "demo_taken = snd (snd (claim_next_run 60000000000 ([], demo_runs)))"

theorem no_double_claim_witness:
  "\<exists>r r2 d2. claim_next_run_of_kind RunKindCI 60000000000 ([], demo_runs) = (Inr r, ([], demo_taken)) \<and>
     claim_next_run_of_kind RunKindCI 60000000000 ([], demo_taken) = (Inr r2, ([], d2)) \<and> ru_id r2 \<noteq> ru_id r"
proof -
  obtain r r2 d2 where c: "claim_next_run_of_kind RunKindCI 60000000000 ([], demo_runs) = (Inr r, ([], demo_taken))"
    and c2: "claim_next_run_of_kind RunKindCI 60000000000 ([], demo_taken) = (Inr r2, ([], d2))"
  proof
    show "claim_next_run_of_kind RunKindCI 60000000000 ([], demo_runs) =
        (Inr (projr (fst (claim_next_run_of_kind RunKindCI 60000000000 ([], demo_runs)))), ([], demo_taken))"
      by code_simp
    show "claim_next_run_of_kind RunKindCI 60000000000 ([], demo_taken) =
        (Inr (projr (fst (claim_next_run_of_kind RunKindCI 60000000000 ([], demo_taken)))),
         ([], snd (snd (claim_next_run_of_kind RunKindCI 60000000000 ([], demo_taken)))))"
      by code_simp
  qed
  have "ru_id r2 \<noteq> ru_id r"
    by (rule no_double_claim [OF demo_runs_ok c _ _ c2]) (auto simp: rtranclp.rtrancl_refl, code_simp)
  then show ?thesis using c c2 by blast
qed

text \<open>C7: The life cycle of a run. Whatever operations of the runs, jobs and turns run, in any order and failing anywhere,
  with whatever leases, as long as no turn whose run has ended is taken over after its lease: a run never becomes queued
  again, a terminal run stays terminal (or is pruned), so that only a run that was not terminal can be running, awaiting
  input or finishing, and a run keeps its kind.\<close>

theorem run_lifecycle:
  assumes "runs_ok d0" and "(run_step False)\<^sup>*\<^sup>* d0 d"
    and "r \<in> set (rows (ci_runs d0))" and "r' \<in> set (rows (ci_runs d))" and "ru_id r' = ru_id r"
  shows "(ru_status r \<noteq> RunQueued \<longrightarrow> ru_status r' \<noteq> RunQueued) \<and>
    (run_terminal (ru_status r) \<longrightarrow> run_terminal (ru_status r')) \<and> ru_kind r' = ru_kind r"
proof -
  let ?S = "\<lambda>s s'. (s' = RunQueued \<longrightarrow> s = RunQueued) \<and> (run_terminal s \<longrightarrow> run_terminal s')"
  have "ru_id r' \<le> seqno (ci_runs d0)"
    using assms(3,5) runs_ok_ids [OF assms(1)] by (auto simp: ids_ok_def)
  with run_steps_track [OF assms(2,1), of ?S] assms(4)
  obtain x where x: "x \<in> set (rows (ci_runs d0))" "ru_id x = ru_id r'" "ru_kind r' = ru_kind x"
    "?S (ru_status x) (ru_status r')"
    by (fastforce simp: step_edge_def run_edge_def)
  have "x = r"
    using x(1,2) assms(3,5) ids_ok_distinct [OF runs_ok_ids [OF assms(1)]] by (metis distinct_map_eqD)
  with x show ?thesis by auto
qed

theorem run_lifecycle_witness:
  "ru_status (hd (rows (ci_runs (snd (snd (finish_run 1 RunFailed ([], demo_taken))))))) \<noteq> RunQueued \<and>
   ru_kind (hd (rows (ci_runs (snd (snd (finish_run 1 RunFailed ([], demo_taken))))))) =
     ru_kind (hd (rows (ci_runs demo_taken)))"
proof -
  let ?d = "snd (snd (finish_run 1 RunFailed ([], demo_taken)))"
  have "runs_ok demo_taken"
    using claim_run_evolves [OF demo_runs_ok, of RunKindCI 60000000000]
    by (simp add: keeps_def evolves_def demo_taken_def claim_next_run_def)
  moreover have "run_step False demo_taken ?d"
    by (rule run_step.intros(3)) (simp add: prod_eq_iff)
  then have "(run_step False)\<^sup>*\<^sup>* demo_taken ?d" ..
  moreover have "hd (rows (ci_runs demo_taken)) \<in> set (rows (ci_runs demo_taken))" by code_simp
  moreover have "hd (rows (ci_runs ?d)) \<in> set (rows (ci_runs ?d))" by code_simp
  moreover have "ru_id (hd (rows (ci_runs ?d))) = ru_id (hd (rows (ci_runs demo_taken)))" by code_simp
  moreover have "ru_status (hd (rows (ci_runs demo_taken))) \<noteq> RunQueued" by code_simp
  ultimately show ?thesis using run_lifecycle by blast
qed

text \<open>The steal of a turn ignores its run: when the dispatcher of a turn died and the run was
  cancelled in the meantime, \<open>ClaimNextTurn\<close> takes the turn again after its lease and sets the
  cancelled run back to running, out of a terminal state.\<close>

theorem stolen_turn_resurrects_run:
  assumes "runs_ok d" and "ids_ok tn_id (agent_turns d)"
    and "next_turn lease d = Some t" and "tn_status t = TurnRunning"
    and "r \<in> set (rows (ci_runs d))" and "ru_id r = tn_run t" and "run_terminal (ru_status r)"
  shows "\<exists>t' d'. claim_next_turn lease ([], d) = (Inr (t', r\<lparr>ru_status := RunRunning\<rparr>), ([], d')) \<and>
    r\<lparr>ru_status := RunRunning\<rparr> \<in> set (rows (ci_runs d'))"
proof -
  let ?r = "r\<lparr>ru_status := RunRunning\<rparr>"
  have t: "t \<in> set (rows (agent_turns d))" "turn_claimable d lease (now d) t"
    using assms(3) by (auto simp: next_turn_def dest!: select_one_SomeD)
  have take: "take_turn (tn_id t) lease d =
      (Inr (Some (start_turn (now d) t)), d\<lparr>agent_turns := update_where (\<lambda>x. x = t) (start_turn (now d)) (agent_turns d)\<rparr>)"
    using turn_queue.cas_hits [OF assms(2) t(1), of d lease "now d"] t(2)
    by (simp add: take_turn_def turn_claimable_def)
  let ?d = "d\<lparr>agent_turns := update_where (\<lambda>x. x = t) (start_turn (now d)) (agent_turns d),
      ci_runs := update_where (\<lambda>x. ru_id x = tn_run t) (\<lambda>x. x\<lparr>ru_status := RunRunning\<rparr>) (ci_runs d)\<rparr>"
  have mem: "?r \<in> set (rows (ci_runs ?d))"
    using assms(5,6) by (force simp: row_simps)
  have "ids_ok ru_id (ci_runs ?d)"
    using runs_ok_ids [OF assms(1)] by (simp add: ids_ok_update)
  from select_one_id [OF this mem] have "select_one (\<lambda>x. ru_id x = tn_run t) (ci_runs ?d) = Some ?r"
    using assms(6) by simp
  then have "claim_next_turn lease ([], d) = (Inr (start_turn (now d) t, ?r), ([], ?d))"
    using assms(3) take by (simp add: claim_next_turn_def update_runs_def)
  with mem show ?thesis by blast
qed

text \<open>An agent run whose first turn was dispatched at 1000, cancelled at 1100 while its dispatcher was
  dead.\<close>

definition demo_cancelled :: db where
  "demo_cancelled =
     (let d1 = snd (snd (enqueue_run 1 (demo_run\<lparr>nr_kind := Some RunKindAgent\<rparr>) ([], demo_fresh)));
          d2 = snd (snd (claim_next_run_of_kind RunKindAgent 0 ([], d1)));
          d3 = snd (snd (mark_run_awaiting_input 1 ([], d2)));
          d4 = snd (snd (enqueue_turn 1 ''alice'' ''go on'' ([], d3)));
          d5 = snd (snd (claim_next_turn 60000000000 ([], d4)));
          d6 = snd (snd (cancel_agent_run 1 ([], d5\<lparr>now := 1100\<rparr>)))
      in d6\<lparr>now := 1200\<rparr>)"

theorem stolen_turn_resurrects_run_witness:
  "\<exists>t' d'. claim_next_turn 60000000000 ([], demo_cancelled) =
      (Inr (t', (hd (rows (ci_runs demo_cancelled)))\<lparr>ru_status := RunRunning\<rparr>), ([], d')) \<and>
    (hd (rows (ci_runs demo_cancelled)))\<lparr>ru_status := RunRunning\<rparr> \<in> set (rows (ci_runs d'))"
proof (rule stolen_turn_resurrects_run)
  have "sorted_wrt (<) (map ru_id (rows (ci_runs demo_cancelled))) \<and>
      list_all (\<lambda>r. 0 < ru_id r \<and> ru_id r \<le> seqno (ci_runs demo_cancelled) \<and> 0 < ru_number r) (rows (ci_runs demo_cancelled)) \<and>
      0 \<le> seqno (ci_runs demo_cancelled) \<and> distinct (map (\<lambda>r. (ru_repo r, ru_number r)) (rows (ci_runs demo_cancelled)))"
    by code_simp
  then show "runs_ok demo_cancelled" by (simp add: runs_ok_def numbered_ok_def ids_ok_def list_all_iff)
  have "sorted_wrt (<) (map tn_id (rows (agent_turns demo_cancelled))) \<and>
      list_all (\<lambda>r. 0 < tn_id r \<and> tn_id r \<le> seqno (agent_turns demo_cancelled)) (rows (agent_turns demo_cancelled)) \<and>
      0 \<le> seqno (agent_turns demo_cancelled)"
    by code_simp
  then show "ids_ok tn_id (agent_turns demo_cancelled)" by (simp add: ids_ok_def list_all_iff)
  show "next_turn 60000000000 demo_cancelled = Some (hd (rows (agent_turns demo_cancelled)))" by code_simp
qed (code_simp)+

end
