(* ===== verification/RunUpkeep.thy ===== *)
theory RunUpkeep imports RunQueue begin

text \<open>
  Upkeep of the runs: the reconciliation after a restart, retention, the jobs of a run that is
  executed again, and the table of cron schedules.
\<close>

section \<open>Reconciliation\<close>

lemma reconcile_outcome:
  "reconcile_orphan_runs ([], d) =
    (Inr (count_where (\<lambda>r. run_in_flight (ru_status r)) (ci_runs d)), ([], d\<lparr>
      ci_jobs := update_where (\<lambda>j. j_status j \<in> {JobRunning, JobQueued} \<and> orphan_run d (j_run j))
        (\<lambda>j. j\<lparr>j_status := JobInterrupted, j_finished := Some (now d)\<rparr>) (ci_jobs d),
      agent_turns := update_where (\<lambda>t. tn_status t \<in> {TurnPending, TurnRunning} \<and> orphan_run d (tn_run t))
        (\<lambda>t. t\<lparr>tn_status := TurnError, tn_finished := Some (now d)\<rparr>) (agent_turns d),
      ci_runs := update_where (\<lambda>r. run_in_flight (ru_status r)) (end_run RunInterrupted (now d)) (ci_runs d)\<rparr>))"
  by (simp add: reconcile_orphan_runs_def update_jobs_def update_turns_def update_runs_def orphan_run_def)

lemma update_where_mem:
  "x \<in> set (rows (update_where P f t)) \<longleftrightarrow> (\<exists>r \<in> set (rows t). x = (if P r then f r else r))"
  by (auto simp: row_simps)

text \<open>After a healthy \<open>ReconcileOrphanRuns\<close> nothing is in flight: every run is queued or terminal,
  the runs that were in flight (the number returned) are interrupted and their jobs and turns have
  come to an end, and every other run, job and turn is as it was; under any failure of the engine
  the database is unchanged.\<close>

theorem reconcile_orphan_runs_spec:
  "(\<forall>fs e fs' d'. reconcile_orphan_runs (fs, d) = (Inl e, (fs', d')) \<longrightarrow> d' = d) \<and>
   (\<exists>d'. reconcile_orphan_runs ([], d) = (Inr (count_where (\<lambda>r. run_in_flight (ru_status r)) (ci_runs d)), ([], d')) \<and>
     (\<forall>r' \<in> set (rows (ci_runs d')). ru_status r' = RunQueued \<or> run_terminal (ru_status r')) \<and>
     map ru_id (rows (ci_runs d')) = map ru_id (rows (ci_runs d)) \<and>
     (\<forall>r \<in> set (rows (ci_runs d)). if run_in_flight (ru_status r)
        then end_run RunInterrupted (now d) r \<in> set (rows (ci_runs d')) else r \<in> set (rows (ci_runs d'))) \<and>
     (\<forall>j' \<in> set (rows (ci_jobs d')). orphan_run d (j_run j') \<longrightarrow> j_status j' \<notin> {JobQueued, JobRunning}) \<and>
     (\<forall>j \<in> set (rows (ci_jobs d)). \<not> orphan_run d (j_run j) \<longrightarrow> j \<in> set (rows (ci_jobs d'))) \<and>
     (\<forall>t' \<in> set (rows (agent_turns d')). orphan_run d (tn_run t') \<longrightarrow> tn_status t' \<notin> {TurnPending, TurnRunning}) \<and>
     (\<forall>t \<in> set (rows (agent_turns d)). \<not> orphan_run d (tn_run t) \<longrightarrow> t \<in> set (rows (agent_turns d'))))"
proof -
  have atomic: "reconcile_orphan_runs (fs, d) = (Inl e, (fs', d')) \<Longrightarrow> d' = d" for fs e fs' d'
    unfolding reconcile_orphan_runs_def by (rule tx_atomic)
  have status: "\<not> run_in_flight s \<Longrightarrow> s = RunQueued \<or> run_terminal s" for s
    by (cases s) (auto simp: run_in_flight_def)
  show ?thesis
  proof (rule conjI)
    show "\<forall>fs e fs' d'. reconcile_orphan_runs (fs, d) = (Inl e, (fs', d')) \<longrightarrow> d' = d"
      using atomic by blast
  qed (rule exI, rule conjI, rule reconcile_outcome,
      use status in \<open>auto simp: row_simps update_where_mem image_iff split: if_splits\<close>)
qed

theorem reconcile_orphan_runs_spec_witness:
  "\<exists>d'. reconcile_orphan_runs ([], demo_taken) = (Inr (count_where (\<lambda>r. run_in_flight (ru_status r)) (ci_runs demo_taken)), ([], d')) \<and>
     (\<forall>r' \<in> set (rows (ci_runs d')). ru_status r' = RunQueued \<or> run_terminal (ru_status r'))"
  using reconcile_orphan_runs_spec [of demo_taken] by blast

section \<open>Retention\<close>

lemma delete_where_twice: "delete_where P (delete_where Q t) = delete_where (\<lambda>x. Q x \<or> P x) t"
  by (auto simp: delete_where_def intro: filter_cong)

definition without_runs :: "int list \<Rightarrow> db \<Rightarrow> db" where
  "without_runs is d = d\<lparr>ci_runs := delete_where (\<lambda>r. ru_id r \<in> set is) (ci_runs d),
     ci_jobs := delete_where (\<lambda>j. j_run j \<in> set is) (ci_jobs d),
     agent_turns := delete_where (\<lambda>t. tn_run t \<in> set is) (agent_turns d)\<rparr>"

lemma delete_runs_outcome: "is \<noteq> [] \<Longrightarrow> delete_runs is ([], d) = (Inr (), ([], without_runs is d))"
proof (induction "is" arbitrary: d)
  case (Cons i "is")
  show ?case
  proof (cases "is = []")
    case True
    then show ?thesis
      by (simp add: delete_jobs_of_def delete_run_row_def without_runs_def delete_where_twice)
  next
    case False
    with Cons.IH show ?thesis
      by (simp add: delete_jobs_of_def delete_run_row_def without_runs_def delete_where_twice)
  qed
qed simp

text \<open>Every run's repository and its owner exist, as the foreign keys require.\<close>

definition runs_owned :: "db \<Rightarrow> bool" where
  "runs_owned d \<longleftrightarrow> (\<forall>r \<in> set (rows (ci_runs d)). \<exists>p \<in> set (rows (repos d)). r_id p = ru_repo r \<and>
     (\<exists>u \<in> set (rows (users d)). u_id u = r_owner p))"

lemma prunable_ids:
  assumes "runs_owned d"
  shows "set (map fst (prunable_runs keep d)) = ru_id ` {r \<in> set (rows (ci_runs d)). prunable keep d r}"
  using assms by (fastforce simp: prunable_runs_def runs_owned_def image_iff)

text \<open>Retention removes exactly the runs in state success, failed, canceled or error with at least
  \<open>keep\<close> newer runs in their repository, with all their jobs and turns; no other row is lost, so the
  newest \<open>keep\<close> runs of every repository and every run that is not terminal stay. A non-positive
  \<open>keep\<close> or a failure of the engine changes nothing. Interrupted and stalled runs, which are terminal
  too, are never removed.\<close>

theorem prune_runs_spec:
  assumes "runs_ok d" and "runs_owned d"
  shows "(\<forall>fs e fs' d'. prune_runs keep (fs, d) = (Inl e, (fs', d')) \<longrightarrow> d' = d) \<and>
    (\<exists>ps d'. prune_runs keep ([], d) = (Inr ps, ([], d')) \<and>
      (\<forall>r \<in> set (rows (ci_runs d)). r \<notin> set (rows (ci_runs d')) \<longleftrightarrow> 0 < keep \<and>
         ru_status r \<in> {RunSuccess, RunFailed, RunCanceled, RunError} \<and> keep \<le> newer_runs r d) \<and>
      set (rows (ci_runs d')) \<subseteq> set (rows (ci_runs d)) \<and>
      (\<forall>j \<in> set (rows (ci_jobs d)). j \<in> set (rows (ci_jobs d')) \<longleftrightarrow>
         (\<forall>r \<in> set (rows (ci_runs d)). ru_id r = j_run j \<longrightarrow> r \<in> set (rows (ci_runs d')))) \<and>
      (\<forall>r \<in> set (rows (ci_runs d)). ru_status r \<in> {RunInterrupted, RunStalled} \<longrightarrow>
         run_terminal (ru_status r) \<and> r \<in> set (rows (ci_runs d'))))"
proof -
  let ?ids = "map fst (prunable_runs keep d)"
  have atomic: "prune_runs keep (fs, d) = (Inl e, (fs', d')) \<Longrightarrow> d' = d" for fs e fs' d'
    by (cases "keep \<le> 0") (auto simp: prune_runs_def dest: tx_atomic)
  have uniq: "r \<in> set (rows (ci_runs d)) \<Longrightarrow> x \<in> set (rows (ci_runs d)) \<Longrightarrow> ru_id r = ru_id x \<Longrightarrow> r = x" for r x
    using ids_ok_distinct [OF runs_ok_ids [OF assms(1)]] by (rule distinct_map_eqD)
  have ids: "ru_id r \<in> set ?ids \<longleftrightarrow> prunable keep d r" if "r \<in> set (rows (ci_runs d))" for r
    unfolding prunable_ids [OF assms(2)] using that uniq by blast
  have run: "prune_runs keep ([], d) = (Inr (map snd (prunable_runs keep d)), ([], without_runs ?ids d))" if "0 < keep"
  proof (cases "prunable_runs keep d")
    case Nil
    then show ?thesis using that
      by (simp add: prune_runs_def without_runs_def delete_where_def)
  next
    case (Cons p ps)
    then show ?thesis using that delete_runs_outcome [of ?ids d]
      by (simp add: prune_runs_def bind_def)
  qed
  have idle: "prune_runs keep ([], d) = (Inr [], ([], d))" if "keep \<le> 0"
    using that by (simp add: prune_runs_def)
  have out: "\<exists>ps d'. prune_runs keep ([], d) = (Inr ps, ([], d')) \<and>
      rows (ci_runs d') = filter (\<lambda>r. \<not> (0 < keep \<and> ru_id r \<in> set ?ids)) (rows (ci_runs d)) \<and>
      rows (ci_jobs d') = filter (\<lambda>j. \<not> (0 < keep \<and> j_run j \<in> set ?ids)) (rows (ci_jobs d))"
    using run idle by (cases "keep \<le> 0") (auto simp: without_runs_def row_simps)
  then obtain ps d' where d': "prune_runs keep ([], d) = (Inr ps, ([], d'))"
    "rows (ci_runs d') = filter (\<lambda>r. \<not> (0 < keep \<and> ru_id r \<in> set ?ids)) (rows (ci_runs d))"
    "rows (ci_jobs d') = filter (\<lambda>j. \<not> (0 < keep \<and> j_run j \<in> set ?ids)) (rows (ci_jobs d))" by blast
  have jobs: "j_run j \<in> set ?ids \<longleftrightarrow> (\<exists>r \<in> set (rows (ci_runs d)). ru_id r = j_run j \<and> ru_id r \<in> set ?ids)" for j
    unfolding prunable_ids [OF assms(2)] by (auto simp: image_iff)
  have gone: "r \<in> set (rows (ci_runs d')) \<longleftrightarrow> \<not> (0 < keep \<and> prunable keep d r)" if "r \<in> set (rows (ci_runs d))" for r
    using that ids by (simp add: d'(2))
  have "j \<in> set (rows (ci_jobs d')) \<longleftrightarrow>
      (\<forall>r \<in> set (rows (ci_runs d)). ru_id r = j_run j \<longrightarrow> r \<in> set (rows (ci_runs d')))"
    if "j \<in> set (rows (ci_jobs d))" for j
  proof -
    have "j \<in> set (rows (ci_jobs d')) \<longleftrightarrow> \<not> (0 < keep \<and> j_run j \<in> set ?ids)"
      using that unfolding d'(3) by simp
    moreover have "r \<in> set (rows (ci_runs d')) \<longleftrightarrow> \<not> (0 < keep \<and> ru_id r \<in> set ?ids)"
      if "r \<in> set (rows (ci_runs d))" for r using that unfolding d'(2) by simp
    ultimately show ?thesis using jobs [of j] by metis
  qed
  moreover have "set (rows (ci_runs d')) \<subseteq> set (rows (ci_runs d))"
    by (auto simp: d'(2))
  moreover have "r \<notin> set (rows (ci_runs d')) \<longleftrightarrow> 0 < keep \<and>
         ru_status r \<in> {RunSuccess, RunFailed, RunCanceled, RunError} \<and> keep \<le> newer_runs r d"
    if "r \<in> set (rows (ci_runs d))" for r
    unfolding gone [OF that] prunable_def by blast
  moreover have "s \<in> {RunInterrupted, RunStalled} \<Longrightarrow> run_terminal s \<and> s \<notin> {RunSuccess, RunFailed, RunCanceled, RunError}" for s
    by auto
  ultimately show ?thesis
    using atomic d'(1) by blast
qed

definition demo_kept :: db where
  "demo_kept = (snd (snd (finish_run 1 RunFailed ([], demo_runs))))\<lparr>users := \<lparr>rows =
     [\<lparr>u_id = 1, u_name = ''alice'', u_created = 0, u_password = None\<rparr>], seqno = 1\<rparr>\<rparr>"

theorem prune_runs_spec_witness:
  "\<exists>ps d'. prune_runs 1 ([], demo_kept) = (Inr ps, ([], d')) \<and>
      (\<forall>r \<in> set (rows (ci_runs demo_kept)). r \<notin> set (rows (ci_runs d')) \<longleftrightarrow> 0 < (1 :: int) \<and>
         ru_status r \<in> {RunSuccess, RunFailed, RunCanceled, RunError} \<and> 1 \<le> newer_runs r demo_kept) \<and>
      set (rows (ci_runs d')) \<subseteq> set (rows (ci_runs demo_kept)) \<and>
      (\<forall>j \<in> set (rows (ci_jobs demo_kept)). j \<in> set (rows (ci_jobs d')) \<longleftrightarrow>
         (\<forall>r \<in> set (rows (ci_runs demo_kept)). ru_id r = j_run j \<longrightarrow> r \<in> set (rows (ci_runs d')))) \<and>
      (\<forall>r \<in> set (rows (ci_runs demo_kept)). ru_status r \<in> {RunInterrupted, RunStalled} \<longrightarrow>
         run_terminal (ru_status r) \<and> r \<in> set (rows (ci_runs d')))"
proof (rule prune_runs_spec [THEN conjunct2])
  have "runs_ok (snd (snd (finish_run 1 RunFailed ([], demo_runs))))"
    using finish_run_evolves [OF demo_runs_ok, of 1 RunFailed] by (simp add: keeps_def evolves_def)
  then show "runs_ok demo_kept" by (simp add: demo_kept_def runs_ok_def)
  have "list_all (\<lambda>r. list_ex (\<lambda>p. r_id p = ru_repo r \<and> list_ex (\<lambda>u. u_id u = r_owner p) (rows (users demo_kept)))
      (rows (repos demo_kept))) (rows (ci_runs demo_kept))" by code_simp
  then show "runs_owned demo_kept" by (simp add: runs_owned_def list_all_iff list_ex_iff)
qed

section \<open>Jobs\<close>

definition jobs_ok :: "db \<Rightarrow> bool" where
  "jobs_ok d \<longleftrightarrow> distinct (map (\<lambda>j. (j_run j, j_name j)) (rows (ci_jobs d)))"

lemma job_at_unique:
  assumes "jobs_ok d" and "j \<in> set (rows (ci_jobs d))" and "job_at run nm j"
  shows "filter (job_at run nm) (rows (ci_jobs d)) = [j] \<and> select_one (job_at run nm) (ci_jobs d) = Some j"
proof -
  have eq: "job_at run nm = (\<lambda>y. (j_run y, j_name y) = (j_run j, j_name j))"
    using assms(3) by (auto simp: job_at_def)
  show ?thesis
    using filter_unique_key [OF assms(1) [unfolded jobs_ok_def] assms(2)]
      find_unique_key [OF assms(1) [unfolded jobs_ok_def] assms(2)]
    unfolding eq select_one_def by blast
qed

lemma filter_update_where:
  "(\<And>x. Q (f x) = Q x) \<Longrightarrow> filter Q (rows (update_where P f t)) = map (\<lambda>x. if P x then f x else x) (filter Q (rows t))"
  by (auto simp: row_simps filter_map comp_def if_distrib cong: if_cong intro!: arg_cong [where f = "map _"] filter_cong)

lemma reset_job_sel [row_simps]:
  "j_id (reset_job needs j) = j_id j" "j_run (reset_job needs j) = j_run j" "j_name (reset_job needs j) = j_name j"
  "j_status (reset_job needs j) = JobQueued" "j_needs (reset_job needs j) = needs"
  "j_exit (reset_job needs j) = None" "j_started (reset_job needs j) = None" "j_finished (reset_job needs j) = None"
  by (simp_all add: reset_job_def)

lemma job_at_reset [simp]: "job_at run nm (reset_job needs j) = job_at run nm j"
  by (simp add: job_at_def row_simps)

text \<open>\<open>CreateJob\<close> is idempotent per run and name: whether the job is new or left over from an earlier
  execution, afterwards there is exactly one job of that name, queued, with the given needs and no
  trace of the earlier execution, under its old id if it had one, and no other job changes.\<close>

theorem create_job_spec:
  assumes "jobs_ok d" and "run_exists run d"
  shows "\<exists>j d'. create_job run nm needs ([], d) = (Inr j, ([], d')) \<and> jobs_ok d' \<and>
    filter (job_at run nm) (rows (ci_jobs d')) = [j] \<and>
    filter (\<lambda>x. \<not> job_at run nm x) (rows (ci_jobs d')) = filter (\<lambda>x. \<not> job_at run nm x) (rows (ci_jobs d)) \<and>
    j_status j = JobQueued \<and> j_needs j = needs \<and> j_exit j = None \<and> j_started j = None \<and> j_finished j = None \<and>
    (\<forall>j0 \<in> set (rows (ci_jobs d)). job_at run nm j0 \<longrightarrow> j_id j = j_id j0)"
proof (cases "select_one (job_at run nm) (ci_jobs d)")
  case None
  then have none: "\<forall>x \<in> set (rows (ci_jobs d)). \<not> job_at run nm x"
    by (simp add: select_one_None exists_where_iff)
  let ?j = "\<lparr>j_id = seqno (ci_jobs d) + 1, j_run = run, j_name = nm, j_status = JobQueued, j_exit = None,
    j_created = now d, j_started = None, j_finished = None, j_needs = needs\<rparr>"
  let ?d = "d\<lparr>ci_jobs := snd (insert_row (\<lambda>i. \<lparr>j_id = i, j_run = run, j_name = nm, j_status = JobQueued,
    j_exit = None, j_created = now d, j_started = None, j_finished = None, j_needs = needs\<rparr>) (ci_jobs d))\<rparr>"
  have "create_job run nm needs ([], d) = (Inr ?j, ([], ?d))"
    using None assms(2) by (simp add: create_job_def upsert_job_def insert_row_def Let_def)
  moreover have "jobs_ok ?d"
    using assms(1) none by (auto simp: jobs_ok_def row_simps job_at_def)
  moreover have "filter (job_at run nm) (rows (ci_jobs d)) = []"
    using none by (simp add: filter_empty_conv)
  ultimately show ?thesis
    using none by (intro exI [of _ ?j] exI [of _ ?d]) (auto simp: row_simps job_at_def)
next
  case (Some j0)
  note j0 = select_one_SomeD [OF Some]
  let ?d = "d\<lparr>ci_jobs := update_where (job_at run nm) (reset_job needs) (ci_jobs d)\<rparr>"
  have "create_job run nm needs ([], d) = (Inr (reset_job needs j0), ([], ?d))"
    using Some by (simp add: create_job_def upsert_job_def)
  moreover have "jobs_ok ?d"
  proof -
    have "map (\<lambda>j. (j_run j, j_name j)) (rows (ci_jobs ?d)) = map (\<lambda>j. (j_run j, j_name j)) (rows (ci_jobs d))"
      by (simp add: row_simps)
    with assms(1) show ?thesis unfolding jobs_ok_def by (simp only:)
  qed
  moreover have "filter (job_at run nm) (rows (ci_jobs ?d)) = [reset_job needs j0]"
    using job_at_unique [OF assms(1), of j0 run nm] j0 by (simp add: filter_update_where)
  moreover have "filter (\<lambda>x. \<not> job_at run nm x) (rows (ci_jobs ?d)) = filter (\<lambda>x. \<not> job_at run nm x) (rows (ci_jobs d))"
    by (simp add: filter_update_where) (rule map_idI, simp)
  moreover have "\<forall>x \<in> set (rows (ci_jobs d)). job_at run nm x \<longrightarrow> x = j0"
    using job_at_unique [OF assms(1)] Some by (metis option.inject)
  ultimately show ?thesis
    by (intro exI [of _ "reset_job needs j0"] exI [of _ ?d]) (auto simp: row_simps)
qed

theorem create_job_spec_witness:
  "\<exists>j d'. create_job 1 ''build'' [''lint''] ([], demo_runs) = (Inr j, ([], d')) \<and> jobs_ok d' \<and>
    filter (job_at 1 ''build'') (rows (ci_jobs d')) = [j] \<and>
    filter (\<lambda>x. \<not> job_at 1 ''build'' x) (rows (ci_jobs d')) =
      filter (\<lambda>x. \<not> job_at 1 ''build'' x) (rows (ci_jobs demo_runs)) \<and>
    j_status j = JobQueued \<and> j_needs j = [''lint''] \<and> j_exit j = None \<and> j_started j = None \<and> j_finished j = None \<and>
    (\<forall>j0 \<in> set (rows (ci_jobs demo_runs)). job_at 1 ''build'' j0 \<longrightarrow> j_id j = j_id j0)"
proof (rule create_job_spec)
  show "jobs_ok demo_runs" by code_simp
  show "run_exists 1 demo_runs" by code_simp
qed

section \<open>Cron schedules\<close>

definition crons_of :: "int \<Rightarrow> db \<Rightarrow> cron_row list" where
  "crons_of repo d = filter (\<lambda>c. cr_repo c = repo) (rows (cron_schedules d))"

definition crons_ok :: "db \<Rightarrow> bool" where
  "crons_ok d \<longleftrightarrow> distinct (map (\<lambda>c. (cr_repo c, cr_expr c)) (rows (cron_schedules d)))"

lemma insert_cron_effect:
  assumes "repo_exists repo d" and "crons_ok d"
  shows "\<exists>d'. insert_cron repo e d = (Inr (), d') \<and> repo_exists repo d' \<and> crons_ok d' \<and>
    (if e \<in> cr_expr ` set (crons_of repo d) then d' = d
     else \<exists>c. cr_repo c = repo \<and> cr_expr c = e \<and> cr_last c = None \<and>
       rows (cron_schedules d') = rows (cron_schedules d) @ [c])"
  using assms
  by (auto simp: insert_cron_def exists_where_iff crons_of_def row_simps crons_ok_def repo_exists_def)

lemma insert_crons_effect:
  assumes "repo_exists repo d" and "crons_ok d"
  shows "\<exists>d'. insert_crons repo es ([], d) = (Inr (), ([], d')) \<and> crons_ok d' \<and>
    cr_expr ` set (crons_of repo d') = cr_expr ` set (crons_of repo d) \<union> set es \<and>
    (\<exists>new. rows (cron_schedules d') = rows (cron_schedules d) @ new \<and>
      (\<forall>c \<in> set new. cr_repo c = repo \<and> cr_last c = None \<and> cr_expr c \<notin> cr_expr ` set (crons_of repo d)))"
  using assms
proof (induction es arbitrary: d)
  case Nil
  then show ?case by auto
next
  case (Cons e es)
  from insert_cron_effect [OF Cons.prems, of e] obtain d1 where
    1: "insert_cron repo e d = (Inr (), d1)" "repo_exists repo d1" "crons_ok d1"
    and eff: "if e \<in> cr_expr ` set (crons_of repo d) then d1 = d
       else \<exists>c. cr_repo c = repo \<and> cr_expr c = e \<and> cr_last c = None \<and>
         rows (cron_schedules d1) = rows (cron_schedules d) @ [c]" by blast
  from Cons.IH [OF 1(2,3)] obtain d2 new where
    2: "insert_crons repo es ([], d1) = (Inr (), ([], d2))" "crons_ok d2"
      "cr_expr ` set (crons_of repo d2) = cr_expr ` set (crons_of repo d1) \<union> set es"
      "rows (cron_schedules d2) = rows (cron_schedules d1) @ new"
      "\<forall>c \<in> set new. cr_repo c = repo \<and> cr_last c = None \<and> cr_expr c \<notin> cr_expr ` set (crons_of repo d1)" by blast
  have run: "insert_crons repo (e # es) ([], d) = (Inr (), ([], d2))"
    using 1(1) 2(1) by simp
  show ?case
  proof (cases "e \<in> cr_expr ` set (crons_of repo d)")
    case True
    with eff 2 run show ?thesis by auto
  next
    case False
    with eff obtain c where c: "cr_repo c = repo" "cr_expr c = e" "cr_last c = None"
      "rows (cron_schedules d1) = rows (cron_schedules d) @ [c]" by auto
    then have crons: "crons_of repo d1 = crons_of repo d @ [c]" by (simp add: crons_of_def)
    have "rows (cron_schedules d2) = rows (cron_schedules d) @ (c # new)"
      using c 2(4) by simp
    moreover have "\<forall>x \<in> set (c # new). cr_repo x = repo \<and> cr_last x = None \<and> cr_expr x \<notin> cr_expr ` set (crons_of repo d)"
      using c False 2(5) crons by auto
    ultimately show ?thesis using run 2(2,3) crons c(2) by auto
  qed
qed

text \<open>\<open>UpsertCronSchedules\<close> makes the repository's schedules exactly the given expressions, one row
  each: rows of other repositories and rows whose expression stays are untouched, so their last
  firing survives, and added expressions have never fired. A failure changes nothing.\<close>

theorem upsert_cron_schedules_spec:
  assumes "repo_exists repo d" and "crons_ok d"
  shows "(\<forall>fs e fs' d'. upsert_cron_schedules repo exprs (fs, d) = (Inl e, (fs', d')) \<longrightarrow> d' = d) \<and>
    (\<exists>d'. upsert_cron_schedules repo exprs ([], d) = (Inr (), ([], d')) \<and> crons_ok d' \<and>
      cr_expr ` set (crons_of repo d') = set exprs \<and>
      (\<forall>c \<in> set (rows (cron_schedules d)). c \<in> set (rows (cron_schedules d')) \<longleftrightarrow>
        cr_repo c \<noteq> repo \<or> cr_expr c \<in> set exprs) \<and>
      (\<forall>c \<in> set (rows (cron_schedules d')). c \<in> set (rows (cron_schedules d)) \<or> cr_repo c = repo \<and> cr_last c = None))"
proof -
  have atomic: "upsert_cron_schedules repo exprs (fs, d) = (Inl e, (fs', d')) \<Longrightarrow> d' = d" for fs e fs' d'
    unfolding upsert_cron_schedules_def by (rule tx_atomic)
  let ?d = "d\<lparr>cron_schedules := delete_where (\<lambda>c. cr_repo c = repo \<and> cr_expr c \<notin> set exprs) (cron_schedules d)\<rparr>"
  have ok: "crons_ok ?d" using assms(2) by (simp add: crons_ok_def row_simps distinct_map_filterI)
  have kept: "cr_expr ` set (crons_of repo ?d) \<subseteq> set exprs"
    by (auto simp: crons_of_def row_simps)
  have "repo_exists repo ?d" using assms(1) by (simp add: repo_exists_def)
  from insert_crons_effect [OF this ok, of exprs] obtain d' new where
    d': "insert_crons repo exprs ([], ?d) = (Inr (), ([], d'))" "crons_ok d'"
      "cr_expr ` set (crons_of repo d') = cr_expr ` set (crons_of repo ?d) \<union> set exprs"
      "rows (cron_schedules d') = rows (cron_schedules ?d) @ new"
      "\<forall>c \<in> set new. cr_repo c = repo \<and> cr_last c = None \<and> cr_expr c \<notin> cr_expr ` set (crons_of repo ?d)"
    by blast
  have run: "upsert_cron_schedules repo exprs ([], d) = (Inr (), ([], d'))"
  proof (cases "exprs = []")
    case True
    with d'(1) show ?thesis by (simp add: upsert_cron_schedules_def delete_crons_def)
  next
    case False
    with d'(1) show ?thesis by (simp add: upsert_cron_schedules_def delete_crons_def)
  qed
  have new_exprs: "cr_expr c \<in> set exprs" if "c \<in> set new" for c
  proof -
    have "c \<in> set (crons_of repo d')"
      using that d'(5) unfolding crons_of_def d'(4) by simp
    then have "cr_expr c \<in> cr_expr ` set (crons_of repo d')" by (rule imageI)
    with d'(3) kept show ?thesis by blast
  qed
  have "c \<in> set (rows (cron_schedules d')) \<longleftrightarrow> cr_repo c \<noteq> repo \<or> cr_expr c \<in> set exprs"
    if "c \<in> set (rows (cron_schedules d))" for c
    using that new_exprs d'(5) unfolding d'(4) by (auto simp: row_simps)
  moreover have "c \<in> set (rows (cron_schedules d)) \<or> cr_repo c = repo \<and> cr_last c = None"
    if "c \<in> set (rows (cron_schedules d'))" for c
    using that d'(5) unfolding d'(4) by (auto simp: row_simps)
  ultimately show ?thesis
    using atomic run d'(2,3) kept by blast
qed

definition demo_cron :: db where
  "demo_cron = snd (snd (upsert_cron_schedules 1 [''@daily'', ''@hourly''] ([], demo_fresh)))"

theorem upsert_cron_schedules_spec_witness:
  "\<exists>d'. upsert_cron_schedules 1 [''@weekly'', ''@daily''] ([], demo_cron) = (Inr (), ([], d')) \<and> crons_ok d' \<and>
      cr_expr ` set (crons_of 1 d') = set [''@weekly'', ''@daily''] \<and>
      (\<forall>c \<in> set (rows (cron_schedules demo_cron)). c \<in> set (rows (cron_schedules d')) \<longleftrightarrow>
        cr_repo c \<noteq> 1 \<or> cr_expr c \<in> set [''@weekly'', ''@daily'']) \<and>
      (\<forall>c \<in> set (rows (cron_schedules d')). c \<in> set (rows (cron_schedules demo_cron)) \<or> cr_repo c = 1 \<and> cr_last c = None)"
proof (rule upsert_cron_schedules_spec [THEN conjunct2])
  show "repo_exists 1 demo_cron" by code_simp
  show "crons_ok demo_cron" by code_simp
qed

end
