(* ===== verification/Pipeline.thy ===== *)
theory Pipeline imports IssueList begin

text \<open>
  \<open>internal/ci/ci.go\<close>: a parsed \<open>codefort.yml\<close>, its validation, the branch filter, the cycle search
  and the topological order of the jobs. Decoding the YAML text is the library's; a step is the
  \<open>yaml.Node\<close> it yields. Steps are looked into in \<open>Translate\<close>, so \<open>Validate\<close> is there.
\<close>

section \<open>The parsed file\<close>

datatype yaml_kind = DocumentNode | SequenceNode | MappingNode | ScalarNode | AliasNode

datatype node = Node (kind: yaml_kind) (tag: string) (val: string) (content: "node list")

record job =
  jb_needs :: "string list"
  jb_image :: string
  jb_docker_socket :: bool
  jb_steps :: "node list"

text \<open>The \<open>jobs\<close> map as an association list; a missing key reads as the zero \<open>Job\<close>.\<close>

record pipeline =
  pl_version :: string
  pl_branches :: "string list"
  pl_schedule :: "string list"
  pl_jobs :: "(string \<times> job) list"

definition job_of :: "pipeline \<Rightarrow> string \<Rightarrow> job option" where
  "job_of p n = map_of (pl_jobs p) n"

definition needs_of :: "pipeline \<Rightarrow> string \<Rightarrow> string list" where
  "needs_of p n = (case job_of p n of None \<Rightarrow> [] | Some j \<Rightarrow> jb_needs j)"

definition job_names :: "pipeline \<Rightarrow> string list" where
  "job_names p = sort (remdups (map fst (pl_jobs p)))"

definition schema_version :: string where
  "schema_version = ''1''"

lemma job_names_distinct [simp]: "distinct (job_names p)"
  by (simp add: job_names_def)

lemma job_names_iff: "n \<in> set (job_names p) \<longleftrightarrow> job_of p n \<noteq> None"
  by (simp add: job_names_def job_of_def map_of_eq_None_iff)

lemma needs_of_unknown: "n \<notin> set (job_names p) \<Longrightarrow> needs_of p n = []"
  by (simp add: needs_of_def job_names_iff)

section \<open>Which pushes trigger\<close>

text \<open>\<open>utf8.DecodeRuneInString\<close>: the code point at the head of a non-empty string and the rest; an
  invalid byte is U+FFFD of width one.\<close>

definition cont :: "char \<Rightarrow> bool" where
  "cont c \<longleftrightarrow> 0x80 \<le> (of_char c :: nat) \<and> (of_char c :: nat) < 0xC0"

fun decode_rune :: "string \<Rightarrow> nat \<times> string" where
  "decode_rune [] = (0xFFFD, [])"
| "decode_rune (c # s) =
     (let b = (\<lambda>i. of_char (s ! i) :: nat); n = of_char c :: nat;
          two = (n - 0xC0) * 64 + (b 0 - 0x80);
          three = (n - 0xE0) * 4096 + (b 0 - 0x80) * 64 + (b 1 - 0x80);
          four = (n - 0xF0) * 262144 + (b 0 - 0x80) * 4096 + (b 1 - 0x80) * 64 + (b 2 - 0x80) in
      if n < 0x80 then (n, s)
      else if 0xC2 \<le> n \<and> n < 0xE0 \<and> 1 \<le> length s \<and> cont (s ! 0) then (two, drop 1 s)
      else if 0xE0 \<le> n \<and> n < 0xF0 \<and> 2 \<le> length s \<and> list_all cont (take 2 s) \<and>
              0x800 \<le> three \<and> \<not> (0xD800 \<le> three \<and> three < 0xE000) then (three, drop 2 s)
      else if 0xF0 \<le> n \<and> n < 0xF5 \<and> 3 \<le> length s \<and> list_all cont (take 3 s) \<and>
              0x10000 \<le> four \<and> four \<le> 0x10FFFF then (four, drop 3 s)
      else (0xFFFD, s))"

lemma decode_rune_shorter: "s \<noteq> [] \<Longrightarrow> length (snd (decode_rune s)) < length s"
proof (cases s)
  case (Cons c t)
  then have "snd (decode_rune s) \<in> {t, drop 1 t, drop 2 t, drop 3 t}"
    by (simp add: Let_def del: drop_Suc_Cons)
  with Cons show ?thesis by auto
qed simp

declare decode_rune.simps [simp del]

text \<open>One character of a class: \<open>c\<close> or \<open>\ c\<close>, none at the end of the pattern or at \<open>-\<close> and \<open>]\<close>.\<close>

definition class_char :: "string \<Rightarrow> (nat \<times> string) option" where
  "class_char p = (case p of [] \<Rightarrow> None
     | c # ps \<Rightarrow> if c = CHR ''-'' \<or> c = CHR '']'' then None
        else let q = (if c = CHR 0x5C then ps else p) in
          if q = [] then None else let (r, q') = decode_rune q in
          if q' = [] \<or> (r = 0xFFFD \<and> length q' + 1 = length q) then None else Some (r, q'))"

lemma class_char_shorter: "class_char p = Some (r, q) \<Longrightarrow> length q < length p"
proof -
  assume a: "class_char p = Some (r, q)"
  then obtain c ps where p: "p = c # ps" by (cases p) (auto simp: class_char_def)
  with a obtain x where x: "x = (if c = CHR 0x5C then ps else p)" "x \<noteq> []" "q = snd (decode_rune x)"
    by (auto simp: class_char_def Let_def split: if_splits prod.splits)
  with decode_rune_shorter [of x] p show ?thesis by (auto split: if_splits)
qed

text \<open>The ranges of a class up to its \<open>]\<close>: whether one of them holds the rune, and the pattern after
  it; \<open>None\<close> when the class is malformed. \<open>n\<close> counts the ranges read.\<close>

function class_ranges :: "nat \<Rightarrow> bool \<Rightarrow> nat \<Rightarrow> string \<Rightarrow> (bool \<times> string) option" where
  "class_ranges r found n p =
     (if 0 < n \<and> p \<noteq> [] \<and> hd p = CHR '']'' then Some (found, tl p)
      else case class_char p of
        None \<Rightarrow> None
      | Some (lo, q) \<Rightarrow>
          if q \<noteq> [] \<and> hd q = CHR ''-'' then
            (case class_char (tl q) of
               None \<Rightarrow> None
             | Some (hi, q') \<Rightarrow> class_ranges r (found \<or> lo \<le> r \<and> r \<le> hi) (Suc n) q')
          else class_ranges r (found \<or> lo \<le> r \<and> r \<le> lo) (Suc n) q)"
  by pat_completeness auto

termination
  by (relation "measure (\<lambda>(r, found, n, p). length p)") (auto dest!: class_char_shorter)

declare class_ranges.simps [simp del]

lemma class_ranges_shorter: "class_ranges r found n p = Some (b, q) \<Longrightarrow> length q < length p"
proof (induction r found n p rule: class_ranges.induct)
  case (1 r found n p)
  show ?case
  proof (cases "0 < n \<and> p \<noteq> [] \<and> hd p = CHR '']''")
    case True
    with "1.prems" show ?thesis by (subst (asm) class_ranges.simps) (cases p; auto)
  next
    case False
    with "1.prems" obtain lo x where x: "class_char p = Some (lo, x)"
      by (subst (asm) class_ranges.simps) (auto split: option.splits)
    show ?thesis
    proof (cases "x \<noteq> [] \<and> hd x = CHR ''-''")
      case True
      with "1.prems" False x obtain hi y where y: "class_char (tl x) = Some (hi, y)"
        "class_ranges r (found \<or> lo \<le> r \<and> r \<le> hi) (Suc n) y = Some (b, q)"
        by (subst (asm) class_ranges.simps) (auto split: option.splits)
      from "1.IH"(1) [OF False x refl True y(1) refl y(2)] class_char_shorter [OF x] class_char_shorter [OF y(1)]
      show ?thesis by simp
    next
      case no: False
      with "1.prems" False x have "class_ranges r (found \<or> lo \<le> r \<and> r \<le> lo) (Suc n) x = Some (b, q)"
        by (subst (asm) class_ranges.simps) auto
      from "1.IH"(2) [OF False x refl no this] class_char_shorter [OF x] show ?thesis by simp
    qed
  qed
qed

definition class_match :: "nat \<Rightarrow> string \<Rightarrow> string option" where
  "class_match r p =
     (let neg = (p \<noteq> [] \<and> hd p = CHR ''^'') in
      case class_ranges r False 0 (if neg then tl p else p) of
        None \<Rightarrow> None
      | Some (found, q) \<Rightarrow> if found \<noteq> neg then Some q else None)"

lemma class_match_shorter: "class_match r p = Some q \<Longrightarrow> length q < Suc (length p)"
  using class_ranges_shorter [of r False 0 "if p \<noteq> [] \<and> hd p = CHR ''^'' then tl p else p"]
  by (fastforce simp: class_match_def Let_def split: option.splits prod.splits if_splits)

text \<open>\<open>path.Match\<close>: whether the pattern matches the whole name; a malformed pattern matches nothing.\<close>

function path_match :: "string \<Rightarrow> string \<Rightarrow> bool" where
  "path_match [] name = (name = [])"
| "path_match (p # ps) name =
     (if p = CHR ''*'' then
        path_match ps name \<or>
        (case name of [] \<Rightarrow> False | c # cs \<Rightarrow> c \<noteq> CHR ''/'' \<and> path_match (p # ps) cs)
      else case name of [] \<Rightarrow> False
        | c # cs \<Rightarrow>
            if p = CHR ''?'' then c \<noteq> CHR ''/'' \<and> path_match ps (snd (decode_rune name))
            else if p = CHR ''['' then
              (case class_match (fst (decode_rune name)) ps of
                 None \<Rightarrow> False | Some q \<Rightarrow> path_match q (snd (decode_rune name)))
            else if p = CHR 0x5C then (case ps of [] \<Rightarrow> False | q # qs \<Rightarrow> q = c \<and> path_match qs cs)
            else p = c \<and> path_match ps cs)"
  by pat_completeness auto

termination
  by (relation "measures [\<lambda>(p, s). length p, \<lambda>(p, s). length s]") (auto dest: class_match_shorter)

definition matches :: "pipeline \<Rightarrow> string \<Rightarrow> bool" where
  "matches p ref \<longleftrightarrow>
     (if pl_branches p = [] then True
      else case cut_prefix ref ''refs/heads/'' of
        None \<Rightarrow> False
      | Some name \<Rightarrow> list_ex (\<lambda>pat. pat = name \<or> path_match pat name) (pl_branches p))"

section \<open>Topological order\<close>

text \<open>The inner loops of \<open>TopoOrder\<close>: emit a job, and take it off the count of every job that needs it.\<close>

definition decrement :: "pipeline \<Rightarrow> string \<Rightarrow> string list \<Rightarrow> (string \<Rightarrow> int) \<Rightarrow> string \<Rightarrow> int" where
  "decrement p name = fold (\<lambda>other f.
     fold (\<lambda>dep f. if dep = name then f(other := f other - 1) else f) (needs_of p other) f)"

text \<open>One sweep over the sorted names: whether a job was emitted, the counts, the order so far.\<close>

fun sweep :: "pipeline \<Rightarrow> string list \<Rightarrow> bool \<times> (string \<Rightarrow> int) \<times> string list \<Rightarrow> bool \<times> (string \<Rightarrow> int) \<times> string list" where
  "sweep p [] st = st"
| "sweep p (name # ns) (progressed, indeg, order) =
     (if indeg name \<noteq> 0 then sweep p ns (progressed, indeg, order)
      else sweep p ns (True, decrement p name (job_names p) (indeg(name := -1)), order @ [name]))"

lemma sweep_length:
  "sweep p ns (b, indeg, order) = (b', indeg', order') \<Longrightarrow>
   length order \<le> length order' \<and> (b' \<longrightarrow> b \<or> length order < length order')"
proof (induction p ns "(b, indeg, order)" arbitrary: b indeg order rule: sweep.induct)
  case (2 p name ns b indeg order)
  show ?case
  proof (cases "indeg name = 0")
    case True
    with 2 show ?thesis by fastforce
  next
    case False
    with 2 show ?thesis by simp
  qed
qed auto

function topo_loop :: "pipeline \<Rightarrow> (string \<Rightarrow> int) \<Rightarrow> string list \<Rightarrow> string list option" where
  "topo_loop p indeg order =
     (if length (job_names p) \<le> length order then Some order
      else case sweep p (job_names p) (False, indeg, order) of
        (progressed, indeg', order') \<Rightarrow>
          if \<not> progressed then None else topo_loop p indeg' order')"
  by pat_completeness auto

termination
  by (relation "measure (\<lambda>(p, indeg, order). length (job_names p) - length order)")
     (auto dest!: sweep_length [OF sym])

declare topo_loop.simps [simp del]

text \<open>\<open>None\<close> is the error of a cycle.\<close>

definition topo_order :: "pipeline \<Rightarrow> string list option" where
  "topo_order p = topo_loop p (\<lambda>n. int (length (needs_of p n))) []"

text \<open>What the job needs, as an edge, and the well-formedness \<open>Validate\<close> establishes.\<close>

definition need_edges :: "pipeline \<Rightarrow> (string \<times> string) set" where
  "need_edges p = {(n, m). m \<in> set (needs_of p n)}"

definition needs_known :: "pipeline \<Rightarrow> bool" where
  "needs_known p \<longleftrightarrow> (\<forall>n \<in> set (job_names p). set (needs_of p n) \<subseteq> set (job_names p))"

definition dep_ordered :: "pipeline \<Rightarrow> string list \<Rightarrow> bool" where
  "dep_ordered p order \<longleftrightarrow> (\<forall>i < length order. set (needs_of p (order ! i)) \<subseteq> set (take i order))"

definition topo_inv :: "pipeline \<Rightarrow> (string \<Rightarrow> int) \<Rightarrow> string list \<Rightarrow> bool" where
  "topo_inv p indeg order \<longleftrightarrow> distinct order \<and> set order \<subseteq> set (job_names p) \<and> dep_ordered p order \<and>
     (\<forall>m \<in> set (job_names p). indeg m =
        (if m \<in> set order then -1 else int (length (filter (\<lambda>d. d \<notin> set order) (needs_of p m)))))"

lemma fold_decrement_one:
  "fold (\<lambda>dep f. if dep = name then f(other := f other - 1) else f) ds f =
   f(other := f other - int (length (filter (\<lambda>d. d = name) ds)) :: int)"
  by (induction ds arbitrary: f) auto

lemma decrement_fold:
  "distinct ns \<Longrightarrow> decrement p name ns f m =
   (if m \<in> set ns then f m - int (length (filter (\<lambda>d. d = name) (needs_of p m))) else f m)"
proof (induction ns arbitrary: f)
  case (Cons n ns)
  then show ?case
    by (auto simp: decrement_def fold_decrement_one)
qed (simp add: decrement_def)

lemma filter_split_count:
  "name \<notin> A \<Longrightarrow> length (filter (\<lambda>d. d \<notin> insert name A) xs) + length (filter (\<lambda>d. d = name) xs) =
   length (filter (\<lambda>d. d \<notin> A) xs)"
  by (induction xs) auto

lemma dep_ordered_snoc:
  assumes "dep_ordered p order" and "set (needs_of p name) \<subseteq> set order"
  shows "dep_ordered p (order @ [name])"
  using assms by (auto simp: dep_ordered_def nth_append less_Suc_eq)

lemma emit_inv:
  assumes "topo_inv p indeg order" and "name \<in> set (job_names p)" and "indeg name = 0"
  shows "topo_inv p (decrement p name (job_names p) (indeg(name := -1))) (order @ [name])"
proof -
  have new: "name \<notin> set order" using assms by (auto simp: topo_inv_def split: if_splits)
  then have done_needs: "set (needs_of p name) \<subseteq> set order"
    using assms by (auto simp: topo_inv_def filter_empty_conv)
  have older: "name \<notin> set (needs_of p m)" if m: "m \<in> set order" for m
  proof -
    obtain i where "i < length order" "order ! i = m" using m unfolding in_set_conv_nth by blast
    then have "set (needs_of p m) \<subseteq> set (take i order)"
      using assms(1) by (auto simp: topo_inv_def dep_ordered_def)
    then show ?thesis using new set_take_subset [of i order] by blast
  qed
  have none: "filter (\<lambda>d. d = name) (needs_of p m) = []" if "m \<in> insert name (set order)" for m
    using that older done_needs new by (auto simp: filter_empty_conv)
  have "decrement p name (job_names p) (indeg(name := -1)) m =
      (if m \<in> set (order @ [name]) then -1
       else int (length (filter (\<lambda>d. d \<notin> set (order @ [name])) (needs_of p m))))"
    if m: "m \<in> set (job_names p)" for m
  proof (cases "m \<in> insert name (set order)")
    case True
    with none [OF True] m assms(1) show ?thesis
      by (auto simp: decrement_fold topo_inv_def)
  next
    case False
    have "int (length (filter (\<lambda>d. d \<notin> insert name (set order)) (needs_of p m))) =
        int (length (filter (\<lambda>d. d \<notin> set order) (needs_of p m))) - int (length (filter (\<lambda>d. d = name) (needs_of p m)))"
      using filter_split_count [OF new, of "needs_of p m"] by linarith
    moreover have "indeg m = int (length (filter (\<lambda>d. d \<notin> set order) (needs_of p m)))"
      using assms(1) m False by (auto simp: topo_inv_def)
    ultimately show ?thesis using False m by (simp add: decrement_fold insert_commute)
  qed
  then show ?thesis
    using assms(1,2) new dep_ordered_snoc [OF _ done_needs] by (auto simp: topo_inv_def)
qed

lemma sweep_inv:
  "topo_inv p indeg order \<Longrightarrow> set ns \<subseteq> set (job_names p) \<Longrightarrow>
   sweep p ns (b, indeg, order) = (b', indeg', order') \<Longrightarrow>
   topo_inv p indeg' order' \<and> (b' = b \<longrightarrow> b \<or> (indeg' = indeg \<and> order' = order \<and> (\<forall>n \<in> set ns. indeg n \<noteq> 0))) \<and> (b \<longrightarrow> b')"
proof (induction p ns "(b, indeg, order)" arbitrary: b indeg order rule: sweep.induct)
  case (2 p name ns b indeg order)
  show ?case
  proof (cases "indeg name = 0")
    case True
    with "2.prems"(1,2) have "topo_inv p (decrement p name (job_names p) (indeg(name := -1))) (order @ [name])"
      by (intro emit_inv) auto
    from "2.hyps"(2) [OF _ this] True "2.prems"(2,3) show ?thesis by auto
  next
    case False
    with "2.hyps"(1) [OF False "2.prems"(1)] "2.prems"(2,3) show ?thesis by auto
  qed
qed auto

text \<open>While jobs are left over, an acyclic pipeline has one whose needs are all done.\<close>

lemma finite_need_edges: "finite (need_edges p)"
proof (rule finite_subset)
  show "need_edges p \<subseteq> set (job_names p) \<times> (\<Union>n \<in> set (job_names p). set (needs_of p n))"
    using needs_of_unknown by (fastforce simp: need_edges_def)
qed auto

lemma some_ready:
  assumes "topo_inv p indeg order" and "acyclic (need_edges p)" and "needs_known p"
    and "length order < length (job_names p)"
  shows "\<exists>n \<in> set (job_names p). indeg n = 0"
proof -
  have "wf ((need_edges p)\<inverse>)"
    using assms(2) finite_need_edges by (rule finite_acyclic_wf_converse [rotated])
  moreover have "set (job_names p) - set order \<noteq> {}"
  proof
    assume "set (job_names p) - set order = {}"
    then have "card (set (job_names p)) \<le> card (set order)" by (auto intro: card_mono)
    also have "\<dots> \<le> length order" by (rule card_length)
    finally show False using assms(4) by (simp add: distinct_card)
  qed
  ultimately obtain n where n: "n \<in> set (job_names p) - set order"
    and min: "\<And>m. (m, n) \<in> (need_edges p)\<inverse> \<Longrightarrow> m \<notin> set (job_names p) - set order"
    by (metis ex_in_conv wfE_min)
  then have "set (needs_of p n) \<subseteq> set order"
    using assms(3) by (fastforce simp: need_edges_def needs_known_def)
  with n assms(1) show ?thesis
    by (intro bexI [of _ n]) (auto simp: topo_inv_def filter_empty_conv)
qed

lemma topo_loop_correct:
  assumes "topo_inv p indeg order" and "acyclic (need_edges p)" and "needs_known p"
  shows "\<exists>out. topo_loop p indeg order = Some out \<and> distinct out \<and> set out = set (job_names p) \<and> dep_ordered p out"
  using assms
proof (induction p indeg order rule: topo_loop.induct)
  case (1 p indeg order)
  show ?case
  proof (cases "length (job_names p) \<le> length order")
    case True
    have sub: "set order \<subseteq> set (job_names p)" and "distinct order"
      using "1.prems"(1) by (auto simp: topo_inv_def)
    then have "card (set order) = card (set (job_names p))"
      using True card_mono [OF _ sub] by (simp add: distinct_card)
    then have "set order = set (job_names p)"
      using sub by (simp add: card_subset_eq)
    with True "1.prems"(1) show ?thesis by (subst topo_loop.simps) (auto simp: topo_inv_def)
  next
    case False
    obtain b indeg' order' where sw: "sweep p (job_names p) (False, indeg, order) = (b, indeg', order')"
      by (metis prod_cases3)
    from sweep_inv [OF "1.prems"(1) subset_refl sw] have inv: "topo_inv p indeg' order'"
      and idle: "\<not> b \<Longrightarrow> \<forall>n \<in> set (job_names p). indeg n \<noteq> 0" by auto
    have b: "b" using some_ready [OF "1.prems"] False idle by (meson not_le)
    from "1.IH" [OF False sw [symmetric] refl _ inv "1.prems"(2,3)] b
    show ?thesis using False sw by (subst topo_loop.simps) simp
  qed
qed

lemma topo_inv_start: "topo_inv p (\<lambda>n. int (length (needs_of p n))) []"
  by (simp add: topo_inv_def dep_ordered_def)

section \<open>Cycle search\<close>

text \<open>
  The recursive \<open>visit\<close> of \<open>findCycle\<close> with its colours and its stack, by fuel: each call colours a
  job grey that was white, so the number of names that occur in the pipeline is enough.
\<close>

datatype color = White | Gray | Black

type_synonym dfs = "(string \<Rightarrow> color) \<times> string list"

fun visit :: "nat \<Rightarrow> pipeline \<Rightarrow> string \<Rightarrow> dfs \<Rightarrow> (string list option \<times> dfs) option"
and visit_deps :: "nat \<Rightarrow> pipeline \<Rightarrow> string list \<Rightarrow> dfs \<Rightarrow> (string list option \<times> dfs) option" where
  "visit 0 p name s = None"
| "visit (Suc k) p name (col, stack) =
     (case visit_deps k p (needs_of p name) (col(name := Gray), stack @ [name]) of
        None \<Rightarrow> None
      | Some (Some c, s) \<Rightarrow> Some (Some c, s)
      | Some (None, (col', stack')) \<Rightarrow> Some (None, (col'(name := Black), butlast stack')))"
| "visit_deps k p [] s = Some (None, s)"
| "visit_deps k p (dep # deps) (col, stack) =
     (case col dep of
        Gray \<Rightarrow> if dep \<in> set stack then Some (Some (dropWhile (\<lambda>n. n \<noteq> dep) stack @ [dep]), (col, stack))
                else visit_deps k p deps (col, stack)
      | White \<Rightarrow> (case visit k p dep (col, stack) of
            None \<Rightarrow> None
          | Some (Some c, s) \<Rightarrow> Some (Some c, s)
          | Some (None, s) \<Rightarrow> visit_deps k p deps s)
      | Black \<Rightarrow> visit_deps k p deps (col, stack))"

fun visit_roots :: "nat \<Rightarrow> pipeline \<Rightarrow> string list \<Rightarrow> dfs \<Rightarrow> string list option option" where
  "visit_roots k p [] s = Some None"
| "visit_roots k p (name # ns) (col, stack) =
     (if col name = White then
        (case visit k p name (col, stack) of
           None \<Rightarrow> None
         | Some (Some c, s) \<Rightarrow> Some (Some c)
         | Some (None, s) \<Rightarrow> visit_roots k p ns s)
      else visit_roots k p ns (col, stack))"

definition all_names :: "pipeline \<Rightarrow> string list" where
  "all_names p = remdups (job_names p @ concat (map (needs_of p) (job_names p)))"

text \<open>\<open>Some None\<close> is \<open>nil\<close>; \<open>None\<close> is a search that has not come to an end.\<close>

definition find_cycle :: "pipeline \<Rightarrow> string list option option" where
  "find_cycle p = visit_roots (length (all_names p)) p (job_names p) (\<lambda>_. White, [])"

definition is_cycle :: "pipeline \<Rightarrow> string list \<Rightarrow> bool" where
  "is_cycle p c \<longleftrightarrow> 2 \<le> length c \<and> hd c = last c \<and> successively (\<lambda>a b. b \<in> set (needs_of p a)) c"

definition dfs_inv :: "pipeline \<Rightarrow> (string \<Rightarrow> color) \<Rightarrow> string list \<Rightarrow> bool" where
  "dfs_inv p col stack \<longleftrightarrow> set stack = {n. col n = Gray} \<and> distinct stack \<and>
     successively (\<lambda>a b. b \<in> set (needs_of p a)) stack \<and>
     (\<forall>n. col n = Black \<longrightarrow> (\<forall>m \<in> set (needs_of p n). col m = Black) \<and> (n, n) \<notin> (need_edges p)\<^sup>+)"

definition whites :: "pipeline \<Rightarrow> (string \<Rightarrow> color) \<Rightarrow> nat" where
  "whites p col = card {n \<in> set (all_names p). col n = White}"

definition extends :: "pipeline \<Rightarrow> (string \<Rightarrow> color) \<Rightarrow> string list \<Rightarrow> string set \<Rightarrow> dfs \<Rightarrow> bool" where
  "extends p col stack done s \<longleftrightarrow> snd s = stack \<and> dfs_inv p (fst s) stack \<and>
     (\<forall>n. col n = Black \<longrightarrow> fst s n = Black) \<and> (\<forall>n. fst s n = White \<longrightarrow> col n = White) \<and>
     (\<forall>n \<in> done. fst s n = Black)"

lemma needs_in_all: "m \<in> set (needs_of p n) \<Longrightarrow> m \<in> set (all_names p)"
  using needs_of_unknown [of n p] by (cases "n \<in> set (job_names p)") (auto simp: all_names_def)

lemma whites_mono: "(\<And>n. col' n = White \<Longrightarrow> col n = White) \<Longrightarrow> whites p col' \<le> whites p col"
  unfolding whites_def by (rule card_mono) auto

lemma whites_less: "col name = White \<Longrightarrow> name \<in> set (all_names p) \<Longrightarrow> whites p (col(name := Gray)) < whites p col"
  unfolding whites_def by (rule psubset_card_mono) auto

lemma back_edge_cycle:
  assumes "dfs_inv p col stack" and "dep \<in> set stack" and "dep \<in> set (needs_of p (last stack))"
  shows "is_cycle p (dropWhile (\<lambda>n. n \<noteq> dep) stack @ [dep])"
proof -
  let ?w = "dropWhile (\<lambda>n. n \<noteq> dep) stack"
  have "?w \<noteq> []" and hd: "hd ?w = dep"
    using assms(2) hd_dropWhile [of "\<lambda>n. n \<noteq> dep" stack] by auto
  obtain u where u: "stack = u @ ?w" by (metis takeWhile_dropWhile_id)
  then have "last ?w = last stack" using \<open>?w \<noteq> []\<close> by (metis last_appendR)
  moreover have "successively (\<lambda>a b. b \<in> set (needs_of p a)) ?w"
    using assms(1) u by (metis dfs_inv_def successively_append_iff)
  ultimately show ?thesis
    using assms(3) hd \<open>?w \<noteq> []\<close>
    by (simp add: is_cycle_def successively_append_iff Suc_le_eq)
qed

lemma black_closed:
  assumes "(m, n) \<in> (need_edges p)\<^sup>*" and "col m = Black"
    and "\<And>n k. col n = Black \<Longrightarrow> k \<in> set (needs_of p n) \<Longrightarrow> col k = Black"
  shows "col n = Black"
  using assms(1,2) by (induction rule: rtrancl_induct) (auto simp: need_edges_def assms(3))

lemma blacken:
  assumes "dfs_inv p col (stack @ [name])" and "\<forall>d \<in> set (needs_of p name). col d = Black"
  shows "dfs_inv p (col(name := Black)) stack"
proof -
  have gray: "col name = Gray" using assms(1) by (auto simp: dfs_inv_def)
  have closed: "\<And>n k. col n = Black \<Longrightarrow> k \<in> set (needs_of p n) \<Longrightarrow> col k = Black"
    using assms(1) by (auto simp: dfs_inv_def)
  have "(name, name) \<notin> (need_edges p)\<^sup>+"
  proof
    assume "(name, name) \<in> (need_edges p)\<^sup>+"
    then obtain m where "(name, m) \<in> need_edges p" "(m, name) \<in> (need_edges p)\<^sup>*"
      by (meson tranclD)
    with assms(2) black_closed [of m name p col] closed have "col name = Black"
      by (auto simp: need_edges_def)
    with gray show False by simp
  qed
  moreover have "set stack = {n. (col(name := Black)) n = Gray}"
    using assms(1) by (auto simp: dfs_inv_def)
  moreover have "distinct stack" and "successively (\<lambda>a b. b \<in> set (needs_of p a)) stack"
    using assms(1) by (auto simp: dfs_inv_def successively_append_iff)
  moreover have "col n = Black \<Longrightarrow> (n, n) \<notin> (need_edges p)\<^sup>+" for n
    using assms(1) by (auto simp: dfs_inv_def)
  ultimately show ?thesis
    using assms(2) closed unfolding dfs_inv_def by auto
qed

lemma grayen:
  assumes "dfs_inv p col stack" and "col name = White"
    and "stack \<noteq> [] \<Longrightarrow> name \<in> set (needs_of p (last stack))"
  shows "dfs_inv p (col(name := Gray)) (stack @ [name])"
proof -
  have "name \<notin> set stack" using assms(1,2) by (auto simp: dfs_inv_def)
  moreover have "name \<notin> set (needs_of p n)" if "col n = Black" for n
    using assms(1,2) that by (force simp: dfs_inv_def)
  ultimately show ?thesis
    using assms by (auto simp: dfs_inv_def successively_append_iff)
qed

lemma extends_refl: "dfs_inv p col stack \<Longrightarrow> extends p col stack {} (col, stack)"
  by (simp add: extends_def)

lemma last_snoc_needs: "set (needs_of p name) \<subseteq> set (needs_of p (last (stack @ [name])))"
  by simp

lemma visit_correct:
  "dfs_inv p (fst s) (snd s) \<Longrightarrow> fst s name = White \<Longrightarrow> name \<in> set (all_names p) \<Longrightarrow>
   (snd s \<noteq> [] \<Longrightarrow> name \<in> set (needs_of p (last (snd s)))) \<Longrightarrow> whites p (fst s) \<le> k \<Longrightarrow>
   \<exists>r s'. visit k p name s = Some (r, s') \<and>
     (case r of None \<Rightarrow> extends p (fst s) (snd s) {name} s' | Some c \<Rightarrow> is_cycle p c)"
  "dfs_inv p (fst s) (snd s) \<Longrightarrow> snd s \<noteq> [] \<Longrightarrow> set deps \<subseteq> set (needs_of p (last (snd s))) \<Longrightarrow>
   whites p (fst s) \<le> k \<Longrightarrow>
   \<exists>r s'. visit_deps k p deps s = Some (r, s') \<and>
     (case r of None \<Rightarrow> extends p (fst s) (snd s) (set deps) s' | Some c \<Rightarrow> is_cycle p c)"
proof (induction k p name s and k p deps s rule: visit_visit_deps.induct)
  case (1 p name s)
  then have "whites p (fst s) = 0" by simp
  then have "{n \<in> set (all_names p). fst s n = White} = {}" by (simp add: whites_def)
  with "1.prems" show ?case by auto
next
  case (2 k p name col stack)
  let ?col = "col(name := Gray)" and ?stack = "stack @ [name]"
  have inv: "dfs_inv p ?col ?stack" using grayen "2.prems" by simp
  have fuel: "whites p ?col \<le> k" using whites_less [of col name p] "2.prems" by simp
  have "?stack \<noteq> []" by simp
  from "2.IH" [unfolded fst_conv snd_conv, OF inv this last_snoc_needs fuel] obtain r s' where r: "visit_deps k p (needs_of p name) (?col, ?stack) = Some (r, s')"
    "case r of None \<Rightarrow> extends p ?col ?stack (set (needs_of p name)) s' | Some c \<Rightarrow> is_cycle p c"
    by blast
  show ?case
  proof (cases r)
    case None
    obtain col' where s': "s' = (col', ?stack)" and ext: "extends p ?col ?stack (set (needs_of p name)) (col', ?stack)"
      using r None by (cases s') (auto simp: extends_def)
    then have "dfs_inv p (col'(name := Black)) stack"
      by (intro blacken) (auto simp: extends_def)
    moreover have "visit (Suc k) p name (col, stack) = Some (None, (col'(name := Black), stack))"
      using r(1) None s' by simp
    ultimately show ?thesis
      using ext by (auto simp: extends_def split: if_splits)
  next
    case (Some c)
    with r show ?thesis by simp
  qed
next
  case (3 k p s)
  then show ?case by (simp add: extends_def)
next
  case (4 k p dep deps col stack)
  show ?case
  proof (cases "col dep")
    case White
    have dep: "dep \<in> set (all_names p)" using "4.prems"(3) by (auto intro: needs_in_all)
    obtain r s' where r: "visit k p dep (col, stack) = Some (r, s')"
      "case r of None \<Rightarrow> extends p col stack {dep} s' | Some c \<Rightarrow> is_cycle p c"
      using "4.IH"(1) [unfolded fst_conv snd_conv, OF White] "4.prems" White dep by auto
    show ?thesis
    proof (cases r)
      case None
      obtain col' where s': "s' = (col', stack)" and ext: "extends p col stack {dep} (col', stack)"
        using r None by (cases s') (auto simp: extends_def)
      have "whites p col' \<le> whites p col"
        using ext by (intro whites_mono) (auto simp: extends_def)
      then obtain q t where q: "visit_deps k p deps (col', stack) = Some (q, t)"
        "case q of None \<Rightarrow> extends p col' stack (set deps) t | Some c \<Rightarrow> is_cycle p c"
        using "4.IH"(2) [OF White r(1) refl None, unfolded s' fst_conv snd_conv] "4.prems" ext
        by (auto simp: extends_def)
      moreover have "visit_deps k p (dep # deps) (col, stack) = Some (q, t)"
        using White r(1) None s' q(1) by simp
      moreover have "extends p col' stack (set deps) t \<Longrightarrow> extends p col stack (set (dep # deps)) t"
        using ext unfolding extends_def fst_conv snd_conv list.set by blast
      ultimately show ?thesis
        unfolding fst_conv snd_conv
        by (intro exI [of _ q] exI [of _ t] conjI) (assumption, simp split: option.splits)
    next
      case (Some c)
      with r White show ?thesis by simp
    qed
  next
    case Gray
    then have "dep \<in> set stack" using "4.prems"(1) by (auto simp: dfs_inv_def)
    with Gray back_edge_cycle [of p col stack dep] "4.prems" show ?thesis by simp
  next
    case Black
    obtain q t where "visit_deps k p deps (col, stack) = Some (q, t)"
        "case q of None \<Rightarrow> extends p col stack (set deps) t | Some c \<Rightarrow> is_cycle p c"
      using "4.IH"(4) [unfolded fst_conv snd_conv, OF Black] "4.prems" by auto
    with Black show ?thesis by (cases q) (auto simp: extends_def)
  qed
qed

lemma visit_roots_correct:
  assumes "dfs_inv p col []" and "set ns \<subseteq> set (all_names p)" and "whites p col \<le> k"
  shows "\<exists>r. visit_roots k p ns (col, []) = Some r \<and>
    (case r of Some c \<Rightarrow> is_cycle p c
     | None \<Rightarrow> \<exists>col'. dfs_inv p col' [] \<and> (\<forall>n. col n = Black \<longrightarrow> col' n = Black) \<and> (\<forall>n \<in> set ns. col' n = Black))"
  using assms
proof (induction ns arbitrary: col)
  case Nil
  then show ?case by auto
next
  case (Cons name ns)
  show ?case
  proof (cases "col name = White")
    case True
    from visit_correct(1) [of p "(col, [])" name k, unfolded fst_conv snd_conv] Cons.prems True obtain r s' where
      r: "visit k p name (col, []) = Some (r, s')"
        "case r of None \<Rightarrow> extends p col [] {name} s' | Some c \<Rightarrow> is_cycle p c" by auto
    show ?thesis
    proof (cases r)
      case None
      obtain col' where s': "s' = (col', [])" and ext: "extends p col [] {name} (col', [])"
        using r None by (cases s') (auto simp: extends_def)
      then have inv: "dfs_inv p col' []" and step: "\<forall>n. col n = Black \<longrightarrow> col' n = Black" "col' name = Black"
        and white: "\<And>n. col' n = White \<Longrightarrow> col n = White"
        by (auto simp: extends_def)
      have "whites p col' \<le> k" using whites_mono [of col' col p] white Cons.prems(3) by simp
      from Cons.IH [OF inv _ this] Cons.prems(2) obtain q where q: "visit_roots k p ns (col', []) = Some q"
        "case q of Some c \<Rightarrow> is_cycle p c | None \<Rightarrow> \<exists>col2. dfs_inv p col2 [] \<and>
           (\<forall>n. col' n = Black \<longrightarrow> col2 n = Black) \<and> (\<forall>n \<in> set ns. col2 n = Black)" by auto
      have "visit_roots k p (name # ns) (col, []) = Some q"
        using True r(1) None s' q(1) by simp
      then show ?thesis using q(2) step by (cases q) auto
    next
      case (Some c)
      with r True show ?thesis by simp
    qed
  next
    case False
    then have "col name = Black"
      using Cons.prems(1) by (cases "col name") (auto simp: dfs_inv_def)
    moreover obtain q where q: "visit_roots k p ns (col, []) = Some q"
        "case q of Some c \<Rightarrow> is_cycle p c | None \<Rightarrow> \<exists>col2. dfs_inv p col2 [] \<and>
           (\<forall>n. col n = Black \<longrightarrow> col2 n = Black) \<and> (\<forall>n \<in> set ns. col2 n = Black)"
      using Cons.IH [OF Cons.prems(1)] Cons.prems by auto
    ultimately show ?thesis using False by (cases q) auto
  qed
qed

lemma cycle_not_acyclic: "is_cycle p c \<Longrightarrow> \<not> acyclic (need_edges p)"
proof -
  have path: "successively (\<lambda>a b. b \<in> set (needs_of p a)) (x # y # xs) \<Longrightarrow> (x, last (y # xs)) \<in> (need_edges p)\<^sup>+" for x y xs
    by (induction xs arbitrary: x y) (auto simp: need_edges_def intro: trancl_into_trancl2)
  assume c: "is_cycle p c"
  then obtain x y xs where "c = x # y # xs"
    by (cases c; cases "tl c") (auto simp: is_cycle_def)
  with c path [of x y xs] show ?thesis by (auto simp: is_cycle_def acyclic_def)
qed

lemma find_cycle_sound:
  "\<exists>r. find_cycle p = Some r \<and> (r = None \<longleftrightarrow> acyclic (need_edges p)) \<and> (\<forall>c. r = Some c \<longrightarrow> is_cycle p c)"
proof -
  have inv: "dfs_inv p (\<lambda>_. White) []" by (simp add: dfs_inv_def)
  have fuel: "whites p (\<lambda>_. White) \<le> length (all_names p)"
    unfolding whites_def by (rule order.trans [OF card_mono card_length]) auto
  from visit_roots_correct [OF inv _ fuel, of "job_names p"] obtain r where
    r: "visit_roots (length (all_names p)) p (job_names p) (\<lambda>_. White, []) = Some r"
      "case r of Some c \<Rightarrow> is_cycle p c
       | None \<Rightarrow> \<exists>col'. dfs_inv p col' [] \<and> (\<forall>n. White = Black \<longrightarrow> col' n = Black) \<and> (\<forall>n \<in> set (job_names p). col' n = Black)"
    by (auto simp: all_names_def)
  have fc: "find_cycle p = Some r" using r(1) by (simp add: find_cycle_def)
  show ?thesis
  proof (cases r)
    case None
    with r(2) obtain col where col: "dfs_inv p col []" "\<forall>n \<in> set (job_names p). col n = Black" by auto
    have "(n, n) \<notin> (need_edges p)\<^sup>+" for n
    proof
      assume "(n, n) \<in> (need_edges p)\<^sup>+"
      moreover from this have "n \<in> set (job_names p)"
        using needs_of_unknown [of n p] by (force dest: tranclD simp: need_edges_def)
      ultimately show False using col by (auto simp: dfs_inv_def)
    qed
    with None fc show ?thesis by (auto simp: acyclic_def)
  next
    case (Some c)
    with r(2) fc cycle_not_acyclic [of p c] show ?thesis by simp
  qed
qed

text \<open>C8: The search of \<open>findCycle\<close> always ends (the fuel, one unit for each name that occurs, never runs out), returns
  \<open>nil\<close> exactly when the \<open>needs\<close> of the jobs have no cycle, and otherwise a cycle: at least two names, each job
  needing the next one, the first and the last the same.\<close>

theorem find_cycle_correct:
  "if acyclic (need_edges p) then find_cycle p = Some None
   else \<exists>c. find_cycle p = Some (Some c) \<and> 2 \<le> length c \<and> hd c = last c \<and>
     successively (\<lambda>a b. b \<in> set (needs_of p a)) c"
proof -
  obtain r where r: "find_cycle p = Some r" "r = None \<longleftrightarrow> acyclic (need_edges p)" "\<forall>c. r = Some c \<longrightarrow> is_cycle p c"
    using find_cycle_sound by blast
  then show ?thesis by (auto simp: is_cycle_def)
qed

end
