(* ===== verification/Translate.thy ===== *)
theory Translate imports Pipeline begin

text \<open>
  \<open>internal/ci/translate.go\<close> and \<open>Validate\<close> of \<open>internal/ci/ci.go\<close>: what a well-formed step is, and the
  translation of a job's steps into a provision plan. \<open>yaml.Node.Decode\<close> into the HTTP assertion's
  struct is the parameter \<open>decode\<close> (url, status, contains), and \<open>%q\<close> of \<open>fmt\<close> the parameter \<open>quote\<close>.
\<close>

section \<open>Steps\<close>

datatype step_error =
    StepNotMapping yaml_kind | StepEmpty | RunCombined | RunNotCommand
  | HttpMalformed | HttpNoUrl | HttpStatus int

definition unwrap :: "node \<Rightarrow> node" where
  "unwrap n = (if kind n = DocumentNode \<and> length (content n) = 1 then hd (content n) else n)"

text \<open>The value under the first key \<open>run\<close>.\<close>

fun run_value :: "node list \<Rightarrow> node option" where
  "run_value (k # v # rest) = (if val k = ''run'' then Some v else run_value rest)"
| "run_value _ = None"

definition inspect_step :: "node \<Rightarrow> step_error + string option" where
  "inspect_step step =
     (let n = unwrap step in
      if kind n \<noteq> MappingNode then Inl (StepNotMapping (kind n))
      else if content n = [] then Inl StepEmpty
      else case run_value (content n) of
        None \<Rightarrow> Inr None
      | Some v \<Rightarrow>
          if length (content n) \<noteq> 2 then Inl RunCombined
          else if kind v \<noteq> ScalarNode \<or> val v = '''' then Inl RunNotCommand
          else Inr (Some (val v)))"

definition scalar :: "string \<Rightarrow> node" where
  "scalar v = Node ScalarNode ''!!str'' v []"

definition map_node :: "node list \<Rightarrow> node" where
  "map_node pairs = Node MappingNode ''!!map'' '''' pairs"

definition seq_node :: "node list \<Rightarrow> node" where
  "seq_node items = Node SequenceNode ''!!seq'' '''' items"

definition shell_node :: "string \<Rightarrow> node" where
  "shell_node cmd = map_node [scalar ''name'', scalar cmd, scalar ''shell'', scalar cmd,
     scalar ''changed_when'', scalar ''false'']"

definition cmd_node :: "string list \<Rightarrow> node" where
  "cmd_node argv = map_node [scalar ''name'', scalar (join '' '' argv),
     scalar ''cmd'', seq_node (map scalar argv), scalar ''changed_when'', scalar ''false'']"

definition shell_quote :: "string \<Rightarrow> string" where
  "shell_quote s = [CHR 0x27] @
     concat (map (\<lambda>c. if c = CHR 0x27 then [CHR 0x27, CHR 0x5C, CHR 0x27, CHR 0x27] else [c]) s) @ [CHR 0x27]"

record http_assert_spec =
  ha_url :: string
  ha_contains :: string

definition http_assert_node :: "(string \<Rightarrow> string) \<Rightarrow> http_assert_spec \<Rightarrow> node" where
  "http_assert_node quote a =
     (let plain = (ha_contains a = '''');
          cmd = (if plain then ''curl -sf '' @ ha_url a
                 else ''curl -sf '' @ ha_url a @ '' | grep -q '' @ shell_quote (ha_contains a));
          msg = (if plain then ha_url a @ '' did not return 200''
                 else ha_url a @ '' did not return 200 containing '' @ quote (ha_contains a))
      in map_node [scalar ''name'', scalar (''assert '' @ ha_url a),
           scalar ''assert'', map_node [scalar ''command'', scalar cmd, scalar ''msg'', scalar msg]])"

text \<open>Mooncake's own shapes: a mapping with the single given key.\<close>

definition only_entry :: "string \<Rightarrow> node \<Rightarrow> node option" where
  "only_entry key v =
     (if kind v \<noteq> MappingNode \<or> length (content v) \<noteq> 2 \<or> val (content v ! 0) \<noteq> key then None
      else Some (content v ! 1))"

definition mooncake_shell_cmd :: "node \<Rightarrow> string option" where
  "mooncake_shell_cmd v = (case only_entry ''cmd'' v of
     None \<Rightarrow> None | Some c \<Rightarrow> if kind c \<noteq> ScalarNode then None else Some (val c))"

definition mooncake_cmd_argv :: "node \<Rightarrow> string list option" where
  "mooncake_cmd_argv v = (case only_entry ''argv'' v of
     None \<Rightarrow> None
   | Some s \<Rightarrow> if kind s \<noteq> SequenceNode \<or> list_ex (\<lambda>i. kind i \<noteq> ScalarNode) (content s) then None
               else Some (map val (content s)))"

type_synonym http_decoder = "node \<Rightarrow> (string \<times> int \<times> string) option"

definition mooncake_http_assert :: "http_decoder \<Rightarrow> node \<Rightarrow> step_error + http_assert_spec option" where
  "mooncake_http_assert decode v =
     (case only_entry ''http'' v of
        None \<Rightarrow> Inr None
      | Some h \<Rightarrow>
          (case decode h of
             None \<Rightarrow> Inl HttpMalformed
           | Some (url, status, contains) \<Rightarrow>
               if url = '''' then Inl HttpNoUrl
               else if status \<noteq> 0 \<and> status \<noteq> 200 then Inl (HttpStatus status)
               else Inr (Some \<lparr>ha_url = url, ha_contains = contains\<rparr>)))"

record rewritten_step =
  rs_node :: node
  rs_action :: string
  rs_label :: string

definition rewrite_shell :: "string \<Rightarrow> rewritten_step" where
  "rewrite_shell cmd = \<lparr>rs_node = shell_node cmd, rs_action = ''shell'', rs_label = cmd\<rparr>"

definition classify_step :: "http_decoder \<Rightarrow> (string \<Rightarrow> string) \<Rightarrow> node \<Rightarrow> step_error + rewritten_step" where
  "classify_step decode quote step =
     (let n = unwrap step in
      if kind n \<noteq> MappingNode \<or> content n = [] then Inl (StepNotMapping (kind n))
      else case inspect_step step of
        Inl e \<Rightarrow> Inl e
      | Inr (Some cmd) \<Rightarrow> Inr (rewrite_shell cmd)
      | Inr None \<Rightarrow>
          (let key = val (content n ! 0); v = content n ! 1;
               raw = Inr \<lparr>rs_node = step, rs_action = key, rs_label = key\<rparr>
           in if key = ''shell'' then
                (case mooncake_shell_cmd v of Some cmd \<Rightarrow> Inr (rewrite_shell cmd) | None \<Rightarrow> raw)
              else if key = ''cmd'' then
                (case mooncake_cmd_argv v of
                   Some argv \<Rightarrow> Inr \<lparr>rs_node = cmd_node argv, rs_action = ''cmd'', rs_label = join '' '' argv\<rparr>
                 | None \<Rightarrow> raw)
              else if key = ''assert'' then
                (case mooncake_http_assert decode v of
                   Inl e \<Rightarrow> Inl e
                 | Inr (Some a) \<Rightarrow> Inr \<lparr>rs_node = http_assert_node quote a, rs_action = ''assert'',
                     rs_label = ''assert '' @ ha_url a\<rparr>
                 | Inr None \<Rightarrow> raw)
              else raw))"

text \<open>The loops over a job's steps stop at the first error, which carries the step's index.\<close>

fun classify_all :: "http_decoder \<Rightarrow> (string \<Rightarrow> string) \<Rightarrow> nat \<Rightarrow> node list \<Rightarrow> (nat \<times> step_error) + rewritten_step list" where
  "classify_all decode quote i [] = Inr []"
| "classify_all decode quote i (s # ss) =
     (case classify_step decode quote s of
        Inl e \<Rightarrow> Inl (i, e)
      | Inr r \<Rightarrow> (case classify_all decode quote (Suc i) ss of Inl e \<Rightarrow> Inl e | Inr rs \<Rightarrow> Inr (r # rs)))"

record step_meta =
  sm_action :: string
  sm_label :: string

definition job_step_meta :: "http_decoder \<Rightarrow> (string \<Rightarrow> string) \<Rightarrow> job \<Rightarrow> (nat \<times> step_error) + step_meta list" where
  "job_step_meta decode quote j = (case classify_all decode quote 0 (jb_steps j) of
     Inl e \<Rightarrow> Inl e
   | Inr rs \<Rightarrow> Inr (map (\<lambda>r. \<lparr>sm_action = rs_action r, sm_label = rs_label r\<rparr>) rs))"

text \<open>The document handed to \<open>yaml.Marshal\<close>.\<close>

definition translate_job_plan :: "http_decoder \<Rightarrow> (string \<Rightarrow> string) \<Rightarrow> job \<Rightarrow> (nat \<times> step_error) + node" where
  "translate_job_plan decode quote j = (case classify_all decode quote 0 (jb_steps j) of
     Inl e \<Rightarrow> Inl e
   | Inr rs \<Rightarrow> Inr (seq_node (map rs_node rs)))"

section \<open>Toolchain hints\<close>

definition known_toolchains :: "string list" where
  "known_toolchains = [''go'', ''gofmt'', ''node'', ''npm'', ''npx'', ''yarn'', ''pnpm'', ''python'',
     ''python3'', ''pip'', ''pip3'', ''cargo'', ''rustc'', ''java'', ''javac'', ''mvn'', ''gradle'', ''ruby'',
     ''bundle'', ''dotnet'', ''deno'', ''bun'', ''make'', ''cmake'', ''gcc'', ''g++'', ''clang'', ''tsc'']"

fun first_toolchain_used :: "node list \<Rightarrow> string option" where
  "first_toolchain_used [] = None"
| "first_toolchain_used (s # ss) =
     (case inspect_step s of
        Inr (Some cmd) \<Rightarrow>
          (case find (\<lambda>tok. tok \<in> set known_toolchains) (strings_fields cmd) of
             Some tok \<Rightarrow> Some tok | None \<Rightarrow> first_toolchain_used ss)
      | _ \<Rightarrow> first_toolchain_used ss)"

definition toolchain_hints :: "pipeline \<Rightarrow> (string \<times> string) list" where
  "toolchain_hints p = concat (map (\<lambda>name. case job_of p name of
       None \<Rightarrow> []
     | Some j \<Rightarrow> if jb_image j \<noteq> '''' then []
                 else (case first_toolchain_used (jb_steps j) of None \<Rightarrow> [] | Some t \<Rightarrow> [(name, t)]))
     (job_names p))"

section \<open>Validate\<close>

datatype ci_error =
    BadVersion | NoJobs | NoSteps string | BadStep string nat step_error
  | UnknownNeed string string | SelfNeed string | DependencyCycle "string list"

fun first_error :: "('a \<Rightarrow> 'e + unit) \<Rightarrow> 'a list \<Rightarrow> 'e + unit" where
  "first_error f [] = Inr ()"
| "first_error f (x # xs) = (case f x of Inl e \<Rightarrow> Inl e | Inr _ \<Rightarrow> first_error f xs)"

definition check_step :: "string \<Rightarrow> nat \<times> node \<Rightarrow> ci_error + unit" where
  "check_step name s = (case inspect_step (snd s) of Inl e \<Rightarrow> Inl (BadStep name (fst s) e) | Inr _ \<Rightarrow> Inr ())"

definition check_need :: "pipeline \<Rightarrow> string \<Rightarrow> string \<Rightarrow> ci_error + unit" where
  "check_need p name dep =
     (if job_of p dep = None then Inl (UnknownNeed name dep)
      else if dep = name then Inl (SelfNeed name) else Inr ())"

definition check_job :: "pipeline \<Rightarrow> string \<Rightarrow> ci_error + unit" where
  "check_job p name =
     (let steps = (case job_of p name of None \<Rightarrow> [] | Some j \<Rightarrow> jb_steps j) in
      if steps = [] then Inl (NoSteps name)
      else case first_error (check_step name) (enumerate 0 steps) of
        Inl e \<Rightarrow> Inl e
      | Inr _ \<Rightarrow> first_error (check_need p name) (needs_of p name))"

definition validate :: "pipeline \<Rightarrow> ci_error + unit" where
  "validate p =
     (if pl_version p \<noteq> schema_version then Inl BadVersion
      else if pl_jobs p = [] then Inl NoJobs
      else case first_error (check_job p) (job_names p) of
        Inl e \<Rightarrow> Inl e
      | Inr _ \<Rightarrow> (case the (find_cycle p) of Some c \<Rightarrow> Inl (DependencyCycle c) | None \<Rightarrow> Inr ()))"

text \<open>\<open>Parse\<close>: the file the YAML library decodes (unknown keys refused), validated.\<close>

definition parse_pipeline :: "(string \<Rightarrow> pipeline option) \<Rightarrow> string \<Rightarrow> pipeline option" where
  "parse_pipeline decode raw = Option.bind (decode raw) (\<lambda>p. case validate p of Inl _ \<Rightarrow> None | Inr _ \<Rightarrow> Some p)"

lemma first_error_ok: "first_error f xs = Inr () \<longleftrightarrow> (\<forall>x \<in> set xs. f x = Inr ())"
  by (induction xs) (auto split: sum.splits)

lemma check_job_ok:
  assumes "job_of p name = Some j"
  shows "check_job p name = Inr () \<longleftrightarrow>
    jb_steps j \<noteq> [] \<and> (\<forall>s \<in> set (jb_steps j). is_ok (inspect_step s)) \<and>
    (\<forall>d \<in> set (jb_needs j). d \<in> set (job_names p) \<and> d \<noteq> name)"
proof -
  have "first_error (check_step name) (enumerate 0 (jb_steps j)) = Inr () \<longleftrightarrow>
      (\<forall>s \<in> set (jb_steps j). is_ok (inspect_step s))"
  proof -
    have "check_step name x = Inr () \<longleftrightarrow> is_ok (inspect_step (snd x))" for x
      by (cases "inspect_step (snd x)") (auto simp: check_step_def)
    then have "(\<forall>x \<in> set (enumerate 0 (jb_steps j)). check_step name x = Inr ()) \<longleftrightarrow>
        (\<forall>s \<in> snd ` set (enumerate 0 (jb_steps j)). is_ok (inspect_step s))"
      by simp
    also have "snd ` set (enumerate 0 (jb_steps j)) = set (jb_steps j)"
      by (metis list.set_map map_snd_enumerate)
    finally show ?thesis by (simp add: first_error_ok)
  qed
  moreover have "first_error (check_need p name) (jb_needs j) = Inr () \<longleftrightarrow>
      (\<forall>d \<in> set (jb_needs j). d \<in> set (job_names p) \<and> d \<noteq> name)"
    unfolding first_error_ok check_need_def job_names_iff by (auto split: if_splits)
  ultimately show ?thesis
    using assms by (auto simp: check_job_def Let_def needs_of_def split: sum.splits)
qed

text \<open>\<open>Validate\<close> accepts exactly the well-formed pipelines (known version, at least one job, every
  job with well-formed steps, needs that name other jobs, no cycle), and every pipeline it accepts
  can be scheduled: \<open>TopoOrder\<close> succeeds with every job exactly once, after all the jobs it needs.\<close>

theorem validated_pipeline_is_schedulable:
  "(validate p = Inr ()) =
     (pl_version p = ''1'' \<and> pl_jobs p \<noteq> [] \<and>
      list_all (\<lambda>n. list_ex (\<lambda>j. job_of p n = Some j \<and> jb_steps j \<noteq> [] \<and> list_all (\<lambda>s. is_ok (inspect_step s)) (jb_steps j) \<and>
         list_all (\<lambda>d. d \<in> set (job_names p) \<and> d \<noteq> n) (jb_needs j)) (map snd (pl_jobs p))) (job_names p) \<and>
      acyclic (need_edges p)) \<and>
   (validate p = Inr () \<longrightarrow> (\<exists>order. topo_order p = Some order \<and> distinct order \<and>
      set order = set (job_names p) \<and> dep_ordered p order))"
proof -
  have jobs: "first_error (check_job p) (job_names p) = Inr () \<longleftrightarrow>
      (\<forall>n \<in> set (job_names p). \<exists>j. job_of p n = Some j \<and> jb_steps j \<noteq> [] \<and>
         (\<forall>s \<in> set (jb_steps j). is_ok (inspect_step s)) \<and> (\<forall>d \<in> set (jb_needs j). d \<in> set (job_names p) \<and> d \<noteq> n))"
    unfolding first_error_ok
  proof (intro ball_cong refl)
    fix n
    assume "n \<in> set (job_names p)"
    then obtain j where j: "job_of p n = Some j" by (auto simp: job_names_iff)
    show "check_job p n = Inr () \<longleftrightarrow> (\<exists>j. job_of p n = Some j \<and> jb_steps j \<noteq> [] \<and>
         (\<forall>s \<in> set (jb_steps j). is_ok (inspect_step s)) \<and> (\<forall>d \<in> set (jb_needs j). d \<in> set (job_names p) \<and> d \<noteq> n))"
      unfolding check_job_ok [OF j] j option.inject by blast
  qed
  have member: "job_of p n = Some j \<Longrightarrow> j \<in> set (map snd (pl_jobs p))" for n j
    by (force simp: job_of_def dest: map_of_SomeD)
  have accept: "validate p = Inr () \<longleftrightarrow> pl_version p = ''1'' \<and> pl_jobs p \<noteq> [] \<and>
      first_error (check_job p) (job_names p) = Inr () \<and> acyclic (need_edges p)"
    using find_cycle_sound [of p]
    by (auto simp: validate_def schema_version_def split: sum.splits option.splits)
  have "needs_known p" if "first_error (check_job p) (job_names p) = Inr ()"
    using that unfolding jobs needs_known_def needs_of_def by fastforce
  then have "validate p = Inr () \<Longrightarrow> \<exists>order. topo_order p = Some order \<and> distinct order \<and>
      set order = set (job_names p) \<and> dep_ordered p order"
    using topo_loop_correct [OF topo_inv_start] by (auto simp: accept topo_order_def)
  moreover have "first_error (check_job p) (job_names p) = Inr () \<longleftrightarrow>
      list_all (\<lambda>n. list_ex (\<lambda>j. job_of p n = Some j \<and> jb_steps j \<noteq> [] \<and> list_all (\<lambda>s. is_ok (inspect_step s)) (jb_steps j) \<and>
         list_all (\<lambda>d. d \<in> set (job_names p) \<and> d \<noteq> n) (jb_needs j)) (map snd (pl_jobs p))) (job_names p)"
    unfolding jobs list_all_iff list_ex_iff using member by blast
  ultimately show ?thesis using accept by blast
qed

definition demo_step :: "string \<Rightarrow> node" where
  "demo_step cmd = map_node [scalar ''run'', scalar cmd]"

definition demo_pipeline :: pipeline where
  "demo_pipeline = \<lparr>pl_version = ''1'', pl_branches = [''main'', ''feat/*''], pl_schedule = [],
     pl_jobs = [(''build'', \<lparr>jb_needs = [''lint''], jb_image = '''', jb_docker_socket = False, jb_steps = [demo_step ''go build'']\<rparr>),
       (''lint'', \<lparr>jb_needs = [], jb_image = '''', jb_docker_socket = False, jb_steps = [demo_step ''gofmt -l .'']\<rparr>),
       (''test'', \<lparr>jb_needs = [''build'', ''lint''], jb_image = '''', jb_docker_socket = False, jb_steps = [demo_step ''go test'']\<rparr>)]\<rparr>"

theorem validated_pipeline_is_schedulable_witness:
  "\<exists>order. topo_order demo_pipeline = Some order \<and> distinct order \<and>
      set order = set (job_names demo_pipeline) \<and> dep_ordered demo_pipeline order"
proof -
  have "validate demo_pipeline = Inr ()" by code_simp
  then show ?thesis using validated_pipeline_is_schedulable [of demo_pipeline] by blast
qed

section \<open>What the translation keeps\<close>

fun value_under :: "string \<Rightarrow> node list \<Rightarrow> node option" where
  "value_under key (k # v # rest) = (if val k = key then Some v else value_under key rest)"
| "value_under key _ = None"

lemma classify_label:
  assumes "classify_step decode quote s = Inr r"
  shows "rs_node r = s \<or> value_under ''name'' (content (rs_node r)) = Some (scalar (rs_label r))"
  using assms
  by (auto simp: classify_step_def Let_def rewrite_shell_def shell_node_def cmd_node_def http_assert_node_def
      map_node_def scalar_def split: if_splits sum.splits option.splits)

lemma classify_all_length: "classify_all decode quote i ss = Inr rs \<Longrightarrow> length rs = length ss"
  by (induction ss arbitrary: i rs) (auto split: sum.splits)

lemma classify_all_nth:
  "classify_all decode quote i ss = Inr rs \<Longrightarrow> k < length ss \<Longrightarrow> classify_step decode quote (ss ! k) = Inr (rs ! k)"
  by (induction ss arbitrary: i rs k) (auto split: sum.splits simp: nth_Cons')

lemma classify_all_error:
  "classify_all decode quote i ss = Inl (k, e) \<Longrightarrow> i \<le> k \<and> k - i < length ss \<and> classify_step decode quote (ss ! (k - i)) = Inl e"
proof (induction ss arbitrary: i)
  case (Cons s ss)
  show ?case
  proof (cases "classify_step decode quote s")
    case (Inl e')
    with Cons.prems show ?thesis by auto
  next
    case (Inr r)
    with Cons.prems have "classify_all decode quote (Suc i) ss = Inl (k, e)" by (auto split: sum.splits)
    from Cons.IH [OF this] show ?thesis by (auto simp: nth_Cons')
  qed
qed simp

text \<open>The plan \<open>TranslateJobPlan\<close> writes and the labels \<open>JobStepMeta\<close> pre-declares cannot drift:
  they fail together, at the same step with the same error, and otherwise have one entry per step
  of the job, in order, where a rewritten step carries its label as its \<open>name\<close> and a step that is not
  rewritten is passed through as it is.\<close>

theorem plan_matches_step_meta:
  "case (translate_job_plan decode quote j, job_step_meta decode quote j) of
     (Inl (k, e), Inl (k', e')) \<Rightarrow> k' = k \<and> e' = e \<and> k < length (jb_steps j) \<and>
       classify_step decode quote (jb_steps j ! k) = Inl e
   | (Inr plan, Inr metas) \<Rightarrow> length (content plan) = length (jb_steps j) \<and> length metas = length (jb_steps j) \<and>
       (\<forall>k. k < length (jb_steps j) \<longrightarrow> content plan ! k = jb_steps j ! k \<or>
         value_under ''name'' (content (content plan ! k)) = Some (scalar (sm_label (metas ! k))))
   | _ \<Rightarrow> False"
proof (cases "classify_all decode quote 0 (jb_steps j)")
  case (Inl a)
  then obtain k e where "classify_all decode quote 0 (jb_steps j) = Inl (k, e)" by (cases a) auto
  with classify_all_error [of decode quote 0 "jb_steps j" k e] show ?thesis
    by (simp add: translate_job_plan_def job_step_meta_def)
next
  case (Inr rs)
  have "content (seq_node (map rs_node rs)) ! k = jb_steps j ! k \<or>
      value_under ''name'' (content (rs_node (rs ! k))) = Some (scalar (rs_label (rs ! k)))"
    if "k < length (jb_steps j)" for k
    using classify_label [OF classify_all_nth [OF Inr that]] classify_all_length [OF Inr] that
    by (auto simp: seq_node_def)
  with classify_all_length [OF Inr] Inr show ?thesis
    by (simp add: translate_job_plan_def job_step_meta_def seq_node_def)
qed

definition demo_job :: job where
  "demo_job = \<lparr>jb_needs = [], jb_image = '''', jb_docker_socket = False,
     jb_steps = [demo_step ''go build'', map_node [scalar ''assert'', map_node [scalar ''http'', map_node []]]]\<rparr>"

theorem plan_matches_step_meta_witness:
  "\<exists>plan metas. translate_job_plan (\<lambda>_. Some (''http://h/'', 200, ''ok'')) id demo_job = Inr plan \<and>
     job_step_meta (\<lambda>_. Some (''http://h/'', 200, ''ok'')) id demo_job = Inr metas \<and>
     value_under ''name'' (content (content plan ! 1)) = Some (scalar (sm_label (metas ! 1)))"
proof -
  let ?d = "\<lambda>_ :: node. Some (''http://h/'', 200 :: int, ''ok'')"
  have "is_ok (translate_job_plan ?d id demo_job)" by code_simp
  then obtain plan where p: "translate_job_plan ?d id demo_job = Inr plan" by (auto simp: is_ok_iff)
  have "is_ok (job_step_meta ?d id demo_job)" by code_simp
  then obtain metas where m: "job_step_meta ?d id demo_job = Inr metas" by (auto simp: is_ok_iff)
  have "content (projr (translate_job_plan ?d id demo_job)) ! 1 \<noteq> jb_steps demo_job ! 1" by code_simp
  then have "content plan ! 1 \<noteq> jb_steps demo_job ! 1" by (simp add: p)
  with p m plan_matches_step_meta [where decode = ?d and quote = id and j = demo_job] show ?thesis
    by (auto simp: demo_job_def)
qed

section \<open>Quoting for the shell\<close>

text \<open>How a POSIX shell reads one word made of single-quoted parts and backslash escapes; \<open>None\<close> when
  the word ends inside quotes or holds another character that is special to the shell.\<close>

definition sh_plain :: "char \<Rightarrow> bool" where
  "sh_plain c \<longleftrightarrow> (let n = of_char c :: nat in
     48 \<le> n \<and> n \<le> 57 \<or> 65 \<le> n \<and> n \<le> 90 \<or> 97 \<le> n \<and> n \<le> 122 \<or> c \<in> set ''-_./:'')"

fun sh_word :: "bool \<Rightarrow> string \<Rightarrow> string option" where
  "sh_word quoted [] = (if quoted then None else Some [])"
| "sh_word quoted (c # s) =
     (if quoted then
        (if c = CHR 0x27 then sh_word False s else map_option (\<lambda>w. c # w) (sh_word True s))
      else if c = CHR 0x27 then sh_word True s
      else if c = CHR 0x5C then (case s of [] \<Rightarrow> None | d # t \<Rightarrow> map_option (\<lambda>w. d # w) (sh_word False t))
      else if sh_plain c then map_option (\<lambda>w. c # w) (sh_word False s)
      else None)"

text \<open>Whatever bytes a \<open>contains\<close> text holds, the shell reads \<open>shellQuote\<close> of it back as one word
  that is the text.\<close>

theorem shell_quote_roundtrip: "sh_word False (shell_quote s) = Some s"
proof -
  have "sh_word True (concat (map (\<lambda>c. if c = CHR 0x27 then [CHR 0x27, CHR 0x5C, CHR 0x27, CHR 0x27] else [c]) s) @ [CHR 0x27]) = Some s"
    by (induction s) auto
  then show ?thesis by (simp add: shell_quote_def)
qed

text \<open>A raw step whose first key is mooncake's \<open>shell: {cmd: ...}\<close> loses its other keys: the rewrite
  looks at the value under the first key alone and replaces the whole step, so a guard or any other
  setting next to it is dropped without an error.\<close>

theorem rewrite_drops_sibling_keys:
  assumes "run_value rest = None" and "cmd \<noteq> ''''"
  shows "classify_step decode quote
      (map_node (scalar ''shell'' # map_node [scalar ''cmd'', scalar cmd] # rest)) =
    classify_step decode quote (map_node [scalar ''run'', scalar cmd])"
  using assms
  by (simp add: classify_step_def inspect_step_def unwrap_def map_node_def scalar_def Let_def
      mooncake_shell_cmd_def only_entry_def)

theorem rewrite_drops_sibling_keys_witness:
  "classify_step (\<lambda>_. None) id
      (map_node [scalar ''shell'', map_node [scalar ''cmd'', scalar ''rm -rf build''], scalar ''when'', scalar ''os == linux'']) =
    classify_step (\<lambda>_. None) id (map_node [scalar ''run'', scalar ''rm -rf build''])"
  by (rule rewrite_drops_sibling_keys) (simp_all add: scalar_def)

section \<open>The branch filter\<close>

definition literal :: "string \<Rightarrow> bool" where
  "literal s \<longleftrightarrow> list_all (\<lambda>c. c \<notin> set ''*?['' \<and> c \<noteq> CHR 0x5C) s"

lemma path_match_literal: "literal s \<Longrightarrow> path_match (s @ p) name \<longleftrightarrow> (\<exists>t. name = s @ t \<and> path_match p t)"
proof (induction s arbitrary: name)
  case (Cons c s)
  then show ?case by (cases name) (auto simp: literal_def)
qed simp

lemma path_match_star: "path_match ''*'' name \<longleftrightarrow> CHR ''/'' \<notin> set name"
  by (induction name) auto

text \<open>The branch filter of \<open>on.push\<close>: without patterns every ref triggers; with patterns nothing
  outside \<open>refs/heads/\<close> does, a branch that is listed always does, and a pattern that is a plain
  prefix followed by a star selects exactly the branches with that prefix and no further slash.\<close>

theorem branch_filter_spec:
  assumes "literal pre"
  shows "(pl_branches p = [] \<longrightarrow> matches p ref) \<and>
    (pl_branches p \<noteq> [] \<longrightarrow> \<not> has_prefix ref ''refs/heads/'' \<longrightarrow> \<not> matches p ref) \<and>
    (b \<in> set (pl_branches p) \<longrightarrow> matches p (''refs/heads/'' @ b)) \<and>
    (matches (p\<lparr>pl_branches := [pre @ ''*'']\<rparr>) (''refs/heads/'' @ name) \<longleftrightarrow>
       name = pre @ ''*'' \<or> (\<exists>x. name = pre @ x \<and> CHR ''/'' \<notin> set x))"
proof -
  have cut: "cut_prefix (''refs/heads/'' @ x) ''refs/heads/'' = Some x" for x
    by (rule cut_prefix_append)
  have "matches (p\<lparr>pl_branches := [pre @ ''*'']\<rparr>) (''refs/heads/'' @ name) \<longleftrightarrow>
       name = pre @ ''*'' \<or> (\<exists>x. name = pre @ x \<and> CHR ''/'' \<notin> set x)"
    unfolding matches_def cut
    by (auto simp: path_match_literal [OF assms] path_match_star simp del: path_match.simps)
  moreover have "b \<in> set (pl_branches p) \<Longrightarrow> matches p (''refs/heads/'' @ b)"
    unfolding matches_def cut by (auto simp: list_ex_iff simp del: path_match.simps)
  ultimately show ?thesis
    by (auto simp: matches_def cut_prefix_def)
qed

theorem branch_filter_spec_witness:
  "\<exists>p. p = demo_pipeline \<and> (\<not> matches p ''refs/tags/v1'') \<and>
    (matches (p\<lparr>pl_branches := [''feat/'' @ ''*'']\<rparr>) (''refs/heads/'' @ ''feat/x'') \<longleftrightarrow>
       ''feat/x'' = ''feat/'' @ ''*'' \<or> (\<exists>x. ''feat/x'' = ''feat/'' @ x \<and> CHR ''/'' \<notin> set x))"
proof -
  have lit: "literal ''feat/''" by code_simp
  have "pl_branches demo_pipeline \<noteq> []" "\<not> has_prefix ''refs/tags/v1'' ''refs/heads/''"
    by code_simp+
  note spec = branch_filter_spec [OF lit, of demo_pipeline "''refs/tags/v1''" "''main''" "''feat/x''"]
  show ?thesis
  proof (intro exI [of _ demo_pipeline] conjI refl)
    show "\<not> matches demo_pipeline ''refs/tags/v1''"
      using spec [THEN conjunct2, THEN conjunct1] \<open>pl_branches demo_pipeline \<noteq> []\<close>
        \<open>\<not> has_prefix ''refs/tags/v1'' ''refs/heads/''\<close> by (rule mp [THEN mp])
  qed (rule spec [THEN conjunct2, THEN conjunct2, THEN conjunct2])
qed

end
