(* ===== verification/EventLog.thy ===== *)
theory EventLog imports GoText begin

text \<open>
  \<open>internal/ci/events.go\<close>: the append-only event stream of a job, one JSON line per event, which the
  runner writes and the API replays and tails by byte offset. A file is its bytes; \<open>json.Marshal\<close> of
  an event is the parameter \<open>enc\<close> and \<open>json.Unmarshal\<close> of a trimmed line the parameter \<open>dec\<close>. A path
  is the list of components \<open>filepath.Join\<close> is given.
\<close>

record 'd event =
  ev_seq :: int
  ev_type :: string
  ev_time :: int
  ev_data :: 'd

definition newline :: char where
  "newline = CHR 0x0A"

section \<open>Paths\<close>

definition repo_log_dir :: "string \<Rightarrow> string \<Rightarrow> string \<Rightarrow> string list" where
  "repo_log_dir root owner repo = [root, ''ci'', owner, repo]"

definition run_log_dir :: "string \<Rightarrow> string \<Rightarrow> string \<Rightarrow> int \<Rightarrow> string list" where
  "run_log_dir root owner repo n = repo_log_dir root owner repo @ [itoa n]"

definition event_log_path :: "string \<Rightarrow> string \<Rightarrow> string \<Rightarrow> int \<Rightarrow> string \<Rightarrow> string list" where
  "event_log_path root owner repo n job = run_log_dir root owner repo n @ [job @ ''.events.jsonl'']"

definition safe_component :: "string \<Rightarrow> bool" where
  "safe_component s \<longleftrightarrow> s \<noteq> '''' \<and> s \<noteq> ''.'' \<and> s \<noteq> ''..'' \<and> list_all (\<lambda>c. c \<noteq> CHR ''/'' \<and> c \<noteq> CHR 0x5C) s"

section \<open>Writing\<close>

text \<open>The file, absent before the first open, and the last number given.\<close>

record event_log =
  el_file :: string
  el_seq :: int

definition count_events :: "string \<Rightarrow> int" where
  "count_events file = int (length (filter (\<lambda>c. c = newline) file))"

definition open_event_log :: "string \<Rightarrow> string \<Rightarrow> string \<Rightarrow> string option \<Rightarrow> event_log option" where
  "open_event_log owner repo job file =
     (if list_all safe_component [owner, repo, job]
      then Some \<lparr>el_file = (case file of None \<Rightarrow> '''' | Some f \<Rightarrow> f),
                 el_seq = count_events (case file of None \<Rightarrow> '''' | Some f \<Rightarrow> f)\<rparr>
      else None)"

text \<open>\<open>written\<close> says how much of the line a failing write put into the file, \<open>None\<close> that it succeeded.\<close>

definition append_event ::
  "('d event \<Rightarrow> string) \<Rightarrow> string \<Rightarrow> int \<Rightarrow> 'd \<Rightarrow> nat option \<Rightarrow> event_log \<Rightarrow> 'd event option \<times> event_log" where
  "append_event enc ty t data written l =
     (let ev = \<lparr>ev_seq = el_seq l + 1, ev_type = ty, ev_time = t, ev_data = data\<rparr>;
          line = enc ev @ [newline]
      in case written of
           None \<Rightarrow> (Some ev, l\<lparr>el_file := el_file l @ line, el_seq := el_seq l + 1\<rparr>)
         | Some k \<Rightarrow> (None, l\<lparr>el_file := el_file l @ take k line\<rparr>))"

section \<open>Reading\<close>

text \<open>The loop of \<open>ReadEvents\<close> over the bytes from the offset on: the events, the offset after the last
  complete line, and whether a corrupt line stopped it.\<close>

function read_loop :: "(string \<Rightarrow> 'd event option) \<Rightarrow> nat \<Rightarrow> string \<Rightarrow> 'd event list \<times> nat \<times> bool" where
  "read_loop dec off rest =
     (if newline \<notin> set rest then ([], off, True)
      else let line = takeWhile (\<lambda>c. c \<noteq> newline) rest @ [newline] in
        case dec line of
          None \<Rightarrow> ([], off, False)
        | Some ev \<Rightarrow> (case read_loop dec (off + length line) (drop (length line) rest) of
            (evs, off', okay) \<Rightarrow> (ev # evs, off', okay)))"
  by pat_completeness auto

termination
  by (relation "measure (\<lambda>(dec, off, rest). length rest)")
     (auto simp: length_takeWhile_le less_eq_Suc_le intro!: diff_less elim: in_set_conv_decomp [THEN iffD1, THEN exE])

declare read_loop.simps [simp del]

definition read_events :: "(string \<Rightarrow> 'd event option) \<Rightarrow> string option \<Rightarrow> nat \<Rightarrow> 'd event list \<times> nat \<times> bool" where
  "read_events dec file off = (case file of None \<Rightarrow> ([], off, True) | Some f \<Rightarrow> read_loop dec off (drop off f))"

definition lines_of :: "('d event \<Rightarrow> string) \<Rightarrow> 'd event list \<Rightarrow> string" where
  "lines_of enc evs = concat (map (\<lambda>e. enc e @ [newline]) evs)"

lemma read_loop_none: "newline \<notin> set rest \<Longrightarrow> read_loop dec off rest = ([], off, True)"
  by (simp add: read_loop.simps)

lemma read_loop_line:
  assumes "newline \<notin> set x"
  shows "read_loop dec off (x @ newline # rest) =
    (case dec (x @ [newline]) of None \<Rightarrow> ([], off, False)
     | Some ev \<Rightarrow> (case read_loop dec (off + length x + 1) rest of (evs, off', okay) \<Rightarrow> (ev # evs, off', okay)))"
proof -
  have "takeWhile (\<lambda>c. c \<noteq> newline) (x @ newline # rest) = x"
    using assms by (subst takeWhile_append2) auto
  then show ?thesis by (subst read_loop.simps) (simp add: Let_def split: option.splits)
qed

definition codec_ok :: "('d event \<Rightarrow> string) \<Rightarrow> (string \<Rightarrow> 'd event option) \<Rightarrow> 'd event list \<Rightarrow> bool" where
  "codec_ok enc dec evs \<longleftrightarrow> list_all (\<lambda>e. newline \<notin> set (enc e) \<and> dec (enc e @ [newline]) = Some e) evs"

lemma read_loop_lines:
  "codec_ok enc dec evs \<Longrightarrow> read_loop dec off (lines_of enc evs @ rest) =
    (case read_loop dec (off + length (lines_of enc evs)) rest of (evs', off', okay) \<Rightarrow> (evs @ evs', off', okay))"
proof (induction evs arbitrary: off)
  case Nil
  then show ?case by (simp add: lines_of_def split: prod.splits)
next
  case (Cons e evs)
  then have ok: "newline \<notin> set (enc e)" "dec (enc e @ [newline]) = Some e" "codec_ok enc dec evs"
    by (auto simp: codec_ok_def)
  have "lines_of enc (e # evs) @ rest = enc e @ newline # lines_of enc evs @ rest"
    by (simp add: lines_of_def)
  with Cons.IH [OF ok(3), of "off + length (enc e) + 1"] ok show ?case
    by (simp add: read_loop_line lines_of_def algebra_simps split: prod.splits)
qed

section \<open>Many appends\<close>

fun append_all :: "('d event \<Rightarrow> string) \<Rightarrow> (string \<times> int \<times> 'd) list \<Rightarrow> event_log \<Rightarrow> 'd event list \<times> event_log" where
  "append_all enc [] l = ([], l)"
| "append_all enc ((ty, t, data) # xs) l =
     (case append_event enc ty t data None l of
        (ev, l') \<Rightarrow> (case append_all enc xs l' of (evs, l'') \<Rightarrow> (case ev of None \<Rightarrow> evs | Some e \<Rightarrow> e # evs, l'')))"

lemma append_all_effect:
  "append_all enc xs l = (evs, l') \<Longrightarrow>
   el_file l' = el_file l @ lines_of enc evs \<and> el_seq l' = el_seq l + int (length evs) \<and> length evs = length xs \<and>
   map ev_seq evs = map (\<lambda>k. el_seq l + 1 + int k) [0..<length evs]"
proof (induction enc xs l arbitrary: evs l' rule: append_all.induct)
  case (1 enc l)
  then show ?case by (simp add: lines_of_def)
next
  case (2 enc ty t data xs l)
  let ?ev = "\<lparr>ev_seq = el_seq l + 1, ev_type = ty, ev_time = t, ev_data = data\<rparr>"
  let ?l = "l\<lparr>el_file := el_file l @ enc ?ev @ [newline], el_seq := el_seq l + 1\<rparr>"
  have ap: "append_event enc ty t data None l = (Some ?ev, ?l)"
    by (simp add: append_event_def Let_def)
  with "2.prems" obtain evs1 where r: "append_all enc xs ?l = (evs1, l')" "evs = ?ev # evs1"
    by (auto split: prod.splits)
  from "2.IH" [OF ap [symmetric] r(1)] have IH: "el_file l' = el_file ?l @ lines_of enc evs1"
    "el_seq l' = el_seq ?l + int (length evs1)" "length evs1 = length xs"
    "map ev_seq evs1 = map (\<lambda>k. el_seq ?l + 1 + int k) [0..<length evs1]" by auto
  have "map (\<lambda>k. el_seq l + 1 + int k) [0..<length evs] =
      (el_seq l + 1) # map (\<lambda>k. el_seq l + 1 + int k) (map Suc [0..<length evs1])"
    by (simp add: r(2) upt_conv_Cons map_Suc_upt del: upt_Suc)
  then have "map ev_seq evs = map (\<lambda>k. el_seq l + 1 + int k) [0..<length evs]"
    using IH(4) r(2) by (simp add: comp_def algebra_simps)
  with IH r(2) show ?case by (simp add: lines_of_def)
qed

lemma count_events_lines: "codec_ok enc dec evs \<Longrightarrow> count_events (lines_of enc evs) = int (length evs)"
proof (induction evs)
  case (Cons e evs)
  then have "filter (\<lambda>c. c = newline) (enc e) = []"
    by (auto simp: filter_empty_conv codec_ok_def)
  with Cons show ?case by (simp add: count_events_def lines_of_def codec_ok_def)
qed (simp add: count_events_def lines_of_def)

text \<open>C9: The stream of a job is read back as written, however it is tailed: on a file of complete events,
  reopened by the writer, the appended events continue the numbering without a gap, a reader that
  starts at the beginning gets the old and the new events in order, one that resumes from the offset
  an earlier read returned gets exactly the new ones, and a partial line at the end is left for the
  next read.\<close>

theorem event_log_tail:
  assumes "codec_ok enc dec (old @ new)"
    and "open_event_log owner repo job (Some (lines_of enc old)) = Some l"
    and "append_all enc xs l = (new, l')" and "newline \<notin> set part"
  shows "map ev_seq new = map (\<lambda>k. int (length old) + 1 + int k) [0..<length new] \<and> length new = length xs \<and>
    (\<exists>off off'. read_events dec (Some (lines_of enc old)) 0 = (old, off, True) \<and>
      read_events dec (Some (el_file l' @ part)) 0 = (old @ new, off', True) \<and>
      read_events dec (Some (el_file l' @ part)) off = (new, off', True) \<and>
      drop off' (el_file l' @ part) = part)"
proof -
  have old: "codec_ok enc dec old" and new: "codec_ok enc dec new"
    using assms(1) by (auto simp: codec_ok_def)
  have l: "el_file l = lines_of enc old" "el_seq l = int (length old)"
    using assms(2) by (auto simp: open_event_log_def count_events_lines [OF old] split: if_splits)
  note eff = append_all_effect [OF assms(3)]
  let ?off = "length (lines_of enc old)" and ?off2 = "length (lines_of enc (old @ new))"
  have f: "el_file l' = lines_of enc (old @ new)"
    using eff l by (simp add: lines_of_def)
  have 1: "read_events dec (Some (lines_of enc old)) 0 = (old, ?off, True)"
    using read_loop_lines [OF old, of 0 "[]"] by (simp add: read_events_def read_loop_none)
  have 2: "read_events dec (Some (el_file l' @ part)) 0 = (old @ new, ?off2, True)"
    using read_loop_lines [OF assms(1), of 0 part] by (simp add: read_events_def f read_loop_none [OF assms(4)])
  have "drop ?off (el_file l' @ part) = lines_of enc new @ part"
    by (simp add: f lines_of_def)
  then have 3: "read_events dec (Some (el_file l' @ part)) ?off = (new, ?off2, True)"
    using read_loop_lines [OF new, of ?off part]
    by (simp add: read_events_def read_loop_none [OF assms(4)]) (simp add: lines_of_def)
  show ?thesis using eff l 1 2 3 by (auto simp: f)
qed

definition demo_event :: "int \<Rightarrow> unit event" where
  "demo_event n = \<lparr>ev_seq = n, ev_type = ''step.stdout'', ev_time = 5, ev_data = ()\<rparr>"

definition demo_enc :: "unit event \<Rightarrow> string" where
  "demo_enc e = itoa (ev_seq e)"

definition demo_dec :: "string \<Rightarrow> unit event option" where
  "demo_dec line = find (\<lambda>e. demo_enc e @ [newline] = line) [demo_event 1, demo_event 2, demo_event 3]"

theorem event_log_tail_witness:
  "\<exists>l l' off off'. open_event_log ''alice'' ''web'' ''build'' (Some (lines_of demo_enc [demo_event 1])) = Some l \<and>
    append_all demo_enc [(''step.stdout'', 5, ()), (''step.stdout'', 5, ())] l = ([demo_event 2, demo_event 3], l') \<and>
    read_events demo_dec (Some (el_file l' @ ''{'')) off = ([demo_event 2, demo_event 3], off', True)"
proof -
  let ?l = "the (open_event_log ''alice'' ''web'' ''build'' (Some (lines_of demo_enc [demo_event 1])))"
  let ?xs = "[(''step.stdout'', 5, ()), (''step.stdout'', 5, ())]"
  have 1: "open_event_log ''alice'' ''web'' ''build'' (Some (lines_of demo_enc [demo_event 1])) = Some ?l"
    by code_simp
  have 2: "append_all demo_enc ?xs ?l = ([demo_event 2, demo_event 3], snd (append_all demo_enc ?xs ?l))"
    by code_simp
  have 3: "codec_ok demo_enc demo_dec ([demo_event 1] @ [demo_event 2, demo_event 3])"
    by code_simp
  have "newline \<notin> set ''{''" by code_simp
  from event_log_tail [OF 3 1 2 this] 1 2 show ?thesis by blast
qed

text \<open>A crash in the middle of a write ruins the stream: the writer that reopens the file does not
  end the partial line, so its next event is glued to it. If the glued bytes are no JSON value the
  reader reports a corrupt event at that offset for ever, and no event appended from then on is ever
  delivered.\<close>

theorem reopened_partial_line_blocks_stream:
  assumes "codec_ok enc dec old" and "newline \<notin> set part"
    and "open_event_log owner repo job (Some (lines_of enc old @ part)) = Some l"
    and "append_event enc ty t data None l = (Some ev, l')"
    and "newline \<notin> set (enc ev)" and "dec (part @ enc ev @ [newline]) = None"
  shows "read_events dec (Some (el_file l' @ later)) 0 = (old, length (lines_of enc old), False) \<and>
    read_events dec (Some (el_file l' @ later)) (length (lines_of enc old)) = ([], length (lines_of enc old), False)"
proof -
  have "el_file l' = lines_of enc old @ part @ enc ev @ [newline]"
    using assms(3,4) by (auto simp: open_event_log_def append_event_def Let_def split: if_splits)
  then have f: "el_file l' @ later = lines_of enc old @ (part @ enc ev) @ newline # later" by simp
  have stuck: "read_loop dec off ((part @ enc ev) @ newline # later) = ([], off, False)" for off
    using assms(2,5,6) by (subst read_loop_line) auto
  show ?thesis
    using read_loop_lines [OF assms(1), of 0] stuck by (simp add: read_events_def f)
qed

theorem reopened_partial_line_blocks_stream_witness:
  "\<exists>l l'. open_event_log ''alice'' ''web'' ''build'' (Some (lines_of demo_enc [demo_event 1] @ ''{'')) = Some l \<and>
     append_event demo_enc ''step.stdout'' 5 () None l = (Some (demo_event 2), l') \<and>
     read_events demo_dec (Some (el_file l' @ lines_of demo_enc [demo_event 3])) 0 =
       ([demo_event 1], length (lines_of demo_enc [demo_event 1]), False)"
proof -
  let ?l = "the (open_event_log ''alice'' ''web'' ''build'' (Some (lines_of demo_enc [demo_event 1] @ ''{'')))"
  have 1: "open_event_log ''alice'' ''web'' ''build'' (Some (lines_of demo_enc [demo_event 1] @ ''{'')) = Some ?l"
    by code_simp
  have 2: "append_event demo_enc ''step.stdout'' 5 () None ?l =
      (Some (demo_event 2), snd (append_event demo_enc ''step.stdout'' 5 () None ?l))"
    by code_simp
  have "codec_ok demo_enc demo_dec [demo_event 1]" "newline \<notin> set ''{''"
    "newline \<notin> set (demo_enc (demo_event 2))" "demo_dec (''{'' @ demo_enc (demo_event 2) @ [newline]) = None"
    by code_simp+
  from reopened_partial_line_blocks_stream [OF this(1,2) 1 2 this(3,4)] 1 2 show ?thesis by blast
qed

end
