(* ===== verification/Accounts.thy ===== *)
theory Accounts imports Schema GoText begin

text \<open>
  Identities: \<open>internal/storage/users.go\<close> (accounts and passwords), \<open>tokens.go\<close> (bearer tokens),
  \<open>ssh_keys.go\<close>, and \<open>EnsureUser\<close>/\<open>EnsureRepo\<close> of \<open>repos.go\<close>. SHA-256, bcrypt and the SSH key parser
  are parameters (\<open>sha\<close>, \<open>bcrypt\<close>, \<open>check\<close>, \<open>parse\<close>); \<open>rnd\<close> is what \<open>crypto/rand\<close> yields, \<open>None\<close> when
  it fails.
\<close>

section \<open>Tokens\<close>

record api_token =
  tk_id :: int
  tk_name :: string
  tk_user :: string
  tk_created :: int
  tk_last_used :: "int option"
  tk_revoked :: "int option"

definition hex_digit :: "nat \<Rightarrow> char" where
  "hex_digit n = ''0123456789abcdef'' ! n"

definition hex_encode :: "string \<Rightarrow> string" where
  "hex_encode s = concat (map (\<lambda>c. let n = of_char c :: nat in [hex_digit (n div 16), hex_digit (n mod 16)]) s)"

definition token_prefix :: string where
  "token_prefix = ''cf_''"

definition generate_token_string :: "string option \<Rightarrow> string option" where
  "generate_token_string rnd = map_option (\<lambda>buf. token_prefix @ hex_encode buf) rnd"

definition hash_token :: "(string \<Rightarrow> string) \<Rightarrow> string \<Rightarrow> string" where
  "hash_token sha plaintext = hex_encode (sha plaintext)"

text \<open>\<open>INSERT INTO tokens(name, hashed_token, user_id)\<close>: both texts are \<open>UNIQUE\<close>.\<close>

definition mk_token :: "string \<times> string \<times> int option \<times> int \<Rightarrow> int \<Rightarrow> token_row" where
  "mk_token p i = (case p of (name, hash, user, t) \<Rightarrow>
     \<lparr>t_id = i, t_name = name, t_hash = hash, t_created = t, t_last_used = None, t_revoked = None, t_user = user\<rparr>)"

definition user_known :: "user_row table \<Rightarrow> int option \<Rightarrow> bool" where
  "user_known us u = (case u of None \<Rightarrow> True | Some i \<Rightarrow> exists_where (\<lambda>r. u_id r = i) us)"

definition insert_token :: "string \<Rightarrow> string \<Rightarrow> int option \<Rightarrow> db \<Rightarrow> (db_error + int) \<times> db" where
  "insert_token name hash user d =
     (if exists_where (\<lambda>t. t_name t = name) (tokens d) \<or> exists_where (\<lambda>t. t_hash t = hash) (tokens d)
      then (Inl ErrUnique, d)
      else if \<not> user_known (users d) user
      then (Inl ErrForeignKey, d)
      else (let (r, t) = insert_row (mk_token (name, hash, user, now d)) (tokens d)
            in (Inr (t_id r), d\<lparr>tokens := t\<rparr>)))"

definition scan_token :: "string \<Rightarrow> token_row \<Rightarrow> api_token" where
  "scan_token user t = \<lparr>tk_id = t_id t, tk_name = t_name t, tk_user = user, tk_created = t_created t,
     tk_last_used = t_last_used t, tk_revoked = t_revoked t\<rparr>"

definition get_token_by_id :: "int \<Rightarrow> (db, api_token) dbm" where
  "get_token_by_id i = query (\<lambda>d. select_one (\<lambda>t. t_id t = i) (tokens d))
     (\<lambda>r. case r of None \<Rightarrow> err ErrNoRows | Some t \<Rightarrow> ok (scan_token '''' t))"

definition create_token :: "(string \<Rightarrow> string) \<Rightarrow> string \<Rightarrow> string \<Rightarrow> (db, api_token) dbm" where
  "create_token sha name plaintext =
     (let name = trim_space name in
      if name = [] then err ErrTokenName
      else attempt (exec (insert_token name (hash_token sha plaintext) None) ok) (\<lambda>r. case r of
          Inl e \<Rightarrow> err (if e = ErrUnique then ErrTokenExists else e)
        | Inr i \<Rightarrow> get_token_by_id i))"

text \<open>\<open>tokens LEFT JOIN users\<close>: a token without an account has no user name.\<close>

definition user_name_of :: "db \<Rightarrow> int option \<Rightarrow> string" where
  "user_name_of d uid = (case uid of None \<Rightarrow> ''''
     | Some u \<Rightarrow> (case select_one (\<lambda>r. u_id r = u) (users d) of None \<Rightarrow> '''' | Some r \<Rightarrow> u_name r))"

definition lookup_token :: "(string \<Rightarrow> string) \<Rightarrow> string \<Rightarrow> (db, api_token) dbm" where
  "lookup_token sha plaintext =
     query (\<lambda>d. map_option (\<lambda>t. (t, user_name_of d (t_user t)))
                  (select_one (\<lambda>t. t_hash t = hash_token sha plaintext) (tokens d)))
       (\<lambda>r. case r of
          None \<Rightarrow> err ErrNotFound
        | Some (t, user) \<Rightarrow> if t_revoked t \<noteq> None then err ErrNotFound else ok (scan_token user t))"

definition update_tokens :: "(db \<Rightarrow> token_row \<Rightarrow> bool) \<Rightarrow> (int \<Rightarrow> token_row \<Rightarrow> token_row) \<Rightarrow> db \<Rightarrow> (db_error + int) \<times> db" where
  "update_tokens P f d =
     (Inr (count_where (P d) (tokens d)), d\<lparr>tokens := update_where (P d) (f (now d)) (tokens d)\<rparr>)"

definition touched :: "int \<Rightarrow> token_row \<Rightarrow> token_row" where
  "touched n t = t\<lparr>t_last_used := Some n\<rparr>"

definition touch_token :: "int \<Rightarrow> (db, unit) dbm" where
  "touch_token i = attempt (exec (update_tokens (\<lambda>d t. t_id t = i) touched) ok) (\<lambda>_. ok ())"

definition list_tokens :: "(db, api_token list) dbm" where
  "list_tokens = query (\<lambda>d. map (scan_token '''') (rows (tokens d))) ok"

definition set_revoked :: "int \<Rightarrow> token_row \<Rightarrow> token_row" where
  "set_revoked n t = t\<lparr>t_revoked := Some n\<rparr>"

definition revoke_token :: "string \<Rightarrow> (db, unit) dbm" where
  "revoke_token name = exec (update_tokens (\<lambda>d t. t_name t = name) set_revoked) affected"

definition revoke_token_by_id :: "int \<Rightarrow> (db, unit) dbm" where
  "revoke_token_by_id i = exec (update_tokens (\<lambda>d t. t_id t = i) set_revoked) affected"

definition revoke_agent_run_tokens :: "(db, int) dbm" where
  "revoke_agent_run_tokens =
     exec (update_tokens (\<lambda>d t. like ''agent-run-%'' (t_name t) \<and> t_revoked t = None) set_revoked) ok"

definition stale_token :: "int \<Rightarrow> db \<Rightarrow> token_row \<Rightarrow> bool" where
  "stale_token ttl d t \<longleftrightarrow> t_revoked t = None \<and> like ''agent#%'' (t_name t) \<and>
     (case t_last_used t of Some u \<Rightarrow> u | None \<Rightarrow> t_created t) \<le> now d - duration_seconds ttl"

definition revoke_stale_agent_tokens :: "int \<Rightarrow> (db, int) dbm" where
  "revoke_stale_agent_tokens ttl =
     (if ttl \<le> 0 then ok 0 else exec (update_tokens (stale_token ttl) set_revoked) ok)"

definition count_active_tokens :: "(db, int) dbm" where
  "count_active_tokens = query (\<lambda>d. count_where (\<lambda>t. t_revoked t = None) (tokens d)) ok"

section \<open>Accounts\<close>

record api_user =
  us_id :: int
  us_name :: string
  us_created :: int

definition mk_user :: "string \<times> string option \<times> int \<Rightarrow> int \<Rightarrow> user_row" where
  "mk_user p i = (case p of (name, password, t) \<Rightarrow> \<lparr>u_id = i, u_name = name, u_created = t, u_password = password\<rparr>)"

definition insert_user :: "string \<Rightarrow> string option \<Rightarrow> db \<Rightarrow> (db_error + int) \<times> db" where
  "insert_user name password d =
     (if exists_where (\<lambda>u. u_name u = name) (users d) then (Inl ErrUnique, d)
      else (let (r, t) = insert_row (mk_user (name, password, now d)) (users d) in (Inr (u_id r), d\<lparr>users := t\<rparr>)))"

definition new_token :: "int \<Rightarrow> string \<Rightarrow> int \<Rightarrow> api_token" where
  "new_token i name t = \<lparr>tk_id = i, tk_name = name, tk_user = '''', tk_created = t, tk_last_used = None, tk_revoked = None\<rparr>"

definition register_user ::
  "(string \<Rightarrow> string option) \<Rightarrow> (string \<Rightarrow> string) \<Rightarrow> string option \<Rightarrow> string \<Rightarrow> string \<Rightarrow>
   (db, api_user \<times> api_token \<times> string) dbm" where
  "register_user bcrypt sha rnd username password =
     (let name = trim_space username in
      if name = [] then err ErrUserName
      else if length password < 8 then err ErrShortPassword
      else (case bcrypt password of
          None \<Rightarrow> err ErrBcrypt
        | Some hash \<Rightarrow>
            tx (attempt (exec (insert_user name (Some hash)) ok) (\<lambda>r. case r of
                Inl e \<Rightarrow> err (if e = ErrUnique then ErrUserExists else e)
              | Inr uid \<Rightarrow>
                  (case generate_token_string rnd of
                      None \<Rightarrow> err ErrRand
                    | Some plain \<Rightarrow>
                        exec (insert_token name (hash_token sha plain) (Some uid)) (\<lambda>tid.
                          time_now (\<lambda>t. ok (\<lparr>us_id = uid, us_name = name, us_created = t\<rparr>,
                                            new_token tid name t, plain))))))))"

definition login_user ::
  "(string \<Rightarrow> string \<Rightarrow> bool) \<Rightarrow> (string \<Rightarrow> string) \<Rightarrow> string option \<Rightarrow> string \<Rightarrow> string \<Rightarrow>
   (db, api_token \<times> string) dbm" where
  "login_user check sha rnd username password =
     query (\<lambda>d. select_one (\<lambda>u. u_name u = username) (users d)) (\<lambda>r. case r of
         None \<Rightarrow> err ErrBadCredentials
       | Some u \<Rightarrow>
           (case u_password u of
               None \<Rightarrow> err ErrNoPassword
             | Some hash \<Rightarrow>
                 if hash = [] then err ErrNoPassword
                 else if \<not> check hash password then err ErrBadCredentials
                 else (case generate_token_string rnd of
                     None \<Rightarrow> err ErrRand
                   | Some plain \<Rightarrow>
                       exec (insert_token (username @ ''-session'') (hash_token sha plain) (Some (u_id u))) (\<lambda>tid.
                         time_now (\<lambda>t. ok (new_token tid username t, plain))))))"

definition get_user :: "string \<Rightarrow> (db, api_user) dbm" where
  "get_user username = query (\<lambda>d. select_one (\<lambda>u. u_name u = username) (users d)) (\<lambda>r. case r of
     None \<Rightarrow> err ErrNotFound
   | Some u \<Rightarrow> ok \<lparr>us_id = u_id u, us_name = u_name u, us_created = u_created u\<rparr>)"

text \<open>\<open>INSERT OR IGNORE\<close>, then the id.\<close>

definition insert_user_or_ignore :: "string \<Rightarrow> db \<Rightarrow> (db_error + unit) \<times> db" where
  "insert_user_or_ignore name d = (Inr (), snd (insert_user name None d))"

definition ensure_user :: "string \<Rightarrow> (db, int) dbm" where
  "ensure_user name =
     exec (insert_user_or_ignore name) (\<lambda>_.
     query (\<lambda>d. select_one (\<lambda>u. u_name u = name) (users d)) (\<lambda>r. case r of
       None \<Rightarrow> err ErrNoRows | Some u \<Rightarrow> ok (u_id u)))"

definition mk_repo :: "int \<times> string \<times> int \<Rightarrow> int \<Rightarrow> repo_row" where
  "mk_repo p i = (case p of (owner, name, t) \<Rightarrow>
     \<lparr>r_id = i, r_owner = owner, r_name = name, r_created = t, r_ci_enabled = False, r_visibility = ''public'',
      r_require_approval = False, r_protected_refs = ''''\<rparr>)"

definition insert_repo_or_ignore :: "int \<Rightarrow> string \<Rightarrow> db \<Rightarrow> (db_error + unit) \<times> db" where
  "insert_repo_or_ignore owner name d =
     (if exists_where (\<lambda>r. r_owner r = owner \<and> r_name r = name) (repos d) then (Inr (), d)
      else if \<not> exists_where (\<lambda>u. u_id u = owner) (users d) then (Inl ErrForeignKey, d)
      else (Inr (), d\<lparr>repos := snd (insert_row (mk_repo (owner, name, now d)) (repos d))\<rparr>))"

definition ensure_repo :: "string \<Rightarrow> string \<Rightarrow> (db, int) dbm" where
  "ensure_repo owner name =
     bind (ensure_user owner) (\<lambda>uid.
     exec (insert_repo_or_ignore uid name) (\<lambda>_.
     query (\<lambda>d. select_one (\<lambda>r. r_owner r = uid \<and> r_name r = name) (repos d)) (\<lambda>r. case r of
       None \<Rightarrow> err ErrNoRows | Some x \<Rightarrow> ok (r_id x))))"

section \<open>SSH keys\<close>

record ssh_key =
  sk_id :: int
  sk_token :: string
  sk_fingerprint :: string
  sk_comment :: string
  sk_created :: int
  sk_last_used :: "int option"

definition mk_key :: "int \<times> string \<times> string \<times> string \<times> int \<Rightarrow> int \<Rightarrow> key_row" where
  "mk_key p i = (case p of (tok, fingerprint, public, comment, t) \<Rightarrow>
     \<lparr>k_id = i, k_token = tok, k_fingerprint = fingerprint, k_public = public, k_comment = comment,
      k_created = t, k_last_used = None\<rparr>)"

definition insert_key :: "int \<Rightarrow> string \<Rightarrow> string \<Rightarrow> string \<Rightarrow> db \<Rightarrow> (db_error + int) \<times> db" where
  "insert_key tok fingerprint public comment d =
     (if exists_where (\<lambda>k. k_fingerprint k = fingerprint) (ssh_keys d) then (Inl ErrUnique, d)
      else if \<not> exists_where (\<lambda>t. t_id t = tok) (tokens d) then (Inl ErrForeignKey, d)
      else (let (r, t) = insert_row (mk_key (tok, fingerprint, public, comment, now d)) (ssh_keys d)
            in (Inr (k_id r), d\<lparr>ssh_keys := t\<rparr>)))"

text \<open>\<open>ssh_keys JOIN tokens\<close>.\<close>

definition key_with_token :: "db \<Rightarrow> key_row \<Rightarrow> (key_row \<times> token_row) option" where
  "key_with_token d k = map_option (\<lambda>t. (k, t)) (select_one (\<lambda>t. t_id t = k_token k) (tokens d))"

definition scan_ssh_key :: "key_row \<times> token_row \<Rightarrow> ssh_key" where
  "scan_ssh_key p = (case p of (k, t) \<Rightarrow>
     \<lparr>sk_id = k_id k, sk_token = t_name t, sk_fingerprint = k_fingerprint k, sk_comment = k_comment k,
      sk_created = k_created k, sk_last_used = k_last_used k\<rparr>)"

definition get_ssh_key_by_id :: "int \<Rightarrow> (db, ssh_key) dbm" where
  "get_ssh_key_by_id i =
     query (\<lambda>d. Option.bind (select_one (\<lambda>k. k_id k = i) (ssh_keys d)) (key_with_token d))
       (\<lambda>r. case r of None \<Rightarrow> err ErrNoRows | Some p \<Rightarrow> ok (scan_ssh_key p))"

text \<open>\<open>parse\<close> yields the fingerprint, the authorized_keys form and the trailing comment of a key line.\<close>

definition add_ssh_key :: "(string \<Rightarrow> (string \<times> string \<times> string) option) \<Rightarrow> int \<Rightarrow> string \<Rightarrow> string \<Rightarrow> (db, ssh_key) dbm" where
  "add_ssh_key parse tok line comment =
     (case parse line of
        None \<Rightarrow> err ErrInvalidSSHKey
      | Some (fingerprint, authorized, key_comment) \<Rightarrow>
          (let comment = trim_space comment;
               comment = (if comment = [] then trim_space key_comment else comment) in
           attempt (exec (insert_key tok fingerprint (trim_space authorized) comment) ok) (\<lambda>r. case r of
               Inl e \<Rightarrow> err (if e = ErrUnique then ErrSSHKeyExists else e)
             | Inr i \<Rightarrow> get_ssh_key_by_id i)))"

definition list_ssh_keys :: "int \<Rightarrow> (db, ssh_key list) dbm" where
  "list_ssh_keys tok =
     query (\<lambda>d. map scan_ssh_key (List.map_filter (key_with_token d) (rev (select_where (\<lambda>k. k_token k = tok) (ssh_keys d))))) ok"

definition delete_keys :: "(key_row \<Rightarrow> bool) \<Rightarrow> db \<Rightarrow> (db_error + int) \<times> db" where
  "delete_keys P d = (Inr (count_where P (ssh_keys d)), d\<lparr>ssh_keys := delete_where P (ssh_keys d)\<rparr>)"

definition delete_ssh_key :: "int \<Rightarrow> int \<Rightarrow> (db, unit) dbm" where
  "delete_ssh_key i tok = exec (delete_keys (\<lambda>k. k_id k = i \<and> k_token k = tok)) affected"

definition lookup_token_by_ssh_key :: "string \<Rightarrow> (db, api_token) dbm" where
  "lookup_token_by_ssh_key fingerprint =
     query (\<lambda>d. Option.bind (select_one (\<lambda>k. k_fingerprint k = fingerprint) (ssh_keys d)) (key_with_token d))
       (\<lambda>r. case r of
          None \<Rightarrow> err ErrNotFound
        | Some (k, t) \<Rightarrow> if t_revoked t \<noteq> None then err ErrNotFound else ok (scan_token '''' t))"

definition touch_keys :: "string \<Rightarrow> db \<Rightarrow> (db_error + unit) \<times> db" where
  "touch_keys fingerprint d = (Inr (), d\<lparr>ssh_keys :=
     update_where (\<lambda>k. k_fingerprint k = fingerprint) (\<lambda>k. k\<lparr>k_last_used := Some (now d)\<rparr>) (ssh_keys d)\<rparr>)"

definition touch_ssh_key :: "string \<Rightarrow> (db, unit) dbm" where
  "touch_ssh_key fingerprint = attempt (exec (touch_keys fingerprint) ok) (\<lambda>_. ok ())"

section \<open>Steps and invariant\<close>

inductive account_step :: "db \<Rightarrow> db \<Rightarrow> bool" where
  step_register: "register_user bcrypt sha rnd u p (fs, d) = (r1, (fs', d')) \<Longrightarrow> account_step d d'"
| step_login: "login_user check sha rnd u p (fs, d) = (r2, (fs', d')) \<Longrightarrow> account_step d d'"
| step_create: "create_token sha n p (fs, d) = (r3, (fs', d')) \<Longrightarrow> account_step d d'"
| step_touch: "touch_token i (fs, d) = (r4, (fs', d')) \<Longrightarrow> account_step d d'"
| step_revoke: "revoke_token n (fs, d) = (r4, (fs', d')) \<Longrightarrow> account_step d d'"
| step_revoke_id: "revoke_token_by_id i (fs, d) = (r4, (fs', d')) \<Longrightarrow> account_step d d'"
| step_revoke_agents: "revoke_agent_run_tokens (fs, d) = (r5, (fs', d')) \<Longrightarrow> account_step d d'"
| step_revoke_stale: "revoke_stale_agent_tokens ttl (fs, d) = (r5, (fs', d')) \<Longrightarrow> account_step d d'"
| step_ensure_repo: "ensure_repo u n (fs, d) = (r5, (fs', d')) \<Longrightarrow> account_step d d'"
| step_add_key: "add_ssh_key parse i l c (fs, d) = (r6, (fs', d')) \<Longrightarrow> account_step d d'"
| step_delete_key: "delete_ssh_key i j (fs, d) = (r4, (fs', d')) \<Longrightarrow> account_step d d'"
| step_touch_key: "touch_ssh_key f (fs, d) = (r4, (fs', d')) \<Longrightarrow> account_step d d'"
| step_other: "users d' = users d \<Longrightarrow> tokens d' = tokens d \<Longrightarrow> ssh_keys d' = ssh_keys d \<Longrightarrow> account_step d d'"

definition accounts_ok :: "db \<Rightarrow> bool" where
  "accounts_ok d \<longleftrightarrow> keyed_ok u_id u_name (users d) \<and> keyed_ok t_id t_name (tokens d) \<and>
     keyed_ok t_id t_hash (tokens d) \<and> keyed_ok k_id k_fingerprint (ssh_keys d) \<and>
     (\<forall>k \<in> set (rows (ssh_keys d)). exists_where (\<lambda>t. t_id t = k_token k) (tokens d)) \<and>
     (\<forall>t \<in> set (rows (tokens d)). user_known (users d) (t_user t))"

text \<open>What no operation takes back: an account, and a token with its name, hash and account; a revoked one stays revoked.\<close>

definition token_kept :: "token_row \<Rightarrow> token_row \<Rightarrow> bool" where
  "token_kept t t' \<longleftrightarrow> t_id t' = t_id t \<and> t_name t' = t_name t \<and> t_hash t' = t_hash t \<and> t_user t' = t_user t \<and>
     (t_revoked t \<noteq> None \<longrightarrow> t_revoked t' \<noteq> None)"

definition remembers :: "db \<Rightarrow> db \<Rightarrow> bool" where
  "remembers d d' \<longleftrightarrow> set (rows (users d)) \<subseteq> set (rows (users d')) \<and>
     (\<forall>t \<in> set (rows (tokens d)). \<exists>t' \<in> set (rows (tokens d')). token_kept t t')"

lemma mk_sel [row_simps]:
  "t_id (mk_token p i) = i" "t_name (mk_token p i) = fst p" "t_hash (mk_token p i) = fst (snd p)"
  "t_user (mk_token p i) = fst (snd (snd p))" "t_revoked (mk_token p i) = None"
  "u_id (mk_user q i) = i" "u_name (mk_user q i) = fst q" "u_password (mk_user q i) = fst (snd q)"
  "k_id (mk_key k i) = i" "k_fingerprint (mk_key k i) = fst (snd k)" "k_token (mk_key k i) = fst k"
  by (simp_all add: mk_token_def mk_user_def mk_key_def split: prod.splits)

interpretation user_names: keyed_table u_id u_name mk_user fst
  by unfold_locales (simp_all add: row_simps)

interpretation token_names: keyed_table t_id t_name mk_token fst
  by unfold_locales (simp_all add: row_simps)

interpretation token_hashes: keyed_table t_id t_hash mk_token "\<lambda>p. fst (snd p)"
  by unfold_locales (simp_all add: row_simps)

interpretation key_prints: keyed_table k_id k_fingerprint mk_key "\<lambda>p. fst (snd p)"
  by unfold_locales (simp_all add: row_simps)

lemma token_kept_refl [simp]: "token_kept t t"
  by (simp add: token_kept_def)

lemma token_kept_trans: "token_kept a b \<Longrightarrow> token_kept b c \<Longrightarrow> token_kept a c"
  by (simp add: token_kept_def)

lemma remembers_refl [simp]: "remembers d d"
  by (auto simp: remembers_def intro: token_kept_refl)

lemma remembers_trans: "remembers d d' \<Longrightarrow> remembers d' d'' \<Longrightarrow> remembers d d''"
  unfolding remembers_def by (meson token_kept_trans subset_trans)

definition accounts_inv :: "db \<Rightarrow> db \<Rightarrow> bool" where
  "accounts_inv d0 d \<longleftrightarrow> accounts_ok d \<and> remembers d0 d"

lemma user_known_insert: "user_known us u \<Longrightarrow> user_known (snd (insert_row mk us)) u"
  by (cases u) (auto simp: user_known_def exists_insert)

lemma insert_user_inv:
  assumes "accounts_inv d0 d" and "insert_user n p d = (r, d')"
  shows "accounts_inv d0 d'"
proof (cases "exists_where (\<lambda>u. u_name u = n) (users d)")
  case True
  with assms show ?thesis by (simp add: insert_user_def)
next
  case False
  with assms(2) have d': "d' = d\<lparr>users := snd (insert_row (mk_user (n, p, now d)) (users d))\<rparr>"
    by (auto simp: insert_user_def Let_def split: prod.splits)
  have "keyed_ok u_id u_name (users d')"
    using assms(1) user_names.insert_keeps [of "users d" "(n, p, now d)"] False
    by (simp add: d' accounts_inv_def accounts_ok_def)
  with assms(1) show ?thesis
    by (auto simp: d' accounts_inv_def accounts_ok_def remembers_def row_simps user_known_insert)
qed

lemma insert_token_inv:
  assumes "accounts_inv d0 d" and "insert_token n h u d = (r, d')"
  shows "accounts_inv d0 d'"
proof (cases "d' = d")
  case True
  with assms show ?thesis by simp
next
  case False
  let ?p = "(n, h, u, now d)"
  from False assms(2) have fresh: "\<not> exists_where (\<lambda>t. t_name t = n) (tokens d)"
      "\<not> exists_where (\<lambda>t. t_hash t = h) (tokens d)"
      "user_known (users d) u"
    and d': "d' = d\<lparr>tokens := snd (insert_row (mk_token ?p) (tokens d))\<rparr>"
    by (auto simp: insert_token_def Let_def split: if_splits prod.splits)
  have "keyed_ok t_id t_name (tokens d')" "keyed_ok t_id t_hash (tokens d')"
    using assms(1) token_names.insert_keeps [of "tokens d" ?p] token_hashes.insert_keeps [of "tokens d" ?p] fresh
    by (simp_all add: d' accounts_inv_def accounts_ok_def)
  moreover have "\<forall>k \<in> set (rows (ssh_keys d')). exists_where (\<lambda>t. t_id t = k_token k) (tokens d')"
    using assms(1) by (auto simp: d' accounts_inv_def accounts_ok_def intro: exists_insert)
  moreover have "\<forall>t \<in> set (rows (tokens d')). user_known (users d') (t_user t)"
    using assms(1) fresh(3) by (auto simp: d' accounts_inv_def accounts_ok_def row_simps)
  moreover have "remembers d d'"
    by (auto simp: d' remembers_def row_simps intro: token_kept_refl)
  ultimately show ?thesis
    using assms(1) remembers_trans by (auto simp: d' accounts_inv_def accounts_ok_def)
qed

lemma update_tokens_inv:
  assumes "accounts_inv d0 d" and "update_tokens P f d = (r, d')"
    and "\<And>n t. t_id (f n t) = t_id t \<and> t_name (f n t) = t_name t \<and> t_hash (f n t) = t_hash t \<and>
           t_user (f n t) = t_user t \<and> (t_revoked t \<noteq> None \<longrightarrow> t_revoked (f n t) \<noteq> None)"
  shows "accounts_inv d0 d'"
proof -
  have d': "d' = d\<lparr>tokens := update_where (P d) (f (now d)) (tokens d)\<rparr>"
    using assms(2) by (simp add: update_tokens_def)
  have ids: "exists_where (\<lambda>t. t_id t = i) (tokens d') = exists_where (\<lambda>t. t_id t = i) (tokens d)" for i
    unfolding d' using assms(3) by (simp add: exists_update_where)
  have rows': "rows (tokens d') = map (\<lambda>t. if P d t then f (now d) t else t) (rows (tokens d))"
    by (simp add: d' row_simps)
  have "\<exists>t' \<in> set (rows (tokens d')). token_kept t t'" if "t \<in> set (rows (tokens d))" for t
  proof (rule bexI)
    show "token_kept t (if P d t then f (now d) t else t)" using assms(3) [of "now d" t] by (simp add: token_kept_def)
    show "(if P d t then f (now d) t else t) \<in> set (rows (tokens d'))" using that by (simp add: rows')
  qed
  then have "remembers d d'" by (simp add: remembers_def d')
  moreover have "\<forall>t \<in> set (rows (tokens d')). user_known (users d') (t_user t)"
    using assms(1,3) by (auto simp: d' accounts_inv_def accounts_ok_def row_simps)
  then have "accounts_ok d'"
    using assms(1,3) ids by (simp add: d' accounts_inv_def accounts_ok_def keyed_ok_update)
  ultimately show ?thesis
    using assms(1) remembers_trans by (auto simp: accounts_inv_def)
qed

lemma keys_inv:
  assumes "accounts_inv d0 d" and "d' = d\<lparr>ssh_keys := ks\<rparr>" and "keyed_ok k_id k_fingerprint ks"
    and "\<forall>k \<in> set (rows ks). exists_where (\<lambda>t. t_id t = k_token k) (tokens d)"
  shows "accounts_inv d0 d'"
  using assms by (simp add: accounts_inv_def accounts_ok_def remembers_def)

lemma insert_key_inv:
  assumes "accounts_inv d0 d" and "insert_key tok f p c d = (r, d')"
  shows "accounts_inv d0 d'"
proof (cases "d' = d")
  case True
  with assms show ?thesis by simp
next
  case False
  let ?p = "(tok, f, p, c, now d)"
  from False assms(2) have fresh: "\<not> exists_where (\<lambda>k. k_fingerprint k = f) (ssh_keys d)"
      "exists_where (\<lambda>t. t_id t = tok) (tokens d)"
    and d': "d' = d\<lparr>ssh_keys := snd (insert_row (mk_key ?p) (ssh_keys d))\<rparr>"
    by (auto simp: insert_key_def Let_def split: if_splits prod.splits)
  show ?thesis
    using assms(1) fresh key_prints.insert_keeps [of "ssh_keys d" ?p]
    by (intro keys_inv [OF assms(1) d']) (auto simp: accounts_inv_def accounts_ok_def row_simps)
qed

lemma delete_keys_inv: "accounts_inv d0 d \<Longrightarrow> delete_keys P d = (r, d') \<Longrightarrow> accounts_inv d0 d'"
  by (rule keys_inv [where ks = "delete_where P (ssh_keys d)"])
     (auto simp: delete_keys_def accounts_inv_def accounts_ok_def keyed_ok_delete row_simps)

lemma touch_keys_inv:
  assumes "accounts_inv d0 d" and "touch_keys f d = (r, d')"
  shows "accounts_inv d0 d'"
proof (rule keys_inv [OF assms(1)])
  show "d' = d\<lparr>ssh_keys := update_where (\<lambda>k. k_fingerprint k = f) (\<lambda>k. k\<lparr>k_last_used := Some (now d)\<rparr>) (ssh_keys d)\<rparr>"
    using assms(2) by (simp add: touch_keys_def)
qed (use assms(1) in \<open>auto simp: accounts_inv_def accounts_ok_def row_simps intro!: keyed_ok_update\<close>)

lemma repos_inv: "accounts_inv d0 d \<Longrightarrow> insert_repo_or_ignore u n d = (r, d') \<Longrightarrow> accounts_inv d0 d'"
  by (auto simp: insert_repo_or_ignore_def accounts_inv_def accounts_ok_def remembers_def split: if_splits)

lemma ignore_user_inv: "accounts_inv d0 d \<Longrightarrow> insert_user_or_ignore n d = (r, d') \<Longrightarrow> accounts_inv d0 d'"
  by (auto simp: insert_user_or_ignore_def) (metis insert_user_inv prod.collapse)

lemma revoke_inv: "accounts_inv d0 d \<Longrightarrow> update_tokens P set_revoked d = (r, d') \<Longrightarrow> accounts_inv d0 d'"
  by (rule update_tokens_inv) (auto simp: set_revoked_def)

lemma touch_inv: "accounts_inv d0 d \<Longrightarrow> update_tokens P touched d = (r, d') \<Longrightarrow> accounts_inv d0 d'"
  by (rule update_tokens_inv) (auto simp: touched_def)

lemma accounts_inv_refl: "accounts_ok d \<Longrightarrow> accounts_inv d d"
  by (simp add: accounts_inv_def)

lemma keeps_write:
  assumes "I d" and "\<And>x d'. f d = (Inr x, d') \<Longrightarrow> I d'" and "\<And>x d'. I d' \<Longrightarrow> keeps I d' (k x)"
  shows "keeps I d (exec f k)"
  using assms by (intro keeps_exec) auto

lemmas account_writes =
  keeps_write [where f = "insert_user n p" for n p, OF _ insert_user_inv]
  keeps_write [where f = "insert_user_or_ignore n" for n, OF _ ignore_user_inv]
  keeps_write [where f = "insert_token n h u" for n h u, OF _ insert_token_inv]
  keeps_write [where f = "insert_key t f p c" for t f p c, OF _ insert_key_inv]
  keeps_write [where f = "delete_keys P" for P, OF _ delete_keys_inv]
  keeps_write [where f = "touch_keys f" for f, OF _ touch_keys_inv]
  keeps_write [where f = "insert_repo_or_ignore u n" for u n, OF _ repos_inv]
  keeps_write [where f = "update_tokens P set_revoked" for P, OF _ revoke_inv]
  keeps_write [where f = "update_tokens P touched" for P, OF _ touch_inv]

lemmas account_rules = keeps_ok keeps_err keeps_query keeps_tx keeps_if keeps_option keeps_sum keeps_prod
  keeps_time_now keeps_attempt keeps_bind affected_keeps account_writes

lemma account_ops_keep:
  assumes "accounts_inv d0 d"
  shows register_inv: "keeps (accounts_inv d0) d (register_user bcrypt sha rnd u p)"
    and login_inv: "keeps (accounts_inv d0) d (login_user check sha rnd u p)"
    and create_inv: "keeps (accounts_inv d0) d (create_token sha n p)"
    and touch_token_inv: "keeps (accounts_inv d0) d (touch_token i)"
    and revoke_token_inv: "keeps (accounts_inv d0) d (revoke_token n)"
    and revoke_id_inv: "keeps (accounts_inv d0) d (revoke_token_by_id i)"
    and revoke_agents_inv: "keeps (accounts_inv d0) d revoke_agent_run_tokens"
    and revoke_stale_inv: "keeps (accounts_inv d0) d (revoke_stale_agent_tokens ttl)"
    and ensure_repo_inv: "keeps (accounts_inv d0) d (ensure_repo u n)"
    and add_key_inv: "keeps (accounts_inv d0) d (add_ssh_key parse i l c)"
    and delete_key_inv: "keeps (accounts_inv d0) d (delete_ssh_key i j)"
    and touch_key_inv: "keeps (accounts_inv d0) d (touch_ssh_key f)"
  subgoal unfolding register_user_def Let_def
    by (intro account_rules; (assumption | rule assms))
  subgoal unfolding login_user_def Let_def
    by (intro account_rules; (assumption | rule assms))
  subgoal unfolding create_token_def get_token_by_id_def Let_def
    by (intro account_rules; (assumption | rule assms))
  subgoal unfolding touch_token_def
    by (intro account_rules; (assumption | rule assms))
  subgoal unfolding revoke_token_def
    by (intro account_rules; (assumption | rule assms))
  subgoal unfolding revoke_token_by_id_def
    by (intro account_rules; (assumption | rule assms))
  subgoal unfolding revoke_agent_run_tokens_def
    by (intro account_rules; (assumption | rule assms))
  subgoal unfolding revoke_stale_agent_tokens_def
    by (intro account_rules; (assumption | rule assms))
  subgoal unfolding ensure_repo_def ensure_user_def
    by (intro account_rules; (assumption | rule assms))
  subgoal unfolding add_ssh_key_def get_ssh_key_by_id_def Let_def
    by (intro account_rules; (assumption | rule assms))
  subgoal unfolding delete_ssh_key_def
    by (intro account_rules; (assumption | rule assms))
  subgoal unfolding touch_ssh_key_def
    by (intro account_rules; (assumption | rule assms))
  done

lemma account_step_inv: "account_step d d' \<Longrightarrow> accounts_inv d0 d \<Longrightarrow> accounts_inv d0 d'"
proof (induction rule: account_step.induct)
  case (step_other d' d)
  then show ?case by (simp add: accounts_inv_def accounts_ok_def remembers_def)
qed (blast dest: keepsD [OF register_inv] keepsD [OF login_inv] keepsD [OF create_inv] keepsD [OF touch_token_inv]
    keepsD [OF revoke_token_inv] keepsD [OF revoke_id_inv] keepsD [OF revoke_agents_inv] keepsD [OF revoke_stale_inv]
    keepsD [OF ensure_repo_inv] keepsD [OF add_key_inv] keepsD [OF delete_key_inv] keepsD [OF touch_key_inv])+

lemma account_steps_inv: "account_step\<^sup>*\<^sup>* d d' \<Longrightarrow> accounts_ok d \<Longrightarrow> accounts_inv d d'"
  by (induction rule: rtranclp_induct) (auto simp: accounts_inv_refl intro: account_step_inv)

lemma lookup_InrD:
  assumes "lookup_token sha plain (fs, d) = (Inr a, s)"
  shows "\<exists>t \<in> set (rows (tokens d)). t_hash t = hash_token sha plain \<and> t_revoked t = None \<and>
    a = scan_token (user_name_of d (t_user t)) t"
  using assms unfolding lookup_token_def
  by (elim query_InrE) (auto split: option.splits if_splits dest!: select_one_SomeD)

lemma key_lookup_InrD:
  assumes "lookup_token_by_ssh_key fingerprint (fs, d) = (Inr a, s)"
  shows "\<exists>t \<in> set (rows (tokens d)). t_revoked t = None \<and> a = scan_token '''' t"
  using assms unfolding lookup_token_by_ssh_key_def
  by (elim query_InrE)
     (auto simp: key_with_token_def split: option.splits if_splits bind_splits dest!: select_one_SomeD)

text \<open>C10: A revoked token is dead for ever: whatever registrations, logins, new tokens, new keys and
  revocations follow, under whatever failures of the engine, neither its plaintext nor any SSH key
  authenticates as it again.\<close>

theorem revoked_token_never_authenticates:
  assumes "accounts_ok d" and "t \<in> set (rows (tokens d))" and "t_revoked t \<noteq> None"
    and "account_step\<^sup>*\<^sup>* d d'"
  shows "(\<forall>plain. hash_token sha plain = t_hash t \<longrightarrow> \<not> is_ok (fst (lookup_token sha plain (fs, d')))) \<and>
    (\<forall>fingerprint a s. lookup_token_by_ssh_key fingerprint (fs, d') = (Inr a, s) \<longrightarrow> tk_id a \<noteq> t_id t)"
proof -
  have inv: "accounts_ok d'" "remembers d d'"
    using account_steps_inv [OF assms(4,1)] by (auto simp: accounts_inv_def)
  from inv(2) assms(2,3) obtain t' where t': "t' \<in> set (rows (tokens d'))" "t_id t' = t_id t"
      "t_hash t' = t_hash t" "t_revoked t' \<noteq> None"
    unfolding remembers_def token_kept_def by metis
  have tok: "x = t'" if "x \<in> set (rows (tokens d'))" "t_hash x = t_hash t \<or> t_id x = t_id t" for x
    using that inv(1) t' by (auto simp: accounts_ok_def keyed_ok_def dest: ids_ok_distinct intro: distinct_map_eqD)
  have "\<not> is_ok (fst (lookup_token sha plain (fs, d')))" if "hash_token sha plain = t_hash t" for plain
  proof
    assume "is_ok (fst (lookup_token sha plain (fs, d')))"
    then obtain a s where "lookup_token sha plain (fs, d') = (Inr a, s)"
      by (metis is_ok_iff prod.collapse)
    from lookup_InrD [OF this] that tok t'(4) show False by metis
  qed
  moreover have "tk_id a \<noteq> t_id t" if "lookup_token_by_ssh_key fp (fs, d') = (Inr a, s)" for fp a s
    using key_lookup_InrD [OF that] tok t'(4) by (auto simp: scan_token_def)
  ultimately show ?thesis by blast
qed

definition demo_accounts :: db where
  "demo_accounts = snd (snd (attempt (create_token id ''ci-bot'' ''secret'') (\<lambda>_. revoke_token ''ci-bot'') ([], empty_db 5)))"

lemma demo_accounts_ok: "accounts_ok demo_accounts"
  by code_simp

definition demo_keyed :: db where
  "demo_keyed = snd (snd (add_ssh_key (\<lambda>l. Some (l, l, ''laptop'')) 1 ''ssh-rsa AAAA'' '''' ([], demo_accounts)))"

theorem revoked_token_never_authenticates_witness:
  "\<exists>t \<in> set (rows (tokens demo_accounts)). t_hash t = hash_token id ''secret'' \<and>
     \<not> is_ok (fst (lookup_token id ''secret'' ([], demo_keyed)))"
proof -
  let ?t = "hd (rows (tokens demo_accounts))"
  have t: "?t \<in> set (rows (tokens demo_accounts))" and r: "t_revoked ?t \<noteq> None"
    and h: "t_hash ?t = hash_token id ''secret''"
    by code_simp+
  have "add_ssh_key (\<lambda>l. Some (l, l, ''laptop'')) 1 ''ssh-rsa AAAA'' '''' ([], demo_accounts) =
      (fst (add_ssh_key (\<lambda>l. Some (l, l, ''laptop'')) 1 ''ssh-rsa AAAA'' '''' ([], demo_accounts)), ([], demo_keyed))"
    by code_simp
  then have "account_step\<^sup>*\<^sup>* demo_accounts demo_keyed"
    by (intro r_into_rtranclp step_add_key)
  from revoked_token_never_authenticates [OF demo_accounts_ok t r this, of id "[]"] t h
  show ?thesis by metis
qed

section \<open>Passwords\<close>

lemma attempt_ok [simp]: "attempt (exec f ok) k ([], d) = (case f d of (r, d') \<Rightarrow> k r ([], case r of Inl _ \<Rightarrow> d | Inr _ \<Rightarrow> d'))"
  by (auto simp: attempt_def split: prod.splits sum.splits)

lemma insert_token_ok:
  "insert_token n h u d = (Inr i, d') \<longleftrightarrow>
    \<not> exists_where (\<lambda>t. t_name t = n) (tokens d) \<and> \<not> exists_where (\<lambda>t. t_hash t = h) (tokens d) \<and>
    user_known (users d) u \<and> i = seqno (tokens d) + 1 \<and>
    d' = d\<lparr>tokens := snd (insert_row (mk_token (n, h, u, now d)) (tokens d))\<rparr>"
  by (auto simp: insert_token_def insert_row_def Let_def mk_sel)

lemma insert_user_ok:
  "insert_user n p d = (Inr i, d') \<longleftrightarrow> \<not> exists_where (\<lambda>u. u_name u = n) (users d) \<and> i = seqno (users d) + 1 \<and>
    d' = d\<lparr>users := snd (insert_row (mk_user (n, p, now d)) (users d))\<rparr>"
  by (auto simp: insert_user_def insert_row_def Let_def mk_sel)

lemma login_InrD:
  assumes "login_user check sha rnd u p (fs, d) = (Inr (a, plain), (fs', d'))"
  shows "\<exists>r \<in> set (rows (users d)). u_name r = u \<and> generate_token_string rnd = Some plain \<and>
    insert_token (u @ ''-session'') (hash_token sha plain) (Some (u_id r)) d = (Inr (tk_id a), d')"
proof -
  from assms obtain r q gs where r: "select_one (\<lambda>x. u_name x = u) (users d) = Some r"
      and g: "generate_token_string rnd = Some q"
      and e: "exec (insert_token (u @ ''-session'') (hash_token sha q) (Some (u_id r))) (\<lambda>tid.
        time_now (\<lambda>t. ok (new_token tid u t, q))) (gs, d) = (Inr (a, plain), (fs', d'))"
    unfolding login_user_def by (elim query_InrE) (auto split: option.splits if_splits)
  from e obtain i where "insert_token (u @ ''-session'') (hash_token sha q) (Some (u_id r)) d = (Inr i, d')"
      "a = new_token i u (now d')" "q = plain"
    by (elim exec_InrE) auto
  with select_one_SomeD [OF r] g show ?thesis by (auto simp: new_token_def)
qed

text \<open>An account can sign in with its password once in its life: the session token is always named
  after the user, token names are unique and no operation removes a token or its name, so after one
  successful login every later one fails, revoked or not, with a right password.\<close>

theorem login_works_once:
  assumes "accounts_ok d" and "login_user check sha rnd u p (fs, d) = (Inr r, (fs', d1))"
    and "account_step\<^sup>*\<^sup>* d1 d2"
  shows "\<not> is_ok (fst (login_user check' sha' rnd' u p' (gs, d2)))"
proof
  obtain a plain where r: "r = (a, plain)" by fastforce
  from login_InrD [OF assms(2) [unfolded r]]
  have "exists_where (\<lambda>t. t_name t = u @ ''-session'') (tokens d1)"
    by (auto simp: insert_token_ok exists_where_iff row_simps)
  moreover have "accounts_ok d1"
    using keepsD [OF login_inv [OF accounts_inv_refl [OF assms(1)]] assms(2)] by (simp add: accounts_inv_def)
  from account_steps_inv [OF assms(3) this] have "remembers d1 d2" by (simp add: accounts_inv_def)
  ultimately have taken: "exists_where (\<lambda>t. t_name t = u @ ''-session'') (tokens d2)"
    unfolding remembers_def exists_where_iff token_kept_def by metis
  assume "is_ok (fst (login_user check' sha' rnd' u p' (gs, d2)))"
  then obtain b plain' hs d3 where "login_user check' sha' rnd' u p' (gs, d2) = (Inr (b, plain'), (hs, d3))"
    by (metis is_ok_iff prod.collapse)
  from login_InrD [OF this] taken show False by (auto simp: insert_token_ok)
qed

lemma register_outcome:
  assumes "register_user bcrypt sha rnd u p ([], d) = (Inr (usr, tok, plain), ([], d'))"
  shows "\<exists>h uid d1. bcrypt p = Some h \<and> us_name usr = trim_space u \<and>
    insert_user (trim_space u) (Some h) d = (Inr uid, d1) \<and>
    insert_token (trim_space u) (hash_token sha plain) (Some uid) d1 = (Inr (tk_id tok), d')"
proof -
  have commit: "commit d r = (Inr x, ([], d')) \<Longrightarrow> \<exists>gs. r = (Inr x, (gs, d'))" for r x
    using commit_ok by metis
  from assms show ?thesis
    unfolding register_user_def
    by (auto simp: Let_def new_token_def split: if_splits option.splits prod.splits sum.splits dest!: commit)
qed

lemma found_by_hash:
  assumes "accounts_ok d" and "t \<in> set (rows (tokens d))" and "t_hash t = hash_token sha plain" and "t_revoked t = None"
  shows "lookup_token sha plain ([], d) = (Inr (scan_token (user_name_of d (t_user t)) t), ([], d))"
  using keyed_lookup [of t_id t_hash "tokens d" t] assms by (simp add: lookup_token_def accounts_ok_def)

lemma name_of_user:
  assumes "accounts_ok d" and "r \<in> set (rows (users d))"
  shows "user_name_of d (Some (u_id r)) = u_name r"
  using assms select_one_id [of u_id "users d" r] by (simp add: user_name_of_def accounts_ok_def keyed_ok_def)

lemma user_found:
  assumes "accounts_ok d" and "r \<in> set (rows (users d))"
  shows "select_one (\<lambda>u. u_name u = u_name r) (users d) = Some r"
  using keyed_lookup [of u_id u_name "users d" r] assms by (simp add: accounts_ok_def)

text \<open>A login with a password that the stored hash accepts, when the user has no session token yet and the new one is new.\<close>

lemma login_healthy:
  assumes "accounts_ok d" and "r \<in> set (rows (users d))" and "u_password r = Some h" and "h \<noteq> []" and "check h p"
    and "generate_token_string rnd = Some plain" and "\<not> exists_where (\<lambda>t. t_name t = u_name r @ ''-session'') (tokens d)"
    and "\<not> exists_where (\<lambda>t. t_hash t = hash_token sha plain) (tokens d)"
  shows "\<exists>tok d' b. login_user check sha rnd (u_name r) p ([], d) = (Inr (tok, plain), ([], d')) \<and>
    lookup_token sha plain ([], d') = (Inr b, ([], d')) \<and> tk_name b = u_name r @ ''-session'' \<and> tk_user b = u_name r"
proof -
  let ?p = "(u_name r @ ''-session'', hash_token sha plain, Some (u_id r), now d)"
  let ?d = "d\<lparr>tokens := snd (insert_row (mk_token ?p) (tokens d))\<rparr>"
  have known: "user_known (users d) (Some (u_id r))" using assms(2) by (auto simp: user_known_def exists_where_iff)
  have ins: "insert_token (u_name r @ ''-session'') (hash_token sha plain) (Some (u_id r)) d = (Inr (seqno (tokens d) + 1), ?d)"
    using assms(7,8) known by (auto simp: insert_token_ok)
  have login: "login_user check sha rnd (u_name r) p ([], d) = (Inr (new_token (seqno (tokens d) + 1) (u_name r) (now d), plain), ([], ?d))"
    using user_found [OF assms(1,2)] assms(3-6) ins by (simp add: login_user_def)
  have inv: "accounts_ok ?d"
    using insert_token_inv [OF accounts_inv_refl [OF assms(1)] ins] by (simp add: accounts_inv_def)
  have "user_name_of ?d (Some (u_id r)) = u_name r" using name_of_user [OF inv, of r] assms(2) by simp
  then have "lookup_token sha plain ([], ?d) = (Inr (scan_token (u_name r) (mk_token ?p (seqno (tokens d) + 1))), ([], ?d))"
    using found_by_hash [OF inv, of "mk_token ?p (seqno (tokens d) + 1)" sha plain] by (simp add: row_simps)
  with login show ?thesis by (auto simp: scan_token_def row_simps)
qed

text \<open>C11: An account that registered can sign in. On an engine that answers: the token a registration returns resolves to
  the new account at once; and after any operations on accounts, tokens and keys, by anyone and failing anywhere, a login with the registered
  password succeeds with a token that resolves to the account, provided no token is named \<open><name>-session\<close> yet and the hash of
  the generated token is new; a password that bcrypt does not accept is answered like an unknown name.\<close>

theorem register_then_login:
  assumes "accounts_ok d" and "register_user bcrypt sha rnd u p ([], d) = (Inr (usr, tok, plain), ([], d'))"
    and "\<forall>h. bcrypt p = Some h \<longrightarrow> h \<noteq> [] \<and> check h p \<and> \<not> check h q"
    and "account_step\<^sup>*\<^sup>* d' d1"
    and "\<not> exists_where (\<lambda>t. t_name t = us_name usr @ ''-session'') (tokens d1)"
    and "generate_token_string rnd' = Some plain'"
    and "\<not> exists_where (\<lambda>t. t_hash t = hash_token sha plain') (tokens d1)"
  shows "(\<exists>a. lookup_token sha plain ([], d') = (Inr a, ([], d')) \<and> tk_name a = us_name usr \<and> tk_user a = us_name usr) \<and>
    fst (login_user check sha rnd' (us_name usr) q ([], d1)) = Inl ErrBadCredentials \<and>
    (\<exists>tok' d2 b. login_user check sha rnd' (us_name usr) p ([], d1) = (Inr (tok', plain'), ([], d2)) \<and>
      lookup_token sha plain' ([], d2) = (Inr b, ([], d2)) \<and> tk_name b = us_name usr @ ''-session'' \<and> tk_user b = us_name usr)"
proof -
  let ?n = "us_name usr"
  from register_outcome [OF assms(2)] obtain h uid e where h: "bcrypt p = Some h" "us_name usr = trim_space u"
    and 1: "insert_user ?n (Some h) d = (Inr uid, e)"
    and 2: "insert_token ?n (hash_token sha plain) (Some uid) e = (Inr (tk_id tok), d')" by auto
  define r where "r = mk_user (?n, Some h, now d) uid"
  define t where "t = mk_token (?n, hash_token sha plain, Some uid, now e) (tk_id tok)"
  have e: "users e = snd (insert_row (mk_user (?n, Some h, now d)) (users d))" and uid: "uid = seqno (users d) + 1"
    using 1 by (auto simp: insert_user_ok)
  have d': "users d' = users e" "tokens d' = snd (insert_row (mk_token (?n, hash_token sha plain, Some uid, now e)) (tokens e))"
    and tid: "tk_id tok = seqno (tokens e) + 1"
    using 2 by (auto simp: insert_token_ok)
  have r: "r \<in> set (rows (users d'))" "u_id r = uid" "u_name r = ?n" "u_password r = Some h"
    by (auto simp: r_def d' e uid row_simps)
  have t: "t \<in> set (rows (tokens d'))"
    by (simp add: t_def d' tid row_simps)
  have inv: "accounts_ok d'"
    using keepsD [OF register_inv [OF accounts_inv_refl [OF assms(1)]] assms(2)] by (simp add: accounts_inv_def)
  have "lookup_token sha plain ([], d') = (Inr (scan_token ?n t), ([], d'))"
    using found_by_hash [OF inv t, of sha plain] name_of_user [OF inv r(1)] r(2,3) by (simp add: t_def row_simps)
  then have a: "\<exists>a. lookup_token sha plain ([], d') = (Inr a, ([], d')) \<and> tk_name a = us_name usr \<and> tk_user a = us_name usr"
    by (simp add: scan_token_def t_def row_simps)
  from account_steps_inv [OF assms(4) inv] r(1) have inv1: "accounts_ok d1" and r1: "r \<in> set (rows (users d1))"
    by (auto simp: accounts_inv_def remembers_def)
  have check: "h \<noteq> []" "check h p" "\<not> check h q" using assms(3) h(1) by auto
  have bad: "fst (login_user check sha rnd' ?n q ([], d1)) = Inl ErrBadCredentials"
    using user_found [OF inv1 r1] r(3,4) check by (simp add: login_user_def)
  from login_healthy [where check = check and p = p, OF inv1 r1 r(4) check(1,2) assms(6) assms(5) [folded r(3)] assms(7)] a bad r(3) show ?thesis by simp
qed

definition demo_bcrypt :: "string \<Rightarrow> string option" where
  "demo_bcrypt p = (if length p \<le> 72 then Some (''$2a$'' @ p) else None)"

definition demo_check :: "string \<Rightarrow> string \<Rightarrow> bool" where
  "demo_check h p \<longleftrightarrow> h = ''$2a$'' @ p"

definition demo_registered :: db where
  "demo_registered = snd (snd (register_user demo_bcrypt id (Some ''r1'') '' alice '' ''correct horse'' ([], empty_db 5)))"

definition demo_touched :: db where
  "demo_touched = snd (snd (touch_token 1 ([], demo_registered)))"

theorem register_then_login_witness:
  "\<exists>tok' d''. login_user demo_check id (Some ''r2'') ''alice'' ''correct horse'' ([], demo_touched) =
     (Inr (tok', ''cf_7232''), ([], d''))"
proof -
  let ?r = "register_user demo_bcrypt id (Some ''r1'') '' alice '' ''correct horse'' ([], empty_db 5)"
  let ?u = "\<lparr>us_id = 1, us_name = ''alice'', us_created = 5\<rparr>"
  have 0: "accounts_ok (empty_db 5)" by code_simp
  have 1: "?r = (Inr (?u, new_token 1 ''alice'' 5, ''cf_7231''), ([], demo_registered))"
    by code_simp
  have 2: "\<forall>h. demo_bcrypt ''correct horse'' = Some h \<longrightarrow>
      h \<noteq> [] \<and> demo_check h ''correct horse'' \<and> \<not> demo_check h ''wrong''"
    by (simp add: demo_bcrypt_def demo_check_def)
  have "account_step demo_registered demo_touched" unfolding demo_touched_def by (rule step_touch [of 1 "[]"]) (simp add: prod_eq_iff)
  then have touched: "account_step\<^sup>*\<^sup>* demo_registered demo_touched" ..
  have 3: "\<not> exists_where (\<lambda>t. t_name t = us_name ?u @ ''-session'') (tokens demo_touched)"
    by code_simp
  have 4: "generate_token_string (Some ''r2'') = Some ''cf_7232''" by code_simp
  have 5: "\<not> exists_where (\<lambda>t. t_hash t = hash_token id ''cf_7232'') (tokens demo_touched)"
    by code_simp
  from register_then_login [OF 0 1 2 touched 3 4 5] show ?thesis by auto
qed

theorem login_works_once_witness:
  "\<exists>d1. is_ok (fst (login_user demo_check id (Some ''r2'') ''alice'' ''correct horse'' ([], demo_registered))) \<and>
     \<not> is_ok (fst (login_user demo_check id (Some ''r3'') ''alice'' ''correct horse'' ([], d1)))"
proof -
  let ?l = "login_user demo_check id (Some ''r2'') ''alice'' ''correct horse'' ([], demo_registered)"
  have ok: "accounts_ok demo_registered" by code_simp
  have eq: "?l = (Inr (new_token 2 ''alice'' 5, ''cf_7232''), ([], snd (snd ?l)))" by code_simp
  from login_works_once [OF ok eq rtranclp.rtrancl_refl, of demo_check id "Some ''r3''" "''correct horse''" "[]"]
  show ?thesis using eq by (metis is_ok.simps(2) fst_conv)
qed


end
