(* ===== verification/Repos.thy ===== *)
theory Repos imports Accounts "HOL-Library.Product_Lexorder" begin

text \<open>
  Repositories and who may use them: \<open>internal/storage/repos.go\<close> (lookups, settings, deletion with its
  cascade, the summaries of the list view) and \<open>repo_members.go\<close> (membership and the access
  predicates). \<open>strings.EqualFold\<close> is the parameter \<open>equal_fold\<close>.
\<close>

section \<open>Lookups and settings\<close>

text \<open>\<open>repos JOIN users ON users.id = repos.owner_id\<close>.\<close>

definition repo_owner :: "db \<Rightarrow> repo_row \<Rightarrow> string option" where
  "repo_owner d r = map_option u_name (select_one (\<lambda>u. u_id u = r_owner r) (users d))"

definition repo_named :: "string \<Rightarrow> string \<Rightarrow> db \<Rightarrow> repo_row option" where
  "repo_named owner name d = select_one (\<lambda>r. repo_owner d r = Some owner \<and> r_name r = name) (repos d)"

definition repo_with_owner :: "int \<Rightarrow> db \<Rightarrow> (repo_row \<times> string) option" where
  "repo_with_owner rid d = Option.bind (select_one (\<lambda>r. r_id r = rid) (repos d))
     (\<lambda>r. map_option (Pair r) (repo_owner d r))"

definition lookup_repo :: "string \<Rightarrow> string \<Rightarrow> (db, int) dbm" where
  "lookup_repo owner name = query (repo_named owner name)
     (\<lambda>r. case r of None \<Rightarrow> err ErrNotFound | Some x \<Rightarrow> ok (r_id x))"

definition repo_ident :: "int \<Rightarrow> (db, string \<times> string) dbm" where
  "repo_ident rid = query (repo_with_owner rid)
     (\<lambda>r. case r of None \<Rightarrow> err ErrNotFound | Some (x, owner) \<Rightarrow> ok (owner, r_name x))"

definition set_repo :: "int \<Rightarrow> (repo_row \<Rightarrow> repo_row) \<Rightarrow> db \<Rightarrow> (db_error + int) \<times> db" where
  "set_repo rid f d =
     (Inr (count_where (\<lambda>r. r_id r = rid) (repos d)), d\<lparr>repos := update_where (\<lambda>r. r_id r = rid) f (repos d)\<rparr>)"

definition set_repo_visibility :: "int \<Rightarrow> string \<Rightarrow> (db, unit) dbm" where
  "set_repo_visibility rid visibility =
     (if visibility \<noteq> ''public'' \<and> visibility \<noteq> ''private'' then err ErrInvalidInput
      else exec (set_repo rid (\<lambda>r. r\<lparr>r_visibility := visibility\<rparr>)) affected)"

definition repo_requires_approval :: "int \<Rightarrow> (db, bool) dbm" where
  "repo_requires_approval rid = query (\<lambda>d. select_one (\<lambda>r. r_id r = rid) (repos d))
     (\<lambda>r. case r of None \<Rightarrow> err ErrNotFound | Some x \<Rightarrow> ok (r_require_approval x))"

definition set_repo_require_approval :: "int \<Rightarrow> bool \<Rightarrow> (db, unit) dbm" where
  "set_repo_require_approval rid required = exec (set_repo rid (\<lambda>r. r\<lparr>r_require_approval := required\<rparr>)) affected"

definition repo_protected_refs :: "string \<Rightarrow> string \<Rightarrow> (db, string) dbm" where
  "repo_protected_refs owner name = query (repo_named owner name)
     (\<lambda>r. case r of None \<Rightarrow> err ErrNotFound | Some x \<Rightarrow> ok (r_protected_refs x))"

definition set_repo_protected_refs :: "int \<Rightarrow> string \<Rightarrow> (db, unit) dbm" where
  "set_repo_protected_refs rid patterns = exec (set_repo rid (\<lambda>r. r\<lparr>r_protected_refs := patterns\<rparr>)) affected"

section \<open>Deletion\<close>

text \<open>\<open>DELETE FROM repos\<close> with the schema's \<open>ON DELETE CASCADE\<close>, transitively.\<close>

definition cascade_repo :: "int \<Rightarrow> db \<Rightarrow> db" where
  "cascade_repo rid d =
     (let gone_issues = map i_id (select_where (\<lambda>i. i_repo i = rid) (issues d));
          gone_runs = map ru_id (select_where (\<lambda>r. ru_repo r = rid) (ci_runs d)) in
      d\<lparr>repos := delete_where (\<lambda>r. r_id r = rid) (repos d),
        issues := delete_where (\<lambda>i. i_repo i = rid) (issues d),
        issue_comments := delete_where (\<lambda>c. c_issue c \<in> set gone_issues) (issue_comments d),
        issue_dependencies := delete_where (\<lambda>e. d_repo e = rid) (issue_dependencies d),
        ci_runs := delete_where (\<lambda>r. ru_repo r = rid) (ci_runs d),
        ci_jobs := delete_where (\<lambda>j. j_run j \<in> set gone_runs) (ci_jobs d),
        agent_turns := delete_where (\<lambda>t. tn_run t \<in> set gone_runs) (agent_turns d),
        pull_requests := delete_where (\<lambda>p. p_repo p = rid) (pull_requests d),
        pr_reviews := delete_where (\<lambda>v. rv_repo v = rid) (pr_reviews d),
        code_comments := delete_where (\<lambda>c. cc_repo c = rid) (code_comments d),
        events := delete_where (\<lambda>e. e_repo e = Some rid) (events d),
        cron_schedules := delete_where (\<lambda>c. cr_repo c = rid) (cron_schedules d),
        repo_members := delete_where (\<lambda>m. m_repo m = rid) (repo_members d),
        spec_verifications := delete_where (\<lambda>v. v_repo v = rid) (spec_verifications d)\<rparr>)"

definition delete_repo_row :: "int \<Rightarrow> db \<Rightarrow> (db_error + int) \<times> db" where
  "delete_repo_row rid d = (Inr (count_where (\<lambda>r. r_id r = rid) (repos d)),
     if repo_exists rid d then cascade_repo rid d else d)"

definition delete_repo :: "int \<Rightarrow> (db, unit) dbm" where
  "delete_repo rid = exec (delete_repo_row rid) affected"

section \<open>Members\<close>

definition user_id_of :: "string \<Rightarrow> db \<Rightarrow> int option" where
  "user_id_of name d = map_option u_id (select_one (\<lambda>u. u_name u = name) (users d))"

definition mk_member :: "int \<times> int \<times> string \<times> int \<Rightarrow> int \<Rightarrow> member_row" where
  "mk_member p i = (case p of (repo, user, role, t) \<Rightarrow>
     \<lparr>m_id = i, m_repo = repo, m_user = user, m_role = role, m_created = t\<rparr>)"

text \<open>\<open>INSERT ... ON CONFLICT(repo_id, user_id) DO UPDATE SET role\<close>.\<close>

definition upsert_member :: "int \<Rightarrow> int \<Rightarrow> string \<Rightarrow> db \<Rightarrow> (db_error + unit) \<times> db" where
  "upsert_member rid uid role d =
     (if exists_where (\<lambda>m. m_repo m = rid \<and> m_user m = uid) (repo_members d)
      then (Inr (), d\<lparr>repo_members := update_where (\<lambda>m. m_repo m = rid \<and> m_user m = uid)
              (\<lambda>m. m\<lparr>m_role := role\<rparr>) (repo_members d)\<rparr>)
      else if \<not> repo_exists rid d then (Inl ErrForeignKey, d)
      else (Inr (), d\<lparr>repo_members := snd (insert_row (mk_member (rid, uid, role, now d)) (repo_members d))\<rparr>))"

definition add_repo_member :: "int \<Rightarrow> string \<Rightarrow> string \<Rightarrow> (db, unit) dbm" where
  "add_repo_member rid username role =
     (if role \<noteq> ''read'' \<and> role \<noteq> ''write'' then err ErrInvalidInput
      else query (user_id_of username) (\<lambda>u. case u of
          None \<Rightarrow> err ErrNotFound
        | Some uid \<Rightarrow> exec (upsert_member rid uid role) ok))"

definition delete_member :: "int \<Rightarrow> string \<Rightarrow> db \<Rightarrow> (db_error + int) \<times> db" where
  "delete_member rid username d =
     (let P = (\<lambda>m. m_repo m = rid \<and> Some (m_user m) = user_id_of username d) in
      (Inr (count_where P (repo_members d)), d\<lparr>repo_members := delete_where P (repo_members d)\<rparr>))"

definition remove_repo_member :: "int \<Rightarrow> string \<Rightarrow> (db, unit) dbm" where
  "remove_repo_member rid username = exec (delete_member rid username) affected"

definition member_name :: "db \<Rightarrow> member_row \<Rightarrow> string option" where
  "member_name d m = map_option u_name (select_one (\<lambda>u. u_id u = m_user m) (users d))"

record repo_member =
  rm_username :: string
  rm_role :: string
  rm_joined :: int

definition list_repo_members :: "int \<Rightarrow> (db, repo_member list) dbm" where
  "list_repo_members rid =
     query (\<lambda>d. List.map_filter (\<lambda>m. map_option (\<lambda>n. \<lparr>rm_username = n, rm_role = m_role m, rm_joined = m_created m\<rparr>) (member_name d m))
              (sort_key m_created (select_where (\<lambda>m. m_repo m = rid) (repo_members d)))) ok"

definition count_members :: "(member_row \<Rightarrow> bool) \<Rightarrow> int \<Rightarrow> string \<Rightarrow> db \<Rightarrow> int" where
  "count_members P rid name d =
     count_where (\<lambda>m. m_repo m = rid \<and> member_name d m = Some name \<and> P m) (repo_members d)"

definition can_access_repo :: "int \<Rightarrow> string \<Rightarrow> (db, bool) dbm" where
  "can_access_repo rid caller = query (repo_with_owner rid) (\<lambda>r. case r of
       None \<Rightarrow> err ErrNotFound
     | Some (x, owner) \<Rightarrow>
         if r_visibility x = ''public'' then ok True
         else if owner = caller then ok True
         else query (count_members (\<lambda>m. True) rid caller) (\<lambda>n. ok (0 < n)))"

definition can_write_repo :: "int \<Rightarrow> string \<Rightarrow> (db, bool) dbm" where
  "can_write_repo rid caller = query (repo_with_owner rid) (\<lambda>r. case r of
       None \<Rightarrow> err ErrNotFound
     | Some (x, owner) \<Rightarrow>
         if owner = caller then ok True
         else query (count_members (\<lambda>m. m_role m = ''write'') rid caller) (\<lambda>n. ok (0 < n)))"

definition is_repo_owner :: "(string \<Rightarrow> string \<Rightarrow> bool) \<Rightarrow> int \<Rightarrow> string \<Rightarrow> (db, bool) dbm" where
  "is_repo_owner equal_fold rid caller = query (repo_with_owner rid) (\<lambda>r. case r of
       None \<Rightarrow> err ErrNotFound | Some (x, owner) \<Rightarrow> ok (equal_fold owner caller))"

definition repo_is_private :: "int \<Rightarrow> (db, bool) dbm" where
  "repo_is_private rid = query (\<lambda>d. select_one (\<lambda>r. r_id r = rid) (repos d))
     (\<lambda>r. case r of None \<Rightarrow> err ErrNotFound | Some x \<Rightarrow> ok (r_visibility x = ''private''))"

section \<open>Summaries\<close>

record repo_summary =
  rs_id :: int
  rs_owner :: string
  rs_name :: string
  rs_created :: int
  rs_open_issues :: int
  rs_total_issues :: int
  rs_ci_enabled :: bool
  rs_require_approval :: bool
  rs_protected_refs :: string
  rs_visibility :: string
  rs_ci_status :: "run_status option"
  rs_ci_number :: int
  rs_open_pulls :: int
  rs_open_reviews :: int
  rs_active_agents :: int

text \<open>The newest CI run of a repository: \<open>ORDER BY number DESC LIMIT 1\<close>.\<close>

definition latest_ci_run :: "int \<Rightarrow> db \<Rightarrow> run_row option" where
  "latest_ci_run rid d =
     (case rev (sort_key ru_number (select_where (\<lambda>r. ru_repo r = rid \<and> ru_kind r = RunKindCI) (ci_runs d))) of
        [] \<Rightarrow> None | r # _ \<Rightarrow> Some r)"

definition summary_of :: "db \<Rightarrow> repo_row \<times> string \<Rightarrow> repo_summary" where
  "summary_of d p = (case p of (r, owner) \<Rightarrow>
     \<lparr>rs_id = r_id r, rs_owner = owner, rs_name = r_name r, rs_created = r_created r,
      rs_open_issues = count_where (\<lambda>i. i_repo i = r_id r \<and> i_state i \<in> {IssueTodo, IssueInProgress}) (issues d),
      rs_total_issues = count_where (\<lambda>i. i_repo i = r_id r) (issues d),
      rs_ci_enabled = r_ci_enabled r, rs_require_approval = r_require_approval r,
      rs_protected_refs = r_protected_refs r, rs_visibility = r_visibility r,
      rs_ci_status = map_option ru_status (latest_ci_run (r_id r) d),
      rs_ci_number = (case latest_ci_run (r_id r) d of None \<Rightarrow> 0 | Some x \<Rightarrow> ru_number x),
      rs_open_pulls = count_where (\<lambda>x. p_repo x = r_id r \<and> p_state x = PROpen) (pull_requests d),
      rs_open_reviews = count_where (\<lambda>c. cc_repo c = r_id r \<and> \<not> cc_resolved c) (code_comments d),
      rs_active_agents = count_where (\<lambda>x. ru_repo x = r_id r \<and> ru_kind x = RunKindAgent \<and>
        ru_status x \<in> {RunQueued, RunRunning, RunAwaitingInput, RunFinishing}) (ci_runs d)\<rparr>)"

definition joined_repos :: "db \<Rightarrow> (repo_row \<times> string) list" where
  "joined_repos d = List.map_filter (\<lambda>r. map_option (Pair r) (repo_owner d r)) (rows (repos d))"

definition list_repos :: "(db, repo_summary list) dbm" where
  "list_repos = query (\<lambda>d. map (summary_of d) (sort_key (\<lambda>(r, owner). (owner, r_name r)) (joined_repos d))) ok"

definition get_repo_summary :: "string \<Rightarrow> string \<Rightarrow> (db, repo_summary) dbm" where
  "get_repo_summary owner name =
     query (\<lambda>d. map_option (\<lambda>r. summary_of d (r, owner)) (repo_named owner name d))
       (\<lambda>r. case r of None \<Rightarrow> err ErrNotFound | Some s \<Rightarrow> ok s)"

definition visible_to :: "db \<Rightarrow> string \<Rightarrow> repo_row \<times> string \<Rightarrow> bool" where
  "visible_to d caller p = (case p of (r, owner) \<Rightarrow>
     r_visibility r = ''public'' \<or> owner = caller \<or>
     exists_where (\<lambda>m. m_repo m = r_id r \<and> member_name d m = Some caller) (repo_members d))"

definition list_repos_for_caller :: "string \<Rightarrow> (db, repo_summary list) dbm" where
  "list_repos_for_caller caller =
     query (\<lambda>d. map (summary_of d) (sort_key (\<lambda>(r, owner). (owner, r_name r))
              (filter (visible_to d caller) (joined_repos d)))) ok"

section \<open>The list view agrees with the access predicate\<close>

definition repos_ok :: "db \<Rightarrow> bool" where
  "repos_ok d \<longleftrightarrow> accounts_ok d \<and> keyed_ok r_id (\<lambda>r. (r_owner r, r_name r)) (repos d) \<and>
     (\<forall>r \<in> set (rows (repos d)). exists_where (\<lambda>u. u_id u = r_owner r) (users d))"

lemma repo_owner_Some:
  assumes "repos_ok d" and "r \<in> set (rows (repos d))"
  obtains u where "u \<in> set (rows (users d))" "u_id u = r_owner r" "repo_owner d r = Some (u_name u)"
proof -
  from assms obtain u where u: "u \<in> set (rows (users d))" "u_id u = r_owner r"
    by (auto simp: repos_ok_def exists_where_iff)
  with assms(1) select_one_id [of u_id "users d" u] have "repo_owner d r = Some (u_name u)"
    by (simp add: repo_owner_def repos_ok_def accounts_ok_def keyed_ok_def)
  with u that show thesis by blast
qed

lemma repo_by_id:
  assumes "repos_ok d" and "r \<in> set (rows (repos d))"
  shows "select_one (\<lambda>x. r_id x = r_id r) (repos d) = Some r"
  using assms select_one_id [of r_id "repos d" r] by (simp add: repos_ok_def keyed_ok_def)

lemma repo_with_owner_iff:
  assumes "repos_ok d"
  shows "repo_with_owner rid d = Some (r, owner) \<longleftrightarrow>
    r \<in> set (rows (repos d)) \<and> r_id r = rid \<and> repo_owner d r = Some owner"
  using repo_by_id [OF assms, of r]
  by (auto simp: repo_with_owner_def bind_eq_Some_conv dest: select_one_SomeD)

lemma joined_repos_iff:
  "(r, owner) \<in> set (joined_repos d) \<longleftrightarrow> r \<in> set (rows (repos d)) \<and> repo_owner d r = Some owner"
  by (force simp: joined_repos_def List.map_filter_def)

lemma can_access_iff:
  assumes "repos_ok d"
  shows "fst (can_access_repo rid caller ([], d)) = Inr True \<longleftrightarrow>
    (\<exists>r owner. (r, owner) \<in> set (joined_repos d) \<and> r_id r = rid \<and> visible_to d caller (r, owner))"
proof (cases "repo_with_owner rid d")
  case None
  then show ?thesis
    using repo_with_owner_iff [OF assms, of rid] by (auto simp: can_access_repo_def joined_repos_iff)
next
  case (Some p)
  obtain r owner where p: "p = (r, owner)" by fastforce
  have r: "r \<in> set (rows (repos d)) \<and> r_id r = rid \<and> repo_owner d r = Some owner"
    using Some repo_with_owner_iff [OF assms] p by simp
  have uniq: "(x, o') \<in> set (joined_repos d) \<and> r_id x = rid \<longleftrightarrow> x = r \<and> o' = owner" for x o'
    using r repo_with_owner_iff [OF assms, of rid x o'] Some p by (auto simp: joined_repos_iff)
  have count: "0 < count_members (\<lambda>m. True) rid caller d \<longleftrightarrow>
      exists_where (\<lambda>m. m_repo m = rid \<and> member_name d m = Some caller) (repo_members d)"
    by (simp add: count_members_def count_where_def exists_where_iff filter_empty_conv)
  have "(\<exists>x o'. (x, o') \<in> set (joined_repos d) \<and> r_id x = rid \<and> visible_to d caller (x, o')) \<longleftrightarrow>
      visible_to d caller (r, owner)"
    by (simp only: conj_assoc [symmetric] uniq) auto
  moreover have "r_id r = rid" using r by blast
  then have "fst (can_access_repo rid caller ([], d)) = Inr True \<longleftrightarrow> visible_to d caller (r, owner)"
    by (simp add: can_access_repo_def Some p visible_to_def count)
  ultimately show ?thesis by (simp only:)
qed

lemma sorted_filter_ids:
  assumes "repos_ok d"
  shows "distinct (map (\<lambda>p. r_id (fst p)) (joined_repos d))"
proof -
  have "map (\<lambda>p. r_id (fst p)) (joined_repos d) = map r_id (filter (\<lambda>r. repo_owner d r \<noteq> None) (rows (repos d)))"
    by (simp add: joined_repos_def List.map_filter_def comp_def)
       (auto simp: map_eq_conv)
  with assms show ?thesis
    by (auto simp: repos_ok_def keyed_ok_def intro: distinct_map_filterI ids_ok_distinct)
qed

text \<open>C14: The repositories a caller is shown are exactly those it may read: the listing answers with one
  summary per repository for which CanAccessRepo says yes, sorted by owner and name, so a private
  repository appears only to its owner and its members.\<close>

theorem listed_iff_readable:
  assumes "repos_ok d"
  shows "\<exists>ss. list_repos_for_caller caller ([], d) = (Inr ss, ([], d)) \<and>
    distinct (map rs_id ss) \<and> sorted (map (\<lambda>s. (rs_owner s, rs_name s)) ss) \<and>
    (\<forall>rid. rid \<in> rs_id ` set ss \<longleftrightarrow> fst (can_access_repo rid caller ([], d)) = Inr True)"
proof -
  let ?key = "\<lambda>(r, owner). (owner, r_name r)"
  let ?xs = "sort_key ?key (filter (visible_to d caller) (joined_repos d))"
  have sel: "rs_id (summary_of d p) = r_id (fst p)" "(rs_owner (summary_of d p), rs_name (summary_of d p)) = ?key p" for p
    by (auto simp: summary_of_def split: prod.splits)
  have "distinct (map (\<lambda>p. r_id (fst p)) (filter (visible_to d caller) (joined_repos d)))"
    by (rule distinct_map_filterI [OF sorted_filter_ids [OF assms]])
  then have "distinct (map (\<lambda>p. r_id (fst p)) ?xs)"
    by (simp add: distinct_map)
  moreover have "sorted (map ?key ?xs)" by simp
  moreover have "rid \<in> (\<lambda>p. r_id (fst p)) ` set ?xs \<longleftrightarrow> fst (can_access_repo rid caller ([], d)) = Inr True" for rid
    unfolding can_access_iff [OF assms] by force
  ultimately show ?thesis
    by (intro exI [of _ "map (summary_of d) ?xs"])
       (simp add: list_repos_for_caller_def comp_def sel image_image del: sorted_sort_key)
qed

definition demo_repos :: db where
  "demo_repos = after (ensure_repo ''bob'' ''lib'') (after (add_repo_member 1 ''bob'' ''read'')
     (after (ensure_user ''carol'') (after (ensure_user ''bob'')
     (after (set_repo_visibility 1 ''private'') (after (ensure_repo ''alice'' ''web'') (empty_db 5))))))"

lemma demo_repos_ok: "repos_ok demo_repos"
  by code_simp

theorem listed_iff_readable_witness:
  "\<exists>ss ts. list_repos_for_caller ''bob'' ([], demo_repos) = (Inr ss, ([], demo_repos)) \<and> 1 \<in> rs_id ` set ss \<and>
     list_repos_for_caller ''carol'' ([], demo_repos) = (Inr ts, ([], demo_repos)) \<and> 1 \<notin> rs_id ` set ts"
proof -
  have 1: "fst (can_access_repo 1 ''bob'' ([], demo_repos)) = Inr True" by code_simp
  have 2: "fst (can_access_repo 1 ''carol'' ([], demo_repos)) \<noteq> Inr True" by code_simp
  from listed_iff_readable [OF demo_repos_ok, of "''bob''"] obtain ss
    where "list_repos_for_caller ''bob'' ([], demo_repos) = (Inr ss, ([], demo_repos))" "1 \<in> rs_id ` set ss"
    using 1 by blast
  moreover from listed_iff_readable [OF demo_repos_ok, of "''carol''"] obtain ts
    where "list_repos_for_caller ''carol'' ([], demo_repos) = (Inr ts, ([], demo_repos))" "1 \<notin> rs_id ` set ts"
    using 2 by blast
  ultimately show ?thesis by blast
qed

end
