(* ===== verification/Access.thy ===== *)
theory Access imports Repos begin

text \<open>
  Who may do what over which transport: the bearer check of \<open>internal/server/auth.go\<close>, the two gates of
  \<open>access.go\<close> (the API and git over HTTP), the member endpoints of \<open>members.go\<close>, and git over SSH
  (\<open>ssh.go\<close>, \<open>git.go\<close>). A request carries what the code reads of it: \<open>Authorization\<close> is the raw
  header, \<open>rq_basic\<close> what \<open>BasicAuth()\<close> decodes of it. A gate either answers or passes the request on.
\<close>

section \<open>Requests and answers\<close>

record request =
  rq_method :: string
  rq_path :: string
  rq_authorization :: string
  rq_basic :: "(string \<times> string) option"
  rq_service :: string

datatype 'a gate = Reply int string | Next 'a

definition internal_error :: "'a gate" where
  "internal_error = Reply 500 ''internal error''"

definition bearer_token :: "request \<Rightarrow> string + string" where
  "bearer_token req =
     (let h = rq_authorization req; raw = trim_space (trim_prefix h ''Bearer '') in
      if h = [] then Inl ''missing Authorization header''
      else if \<not> has_prefix h ''Bearer '' then Inl ''Authorization header must use Bearer scheme''
      else if raw = [] then Inl ''empty bearer token''
      else Inr raw)"

definition token_touch_interval :: int where
  "token_touch_interval = 300"

text \<open>\<open>withAuth\<close>: the token of the request, its use recorded at most every five minutes.\<close>

definition with_auth :: "(string \<Rightarrow> string) \<Rightarrow> request \<Rightarrow> (db, api_token gate) dbm" where
  "with_auth sha req = (case bearer_token req of
       Inl e \<Rightarrow> ok (Reply 401 e)
     | Inr raw \<Rightarrow> attempt (lookup_token sha raw) (\<lambda>r. case r of
           Inl e \<Rightarrow> ok (if e = ErrNotFound then Reply 401 ''invalid token'' else internal_error)
         | Inr tok \<Rightarrow> time_now (\<lambda>t.
             if (case tk_last_used tok of None \<Rightarrow> True | Some u \<Rightarrow> token_touch_interval \<le> t - u)
             then bind (touch_token (tk_id tok)) (\<lambda>_. ok (Next tok)) else ok (Next tok))))"

definition token_account :: "api_token \<Rightarrow> string" where
  "token_account t = (if tk_user t \<noteq> [] then tk_user t else tk_name t)"

text \<open>The account an access check is about, and the name writes are attributed to.\<close>

definition principal_from_context :: "api_token option \<Rightarrow> string" where
  "principal_from_context tok = (case tok of None \<Rightarrow> '''' | Some t \<Rightarrow> token_account t)"

definition identity_from_context :: "api_token option \<Rightarrow> string" where
  "identity_from_context tok = (case tok of None \<Rightarrow> ''anonymous'' | Some t \<Rightarrow> tk_name t)"

section \<open>The gates\<close>

definition slash :: char where
  "slash = CHR ''/''"

text \<open>\<open>strings.SplitN(rest, "/", 3)\<close>, of which the first two parts are used.\<close>

definition repo_from_path :: "string \<Rightarrow> string \<Rightarrow> (string \<times> string) option" where
  "repo_from_path path prefix =
     (case split_on slash (trim_prefix (trim_prefix path prefix) ''/'') of
        owner # repo # _ \<Rightarrow> if owner = [] \<or> repo = [] then None else Some (owner, trim_suffix repo ''.git'')
      | _ \<Rightarrow> None)"

definition is_read_method :: "string \<Rightarrow> bool" where
  "is_read_method m \<longleftrightarrow> m = ''GET'' \<or> m = ''HEAD'' \<or> m = ''OPTIONS''"

definition not_registered :: "string \<Rightarrow> string \<Rightarrow> string" where
  "not_registered owner repo = ''repo not registered: '' @ owner @ ''/'' @ repo"

definition write_required :: "string \<Rightarrow> string \<Rightarrow> string" where
  "write_required owner repo = ''write access required for '' @ owner @ ''/'' @ repo"

definition with_repo_access :: "request \<Rightarrow> api_token option \<Rightarrow> (db, unit gate) dbm" where
  "with_repo_access req tok =
     (case repo_from_path (rq_path req) ''/api/repos'' of
        None \<Rightarrow> ok (Next ())
      | Some (owner, repo) \<Rightarrow> attempt (lookup_repo owner repo) (\<lambda>r. case r of
            Inl e \<Rightarrow> ok (if e = ErrNotFound then Next () else internal_error)
          | Inr rid \<Rightarrow>
              (let caller = principal_from_context tok in
               attempt (can_access_repo rid caller) (\<lambda>a. case a of
                   Inl e \<Rightarrow> ok internal_error
                 | Inr allowed \<Rightarrow>
                     if \<not> allowed then ok (Reply 404 (not_registered owner repo))
                     else if is_read_method (rq_method req) then ok (Next ())
                     else attempt (can_write_repo rid caller) (\<lambda>w. case w of
                         Inl e \<Rightarrow> ok internal_error
                       | Inr can_write \<Rightarrow>
                           ok (if can_write then Next () else Reply 403 (write_required owner repo)))))))"

definition git_identity :: "(string \<Rightarrow> string) \<Rightarrow> request \<Rightarrow> (db, string option) dbm" where
  "git_identity sha req =
     (case (case bearer_token req of Inr raw \<Rightarrow> Some raw | Inl _ \<Rightarrow> map_option snd (rq_basic req)) of
        None \<Rightarrow> ok None
      | Some raw \<Rightarrow> if raw = [] then ok None
          else attempt (lookup_token sha raw) (\<lambda>r. case r of
              Inl e \<Rightarrow> ok None | Inr tok \<Rightarrow> ok (Some (token_account tok))))"

definition is_git_write :: "request \<Rightarrow> bool" where
  "is_git_write req \<longleftrightarrow> has_suffix (rq_path req) ''/git-receive-pack'' \<or>
     has_suffix (rq_path req) ''/info/refs'' \<and> rq_service req = ''git-receive-pack''"

definition with_git_repo_access :: "(string \<Rightarrow> string) \<Rightarrow> request \<Rightarrow> (db, unit gate) dbm" where
  "with_git_repo_access sha req =
     (case repo_from_path (rq_path req) '''' of
        None \<Rightarrow> ok (Next ())
      | Some (owner, repo) \<Rightarrow> attempt (lookup_repo owner repo) (\<lambda>r. case r of
            Inl e \<Rightarrow> ok (if e = ErrNotFound then Next () else internal_error)
          | Inr rid \<Rightarrow> attempt (repo_is_private rid) (\<lambda>p. case p of
                Inl e \<Rightarrow> ok internal_error
              | Inr private \<Rightarrow>
                  if \<not> private then ok (Next ())
                  else bind (git_identity sha req) (\<lambda>caller. case caller of
                      None \<Rightarrow> ok (Reply 401 ''authentication required'')
                    | Some caller \<Rightarrow> attempt (can_access_repo rid caller) (\<lambda>a. case a of
                          Inl e \<Rightarrow> ok internal_error
                        | Inr allowed \<Rightarrow>
                            if \<not> allowed then ok (Reply 404 ''404 page not found'')
                            else if \<not> is_git_write req then ok (Next ())
                            else attempt (can_write_repo rid caller) (\<lambda>w. case w of
                                Inl e \<Rightarrow> ok internal_error
                              | Inr can_write \<Rightarrow>
                                  ok (if can_write then Next () else Reply 403 (write_required owner repo))))))))"

section \<open>Members\<close>

definition handle_list_members :: "string \<Rightarrow> string \<Rightarrow> (db, repo_member list gate) dbm" where
  "handle_list_members owner repo =
     (let repo = trim_suffix repo ''.git'' in
      attempt (lookup_repo owner repo) (\<lambda>r. case r of
          Inl e \<Rightarrow> ok (if e = ErrNotFound then Reply 404 (not_registered owner repo) else internal_error)
        | Inr rid \<Rightarrow> attempt (list_repo_members rid) (\<lambda>m. case m of
              Inl e \<Rightarrow> ok internal_error | Inr ms \<Rightarrow> ok (Next ms))))"

text \<open>\<open>Next ()\<close> is 204. The JSON of the request, when it is a value, is the pair of user name and role.\<close>

definition handle_add_member ::
  "(string \<Rightarrow> string \<Rightarrow> bool) \<Rightarrow> string \<Rightarrow> string \<Rightarrow> api_token option \<Rightarrow> (string \<times> string) option \<Rightarrow> (db, unit gate) dbm" where
  "handle_add_member equal_fold owner repo tok body =
     (let repo = trim_suffix repo ''.git''; caller = identity_from_context tok in
      attempt (lookup_repo owner repo) (\<lambda>r. case r of
          Inl e \<Rightarrow> ok (if e = ErrNotFound then Reply 404 (not_registered owner repo) else internal_error)
        | Inr rid \<Rightarrow> attempt (is_repo_owner equal_fold rid caller) (\<lambda>o'. case o' of
              Inl e \<Rightarrow> ok internal_error
            | Inr is_owner \<Rightarrow>
                if \<not> is_owner then ok (Reply 403 ''only the repo owner can manage members'')
                else (case body of
                    None \<Rightarrow> ok (Reply 400 ''invalid JSON'')
                  | Some (username, role) \<Rightarrow>
                      attempt (add_repo_member rid username (if role = [] then ''write'' else role)) (\<lambda>a. ok (case a of
                          Inr _ \<Rightarrow> Next ()
                        | Inl e \<Rightarrow> if e = ErrNotFound then Reply 404 (''user not found: '' @ username)
                            else if e = ErrInvalidInput then Reply 400 (''role must be '' @ CHR 0x27 # ''read'' @ CHR 0x27 # '' or '' @ CHR 0x27 # ''write'' @ [CHR 0x27])
                            else internal_error))))))"

definition handle_remove_member ::
  "(string \<Rightarrow> string \<Rightarrow> bool) \<Rightarrow> string \<Rightarrow> string \<Rightarrow> api_token option \<Rightarrow> string \<Rightarrow> (db, unit gate) dbm" where
  "handle_remove_member equal_fold owner repo tok target =
     (let repo = trim_suffix repo ''.git''; caller = identity_from_context tok in
      attempt (lookup_repo owner repo) (\<lambda>r. case r of
          Inl e \<Rightarrow> ok (if e = ErrNotFound then Reply 404 (not_registered owner repo) else internal_error)
        | Inr rid \<Rightarrow> attempt (is_repo_owner equal_fold rid caller) (\<lambda>o'. case o' of
              Inl e \<Rightarrow> ok internal_error
            | Inr is_owner \<Rightarrow>
                if \<not> is_owner then ok (Reply 403 ''only the repo owner can manage members'')
                else attempt (remove_repo_member rid target) (\<lambda>a. ok (case a of
                    Inr _ \<Rightarrow> Next ()
                  | Inl e \<Rightarrow> if e = ErrNotFound then Reply 404 (target @ '' is not a member of this repo'') else internal_error)))))"


section \<open>Git over HTTP and SSH\<close>

record server_config =
  repos_dir :: string
  ci_url :: string
  ci_secret :: string

text \<open>\<open>cmd.Run()\<close>: the git service, the bare repository it runs on (the components \<open>filepath.Join\<close> is
  given) and what is added to its environment; or the refusal, with the status of the answer.\<close>

datatype git_run = Refused int string | RunGit string "string list" "string list"

definition valid_services :: "string list" where
  "valid_services = [''git-upload-pack'', ''git-receive-pack'']"

definition contains_slash :: "string \<Rightarrow> bool" where
  "contains_slash s \<longleftrightarrow> list_ex (\<lambda>c. c = slash \<or> c = CHR 0x5C) s"

definition repo_path :: "string \<Rightarrow> string \<Rightarrow> string \<Rightarrow> string + string list" where
  "repo_path dir owner repo =
     (if owner = [] \<or> repo = [] then Inl ''missing owner or repo''
      else if contains_slash owner \<or> contains_slash repo then Inl ''invalid owner or repo''
      else if owner = ''..'' \<or> repo = ''..'' \<or> has_prefix owner ''.'' \<or> has_prefix repo ''.'' then Inl ''invalid owner or repo''
      else (let repo = (if has_suffix repo ''.git'' then repo else repo @ ''.git'') in
        if has_prefix (join [slash] [owner, repo]) ''..'' then Inl ''path escapes repos dir''
        else Inr [dir, owner, repo]))"

definition push_refused :: string where
  "push_refused = ''cannot verify this repo'' @ CHR 0x27 # ''s branch protection; push refused''"

definition push_env :: "server_config \<Rightarrow> string \<Rightarrow> string \<Rightarrow> string \<Rightarrow> (db, string list) dbm" where
  "push_env cfg owner name pusher = attempt (repo_protected_refs owner name) (\<lambda>r.
     let env = (\<lambda>patterns. [''CODEFORT_CI_URL='' @ ci_url cfg, ''CODEFORT_CI_SECRET='' @ ci_secret cfg,
       ''CODEFORT_CI_REPO='' @ owner @ ''/'' @ name, ''CODEFORT_CI_PUSHER='' @ pusher,
       ''CODEFORT_PROTECTED_REFS='' @ patterns]) in
     (case r of Inr patterns \<Rightarrow> ok (env patterns) | Inl e \<Rightarrow> if e = ErrNotFound then ok (env '''') else err e))"

definition handle_info_refs :: "server_config \<Rightarrow> (string list \<Rightarrow> bool) \<Rightarrow> string \<Rightarrow> string \<Rightarrow> request \<Rightarrow> git_run" where
  "handle_info_refs cfg exists owner repo req =
     (let service = rq_service req in
      if service \<notin> set valid_services then Refused 403 ''service not supported''
      else (case repo_path (repos_dir cfg) owner repo of
          Inl e \<Rightarrow> Refused 400 e
        | Inr dir \<Rightarrow> if \<not> exists dir then Refused 404 ''404 page not found''
            else RunGit (trim_prefix service ''git-'') dir []))"

text \<open>\<open>type_of\<close> is the Content-Type of the request, \<open>readable\<close> whether \<open>decodeBody\<close> accepts its encoding.\<close>

definition handle_service_rpc ::
  "server_config \<Rightarrow> (string list \<Rightarrow> bool) \<Rightarrow> string \<Rightarrow> string \<Rightarrow> bool \<Rightarrow> string \<Rightarrow> string \<Rightarrow> request \<Rightarrow> (db, git_run) dbm" where
  "handle_service_rpc cfg exists service type_of readable owner repo req =
     (if type_of \<noteq> ''application/x-'' @ service @ ''-request'' then ok (Refused 415 ''unexpected content-type'')
      else (case repo_path (repos_dir cfg) owner repo of
          Inl e \<Rightarrow> ok (Refused 400 e)
        | Inr dir \<Rightarrow>
            if \<not> exists dir then ok (Refused 404 ''404 page not found'')
            else if \<not> readable then ok (Refused 400 ''gzip: invalid header'')
            else if service = ''git-receive-pack'' then
              (let pusher = (case rq_basic req of None \<Rightarrow> '''' | Some (u, _) \<Rightarrow> u) in
               attempt (push_env cfg owner (trim_suffix repo ''.git'') pusher) (\<lambda>r. ok (case r of
                   Inl e \<Rightarrow> Refused 500 push_refused
                 | Inr env \<Rightarrow> RunGit (trim_prefix service ''git-'') dir env)))
            else ok (RunGit (trim_prefix service ''git-'') dir [])))"

text \<open>\<open>strings.Cut\<close> at a byte, and \<open>strings.Trim(path, "'\"")\<close>.\<close>

definition cut_at :: "char \<Rightarrow> string \<Rightarrow> (string \<times> string) option" where
  "cut_at c s = (case dropWhile (\<lambda>x. x \<noteq> c) s of [] \<Rightarrow> None | _ # rest \<Rightarrow> Some (takeWhile (\<lambda>x. x \<noteq> c) s, rest))"

definition trim_quotes :: "string \<Rightarrow> string" where
  "trim_quotes s = (let q = (\<lambda>c. c = CHR 0x27 \<or> c = CHR 0x22) in rev (dropWhile q (rev (dropWhile q s))))"

definition parse_git_ssh_command :: "string \<Rightarrow> string + string \<times> string \<times> string" where
  "parse_git_ssh_command command =
     (case cut_at CHR '' '' (trim_space command) of
        None \<Rightarrow> Inl ''unsupported command''
      | Some (verb, rest) \<Rightarrow>
          if verb \<notin> set valid_services then Inl ''unsupported command''
          else (case cut_at slash (trim_prefix (trim_quotes (trim_space rest)) ''/'') of
              None \<Rightarrow> Inl ''malformed repository path''
            | Some (o', r) \<Rightarrow>
                if o' = [] \<or> r = [] \<or> slash \<in> set r then Inl ''malformed repository path'' else Inr (verb, o', r)))"

text \<open>The public key callback: the identity of the connection is the name of the key's token.\<close>

definition ssh_authenticate :: "string \<Rightarrow> (db, string) dbm" where
  "ssh_authenticate fingerprint =
     bind (lookup_token_by_ssh_key fingerprint) (\<lambda>tok. bind (touch_ssh_key fingerprint) (\<lambda>_. ok (tk_name tok)))"

definition run_git_over_ssh :: "server_config \<Rightarrow> (string list \<Rightarrow> bool) \<Rightarrow> string \<Rightarrow> string \<Rightarrow> (db, git_run) dbm" where
  "run_git_over_ssh cfg exists command identity =
     (case parse_git_ssh_command command of
        Inl e \<Rightarrow> ok (Refused 1 e)
      | Inr (service, owner, repo) \<Rightarrow>
          (case repo_path (repos_dir cfg) owner repo of
             Inl e \<Rightarrow> ok (Refused 1 e)
           | Inr dir \<Rightarrow>
               if \<not> exists dir then ok (Refused 1 ''repository not found'')
               else if service = ''git-receive-pack'' then
                 attempt (push_env cfg owner (trim_suffix repo ''.git'') identity) (\<lambda>r. ok (case r of
                     Inl e \<Rightarrow> Refused 1 push_refused
                   | Inr env \<Rightarrow> RunGit (trim_prefix service ''git-'') dir env))
               else ok (RunGit (trim_prefix service ''git-'') dir [])))"

section \<open>The gates enforce one policy\<close>

text \<open>What a caller may do with a repository: nothing, read, or write.\<close>

datatype access_level = NoAccess | ReadAccess | WriteAccess

definition access_level :: "db \<Rightarrow> repo_row \<Rightarrow> string \<Rightarrow> access_level" where
  "access_level d r caller =
     (if repo_owner d r = Some caller \<or>
         exists_where (\<lambda>m. m_repo m = r_id r \<and> member_name d m = Some caller \<and> m_role m = ''write'') (repo_members d)
      then WriteAccess
      else if r_visibility r = ''public'' \<or>
         exists_where (\<lambda>m. m_repo m = r_id r \<and> member_name d m = Some caller) (repo_members d)
      then ReadAccess else NoAccess)"

lemma count_members_pos:
  "0 < count_members P rid caller d \<longleftrightarrow>
    exists_where (\<lambda>m. m_repo m = rid \<and> member_name d m = Some caller \<and> P m) (repo_members d)"
  by (auto simp: count_members_def count_where_def exists_where_iff filter_empty_conv)

lemma named_with_owner:
  assumes "repos_ok d" and "repo_named owner repo d = Some r"
  shows "repo_with_owner (r_id r) d = Some (r, owner)" and "repo_owner d r = Some owner"
    and "select_one (\<lambda>x. r_id x = r_id r) (repos d) = Some r"
  using select_one_SomeD [OF assms(2) [unfolded repo_named_def]] repo_with_owner_iff [OF assms(1), of "r_id r" r owner]
    repo_by_id [OF assms(1)] by auto

lemma can_access_level:
  assumes "repos_ok d" and "repo_named owner repo d = Some r"
  shows "can_access_repo (r_id r) caller ([], d) = (Inr (access_level d r caller \<noteq> NoAccess), ([], d))"
    and "can_write_repo (r_id r) caller ([], d) = (Inr (access_level d r caller = WriteAccess), ([], d))"
  using named_with_owner [OF assms]
  by (auto simp: can_access_repo_def can_write_repo_def access_level_def count_members_pos exists_where_iff)

text \<open>C15: The API gate enforces the policy: a request that names a registered repository reaches its handler
  exactly when the account behind the token may read it, and write it unless the method only reads;
  a caller without access is answered as if the repository were not there, one with read access
  only is told that it needs write access. Nothing changes in the database.\<close>

theorem api_gate_enforces_policy:
  assumes "repos_ok d" and "repo_from_path (rq_path req) ''/api/repos'' = Some (owner, repo)"
    and "repo_named owner repo d = Some r"
  shows "with_repo_access req tok ([], d) =
    (Inr (case access_level d r (principal_from_context tok) of
        NoAccess \<Rightarrow> Reply 404 (not_registered owner repo)
      | ReadAccess \<Rightarrow> if is_read_method (rq_method req) then Next () else Reply 403 (write_required owner repo)
      | WriteAccess \<Rightarrow> Next ()), ([], d))"
  using can_access_level [OF assms(1,3)] assms(2,3)
  by (cases "access_level d r (principal_from_context tok)")
     (simp_all add: with_repo_access_def attempt_def lookup_repo_def Let_def)

definition api_request :: "string \<Rightarrow> string \<Rightarrow> request" where
  "api_request m path = \<lparr>rq_method = m, rq_path = path, rq_authorization = '''', rq_basic = None, rq_service = ''''\<rparr>"

theorem api_gate_enforces_policy_witness:
  "with_repo_access (api_request ''GET'' ''/api/repos/alice/web/members'') (Some (new_token 7 ''carol'' 5)) ([], demo_repos) =
     (Inr (Reply 404 (not_registered ''alice'' ''web'')), ([], demo_repos)) \<and>
   with_repo_access (api_request ''POST'' ''/api/repos/alice/web/issues'') (Some (new_token 7 ''bob'' 5)) ([], demo_repos) =
     (Inr (Reply 403 (write_required ''alice'' ''web'')), ([], demo_repos))"
proof -
  let ?r = "the (repo_named ''alice'' ''web'' demo_repos)"
  have r: "repo_named ''alice'' ''web'' demo_repos = Some ?r" by code_simp
  have p: "repo_from_path (rq_path (api_request ''GET'' ''/api/repos/alice/web/members'')) ''/api/repos'' = Some (''alice'', ''web'')"
    "repo_from_path (rq_path (api_request ''POST'' ''/api/repos/alice/web/issues'')) ''/api/repos'' = Some (''alice'', ''web'')"
    by code_simp+
  have l: "access_level demo_repos ?r (principal_from_context (Some (new_token 7 ''carol'' 5))) = NoAccess"
    "access_level demo_repos ?r (principal_from_context (Some (new_token 7 ''bob'' 5))) = ReadAccess"
    by code_simp+
  have m: "\<not> is_read_method (rq_method (api_request ''POST'' ''/api/repos/alice/web/issues''))" by code_simp
  show ?thesis
    using api_gate_enforces_policy [OF demo_repos_ok p(1) r, of "Some (new_token 7 ''carol'' 5)"]
      api_gate_enforces_policy [OF demo_repos_ok p(2) r, of "Some (new_token 7 ''bob'' 5)"] l m by simp
qed

text \<open>A handler behind the API gate.\<close>

definition gated :: "request \<Rightarrow> api_token option \<Rightarrow> (db, 'a gate) dbm \<Rightarrow> (db, 'a gate) dbm" where
  "gated req tok handler = bind (with_repo_access req tok) (\<lambda>g. case g of
     Reply code body \<Rightarrow> ok (Reply code body) | Next _ \<Rightarrow> handler)"

lemma repo_named_unique:
  assumes "repos_ok d" and "repo_named owner repo d = Some r"
    and "x \<in> set (rows (repos d))" and "repo_owner d x = Some owner" and "r_name x = repo"
  shows "x = r"
proof -
  from assms(2) have r: "r \<in> set (rows (repos d))" "repo_owner d r = Some owner" "r_name r = repo"
    by (auto simp: repo_named_def dest: select_one_SomeD)
  obtain u where u: "u \<in> set (rows (users d))" "u_id u = r_owner r" "u_name u = owner"
    using repo_owner_Some [OF assms(1) r(1)] r(2) by auto
  obtain v where v: "v \<in> set (rows (users d))" "u_id v = r_owner x" "u_name v = owner"
    using repo_owner_Some [OF assms(1,3)] assms(4) by auto
  have "u = v"
    using assms(1) u v keyed_unique [of u_id u_name "users d" u v] by (auto simp: repos_ok_def accounts_ok_def)
  with u v r assms(1,3,5) keyed_unique [of r_id "\<lambda>r. (r_owner r, r_name r)" "repos d" x r] show ?thesis
    by (auto simp: repos_ok_def)
qed

section \<open>Where the policy has gaps\<close>

text \<open>The SSH transport knows no visibility. For a caller without access to a private repository git
  over HTTP answers 404, and the same caller with a registered key gets the service run on the same
  repository, for a push too.\<close>

theorem ssh_ignores_visibility:
  assumes "repos_ok d" and "repo_named owner repo d = Some r" and "r_visibility r = ''private''"
    and "access_level d r caller = NoAccess"
    and "repo_from_path (rq_path req) '''' = Some (owner, repo)" and "git_identity sha req ([], d) = (Inr (Some caller), ([], d))"
    and "parse_git_ssh_command command = Inr (service, owner, repo)"
    and "repo_path (repos_dir cfg) owner repo = Inr dir" and "exists dir"
  shows "with_git_repo_access sha req ([], d) = (Inr (Reply 404 ''404 page not found''), ([], d)) \<and>
    (\<exists>env. run_git_over_ssh cfg exists command caller ([], d) = (Inr (RunGit (trim_prefix service ''git-'') dir env), ([], d)))"
proof -
  have "with_git_repo_access sha req ([], d) = (Inr (Reply 404 ''404 page not found''), ([], d))"
    using assms(2-6) can_access_level [OF assms(1,2)] named_with_owner [OF assms(1,2)]
    by (simp add: with_git_repo_access_def lookup_repo_def repo_is_private_def attempt_def bind_def)
  moreover have "\<exists>patterns. repo_protected_refs owner (trim_suffix repo ''.git'') ([], d) = (Inr patterns, ([], d)) \<or>
      repo_protected_refs owner (trim_suffix repo ''.git'') ([], d) = (Inl ErrNotFound, ([], d))"
    by (cases "repo_named owner (trim_suffix repo ''.git'') d") (simp_all add: repo_protected_refs_def)
  then have "\<exists>env. push_env cfg owner (trim_suffix repo ''.git'') caller ([], d) = (Inr env, ([], d))"
    by (auto simp: push_env_def attempt_def Let_def)
  then have "\<exists>env. run_git_over_ssh cfg exists command caller ([], d) = (Inr (RunGit (trim_prefix service ''git-'') dir env), ([], d))"
    using assms(7-9) by (auto simp: run_git_over_ssh_def attempt_def)
  ultimately show ?thesis by simp
qed

definition demo_config :: server_config where
  "demo_config = \<lparr>repos_dir = ''/srv'', ci_url = ''http://127.0.0.1'', ci_secret = ''s''\<rparr>"

definition demo_carol :: db where
  "demo_carol = after (create_token id ''carol'' ''pw'') demo_repos"

theorem ssh_ignores_visibility_witness:
  "\<exists>env. run_git_over_ssh demo_config (\<lambda>_. True) (''git-receive-pack '' @ CHR 0x27 # ''alice/web'' @ [CHR 0x27]) ''carol'' ([], demo_carol) =
     (Inr (RunGit ''receive-pack'' [''/srv'', ''alice'', ''web.git''] env), ([], demo_carol))"
proof -
  let ?r = "the (repo_named ''alice'' ''web'' demo_carol)"
  let ?req = "\<lparr>rq_method = ''POST'', rq_path = ''/alice/web.git/git-receive-pack'', rq_authorization = '''',
    rq_basic = Some (''x'', ''pw''), rq_service = ''''\<rparr>"
  have 0: "repos_ok demo_carol" by code_simp
  have 1: "repo_named ''alice'' ''web'' demo_carol = Some ?r" and 2: "r_visibility ?r = ''private''"
    and 3: "access_level demo_carol ?r ''carol'' = NoAccess" by code_simp+
  have 4: "repo_from_path (rq_path ?req) '''' = Some (''alice'', ''web'')" by code_simp
  have 5: "git_identity id ?req ([], demo_carol) = (Inr (Some ''carol''), ([], demo_carol))" by code_simp
  have 6: "parse_git_ssh_command (''git-receive-pack '' @ CHR 0x27 # ''alice/web'' @ [CHR 0x27]) = Inr (''git-receive-pack'', ''alice'', ''web'')"
    by code_simp
  have 7: "repo_path (repos_dir demo_config) ''alice'' ''web'' = Inr [''/srv'', ''alice'', ''web.git'']" by code_simp
  have 8: "trim_prefix ''git-receive-pack'' ''git-'' = ''receive-pack''" by code_simp
  show ?thesis
    using ssh_ignores_visibility [OF 0 1 2 3 4 5 6 7, of "\<lambda>_. True"] 8 by simp
qed

lemma upsert_member_effect:
  assumes "repo_exists rid d"
  shows "\<exists>d'. upsert_member rid uid role d = (Inr (), d') \<and>
    exists_where (\<lambda>m. m_repo m = rid \<and> m_user m = uid \<and> m_role m = role) (repo_members d')"
proof (cases "exists_where (\<lambda>m. m_repo m = rid \<and> m_user m = uid) (repo_members d)")
  case True
  then obtain m where m: "m \<in> set (rows (repo_members d))" "m_repo m = rid" "m_user m = uid"
    by (auto simp: exists_where_iff)
  let ?f = "\<lambda>m. if m_repo m = rid \<and> m_user m = uid then m\<lparr>m_role := role\<rparr> else m"
  from m(1) have "?f m \<in> ?f ` set (rows (repo_members d))" by (rule imageI)
  then have "m\<lparr>m_role := role\<rparr> \<in> ?f ` set (rows (repo_members d))" using m by simp
  then have "\<exists>x \<in> ?f ` set (rows (repo_members d)). m_repo x = rid \<and> m_user x = uid \<and> m_role x = role"
    by (rule rev_bexI) (use m in simp)
  then show ?thesis
    using True by (simp only: upsert_member_def if_True exists_where_iff) (simp add: rows_update_where)
next
  case False
  with assms show ?thesis
    by (auto simp: upsert_member_def exists_where_iff row_simps mk_member_def)
qed

text \<open>Managing members looks at the name of the token where the gate looks at the account: the owner who
  signed in passes the gate with write access and is then refused as not the owner, and a different
  account whose name equals the owner's up to case is accepted as the owner.\<close>

theorem member_endpoint_checks_token_name:
  assumes "repos_ok d" and "repo_named owner repo d = Some r" and "trim_suffix repo ''.git'' = repo"
    and "repo_from_path (rq_path req) ''/api/repos'' = Some (owner, repo)"
    and "tk_user session = owner" and "owner \<noteq> []" and "\<not> equal_fold owner (tk_name session)"
    and "equal_fold owner (tk_name twin)" and "user_id_of name d = Some uid"
  shows "gated req (Some session) (handle_add_member equal_fold owner repo (Some session) (Some (name, ''write''))) ([], d) =
      (Inr (Reply 403 ''only the repo owner can manage members''), ([], d)) \<and>
    (\<exists>d'. handle_add_member equal_fold owner repo (Some twin) (Some (name, ''write'')) ([], d) = (Inr (Next ()), ([], d')) \<and>
      exists_where (\<lambda>m. m_repo m = r_id r \<and> m_user m = uid \<and> m_role m = ''write'') (repo_members d'))"
proof -
  note own = named_with_owner [OF assms(1,2)]
  have lookup: "lookup_repo owner repo ([], d) = (Inr (r_id r), ([], d))"
    using assms(2) by (simp add: lookup_repo_def)
  have "access_level d r owner = WriteAccess"
    using own(2) by (simp add: access_level_def)
  then have gate: "with_repo_access req (Some session) ([], d) = (Inr (Next ()), ([], d))"
    using can_access_level [OF assms(1,2)] lookup assms(4-6)
    by (simp add: with_repo_access_def attempt_def Let_def principal_from_context_def token_account_def)
  have "handle_add_member equal_fold owner repo (Some session) (Some (name, ''write'')) ([], d) =
      (Inr (Reply 403 ''only the repo owner can manage members''), ([], d))"
    using assms(3,7) lookup own
    by (simp add: handle_add_member_def attempt_def Let_def is_repo_owner_def identity_from_context_def)
  with gate have refused: "gated req (Some session) (handle_add_member equal_fold owner repo (Some session)
      (Some (name, ''write''))) ([], d) = (Inr (Reply 403 ''only the repo owner can manage members''), ([], d))"
    by (simp add: gated_def bind_def)
  have "repo_exists (r_id r) d"
    using own(3) by (auto simp: repo_exists_def exists_where_iff dest!: select_one_SomeD)
  then obtain d' where up: "upsert_member (r_id r) uid ''write'' d = (Inr (), d')"
      and m: "exists_where (\<lambda>m. m_repo m = r_id r \<and> m_user m = uid \<and> m_role m = ''write'') (repo_members d')"
    using upsert_member_effect by blast
  have "handle_add_member equal_fold owner repo (Some twin) (Some (name, ''write'')) ([], d) = (Inr (Next ()), ([], d'))"
    using assms(3,8,9) lookup own up
    by (simp add: handle_add_member_def attempt_def Let_def is_repo_owner_def identity_from_context_def add_repo_member_def)
  with refused m show ?thesis by blast
qed

definition demo_fold :: "string \<Rightarrow> string \<Rightarrow> bool" where
  "demo_fold a b \<longleftrightarrow> map lower a = map lower b"

theorem member_endpoint_checks_token_name_witness:
  "\<exists>d'. handle_add_member demo_fold ''alice'' ''web'' (Some (new_token 8 ''ALICE'' 5)) (Some (''carol'', ''write'')) ([], demo_repos) =
     (Inr (Next ()), ([], d'))"
proof -
  let ?r = "the (repo_named ''alice'' ''web'' demo_repos)"
  let ?s = "(new_token 7 ''alice-session'' 5)\<lparr>tk_user := ''alice''\<rparr>"
  have 1: "repo_named ''alice'' ''web'' demo_repos = Some ?r" by code_simp
  have 2: "trim_suffix ''web'' ''.git'' = ''web''" by code_simp
  have 3: "repo_from_path (rq_path (api_request ''POST'' ''/api/repos/alice/web/members'')) ''/api/repos'' = Some (''alice'', ''web'')"
    by code_simp
  have 4: "tk_user ?s = ''alice''" "''alice'' \<noteq> []" by simp_all
  have 5: "\<not> demo_fold ''alice'' (tk_name ?s)" "demo_fold ''alice'' (tk_name (new_token 8 ''ALICE'' 5))" by code_simp+
  have 6: "user_id_of ''carol'' demo_repos = Some 3" by code_simp
  from member_endpoint_checks_token_name [where equal_fold = demo_fold, OF demo_repos_ok 1 2 3 4 5 6] show ?thesis by blast
qed


end
