(* ===== verification/Pulls.thy ===== *)
theory Pulls imports Repos Search begin

text \<open>
  Pull requests and their reviews: \<open>internal/storage/pulls.go\<close> and \<open>pr_reviews.go\<close>, and the handlers of
  \<open>internal/server/pulls.go\<close> that change them.
\<close>

section \<open>Rows\<close>

record create_pull_request =
  cpr_base :: string
  cpr_head :: string
  cpr_title :: string
  cpr_body :: string
  cpr_author :: string

definition mk_pull :: "create_pull_request \<times> int \<Rightarrow> int \<Rightarrow> int \<Rightarrow> int \<Rightarrow> pull_row" where
  "mk_pull p repo n i = (case p of (req, t) \<Rightarrow>
     \<lparr>p_id = i, p_repo = repo, p_number = n, p_base = cpr_base req, p_head = cpr_head req, p_title = cpr_title req,
      p_body = cpr_body req, p_author = cpr_author req, p_state = PROpen, p_created = t, p_updated = t,
      p_merged = None, p_merge_base = None, p_merge_head = None\<rparr>)"

definition insert_pull :: "int \<Rightarrow> int \<Rightarrow> create_pull_request \<Rightarrow> db \<Rightarrow> (db_error + pull_row) \<times> db" where
  "insert_pull repo n req d =
     (if \<not> repo_exists repo d then (Inl ErrForeignKey, d)
      else if exists_where (\<lambda>p. p_repo p = repo \<and> p_number p = n) (pull_requests d) then (Inl ErrUnique, d)
      else (let (r, t) = insert_row (mk_pull (req, now d) repo n) (pull_requests d) in (Inr r, d\<lparr>pull_requests := t\<rparr>)))"

definition create_pull :: "int \<Rightarrow> create_pull_request \<Rightarrow> (db, pull_row) dbm" where
  "create_pull repo req =
     tx (query (\<lambda>d. next_number p_repo p_number repo (pull_requests d)) (\<lambda>n. exec (insert_pull repo n req) ok))"

definition get_pull :: "int \<Rightarrow> int \<Rightarrow> (db, pull_row) dbm" where
  "get_pull repo n = query (\<lambda>d. select_one (\<lambda>p. p_repo p = repo \<and> p_number p = n) (pull_requests d))
     (\<lambda>r. case r of None \<Rightarrow> err ErrNotFound | Some p \<Rightarrow> ok p)"

definition open_prs_for_base :: "int \<Rightarrow> string \<Rightarrow> (db, pull_row list) dbm" where
  "open_prs_for_base repo base =
     query (\<lambda>d. select_where (\<lambda>p. p_repo p = repo \<and> p_base p = base \<and> p_state p = PROpen) (pull_requests d)) ok"

definition pull_filters :: "pr_state list \<Rightarrow> string \<Rightarrow> pull_row \<Rightarrow> bool" where
  "pull_filters states q p \<longleftrightarrow> (states \<noteq> [] \<longrightarrow> p_state p \<in> set states) \<and>
     (q \<noteq> [] \<longrightarrow> like (term_pattern q) (p_title p) \<or> like (term_pattern q) (p_body p))"

definition list_pulls :: "int \<Rightarrow> pr_state list \<Rightarrow> string \<Rightarrow> (db, pull_row list) dbm" where
  "list_pulls repo states q =
     query (\<lambda>d. rev (sort_key p_number (select_where (\<lambda>p. p_repo p = repo \<and> pull_filters states q p) (pull_requests d)))) ok"

text \<open>\<open>JOIN repos JOIN users\<close>, newest update first, then the larger id.\<close>

definition list_all_pulls :: "pr_state list \<Rightarrow> string \<Rightarrow> (db, (pull_row \<times> string \<times> string) list) dbm" where
  "list_all_pulls states q =
     query (\<lambda>d. List.map_filter (\<lambda>p. map_option (\<lambda>(r, owner). (p, owner, r_name r)) (repo_with_owner (p_repo p) d))
       (rev (sort_key p_updated (select_where (pull_filters states q) (pull_requests d))))) ok"

record pull_changes =
  pc_title :: "string option"
  pc_body :: "string option"
  pc_state :: "pr_state option"

definition set_pull_state :: "int \<Rightarrow> pr_state \<Rightarrow> pull_row \<Rightarrow> pull_row" where
  "set_pull_state t s p =
     (if s = PRMerged then p\<lparr>p_state := s, p_merged := Some t\<rparr>
      else p\<lparr>p_state := s, p_merged := None, p_merge_base := None, p_merge_head := None\<rparr>)"

definition apply_pull_changes :: "pull_changes \<Rightarrow> int \<Rightarrow> pull_row \<Rightarrow> pull_row" where
  "apply_pull_changes c t p =
     (let p = p\<lparr>p_updated := t\<rparr>;
          p = (case pc_title c of None \<Rightarrow> p | Some x \<Rightarrow> p\<lparr>p_title := x\<rparr>);
          p = (case pc_body c of None \<Rightarrow> p | Some x \<Rightarrow> p\<lparr>p_body := x\<rparr>) in
      (case pc_state c of None \<Rightarrow> p | Some s \<Rightarrow> set_pull_state t s p))"

definition update_pull_row :: "int \<Rightarrow> int \<Rightarrow> (int \<Rightarrow> pull_row \<Rightarrow> pull_row) \<Rightarrow> db \<Rightarrow> (db_error + pull_row option) \<times> db" where
  "update_pull_row repo n f d =
     (let (r, t) = update_returning (\<lambda>p. p_repo p = repo \<and> p_number p = n) (f (now d)) (pull_requests d)
      in (Inr r, d\<lparr>pull_requests := t\<rparr>))"

definition update_pull :: "int \<Rightarrow> int \<Rightarrow> pull_changes \<Rightarrow> (db, pull_row) dbm" where
  "update_pull repo n c =
     (if pc_title c = None \<and> pc_body c = None \<and> pc_state c = None then err ErrNoUpdateFields
      else exec (update_pull_row repo n (apply_pull_changes c)) (\<lambda>r. case r of None \<Rightarrow> err ErrNotFound | Some p \<Rightarrow> ok p))"

definition merged_at :: "string \<Rightarrow> string \<Rightarrow> int \<Rightarrow> pull_row \<Rightarrow> pull_row" where
  "merged_at base_sha head_sha t p = p\<lparr>p_state := PRMerged, p_updated := t, p_merged := Some t,
     p_merge_base := Some base_sha, p_merge_head := Some head_sha\<rparr>"

definition mark_merged :: "int \<Rightarrow> int \<Rightarrow> string \<Rightarrow> string \<Rightarrow> (db, pull_row) dbm" where
  "mark_merged repo n base_sha head_sha =
     exec (update_pull_row repo n (merged_at base_sha head_sha)) (\<lambda>r. case r of None \<Rightarrow> err ErrNotFound | Some p \<Rightarrow> ok p)"

section \<open>Reviews\<close>

definition mk_review :: "int \<times> int \<times> string \<times> review_state \<times> int \<Rightarrow> int \<Rightarrow> review_row" where
  "mk_review p i = (case p of (repo, pr, author, state, t) \<Rightarrow>
     \<lparr>rv_id = i, rv_repo = repo, rv_pr = pr, rv_author = author, rv_state = state, rv_updated = t\<rparr>)"

definition upsert_review_row :: "int \<Rightarrow> int \<Rightarrow> string \<Rightarrow> review_state \<Rightarrow> db \<Rightarrow> (db_error + unit) \<times> db" where
  "upsert_review_row repo pr author state d =
     (let P = (\<lambda>v. rv_repo v = repo \<and> rv_pr v = pr \<and> rv_author v = author) in
      if exists_where P (pr_reviews d)
      then (Inr (), d\<lparr>pr_reviews := update_where P (\<lambda>v. v\<lparr>rv_state := state, rv_updated := now d\<rparr>) (pr_reviews d)\<rparr>)
      else if \<not> repo_exists repo d then (Inl ErrForeignKey, d)
      else (Inr (), d\<lparr>pr_reviews := snd (insert_row (mk_review (repo, pr, author, state, now d)) (pr_reviews d))\<rparr>))"

definition get_review :: "int \<Rightarrow> int \<Rightarrow> string \<Rightarrow> (db, review_row) dbm" where
  "get_review repo pr author =
     query (\<lambda>d. select_one (\<lambda>v. rv_repo v = repo \<and> rv_pr v = pr \<and> rv_author v = author) (pr_reviews d))
       (\<lambda>r. case r of None \<Rightarrow> err ErrNoRows | Some v \<Rightarrow> ok v)"

definition upsert_review :: "int \<Rightarrow> int \<Rightarrow> string \<Rightarrow> review_state \<Rightarrow> (db, review_row) dbm" where
  "upsert_review repo pr author state = exec (upsert_review_row repo pr author state) (\<lambda>_. get_review repo pr author)"

definition list_reviews :: "int \<Rightarrow> int \<Rightarrow> (db, review_row list) dbm" where
  "list_reviews repo pr =
     query (\<lambda>d. rev (sort_key rv_updated (rev (select_where (\<lambda>v. rv_repo v = repo \<and> rv_pr v = pr) (pr_reviews d))))) ok"


section \<open>The state of a pull request and its frozen tips agree\<close>

interpretation pull_numbers: numbered_table p_id p_repo p_number mk_pull
  by unfold_locales (simp_all add: mk_pull_def split: prod.splits)

definition pull_ok :: "pull_row \<Rightarrow> bool" where
  "pull_ok p \<longleftrightarrow> (p_merged p \<noteq> None \<longleftrightarrow> p_state p = PRMerged) \<and>
     (p_merge_base p \<noteq> None \<longrightarrow> p_state p = PRMerged) \<and> (p_merge_base p = None \<longleftrightarrow> p_merge_head p = None)"

definition pulls_ok :: "db \<Rightarrow> bool" where
  "pulls_ok d \<longleftrightarrow> numbered_ok p_id p_repo p_number (pull_requests d) \<and> (\<forall>p \<in> set (rows (pull_requests d)). pull_ok p)"

lemma pulls_ok_update:
  assumes "pulls_ok d"
    and "\<And>p. p_id (f p) = p_id p" and "\<And>p. p_repo (f p) = p_repo p" and "\<And>p. p_number (f p) = p_number p"
    and "\<And>p. pull_ok p \<Longrightarrow> pull_ok (f p)"
  shows "pulls_ok (d\<lparr>pull_requests := update_where P f (pull_requests d)\<rparr>)"
  using assms by (auto simp: pulls_ok_def row_simps intro: numbered_ok_update)

lemma mk_pull_ok: "pull_ok (mk_pull p repo n i)"
  by (simp add: mk_pull_def pull_ok_def split: prod.splits)

lemma apply_pull_changes_sel [simp]:
  "p_id (apply_pull_changes c t p) = p_id p" "p_repo (apply_pull_changes c t p) = p_repo p"
  "p_number (apply_pull_changes c t p) = p_number p" "pull_ok p \<Longrightarrow> pull_ok (apply_pull_changes c t p)"
  by (auto simp: apply_pull_changes_def set_pull_state_def pull_ok_def Let_def split: option.splits)

lemma merged_at_sel [simp]:
  "p_id (merged_at b h t p) = p_id p" "p_repo (merged_at b h t p) = p_repo p"
  "p_number (merged_at b h t p) = p_number p" "pull_ok (merged_at b h t p)"
  by (simp_all add: merged_at_def pull_ok_def)

lemma insert_pull_keeps:
  "pulls_ok d \<Longrightarrow> insert_pull repo (next_number p_repo p_number repo (pull_requests d)) req d = (Inr p, d') \<Longrightarrow> pulls_ok d'"
  using pull_numbers.alloc_keeps [of "pull_requests d" "(req, now d)" repo]
  by (auto simp: insert_pull_def Let_def pulls_ok_def insert_row_def mk_pull_ok split: if_splits)

lemma create_pull_keeps: "pulls_ok d \<Longrightarrow> keeps pulls_ok d (create_pull repo req)"
  unfolding create_pull_def by (intro keeps_inv) (auto dest: insert_pull_keeps)

lemma update_pull_row_keeps:
  "pulls_ok d \<Longrightarrow> update_pull_row repo n f d = (r, d') \<Longrightarrow>
   (\<And>p. p_id (f (now d) p) = p_id p) \<Longrightarrow> (\<And>p. p_repo (f (now d) p) = p_repo p) \<Longrightarrow>
   (\<And>p. p_number (f (now d) p) = p_number p) \<Longrightarrow> (\<And>p. pull_ok p \<Longrightarrow> pull_ok (f (now d) p)) \<Longrightarrow> pulls_ok d'"
  by (auto simp: update_pull_row_def Let_def update_returning_def intro: pulls_ok_update)

lemma update_pull_keeps: "pulls_ok d \<Longrightarrow> keeps pulls_ok d (update_pull repo n c)"
  unfolding update_pull_def by (intro keeps_inv) (auto dest: update_pull_row_keeps)

lemma mark_merged_keeps: "pulls_ok d \<Longrightarrow> keeps pulls_ok d (mark_merged repo n b h)"
  unfolding mark_merged_def by (intro keeps_inv) (auto dest: update_pull_row_keeps)

text \<open>A step of the table: one of its operations under any script of the engine, the cascade of a deleted
  repository, or an operation on other tables.\<close>

inductive pull_step :: "db \<Rightarrow> db \<Rightarrow> bool" where
  pull_create: "create_pull repo req (fs, d) = (r, (fs', d')) \<Longrightarrow> pull_step d d'"
| pull_update: "update_pull repo n c (fs, d) = (r, (fs', d')) \<Longrightarrow> pull_step d d'"
| pull_merge: "mark_merged repo n b h (fs, d) = (r, (fs', d')) \<Longrightarrow> pull_step d d'"
| pull_cascade: "pull_requests d' = delete_where (\<lambda>p. p_repo p = repo) (pull_requests d) \<Longrightarrow> pull_step d d'"
| pull_other: "pull_requests d' = pull_requests d \<Longrightarrow> pull_step d d'"

lemma pulls_ok_delete: "pulls_ok d \<Longrightarrow> pull_requests d' = delete_where P (pull_requests d) \<Longrightarrow> pulls_ok d'"
  by (auto simp: pulls_ok_def numbered_ok_delete row_simps)

lemma pull_step_keeps: "pull_step d d' \<Longrightarrow> pulls_ok d \<Longrightarrow> pulls_ok d'"
proof (induction rule: pull_step.induct)
  case (pull_other d' d)
  then show ?case by (simp add: pulls_ok_def)
qed (blast dest: keepsD [OF create_pull_keeps] keepsD [OF update_pull_keeps] keepsD [OF mark_merged_keeps]
  intro: pulls_ok_delete)+

lemma pull_steps_keep: "pull_step\<^sup>*\<^sup>* d d' \<Longrightarrow> pulls_ok d \<Longrightarrow> pulls_ok d'"
  by (induction rule: rtranclp_induct) (auto intro: pull_step_keeps)

text \<open>C17: In every database that the pull request operations reach from an empty one, under every failure of the
  engine and whatever else changes the other tables or deletes repositories, the merge time is set exactly
  on merged pull requests, the two frozen tips are either both set or both missing and set only on merged
  ones, numbers are positive, and a repository and a number name one pull request.\<close>

theorem pull_request_invariant:
  assumes "pull_step\<^sup>*\<^sup>* (empty_db t) d" and "p \<in> set (rows (pull_requests d))"
  shows "(p_merged p \<noteq> None \<longleftrightarrow> p_state p = PRMerged) \<and>
    (p_merge_base p \<noteq> None \<longleftrightarrow> p_merge_head p \<noteq> None) \<and>
    (p_state p \<noteq> PRMerged \<longrightarrow> p_merge_base p = None \<and> p_merge_head p = None) \<and> 0 < p_number p \<and>
    get_pull (p_repo p) (p_number p) ([], d) = (Inr p, ([], d))"
proof -
  have "pulls_ok (empty_db t)"
    by (simp add: pulls_ok_def empty_db_def numbered_ok_def empty_table_def ids_ok_def)
  from pull_steps_keep [OF assms(1) this] have "pulls_ok d" .
  then have "numbered_ok p_id p_repo p_number (pull_requests d)" and "pull_ok p"
    using assms(2) by (auto simp: pulls_ok_def)
  with numbered_lookup [OF this(1) assms(2)] assms(2) show ?thesis
    by (auto simp: pull_ok_def get_pull_def numbered_ok_def)
qed

definition demo_pull_req :: create_pull_request where
  "demo_pull_req = \<lparr>cpr_base = ''main'', cpr_head = ''topic'', cpr_title = ''t'', cpr_body = ''fixes #1'', cpr_author = ''bob''\<rparr>"

definition demo_pulls :: db where
  "demo_pulls = after (mark_merged 1 1 ''b'' ''h'') (after (create_pull 1 demo_pull_req) (after (ensure_repo ''ann'' ''site'') (empty_db 5)))"

theorem pull_request_invariant_witness:
  "get_pull 1 1 ([], demo_pulls) = (Inr (hd (rows (pull_requests demo_pulls))), ([], demo_pulls)) \<and>
   p_merged (hd (rows (pull_requests demo_pulls))) = Some 5"
proof -
  let ?d = "after (ensure_repo ''ann'' ''site'') (empty_db 5)"
  have "pull_step (empty_db 5) ?d" by (rule pull_step.pull_other) code_simp
  moreover have "pull_step ?d (after (create_pull 1 demo_pull_req) ?d)"
    by (rule pull_step.pull_create) (simp add: after_def prod_eq_iff)
  moreover have "pull_step (after (create_pull 1 demo_pull_req) ?d) demo_pulls"
    by (rule pull_step.pull_merge) (simp add: after_def demo_pulls_def prod_eq_iff)
  ultimately have reach: "pull_step\<^sup>*\<^sup>* (empty_db 5) demo_pulls" by (meson r_into_rtranclp rtranclp_trans)
  have row: "hd (rows (pull_requests demo_pulls)) \<in> set (rows (pull_requests demo_pulls))"
    "p_repo (hd (rows (pull_requests demo_pulls))) = 1" "p_number (hd (rows (pull_requests demo_pulls))) = 1"
    "p_merged (hd (rows (pull_requests demo_pulls))) = Some 5" by code_simp+
  from pull_request_invariant [OF reach row(1)] row show ?thesis by simp
qed

end
