(* ===== verification/GitMerge.thy ===== *)
theory GitMerge imports GoText begin

text \<open>
  The merge of two branches in a bare repository, the git half of \<open>internal/server/merge.go\<close>. Objects
  never change, so what git computes from them is a record of functions, one per git command the code
  runs, on the texts the command takes and prints (\<open>None\<close>, or a non-zero exit code, when it fails).
  Refs do change: a world holds them together with the script of what others do to the repository,
  one entry per git command that looks at a ref: whether that command fails, and the pushes that land
  just before it. Theorems over every script are about every interleaving with concurrent pushes.
\<close>

section \<open>Git\<close>

record git =
  git_is_ancestor :: "string \<Rightarrow> string \<Rightarrow> bool"
  git_merge_tree :: "string \<Rightarrow> string \<Rightarrow> string \<times> int"
  git_pick_tree :: "string \<Rightarrow> string \<Rightarrow> string \<Rightarrow> string \<times> int"
  git_commit_tree :: "string \<Rightarrow> string \<Rightarrow> string \<Rightarrow> string list \<Rightarrow> string option"
  git_commit_as :: "string \<Rightarrow> string \<Rightarrow> string \<Rightarrow> string \<times> string \<times> string \<Rightarrow> string option"
  git_show_meta :: "string \<Rightarrow> string option"
  git_rev_list :: "string \<Rightarrow> string \<Rightarrow> string option"

type_synonym refs = "string \<rightharpoonup> string"
type_synonym world = "(bool \<times> (refs \<Rightarrow> refs)) list \<times> refs"

definition arrive :: "world \<Rightarrow> bool \<times> world" where
  "arrive w = (case w of ([], r) \<Rightarrow> (False, ([], r)) | ((fails, push) # ps, r) \<Rightarrow> (fails, (ps, push r)))"

definition head_ref_name :: "string \<Rightarrow> string" where
  "head_ref_name branch = ''refs/heads/'' @ branch"

definition rev_parse :: "string \<Rightarrow> world \<Rightarrow> string option \<times> world" where
  "rev_parse ref w = (case arrive w of (fails, w') \<Rightarrow> (if fails then None else snd w' ref, w'))"

definition branch_exists :: "string \<Rightarrow> world \<Rightarrow> bool \<times> world" where
  "branch_exists branch w = (case rev_parse (head_ref_name branch) w of (r, w') \<Rightarrow> (r \<noteq> None, w'))"

definition zero_oid :: string where
  "zero_oid = replicate 40 CHR ''0''"

text \<open>\<open>git update-ref <ref> <new> <old>\<close>: a compare-and-swap; the zero id stands for a missing ref.\<close>

definition points_at :: "refs \<Rightarrow> string \<Rightarrow> string \<Rightarrow> bool" where
  "points_at r ref old \<longleftrightarrow> (if old = zero_oid then r ref = None else r ref = Some old)"

definition update_ref :: "string \<Rightarrow> string \<Rightarrow> string \<Rightarrow> world \<Rightarrow> bool \<times> world" where
  "update_ref ref new old w = (case arrive w of (fails, (ps, r)) \<Rightarrow>
     if \<not> fails \<and> points_at r ref old then (True, (ps, r(ref \<mapsto> new))) else (False, (ps, r)))"

section \<open>The merge\<close>

datatype merge_method = MergeCommitMethod | MergeFFOnlyMethod | MergeRebaseMethod

datatype merge_error = ErrNotFastForward | ErrNothingToRebase | ErrBaseMoved | ErrGit

datatype merge_result = Merged string bool | Conflicts "string list" | MergeFailed merge_error

definition nul :: char where
  "nul = CHR 0x00"

text \<open>\<open>strings.Trim(out, "\x00\n")\<close>.\<close>

definition trim_nul_newline :: "string \<Rightarrow> string" where
  "trim_nul_newline s = (let q = (\<lambda>c. c = nul \<or> c = CHR 0x0A) in rev (dropWhile q (rev (dropWhile q s))))"

datatype tree_result = Tree string | TreeConflicts "string list" | TreeError

definition parse_merge_tree :: "string \<times> int \<Rightarrow> tree_result" where
  "parse_merge_tree p = (case p of (out, code) \<Rightarrow>
     if code = 0 then Tree (trim_nul_newline out)
     else if code = 1 then
       (let conflicts = takeWhile (\<lambda>f. f \<noteq> []) (tl (split_on nul out)) in
        TreeConflicts (if conflicts = [] then [''(unknown)''] else conflicts))
     else TreeError)"

record rebase_commit =
  rc_oid :: string
  rc_parent :: string

definition rebase_line :: "string \<Rightarrow> rebase_commit option" where
  "rebase_line line = (case strings_fields line of
     [] \<Rightarrow> None
   | oid # ps \<Rightarrow> Some \<lparr>rc_oid = oid, rc_parent = (case ps of [] \<Rightarrow> '''' | p # _ \<Rightarrow> p)\<rparr>)"

definition rebase_todo :: "git \<Rightarrow> string \<Rightarrow> string \<Rightarrow> rebase_commit list option" where
  "rebase_todo g base head =
     map_option (\<lambda>out. List.map_filter rebase_line (split_on CHR 0x0A (trim_space out))) (git_rev_list g base head)"

definition empty_tree_oid :: string where
  "empty_tree_oid = ''4b825dc642cb6eb9a060e54bf8d69288fbee4904''"

definition cherry_pick_tree :: "git \<Rightarrow> string \<Rightarrow> rebase_commit \<Rightarrow> tree_result" where
  "cherry_pick_tree g onto c =
     parse_merge_tree (git_pick_tree g (if rc_parent c = [] then empty_tree_oid else rc_parent c) onto (rc_oid c))"

text \<open>\<open>strings.SplitN(meta, "\x00", 4)\<close>: the fourth part keeps the rest of the text.\<close>

definition commit_tree_as :: "git \<Rightarrow> string \<Rightarrow> rebase_commit \<Rightarrow> string \<Rightarrow> string option" where
  "commit_tree_as g tree c onto = (case git_show_meta g (rc_oid c) of
     None \<Rightarrow> None
   | Some meta \<Rightarrow> (case split_on nul meta of
       name # email # date # m # ms \<Rightarrow>
         map_option trim_space (git_commit_as g tree onto
           (rev (dropWhile (\<lambda>c. c = CHR 0x0A) (rev (join [nul] (m # ms))))) (name, email, date))
     | _ \<Rightarrow> None))"

fun replay :: "git \<Rightarrow> rebase_commit list \<Rightarrow> string \<Rightarrow> merge_result" where
  "replay g [] onto = Merged onto True"
| "replay g (c # cs) onto = (case cherry_pick_tree g onto c of
     TreeError \<Rightarrow> MergeFailed ErrGit
   | TreeConflicts conflicts \<Rightarrow> Conflicts conflicts
   | Tree tree \<Rightarrow> (case commit_tree_as g tree c onto of
       None \<Rightarrow> MergeFailed ErrGit | Some picked \<Rightarrow> replay g cs picked))"

definition swap_base :: "string \<Rightarrow> string \<Rightarrow> string \<Rightarrow> bool \<Rightarrow> world \<Rightarrow> merge_result \<times> world" where
  "swap_base base new old ff w = (case update_ref (head_ref_name base) new old w of
     (moved, w') \<Rightarrow> (if moved then Merged new ff else MergeFailed ErrBaseMoved, w'))"

definition rebase_onto :: "git \<Rightarrow> string \<Rightarrow> string \<Rightarrow> string \<Rightarrow> world \<Rightarrow> merge_result \<times> world" where
  "rebase_onto g base base_tip head_tip w = (case rebase_todo g base_tip head_tip of
     None \<Rightarrow> (MergeFailed ErrGit, w)
   | Some [] \<Rightarrow> (MergeFailed ErrNothingToRebase, w)
   | Some todo \<Rightarrow> (case replay g todo base_tip of
       Merged onto _ \<Rightarrow> swap_base base onto base_tip True w
     | r \<Rightarrow> (r, w)))"

definition merge_ff_only :: "git \<Rightarrow> string \<Rightarrow> string \<Rightarrow> string \<Rightarrow> world \<Rightarrow> merge_result \<times> world" where
  "merge_ff_only g base base_tip head_tip w =
     (if \<not> git_is_ancestor g base_tip head_tip then (MergeFailed ErrNotFastForward, w)
      else (case update_ref (head_ref_name base) head_tip base_tip w of
          (False, w') \<Rightarrow> (MergeFailed ErrBaseMoved, w')
        | (True, w') \<Rightarrow> (case rev_parse (head_ref_name base) w' of
            (actual, w'') \<Rightarrow> (if actual = Some head_tip then Merged head_tip True else MergeFailed ErrBaseMoved, w''))))"

definition merge_message :: "int \<Rightarrow> string \<Rightarrow> string \<Rightarrow> string \<Rightarrow> string" where
  "merge_message number head base title =
     ''Merge pull request #'' @ itoa number @ '' from '' @ head @ '' into '' @ base @ CHR 0x0A # CHR 0x0A # title"

text \<open>The commit of a clean merge, authored by the caller.\<close>

definition commit_tree :: "git \<Rightarrow> string \<Rightarrow> string \<Rightarrow> string \<Rightarrow> string list \<Rightarrow> string option" where
  "commit_tree g tree msg identity parents =
     map_option trim_space (git_commit_tree g tree msg (if identity = [] then ''codefort'' else identity) parents)"

definition do_merge ::
  "git \<Rightarrow> int \<times> string \<times> string \<times> string \<Rightarrow> merge_method \<Rightarrow> string \<Rightarrow> string \<Rightarrow> string \<Rightarrow> world \<Rightarrow> merge_result \<times> world" where
  "do_merge g pr method base_tip head_tip identity w = (case pr of (number, head, base, title) \<Rightarrow>
     (case method of
        MergeFFOnlyMethod \<Rightarrow> merge_ff_only g base base_tip head_tip w
      | MergeRebaseMethod \<Rightarrow>
          if git_is_ancestor g base_tip head_tip then merge_ff_only g base base_tip head_tip w
          else rebase_onto g base base_tip head_tip w
      | MergeCommitMethod \<Rightarrow> (case parse_merge_tree (git_merge_tree g base_tip head_tip) of
          TreeError \<Rightarrow> (MergeFailed ErrGit, w)
        | TreeConflicts conflicts \<Rightarrow> (Conflicts conflicts, w)
        | Tree tree \<Rightarrow> (case commit_tree g tree (merge_message number head base title) identity [base_tip, head_tip] of
            None \<Rightarrow> (MergeFailed ErrGit, w)
          | Some commit \<Rightarrow> swap_base base commit base_tip False w))))"

section \<open>What a merge does to the refs\<close>

text \<open>Only pushes of others happened between two worlds.\<close>

definition others :: "world \<Rightarrow> world \<Rightarrow> bool" where
  "others = (\<lambda>w w'. \<exists>fails. arrive w = (fails, w'))\<^sup>*\<^sup>*"

lemma others_refl [simp]: "others w w"
  by (simp add: others_def)

lemma others_arrive: "arrive w = (fails, w') \<Longrightarrow> others w w'"
  by (auto simp: others_def)

text \<open>The server's own move of a ref, at a moment when the ref had the expected value.\<close>

definition moved_ref :: "string \<Rightarrow> string \<Rightarrow> string \<Rightarrow> world \<Rightarrow> world \<Rightarrow> bool" where
  "moved_ref ref old new w w' \<longleftrightarrow>
     (\<exists>v. others w v \<and> points_at (snd v) ref old \<and> others (fst v, (snd v)(ref \<mapsto> new)) w')"

lemma update_ref_cases:
  assumes "update_ref ref new old w = (moved, w')"
  shows "if moved then moved_ref ref old new w w' else others w w'"
proof -
  obtain fails ps r where a: "arrive w = (fails, (ps, r))" by (metis surj_pair)
  show ?thesis
  proof (cases "\<not> fails \<and> points_at r ref old")
    case True
    with assms a have "moved" "w' = (ps, r(ref \<mapsto> new))" by (auto simp: update_ref_def)
    moreover have "moved_ref ref old new w (ps, r(ref \<mapsto> new))"
      unfolding moved_ref_def using True others_arrive [OF a] by (intro exI [of _ "(ps, r)"]) simp
    ultimately show ?thesis by simp
  next
    case False
    with assms a have "\<not> moved" "w' = (ps, r)" by (auto simp: update_ref_def)
    with others_arrive [OF a] show ?thesis by simp
  qed
qed

lemma moved_then_others: "moved_ref ref old new w v \<Longrightarrow> others v w' \<Longrightarrow> moved_ref ref old new w w'"
  unfolding moved_ref_def others_def by (meson rtranclp_trans)

lemma rev_parse_others: "rev_parse ref w = (x, w') \<Longrightarrow> others w w'"
  by (auto simp: rev_parse_def others_arrive split: prod.splits)

lemma swap_base_cases:
  assumes "swap_base base new old ff w = (res, w')"
  shows "res = Merged new ff \<and> moved_ref (head_ref_name base) old new w w' \<or>
    res = MergeFailed ErrBaseMoved \<and> others w w'"
proof -
  obtain moved v where u: "update_ref (head_ref_name base) new old w = (moved, v)" by (metis surj_pair)
  with assms update_ref_cases [OF u] show ?thesis by (cases moved) (auto simp: swap_base_def)
qed

lemma merge_ff_cases:
  assumes "merge_ff_only g base base_tip head_tip w = (res, w')"
  shows "res = MergeFailed ErrNotFastForward \<and> w' = w \<or>
    res = Merged head_tip True \<and> git_is_ancestor g base_tip head_tip \<and> moved_ref (head_ref_name base) base_tip head_tip w w' \<or>
    res = MergeFailed ErrBaseMoved \<and> (others w w' \<or> moved_ref (head_ref_name base) base_tip head_tip w w')"
proof (cases "git_is_ancestor g base_tip head_tip")
  case True
  obtain moved v where u: "update_ref (head_ref_name base) head_tip base_tip w = (moved, v)" by (metis surj_pair)
  obtain actual v' where p: "rev_parse (head_ref_name base) v = (actual, v')" by (metis surj_pair)
  show ?thesis
    using assms True u p update_ref_cases [OF u] moved_then_others [OF _ rev_parse_others [OF p]]
    by (cases moved) (auto simp: merge_ff_only_def split: if_splits)
qed (use assms in \<open>simp add: merge_ff_only_def\<close>)

text \<open>The behaviour of git the merge relies on: ancestry is a preorder, and a new commit descends from the
  parents it is given.\<close>

definition git_laws :: "git \<Rightarrow> bool" where
  "git_laws g \<longleftrightarrow> (\<forall>a. git_is_ancestor g a a) \<and>
     (\<forall>a b c. git_is_ancestor g a b \<longrightarrow> git_is_ancestor g b c \<longrightarrow> git_is_ancestor g a c) \<and>
     (\<forall>tree msg who parents c. git_commit_tree g tree msg who parents = Some c \<longrightarrow>
        (\<forall>p \<in> set parents. git_is_ancestor g p (trim_space c))) \<and>
     (\<forall>tree onto msg who c. git_commit_as g tree onto msg who = Some c \<longrightarrow> git_is_ancestor g onto (trim_space c))"

lemma commit_tree_as_descends:
  "git_laws g \<Longrightarrow> commit_tree_as g tree c onto = Some picked \<Longrightarrow> git_is_ancestor g onto picked"
  by (auto simp: commit_tree_as_def git_laws_def split: option.splits list.splits)

lemma replay_descends:
  assumes "git_laws g" and "replay g cs onto = Merged new ff"
  shows "git_is_ancestor g onto new"
  using assms(2)
proof (induction cs arbitrary: onto)
  case Nil
  then show ?case using assms(1) by (simp add: git_laws_def)
next
  case (Cons c cs)
  from Cons.prems obtain tree picked where p: "commit_tree_as g tree c onto = Some picked" "replay g cs picked = Merged new ff"
    by (auto split: tree_result.splits option.splits)
  have "git_is_ancestor g onto picked" "git_is_ancestor g picked new"
    using commit_tree_as_descends [OF assms(1) p(1)] Cons.IH [OF p(2)] by simp_all
  with assms(1) show ?case unfolding git_laws_def by metis
qed

lemma replay_result: "replay g cs onto \<noteq> MergeFailed ErrBaseMoved"
  by (induction cs arbitrary: onto) (auto split: tree_result.splits option.splits)

lemma rebase_cases:
  assumes "rebase_onto g base base_tip head_tip w = (res, w')"
  shows "(\<exists>new. res = Merged new True \<and> moved_ref (head_ref_name base) base_tip new w w' \<and>
      (git_laws g \<longrightarrow> git_is_ancestor g base_tip new)) \<or>
    res = MergeFailed ErrBaseMoved \<and> others w w' \<or> (w' = w \<and> (\<forall>new ff. res \<noteq> Merged new ff))"
proof (cases "rebase_todo g base_tip head_tip")
  case (Some todo)
  show ?thesis
  proof (cases "\<exists>onto ff. todo \<noteq> [] \<and> replay g todo base_tip = Merged onto ff")
    case True
    then obtain onto ff where r: "todo \<noteq> []" "replay g todo base_tip = Merged onto ff" by blast
    with assms Some have "swap_base base onto base_tip True w = (res, w')"
      by (auto simp: rebase_onto_def neq_Nil_conv simp del: replay.simps)
    from swap_base_cases [OF this] replay_descends [OF _ r(2)] show ?thesis by auto
  next
    case False
    with assms Some show ?thesis
      by (auto simp: rebase_onto_def simp del: replay.simps split: list.splits merge_result.splits)
  qed
qed (use assms in \<open>auto simp: rebase_onto_def\<close>)

text \<open>C16: Whatever pushes race with it, a merge loses nothing: when it reports success, the base ref was
  moved once, from the tip the merge was computed on, to a descendant of it, which also contains the
  head unless the commits were replayed; on a conflict, and on every failure but a moved base, no ref
  was touched.\<close>

theorem merge_preserves_history:
  assumes "git_laws g" and "do_merge g (number, head, base, title) method base_tip head_tip who w = (res, w')"
  shows "case res of
      Merged new ff \<Rightarrow> moved_ref (head_ref_name base) base_tip new w w' \<and> git_is_ancestor g base_tip new \<and>
        (method \<noteq> MergeRebaseMethod \<longrightarrow> git_is_ancestor g head_tip new) \<and> (ff \<longleftrightarrow> method \<noteq> MergeCommitMethod)
    | Conflicts paths \<Rightarrow> w' = w
    | MergeFailed e \<Rightarrow> if e = ErrBaseMoved
        then others w w' \<or> moved_ref (head_ref_name base) base_tip head_tip w w' \<and> git_is_ancestor g base_tip head_tip
        else w' = w"
proof -
  have refl: "git_is_ancestor g a a" for a using assms(1) by (simp add: git_laws_def)
  have made: "git_is_ancestor g base_tip c \<and> git_is_ancestor g head_tip c"
    if "commit_tree g tree msg who [base_tip, head_tip] = Some c" for tree msg c
    using that assms(1) by (auto simp: commit_tree_def git_laws_def)
  have ff: ?thesis if "merge_ff_only g base base_tip head_tip w = (res, w')" "method \<noteq> MergeCommitMethod"
    using merge_ff_cases [OF that(1)] that refl by (auto simp: merge_ff_only_def split: if_splits prod.splits bool.splits)
  show ?thesis
  proof (cases "method")
    case MergeFFOnlyMethod
    with assms(2) ff show ?thesis by (simp add: do_merge_def)
  next
    case MergeRebaseMethod
    show ?thesis
    proof (cases "git_is_ancestor g base_tip head_tip")
      case True
      with MergeRebaseMethod assms(2) ff show ?thesis by (simp add: do_merge_def)
    next
      case False
      with MergeRebaseMethod assms(2) have "rebase_onto g base base_tip head_tip w = (res, w')"
        by (simp add: do_merge_def)
      from rebase_cases [OF this] assms(1) MergeRebaseMethod show ?thesis
        by (auto split: merge_result.splits)
    qed
  next
    case MergeCommitMethod
    show ?thesis
    proof (cases "\<exists>tree c. parse_merge_tree (git_merge_tree g base_tip head_tip) = Tree tree \<and>
        commit_tree g tree (merge_message number head base title) who [base_tip, head_tip] = Some c")
      case True
      then obtain tree c where c: "parse_merge_tree (git_merge_tree g base_tip head_tip) = Tree tree"
          "commit_tree g tree (merge_message number head base title) who [base_tip, head_tip] = Some c" by blast
      with assms(2) MergeCommitMethod have "swap_base base c base_tip False w = (res, w')"
        by (simp add: do_merge_def)
      from swap_base_cases [OF this] made [OF c(2)] MergeCommitMethod show ?thesis by auto
    next
      case False
      with assms(2) MergeCommitMethod show ?thesis
        by (auto simp: do_merge_def split: tree_result.splits option.splits)
    qed
  qed
qed

text \<open>A small git: a commit is named by the letters of its history.\<close>

definition demo_git :: git where
  "demo_git = \<lparr>git_is_ancestor = (\<lambda>a b. set a \<subseteq> set b),
     git_merge_tree = (\<lambda>base head. (''t'' @ [nul], 0)),
     git_pick_tree = (\<lambda>parent onto c. (''t'' @ [nul], 0)),
     git_commit_tree = (\<lambda>tree msg who parents. let c = concat parents in if trim_space c = c then Some c else None),
     git_commit_as = (\<lambda>tree onto msg who. if trim_space (onto @ ''r'') = onto @ ''r'' then Some (onto @ ''r'') else None),
     git_show_meta = (\<lambda>c. None), git_rev_list = (\<lambda>base head. None)\<rparr>"

lemma demo_git_laws: "git_laws demo_git"
  by (auto simp: git_laws_def demo_git_def Let_def split: if_splits)

theorem merge_preserves_history_witness:
  "\<exists>w'. do_merge demo_git (7, ''topic'', ''main'', ''t'') MergeCommitMethod ''a'' ''ab'' ''bob''
      ([(False, \<lambda>r. r(''refs/heads/other'' \<mapsto> ''x''))], [''refs/heads/main'' \<mapsto> ''a'']) = (Merged ''aab'' False, w') \<and>
    moved_ref (head_ref_name ''main'') ''a'' ''aab'' ([(False, \<lambda>r. r(''refs/heads/other'' \<mapsto> ''x''))], [''refs/heads/main'' \<mapsto> ''a'']) w'"
proof -
  let ?w = "([(False, \<lambda>r. r(''refs/heads/other'' \<mapsto> ''x''))], [''refs/heads/main'' \<mapsto> ''a'']) :: world"
  have t: "trim_space ''aab'' = ''aab''" "parse_merge_tree (''t'' @ [nul], 0) = Tree ''t''" by code_simp+
  have eq: "do_merge demo_git (7, ''topic'', ''main'', ''t'') MergeCommitMethod ''a'' ''ab'' ''bob'' ?w =
      (Merged ''aab'' False, ([], [''refs/heads/main'' \<mapsto> ''aab'', ''refs/heads/other'' \<mapsto> ''x'']))"
    using t by (simp add: do_merge_def demo_git_def commit_tree_def Let_def swap_base_def update_ref_def arrive_def
        points_at_def head_ref_name_def zero_oid_def numeral_eq_Suc fun_upd_twist)
  from merge_preserves_history [OF demo_git_laws eq] eq show ?thesis by auto
qed

text \<open>A push that lands between the move of the base and its verification makes a merge that happened
  look as if it had not: the base contains the head, the server answers that the base branch moved,
  and the pull request is left open.\<close>

theorem late_push_hides_merge:
  assumes "git_is_ancestor g base_tip head_tip" and "git_is_ancestor g head_tip later" and "later \<noteq> head_tip"
    and "method = MergeFFOnlyMethod \<or> method = MergeRebaseMethod"
    and "base_tip \<noteq> zero_oid" and "r (head_ref_name base) = Some base_tip"
  shows "do_merge g (number, head, base, title) method base_tip head_tip who
      ([(False, id), (False, \<lambda>r. if r (head_ref_name base) = Some head_tip then r(head_ref_name base \<mapsto> later) else r)], r) =
    (MergeFailed ErrBaseMoved, ([], r(head_ref_name base \<mapsto> later)))"
  using assms
  by (auto simp: do_merge_def merge_ff_only_def update_ref_def rev_parse_def arrive_def points_at_def)

theorem late_push_hides_merge_witness:
  "do_merge demo_git (7, ''topic'', ''main'', ''t'') MergeFFOnlyMethod ''a'' ''ab'' ''bob''
      ([(False, id), (False, \<lambda>r. if r (head_ref_name ''main'') = Some ''ab'' then r(head_ref_name ''main'' \<mapsto> ''abc'') else r)],
       [head_ref_name ''main'' \<mapsto> ''a'']) =
    (MergeFailed ErrBaseMoved, ([], [head_ref_name ''main'' \<mapsto> ''abc'']))"
proof -
  have "git_is_ancestor demo_git ''a'' ''ab''" "git_is_ancestor demo_git ''ab'' ''abc''" "''abc'' \<noteq> ''ab''"
    "MergeFFOnlyMethod = MergeFFOnlyMethod \<or> MergeFFOnlyMethod = MergeRebaseMethod" "''a'' \<noteq> zero_oid"
    by (simp_all add: demo_git_def zero_oid_def numeral_eq_Suc)
  from late_push_hides_merge [OF this, of "[head_ref_name ''main'' \<mapsto> ''a'']" "''main''"] show ?thesis by simp
qed


end
