(* ===== verification/Feed.thy ===== *)
theory Feed imports Schema begin

text \<open>
  Smaller tables of \<open>internal/storage\<close>: the outbound event feed (\<open>events.go\<close>), issue comments
  (\<open>comments.go\<close>), code review comments (\<open>code_comments.go\<close>), the history of spec verifications
  (\<open>verifications.go\<close>) and the operator settings (\<open>settings.go\<close>).
\<close>

text \<open>The data of an event before \<open>json.Marshal\<close>: the values of a \<open>map[string]any\<close>.\<close>

datatype jvalue = JInt int | JStr string | JBool bool | JObj "(string \<times> jvalue) list" | JNum rat | JList "jvalue list" | JNull

text \<open>An event of a run's stream: its type and its data.\<close>

type_synonym stream_event = "string \<times> (string \<times> jvalue) list"

section \<open>Events\<close>

record feed_event =
  fe_seq :: int
  fe_type :: string
  fe_repo :: int
  fe_owner :: string
  fe_name :: string
  fe_actor :: string
  fe_payload :: string
  fe_created :: int

definition mk_event :: "string \<times> int option \<times> string \<times> string \<times> int \<Rightarrow> int \<Rightarrow> event_row" where
  "mk_event p i = (case p of (ty, repo, actor, payload, t) \<Rightarrow>
     \<lparr>e_id = i, e_type = ty, e_repo = repo, e_actor = actor, e_payload = payload, e_created = t\<rparr>)"

definition insert_event :: "string \<Rightarrow> int option \<Rightarrow> string \<Rightarrow> string \<Rightarrow> db \<Rightarrow> (db_error + int) \<times> db" where
  "insert_event ty repo actor payload d =
     (if (case repo of None \<Rightarrow> False | Some r \<Rightarrow> \<not> repo_exists r d) then (Inl ErrForeignKey, d)
      else (let (r, t) = insert_row (mk_event (ty, repo, actor, payload, now d)) (events d) in (Inr (e_id r), d\<lparr>events := t\<rparr>)))"

definition append_feed_event :: "string \<Rightarrow> int \<Rightarrow> string \<Rightarrow> string \<Rightarrow> (db, int) dbm" where
  "append_feed_event ty repo actor payload =
     exec (insert_event ty (if 0 < repo then Some repo else None) actor (if payload = [] then ''{}'' else payload)) ok"

text \<open>\<open>LEFT JOIN repos\<close>, \<open>LEFT JOIN users\<close>.\<close>

definition scan_event :: "db \<Rightarrow> event_row \<Rightarrow> feed_event" where
  "scan_event d e =
     (let repo = Option.bind (e_repo e) (\<lambda>i. select_one (\<lambda>r. r_id r = i) (repos d));
          owner = Option.bind repo (\<lambda>r. select_one (\<lambda>u. u_id u = r_owner r) (users d)) in
      \<lparr>fe_seq = e_id e, fe_type = e_type e, fe_repo = (case e_repo e of None \<Rightarrow> 0 | Some i \<Rightarrow> i),
       fe_owner = (case owner of None \<Rightarrow> '''' | Some u \<Rightarrow> u_name u),
       fe_name = (case repo of None \<Rightarrow> '''' | Some r \<Rightarrow> r_name r),
       fe_actor = e_actor e, fe_payload = e_payload e, fe_created = e_created e\<rparr>)"

definition in_feed :: "int \<Rightarrow> int \<Rightarrow> event_row \<Rightarrow> bool" where
  "in_feed since repo e \<longleftrightarrow> since < e_id e \<and> (0 < repo \<longrightarrow> e_repo e = Some repo)"

definition list_events_since :: "int \<Rightarrow> int \<Rightarrow> int \<Rightarrow> (db, feed_event list) dbm" where
  "list_events_since since repo limit =
     query (\<lambda>d. map (scan_event d) (take (nat (if limit \<le> 0 then 500 else limit)) (select_where (in_feed since repo) (events d)))) ok"

definition delete_events :: "int \<Rightarrow> db \<Rightarrow> (db_error + int) \<times> db" where
  "delete_events keep d =
     (let P = (\<lambda>e. e_id e \<le> coalesce_max (map e_id (rows (events d))) - keep) in
      (Inr (count_where P (events d)), d\<lparr>events := delete_where P (events d)\<rparr>))"

definition prune_events :: "int \<Rightarrow> (db, int) dbm" where
  "prune_events keep = (if keep \<le> 0 then ok 0 else exec (delete_events keep) ok)"

section \<open>Comments\<close>

definition mk_comment :: "int \<times> string \<times> string \<times> int \<Rightarrow> int \<Rightarrow> comment_row" where
  "mk_comment p i = (case p of (issue, author, body, t) \<Rightarrow>
     \<lparr>c_id = i, c_issue = issue, c_author = author, c_body = body, c_created = t\<rparr>)"

definition insert_comment :: "int \<Rightarrow> string \<Rightarrow> string \<Rightarrow> db \<Rightarrow> (db_error + comment_row) \<times> db" where
  "insert_comment issue author body d =
     (if \<not> exists_where (\<lambda>i. i_id i = issue) (issues d) then (Inl ErrForeignKey, d)
      else (let (r, t) = insert_row (mk_comment (issue, author, body, now d)) (issue_comments d) in (Inr r, d\<lparr>issue_comments := t\<rparr>)))"

definition create_comment :: "int \<Rightarrow> string \<Rightarrow> string \<Rightarrow> (db, comment_row) dbm" where
  "create_comment issue author body =
     (if author = [] \<or> body = [] then err ErrInvalidInput else exec (insert_comment issue author body) ok)"

text \<open>\<open>ORDER BY created_at, id\<close>: a stable sort of the rows, which are in the order of their ids.\<close>

definition list_comments :: "int \<Rightarrow> (db, comment_row list) dbm" where
  "list_comments issue = query (\<lambda>d. sort_key c_created (select_where (\<lambda>c. c_issue c = issue) (issue_comments d))) ok"

text \<open>\<open>deleteMiss\<close>: why an authorised statement matched no row.\<close>

definition delete_miss :: "(db \<Rightarrow> bool) \<Rightarrow> (db, 'a) dbm" where
  "delete_miss there = query there (\<lambda>b. err (if b then ErrForbidden else ErrNotFound))"

definition delete_comment_row :: "int \<Rightarrow> string \<Rightarrow> db \<Rightarrow> (db_error + int) \<times> db" where
  "delete_comment_row i requester d =
     (let P = (\<lambda>c. c_id c = i \<and> c_author c = requester) in
      (Inr (count_where P (issue_comments d)), d\<lparr>issue_comments := delete_where P (issue_comments d)\<rparr>))"

definition delete_comment :: "int \<Rightarrow> string \<Rightarrow> (db, unit) dbm" where
  "delete_comment i requester = exec (delete_comment_row i requester) (\<lambda>n.
     if n = 0 then delete_miss (\<lambda>d. exists_where (\<lambda>c. c_id c = i) (issue_comments d)) else ok ())"

section \<open>Code comments\<close>

record create_code_comment_request =
  ccr_ref :: string
  ccr_path :: string
  ccr_start :: int
  ccr_end :: int
  ccr_sha :: string
  ccr_author :: string
  ccr_body :: string

definition mk_code_comment :: "int \<times> create_code_comment_request \<times> int \<Rightarrow> int \<Rightarrow> code_comment_row" where
  "mk_code_comment p i = (case p of (repo, req, t) \<Rightarrow>
     \<lparr>cc_id = i, cc_repo = repo, cc_ref = ccr_ref req, cc_path = ccr_path req, cc_start = ccr_start req,
      cc_end = ccr_end req, cc_sha = ccr_sha req, cc_author = ccr_author req, cc_body = ccr_body req,
      cc_resolved = False, cc_created = t\<rparr>)"

definition insert_code_comment :: "int \<Rightarrow> create_code_comment_request \<Rightarrow> db \<Rightarrow> (db_error + code_comment_row) \<times> db" where
  "insert_code_comment repo req d =
     (if \<not> repo_exists repo d then (Inl ErrForeignKey, d)
      else (let (r, t) = insert_row (mk_code_comment (repo, req, now d)) (code_comments d) in (Inr r, d\<lparr>code_comments := t\<rparr>)))"

definition create_code_comment :: "int \<Rightarrow> create_code_comment_request \<Rightarrow> (db, code_comment_row) dbm" where
  "create_code_comment repo req = exec (insert_code_comment repo req) ok"

definition code_comment_listed :: "int \<Rightarrow> string \<Rightarrow> string \<Rightarrow> bool \<Rightarrow> code_comment_row \<Rightarrow> bool" where
  "code_comment_listed repo ref path resolved c \<longleftrightarrow> cc_repo c = repo \<and> cc_ref c = ref \<and>
     (path \<noteq> [] \<longrightarrow> cc_path c = path) \<and> (\<not> resolved \<longrightarrow> \<not> cc_resolved c)"

text \<open>\<open>ORDER BY path, start_line, created_at, id\<close>, as stable sorts from the last column to the first.\<close>

definition list_code_comments :: "int \<Rightarrow> string \<Rightarrow> string \<Rightarrow> bool \<Rightarrow> (db, code_comment_row list) dbm" where
  "list_code_comments repo ref path resolved =
     query (\<lambda>d. sort_key cc_path (sort_key cc_start (sort_key cc_created
              (select_where (code_comment_listed repo ref path resolved) (code_comments d))))) ok"

definition set_resolved_row :: "int \<Rightarrow> bool \<Rightarrow> string \<Rightarrow> db \<Rightarrow> (db_error + code_comment_row option) \<times> db" where
  "set_resolved_row i resolved requester d =
     (let (r, t) = update_returning (\<lambda>c. cc_id c = i \<and> cc_author c = requester) (\<lambda>c. c\<lparr>cc_resolved := resolved\<rparr>) (code_comments d)
      in (Inr r, d\<lparr>code_comments := t\<rparr>))"

definition set_code_comment_resolved :: "int \<Rightarrow> bool \<Rightarrow> string \<Rightarrow> (db, code_comment_row) dbm" where
  "set_code_comment_resolved i resolved requester = exec (set_resolved_row i resolved requester) (\<lambda>r. case r of
     Some c \<Rightarrow> ok c | None \<Rightarrow> delete_miss (\<lambda>d. exists_where (\<lambda>c. cc_id c = i) (code_comments d)))"

definition delete_code_comment_row :: "int \<Rightarrow> string \<Rightarrow> db \<Rightarrow> (db_error + int) \<times> db" where
  "delete_code_comment_row i requester d =
     (let P = (\<lambda>c. cc_id c = i \<and> cc_author c = requester) in
      (Inr (count_where P (code_comments d)), d\<lparr>code_comments := delete_where P (code_comments d)\<rparr>))"

definition delete_code_comment :: "int \<Rightarrow> string \<Rightarrow> (db, unit) dbm" where
  "delete_code_comment i requester = exec (delete_code_comment_row i requester) (\<lambda>n.
     if n = 0 then delete_miss (\<lambda>d. exists_where (\<lambda>c. cc_id c = i) (code_comments d)) else ok ())"

section \<open>Spec verifications\<close>

definition mk_verification :: "verification_row \<times> int \<Rightarrow> int \<Rightarrow> verification_row" where
  "mk_verification p i = (case p of (v, t) \<Rightarrow>
     v\<lparr>v_id := i, v_result := (if v_result v = [] then ''{}'' else v_result v), v_created := t\<rparr>)"

definition insert_verification :: "verification_row \<Rightarrow> db \<Rightarrow> (db_error + verification_row) \<times> db" where
  "insert_verification v d =
     (if \<not> repo_exists (v_repo v) d then (Inl ErrForeignKey, d)
      else (let (r, t) = insert_row (mk_verification (v, now d)) (spec_verifications d) in (Inr r, d\<lparr>spec_verifications := t\<rparr>)))"

definition record_verification :: "verification_row \<Rightarrow> (db, verification_row) dbm" where
  "record_verification v = exec (insert_verification v) ok"

definition verifications_of :: "int \<Rightarrow> string \<Rightarrow> db \<Rightarrow> verification_row list" where
  "verifications_of repo spec d = rev (select_where (\<lambda>v. v_repo v = repo \<and> v_spec v = spec) (spec_verifications d))"

definition latest_verification :: "int \<Rightarrow> string \<Rightarrow> (db, verification_row) dbm" where
  "latest_verification repo spec = query (verifications_of repo spec) (\<lambda>vs. case vs of [] \<Rightarrow> err ErrNotFound | v # _ \<Rightarrow> ok v)"

definition list_verifications :: "int \<Rightarrow> string \<Rightarrow> int \<Rightarrow> (db, verification_row list) dbm" where
  "list_verifications repo spec limit =
     query (\<lambda>d. take (nat (if limit \<le> 0 then 50 else limit)) (verifications_of repo spec d)) ok"

section \<open>Settings\<close>

definition get_setting :: "string \<Rightarrow> (db, string) dbm" where
  "get_setting key = query (\<lambda>d. find (\<lambda>s. s_key s = key) (settings d))
     (\<lambda>r. case r of None \<Rightarrow> err ErrNotFound | Some s \<Rightarrow> ok (s_value s))"

definition setting_value :: "string \<Rightarrow> (db, string) dbm" where
  "setting_value key = attempt (get_setting key) (\<lambda>r. ok (case r of Inl _ \<Rightarrow> '''' | Inr v \<Rightarrow> v))"

definition upsert_setting :: "string \<Rightarrow> string \<Rightarrow> db \<Rightarrow> (db_error + unit) \<times> db" where
  "upsert_setting key value d =
     (Inr (), d\<lparr>settings :=
        (if list_ex (\<lambda>s. s_key s = key) (settings d)
         then map (\<lambda>s. if s_key s = key then s\<lparr>s_value := value, s_updated := now d\<rparr> else s) (settings d)
         else settings d @ [\<lparr>s_key = key, s_value = value, s_updated = now d\<rparr>])\<rparr>)"

definition set_setting :: "string \<Rightarrow> string \<Rightarrow> (db, unit) dbm" where
  "set_setting key value = exec (upsert_setting key value) ok"

definition remove_setting :: "string \<Rightarrow> db \<Rightarrow> (db_error + unit) \<times> db" where
  "remove_setting key d = (Inr (), d\<lparr>settings := filter (\<lambda>s. s_key s \<noteq> key) (settings d)\<rparr>)"

definition delete_setting :: "string \<Rightarrow> (db, unit) dbm" where
  "delete_setting key = exec (remove_setting key) ok"

section \<open>The feed can be resumed and is bounded\<close>

inductive feed_step :: "db \<Rightarrow> db \<Rightarrow> bool" where
  feed_append: "append_feed_event ty repo actor payload (fs, d) = (r, (fs', d')) \<Longrightarrow> feed_step d d'"
| feed_prune: "prune_events keep (fs, d) = (r, (fs', d')) \<Longrightarrow> feed_step d d'"
| feed_cascade: "events d' = delete_where (\<lambda>e. e_repo e = Some repo) (events d) \<Longrightarrow> feed_step d d'"
| feed_other: "events d' = events d \<Longrightarrow> feed_step d d'"

text \<open>What the feed of a later database holds: events of the earlier one, and events numbered above it.\<close>

definition feed_extends :: "db \<Rightarrow> db \<Rightarrow> bool" where
  "feed_extends d d' \<longleftrightarrow> ids_ok e_id (events d') \<and> seqno (events d) \<le> seqno (events d') \<and>
     (\<forall>e \<in> set (rows (events d')). e \<in> set (rows (events d)) \<or> seqno (events d) < e_id e)"

lemma feed_extends_refl: "ids_ok e_id (events d) \<Longrightarrow> feed_extends d d"
  by (simp add: feed_extends_def)

lemma feed_extends_delete:
  "feed_extends d0 d \<Longrightarrow> events d' = delete_where P (events d) \<Longrightarrow> feed_extends d0 d'"
  by (auto simp: feed_extends_def ids_ok_delete row_simps)

lemma mk_event_id [row_simps]: "e_id (mk_event p i) = i"
  by (simp add: mk_event_def split: prod.splits)

lemma append_extends: "feed_extends d0 d \<Longrightarrow> keeps (feed_extends d0) d (append_feed_event ty repo actor payload)"
  unfolding append_feed_event_def
  by (intro keeps_exec keeps_ok; (assumption)?)
     (auto simp: insert_event_def insert_row_def Let_def feed_extends_def row_simps ids_ok_insert [unfolded insert_row_def Let_def, simplified]
       split: if_splits option.splits)

lemma prune_extends: "feed_extends d0 d \<Longrightarrow> keeps (feed_extends d0) d (prune_events keep)"
  unfolding prune_events_def
  by (intro keeps_if keeps_exec keeps_ok; (assumption)?)
     (auto simp: delete_events_def Let_def elim: feed_extends_delete)

lemma feed_step_extends: "feed_step d d' \<Longrightarrow> feed_extends d0 d \<Longrightarrow> feed_extends d0 d'"
proof (induction rule: feed_step.induct)
  case (feed_other d' d)
  then show ?case by (simp add: feed_extends_def)
qed (blast dest: keepsD [OF append_extends] keepsD [OF prune_extends] intro: feed_extends_delete)+

lemma feed_steps_extend: "feed_step\<^sup>*\<^sup>* d d' \<Longrightarrow> ids_ok e_id (events d) \<Longrightarrow> feed_extends d d'"
  by (induction rule: rtranclp_induct) (auto intro: feed_extends_refl feed_step_extends)

definition feed_limit :: "int \<Rightarrow> nat" where
  "feed_limit limit = nat (if limit \<le> 0 then 500 else limit)"

lemma fe_seq_scan [simp]: "fe_seq (scan_event d e) = e_id e"
  by (simp add: scan_event_def Let_def)

lemma list_events_page:
  "list_events_since since repo limit ([], d) =
    (Inr (map (scan_event d) (take (feed_limit limit) (filter (in_feed since repo) (rows (events d))))), ([], d))"
  by (simp add: list_events_since_def feed_limit_def select_where_def)

lemma strict_le_last: "sorted_wrt (<) xs \<Longrightarrow> x \<in> set xs \<Longrightarrow> x \<le> (last xs :: int)"
  by (induction xs) (auto intro: order.strict_implies_order)

lemma sorted_take_drop:
  assumes "sorted_wrt (<) (map f xs)" and "x \<in> set xs" and "take n xs \<noteq> []"
  shows "x \<in> set (take n xs) \<or> (f (last (take n xs)) :: int) < f x"
proof -
  have "x \<in> set (take n xs) \<or> x \<in> set (drop n xs)"
    using assms(2) by (metis Un_iff append_take_drop_id set_append)
  moreover have "f y < f z" if "y \<in> set (take n xs)" "z \<in> set (drop n xs)" for y z
  proof -
    have "sorted_wrt (<) (map f (take n xs) @ map f (drop n xs))"
      using assms(1) by (simp flip: map_append)
    with that show ?thesis by (simp add: sorted_wrt_append)
  qed
  ultimately show ?thesis using assms(3) last_in_set by blast
qed

text \<open>A consumer of the event feed that resumes from the last sequence number it saw misses nothing and
  sees nothing twice: whatever is appended, pruned or deleted between the two reads, the numbers of
  the two pages increase strictly, and every event beyond its first cursor that is still there is in
  the first page, or in the second, or comes after a full second page.\<close>

theorem event_feed_resumes:
  assumes "ids_ok e_id (events d)" and "list_events_since since repo limit ([], d) = (Inr page, s)" and "page \<noteq> []"
    and "feed_step\<^sup>*\<^sup>* d d'" and "list_events_since (fe_seq (last page)) repo limit' ([], d') = (Inr next, s')"
  shows "sorted_wrt (<) (map fe_seq (page @ next)) \<and>
    (\<forall>e \<in> set (rows (events d')). in_feed since repo e \<longrightarrow>
       e_id e \<in> fe_seq ` set page \<or> e_id e \<in> fe_seq ` set next \<or>
       length next = feed_limit limit' \<and> (next \<noteq> [] \<longrightarrow> fe_seq (last next) < e_id e))"
proof -
  let ?xs = "filter (in_feed since repo) (rows (events d))" and ?n = "feed_limit limit"
  let ?ys = "filter (in_feed (fe_seq (last page)) repo) (rows (events d'))" and ?m = "feed_limit limit'"
  have ext: "feed_extends d d'" using feed_steps_extend [OF assms(4,1)] .
  have page: "page = map (scan_event d) (take ?n ?xs)" and nxt: "next = map (scan_event d') (take ?m ?ys)"
    using assms(2,5) by (auto simp: list_events_page)
  have ids: "sorted_wrt (<) (map e_id ?xs)" "sorted_wrt (<) (map e_id ?ys)"
    using assms(1) ext by (auto simp: feed_extends_def ids_ok_def intro: sorted_wrt_map_filterI)
  have seqs: "map fe_seq page = map e_id (take ?n ?xs)" "map fe_seq next = map e_id (take ?m ?ys)"
    by (simp_all add: page nxt comp_def)
  have ne: "take ?n ?xs \<noteq> []" using assms(3) page by auto
  have lst: "fe_seq (last page) = e_id (last (take ?n ?xs))"
    using ne by (simp add: page last_map)
  have inc: "sorted_wrt (<) (map fe_seq page)" "sorted_wrt (<) (map fe_seq next)"
    using ids by (simp_all add: seqs take_map [symmetric] sorted_wrt_take)
  have le: "x \<le> fe_seq (last page)" if "x \<in> set (map fe_seq page)" for x
    using strict_le_last [OF inc(1) that] assms(3) by (simp add: last_map)
  have gt: "fe_seq (last page) < y" if "y \<in> set (map fe_seq next)" for y
    using that by (auto simp: nxt in_feed_def dest!: in_set_takeD)
  from inc le gt have sorted: "sorted_wrt (<) (map fe_seq (page @ next))"
    by (force simp: sorted_wrt_append)
  have found: "e_id e \<in> fe_seq ` set page \<or> e_id e \<in> fe_seq ` set next \<or>
      length next = ?m \<and> (next \<noteq> [] \<longrightarrow> fe_seq (last next) < e_id e)"
    if e: "e \<in> set (rows (events d'))" "in_feed since repo e" for e
  proof (cases "e_id e \<in> fe_seq ` set page")
    case False
    have "fe_seq (last page) < e_id e"
    proof (cases "e \<in> set (rows (events d))")
      case True
      then have "e \<in> set ?xs" using e(2) by simp
      moreover have "e \<notin> set (take ?n ?xs)" using False by (auto simp: page image_image)
      ultimately show ?thesis using sorted_take_drop [OF ids(1) _ ne] by (auto simp: lst)
    next
      case new: False
      then have "seqno (events d) < e_id e" using ext e(1) by (auto simp: feed_extends_def)
      moreover have "last (take ?n ?xs) \<in> set (rows (events d))"
        using in_set_takeD [OF last_in_set [OF ne]] by simp
      ultimately show ?thesis using assms(1) lst by (force simp: ids_ok_def)
    qed
    then have y: "e \<in> set ?ys" using e by (simp add: in_feed_def)
    show ?thesis
    proof (cases "length ?ys \<le> ?m")
      case True
      then have "fe_seq (scan_event d' e) \<in> fe_seq ` set next"
        using y by (simp only: nxt take_all set_map image_eqI)
      then show ?thesis by simp
    next
      case long: False
      have "e \<in> set (take ?m ?ys) \<or> fe_seq (last next) < e_id e" if "next \<noteq> []"
      proof -
        have ne': "take ?m ?ys \<noteq> []" using that nxt by auto
        then have "fe_seq (last next) = e_id (last (take ?m ?ys))" by (simp add: nxt last_map)
        with sorted_take_drop [OF ids(2) y ne'] show ?thesis by simp
      qed
      moreover have "e_id e \<in> fe_seq ` set next" if "e \<in> set (take ?m ?ys)"
        using that by (auto simp: nxt image_image)
      moreover have "length next = ?m" using long by (simp add: nxt)
      ultimately show ?thesis by blast
    qed
  qed auto
  from sorted found show ?thesis by blast
qed

definition demo_feed :: db where
  "demo_feed = after (append_feed_event ''push'' 0 ''bob'' '''') (after (append_feed_event ''claim'' 0 ''alice'' ''{}'')
     (after (append_feed_event ''push'' 0 ''alice'' ''{}'') (empty_db 5)))"

definition demo_feed_later :: db where
  "demo_feed_later = after (append_feed_event ''run'' 0 ''ci'' '''') (after (prune_events 2) demo_feed)"

lemma demo_feed_ids: "ids_ok e_id (events demo_feed)"
  by code_simp

lemma demo_feed_steps: "feed_step\<^sup>*\<^sup>* demo_feed demo_feed_later"
proof -
  have "prune_events 2 ([], demo_feed) = (fst (prune_events 2 ([], demo_feed)), ([], after (prune_events 2) demo_feed))"
    "append_feed_event ''run'' 0 ''ci'' '''' ([], after (prune_events 2) demo_feed) = (Inr 4, ([], demo_feed_later))"
    by code_simp+
  then show ?thesis by (meson feed_append feed_prune converse_rtranclp_into_rtranclp r_into_rtranclp)
qed

theorem event_feed_resumes_witness:
  "\<exists>page next s s'. list_events_since 0 0 2 ([], demo_feed) = (Inr page, s) \<and> map fe_seq page = [1, 2] \<and>
     list_events_since (fe_seq (last page)) 0 10 ([], demo_feed_later) = (Inr next, s') \<and> map fe_seq next = [3, 4] \<and>
     sorted_wrt (<) (map fe_seq (page @ next))"
proof -
  let ?p = "list_events_since 0 0 2 ([], demo_feed)" and ?n = "list_events_since 2 0 10 ([], demo_feed_later)"
  let ?page = "projr (fst ?p)" and ?next = "projr (fst ?n)"
  note ids = demo_feed_ids
  have p: "?p = (Inr ?page, snd ?p)" "map fe_seq ?page = [1, 2]" "?page \<noteq> []" "fe_seq (last ?page) = 2"
    by code_simp+
  have n: "?n = (Inr ?next, snd ?n)" "map fe_seq ?next = [3, 4]" by code_simp+
  from event_feed_resumes [OF ids p(1,3) demo_feed_steps, of 10 ?next "snd ?n"] n p show ?thesis by metis
qed

text \<open>Retention bounds the feed: after \<open>PruneEvents(keep)\<close> there are at most \<open>keep\<close> events, they are
  exactly the events numbered above the newest number minus \<open>keep\<close>, the newest stays, and the
  answer is how many went; a non-positive \<open>keep\<close> changes nothing.\<close>

theorem prune_events_bound:
  assumes "ids_ok e_id (events d)"
  shows "if keep \<le> 0 then prune_events keep ([], d) = (Inr 0, ([], d))
    else \<exists>n d'. prune_events keep ([], d) = (Inr n, ([], d')) \<and>
      int (length (rows (events d'))) \<le> keep \<and> n + int (length (rows (events d'))) = int (length (rows (events d))) \<and>
      rows (events d') = filter (\<lambda>e. coalesce_max (map e_id (rows (events d))) - keep < e_id e) (rows (events d)) \<and>
      (rows (events d) \<noteq> [] \<longrightarrow> last (rows (events d)) \<in> set (rows (events d')))"
proof (cases "keep \<le> 0")
  case False
  let ?m = "coalesce_max (map e_id (rows (events d)))"
  let ?kept = "filter (\<lambda>e. ?m - keep < e_id e) (rows (events d))"
  have dist: "distinct (map e_id ?kept)"
    using ids_ok_distinct [OF assms] by (rule distinct_map_filterI)
  have "set (map e_id ?kept) \<subseteq> {?m - keep <.. ?m}"
    using coalesce_max_ge [of _ "map e_id (rows (events d))"] by auto
  then have "card (set (map e_id ?kept)) \<le> card {?m - keep <.. ?m}"
    by (intro card_mono) auto
  then have len: "int (length ?kept) \<le> keep"
    using False by (simp add: distinct_card [OF dist, simplified])
  have cnt: "int (length (filter (\<lambda>e. e_id e \<le> ?m - keep) (rows (events d)))) + int (length ?kept) = int (length (rows (events d)))"
    using sum_length_filter_compl [of "\<lambda>e. e_id e \<le> ?m - keep" "rows (events d)"] by (simp add: not_le)
  have newest: "last (rows (events d)) \<in> set ?kept" if "rows (events d) \<noteq> []"
  proof -
    have "?m \<in> set (map e_id (rows (events d)))" using coalesce_max_mem that by blast
    then have "?m \<le> last (map e_id (rows (events d)))"
      using assms by (intro strict_le_last) (auto simp: ids_ok_def)
    then show ?thesis using that False by (simp add: last_map)
  qed
  show ?thesis
    using False len cnt newest
    by (simp add: prune_events_def delete_events_def Let_def row_simps count_where_def not_le)
qed (simp add: prune_events_def)

theorem prune_events_bound_witness:
  "\<exists>n d'. prune_events 2 ([], demo_feed) = (Inr n, ([], d')) \<and> int (length (rows (events d'))) \<le> 2"
  using prune_events_bound [of demo_feed 2] by (simp add: demo_feed_ids) blast


end
