(* ===== verification/Merge.thy ===== *)
theory Merge imports Access Pulls GitMerge Turns Translate Feed begin

text \<open>
  The pull request endpoints and what a push sets off: \<open>internal/server/merge.go\<close>, \<open>pulls.go\<close>,
  \<open>branches.go\<close>, \<open>ci_hook.go\<close> and the emitters of \<open>events.go\<close>. A host is one server process seen from
  a request: the database session, the refs of the bare repository the request names, the runs the
  runner is executing (with the flag that tells them to stop) and the branches handed to the mirror.
\<close>

section \<open>The host of a handler\<close>

record host =
  h_db :: "db session"
  h_git :: world
  h_executing :: "int \<rightharpoonup> bool"
  h_mirrored :: "string list"

type_synonym 'a srv = "host \<Rightarrow> 'a \<times> host"

definition answer :: "'a \<Rightarrow> 'a srv" where
  "answer x = (\<lambda>h. (x, h))"

definition call :: "(db, 'a) dbm \<Rightarrow> (db_error + 'a \<Rightarrow> 'b srv) \<Rightarrow> 'b srv" where
  "call m k = (\<lambda>h. case m (h_db h) of (r, s) \<Rightarrow> k r (h\<lparr>h_db := s\<rparr>))"

definition on_refs :: "(world \<Rightarrow> 'a \<times> world) \<Rightarrow> ('a \<Rightarrow> 'b srv) \<Rightarrow> 'b srv" where
  "on_refs m k = (\<lambda>h. case m (h_git h) of (r, w) \<Rightarrow> k r (h\<lparr>h_git := w\<rparr>))"

text \<open>What the handlers are given: the configuration, which directories exist, git on the objects of the
  repository, the pipeline file and the \<open>subject NEWLINE author\<close> text at a commit, the YAML decoder, the
  JSON encoder of event data, whether the runner is attached and whether a mirror is configured.\<close>

record server_env =
  se_cfg :: server_config
  se_exists :: "string list \<Rightarrow> bool"
  se_git :: git
  se_pipeline :: "string \<Rightarrow> string option"
  se_decode :: "string \<Rightarrow> pipeline option"
  se_meta :: "string \<Rightarrow> string option"
  se_marshal :: "(string \<times> jvalue) list \<Rightarrow> string"
  se_runner :: bool
  se_mirror :: bool

section \<open>Events\<close>

text \<open>\<open>emit\<close>: a failure to write the event is logged and forgotten.\<close>

definition emit :: "server_env \<Rightarrow> string \<Rightarrow> int \<Rightarrow> string \<Rightarrow> (string \<times> jvalue) list \<Rightarrow> 'b srv \<Rightarrow> 'b srv" where
  "emit env ty repo actor data k = call (append_feed_event ty repo actor (se_marshal env data)) (\<lambda>_. k)"

definition emit_pull :: "server_env \<Rightarrow> string \<Rightarrow> int \<Rightarrow> string \<Rightarrow> pull_row \<Rightarrow> 'b srv \<Rightarrow> 'b srv" where
  "emit_pull env ty repo actor p = emit env ty repo actor
     [(''number'', JInt (p_number p)), (''title'', JStr (p_title p)), (''base'', JStr (p_base p)), (''head'', JStr (p_head p))]"

definition emit_run_queued :: "server_env \<Rightarrow> int \<Rightarrow> run_row \<Rightarrow> 'b srv \<Rightarrow> 'b srv" where
  "emit_run_queued env repo r = emit env ''ci.run.queued'' repo (ru_trigger r)
     [(''number'', JInt (ru_number r)), (''ref'', JStr (ru_ref r)), (''event'', JStr (ru_event r)), (''sha'', JStr (ru_sha r))]"

section \<open>A run for a ref\<close>

text \<open>\<open>ciRunner.CancelCIRun\<close>: a run being executed is flagged, one that waits is canceled in the database.\<close>

definition cancel_run :: "int \<Rightarrow> 'b srv \<Rightarrow> 'b srv" where
  "cancel_run rid k = (\<lambda>h. if h_executing h rid \<noteq> None then k (h\<lparr>h_executing := (h_executing h)(rid \<mapsto> True)\<rparr>)
     else call (cancel_ci_run rid) (\<lambda>_. k) h)"

primrec cancel_runs :: "int list \<Rightarrow> 'b srv \<Rightarrow> 'b srv" where
  "cancel_runs [] k = k"
| "cancel_runs (i # ids) k = cancel_run i (cancel_runs ids k)"

text \<open>\<open>strings.Cut(strings.TrimRight(out, "\n"), "\n")\<close>.\<close>

definition git_commit_meta :: "server_env \<Rightarrow> string \<Rightarrow> string \<times> string" where
  "git_commit_meta env sha = (case se_meta env sha of
     None \<Rightarrow> ('''', '''')
   | Some out \<Rightarrow> (let t = rev (dropWhile (\<lambda>c. c = CHR 0x0A) (rev out)) in
       case cut_at CHR 0x0A t of None \<Rightarrow> (t, '''') | Some (subject, author) \<Rightarrow> (subject, author)))"

definition filtered_out :: "server_env \<Rightarrow> string \<Rightarrow> string \<Rightarrow> bool" where
  "filtered_out env ref sha = (case Option.bind (se_pipeline env sha) (parse_pipeline (se_decode env)) of
     None \<Rightarrow> False | Some p \<Rightarrow> \<not> matches p ref)"

definition supersede :: "server_env \<Rightarrow> int \<Rightarrow> string \<Rightarrow> 'b srv \<Rightarrow> 'b srv" where
  "supersede env repo ref k =
     (if se_runner env
      then call (active_ci_run_ids_for_ref repo ref) (\<lambda>r. case r of Inl _ \<Rightarrow> k | Inr stale \<Rightarrow> cancel_runs stale k)
      else k)"

definition ref_run :: "server_env \<Rightarrow> string \<Rightarrow> string \<Rightarrow> string \<Rightarrow> string \<Rightarrow> new_run" where
  "ref_run env ref sha event trigger = (case git_commit_meta env sha of (msg, author) \<Rightarrow>
     \<lparr>nr_kind = None, nr_issue = None, nr_model = '''', nr_profile = '''', nr_spec = '''', nr_sha = sha,
      nr_msg = msg, nr_author = author, nr_ref = ref, nr_event = event, nr_trigger = trigger\<rparr>)"

definition enqueue_ref_run ::
  "server_env \<Rightarrow> int \<Rightarrow> string \<Rightarrow> string \<Rightarrow> string \<Rightarrow> string \<Rightarrow> (db_error + run_row option \<Rightarrow> 'b srv) \<Rightarrow> 'b srv" where
  "enqueue_ref_run env repo ref sha event trigger k =
     call (repo_ci_enabled repo) (\<lambda>e. case e of
         Inl e \<Rightarrow> k (Inl e)
       | Inr enabled \<Rightarrow>
           if \<not> enabled \<or> filtered_out env ref sha then k (Inr None)
           else supersede env repo ref (call (enqueue_run repo (ref_run env ref sha event trigger)) (\<lambda>r. case r of
               Inl e \<Rightarrow> k (Inl e)
             | Inr run \<Rightarrow> emit_run_queued env repo run (k (Inr (Some run))))))"


section \<open>Issues a pull request closes\<close>

text \<open>The expression \<open>(?i)\b(?:closes?|fixed?|fixes?|resolves?)\s+#(\d+)\<close>. Letters match in either case, and
  \<open>s\<close> matches the long s (U+017F) too; \<open>\s\<close> and \<open>\b\<close> are those of ASCII.\<close>

fun fold_word :: "string \<Rightarrow> string \<Rightarrow> string option" where
  "fold_word [] s = Some s"
| "fold_word (w # ws) s = (case s of
     [] \<Rightarrow> None
   | c # t \<Rightarrow> if lower c = w then fold_word ws t
       else if w = CHR ''s'' \<and> take 2 s = [CHR 0xC5, CHR 0xBF] then fold_word ws (drop 1 t)
       else None)"

definition is_digit :: "char \<Rightarrow> bool" where
  "is_digit c \<longleftrightarrow> c \<in> set ''0123456789''"

definition is_word :: "char \<Rightarrow> bool" where
  "is_word c \<longleftrightarrow> is_digit c \<or> c = CHR ''_'' \<or> lower c \<in> set ''abcdefghijklmnopqrstuvwxyz''"

definition is_blank :: "char \<Rightarrow> bool" where
  "is_blank c \<longleftrightarrow> c = CHR '' '' \<or> c = CHR 0x09 \<or> c = CHR 0x0A \<or> c = CHR 0x0C \<or> c = CHR 0x0D"

definition closing_words :: "string list" where
  "closing_words = [''closes'', ''close'', ''fixed'', ''fixe'', ''fixes'', ''resolves'', ''resolve'']"

text \<open>After the word: blanks, a hash sign, digits; the result is the digits and what follows them.\<close>

definition ref_number :: "string \<Rightarrow> (string \<times> string) option" where
  "ref_number s = (case s of [] \<Rightarrow> None | c # _ \<Rightarrow> if \<not> is_blank c then None else
     (case dropWhile is_blank s of
        [] \<Rightarrow> None
      | h # t \<Rightarrow> if h \<noteq> CHR ''#'' \<or> takeWhile is_digit t = [] then None
          else Some (takeWhile is_digit t, dropWhile is_digit t)))"

definition closing_ref_at :: "string \<Rightarrow> (string \<times> string) option" where
  "closing_ref_at s =
     fold (\<lambda>w found. case found of Some x \<Rightarrow> Some x | None \<Rightarrow> Option.bind (fold_word w s) ref_number) closing_words None"

lemma fold_word_shorter: "fold_word w s = Some r \<Longrightarrow> length r \<le> length s"
proof (induction w arbitrary: s)
  case (Cons w ws)
  then obtain c t where s: "s = c # t" by (cases s) auto
  with Cons(2) have "fold_word ws t = Some r \<or> fold_word ws (drop 1 t) = Some r"
    by (auto split: if_splits)
  with Cons(1) [of t] Cons(1) [of "drop 1 t"] s show ?case by auto
qed simp

lemma ref_number_shorter:
  assumes "ref_number s = Some (ds, r)" shows "length r < length s"
proof -
  from assms obtain h t where "dropWhile is_blank s = h # t" and "r = dropWhile is_digit t"
    by (auto simp: ref_number_def split: list.splits if_splits)
  with length_dropWhile_le [of is_blank s] length_dropWhile_le [of is_digit t] show ?thesis by simp
qed

lemma closing_ref_word:
  assumes "closing_ref_at s = Some x"
  shows "\<exists>w \<in> set closing_words. Option.bind (fold_word w s) ref_number = Some x"
proof -
  have "fold (\<lambda>w found. case found of Some x \<Rightarrow> Some x | None \<Rightarrow> Option.bind (fold_word w s) ref_number) ws y = Some x \<Longrightarrow>
      y = Some x \<or> (\<exists>w \<in> set ws. Option.bind (fold_word w s) ref_number = Some x)" for ws y
  proof (induction ws arbitrary: y)
    case (Cons w ws)
    then show ?case by (cases y) fastforce+
  qed simp
  from this [of closing_words None] assms show ?thesis unfolding closing_ref_at_def by blast
qed

lemma closing_ref_shorter: "closing_ref_at s = Some (ds, rest) \<Longrightarrow> length rest < length s"
  using closing_ref_word [of s "(ds, rest)"] fold_word_shorter [where s = s] ref_number_shorter
  by (fastforce simp: bind_eq_Some_conv)

text \<open>\<open>FindAllStringSubmatch\<close>: the matches from left to right, none overlapping; \<open>prev\<close> tells whether the
  byte before is a word character.\<close>

function closing_matches :: "bool \<Rightarrow> string \<Rightarrow> string list" where
  "closing_matches prev [] = []"
| "closing_matches prev (c # s) = (case (if prev then None else closing_ref_at (c # s)) of
     Some (ds, rest) \<Rightarrow> ds # closing_matches True rest
   | None \<Rightarrow> closing_matches (is_word c) s)"
  by pat_completeness auto
termination
  by (relation "measure (\<lambda>(_, s). length s)") (auto dest!: closing_ref_shorter split: if_splits)

definition digits_value :: "string \<Rightarrow> int" where
  "digits_value = foldl (\<lambda>n c. 10 * n + (of_char c - 48)) 0"

text \<open>\<open>strconv.Atoi\<close> on digits: a number that does not fit 64 bits is an error, and skipped.\<close>

definition parse_closing_refs :: "string \<Rightarrow> int list" where
  "parse_closing_refs text =
     rev (remdups (rev (filter (\<lambda>n. n < 9223372036854775808) (map digits_value (closing_matches False text)))))"


definition issue_done :: issue_changes where
  "issue_done = \<lparr>ch_set_state = Some IssueDone, ch_set_title = None, ch_set_body = None, ch_set_parent = None, ch_set_labels = None\<rparr>"

primrec close_issues :: "int \<Rightarrow> int list \<Rightarrow> 'b srv \<Rightarrow> 'b srv" where
  "close_issues repo [] k = k"
| "close_issues repo (n # ns) k = call (update_issue repo n issue_done) (\<lambda>_. close_issues repo ns k)"

definition close_linked_issues :: "int \<Rightarrow> pull_row \<Rightarrow> 'b srv \<Rightarrow> 'b srv" where
  "close_linked_issues repo p k = close_issues repo (parse_closing_refs (p_title p @ '' '' @ p_body p)) k"

section \<open>Merging a pull request\<close>

text \<open>The loop over the reviews, newest first: the first change request blocks.\<close>

fun review_verdict :: "review_row list \<Rightarrow> nat \<Rightarrow> string option" where
  "review_verdict [] approvals = (if approvals = 0 then Some ''this repository requires an approving review before merge'' else None)"
| "review_verdict (v # vs) approvals = (case rv_state v of
     PRReviewChangesRequested \<Rightarrow> Some (''changes requested by '' @ rv_author v @ ''; resolve it before merging'')
   | PRReviewApproved \<Rightarrow> review_verdict vs (approvals + 1))"

definition review_gate_blocks :: "int \<Rightarrow> int \<Rightarrow> (db, string option) dbm" where
  "review_gate_blocks repo n = attempt (repo_requires_approval repo) (\<lambda>r. case r of
     Inl _ \<Rightarrow> ok (Some (''cannot verify the repo'' @ CHR 0x27 # ''s review requirement; merge refused''))
   | Inr required \<Rightarrow> if \<not> required then ok None
       else attempt (list_reviews repo n) (\<lambda>r. ok (case r of
           Inl _ \<Rightarrow> Some (''cannot verify this pull request'' @ CHR 0x27 # ''s reviews; merge refused'')
         | Inr vs \<Rightarrow> review_verdict vs 0)))"

text \<open>What the request asks: the number of the path when it is one, and the body: empty, not JSON, or a method.\<close>

datatype merge_body = NoBody | BadJSON | Method string

definition method_of :: "string \<Rightarrow> merge_method option" where
  "method_of m = (if m = ''merge'' then Some MergeCommitMethod else if m = ''ff-only'' then Some MergeFFOnlyMethod
     else if m = ''rebase'' then Some MergeRebaseMethod else None)"

datatype merge_reply = MergeRefused int string | MergeConflict "string list" | MergeDone pull_row string bool

definition pr_state_name :: "pr_state \<Rightarrow> string" where
  "pr_state_name s = (case s of PROpen \<Rightarrow> ''open'' | PRMerged \<Rightarrow> ''merged'' | PRClosed \<Rightarrow> ''closed'')"

definition merge_internal :: merge_reply where
  "merge_internal = MergeRefused 500 ''internal error''"

definition mirror_branch :: "server_env \<Rightarrow> string \<Rightarrow> 'b srv \<Rightarrow> 'b srv" where
  "mirror_branch env branch k = (\<lambda>h. k (if se_mirror env then h\<lparr>h_mirrored := branch # h_mirrored h\<rparr> else h))"

definition merge_error_text :: "merge_error \<Rightarrow> int \<times> string" where
  "merge_error_text e = (case e of
     ErrNothingToRebase \<Rightarrow> (409, ''nothing to rebase; the head branch adds only merge commits over base'')
   | ErrNotFastForward \<Rightarrow> (409, ''not fast-forwardable; use method '' @ CHR 0x22 # ''merge'' @ CHR 0x22 # '' or '' @ CHR 0x22 # ''rebase'' @ [CHR 0x22])
   | ErrBaseMoved \<Rightarrow> (409, ''base branch moved during merge; retry'')
   | ErrGit \<Rightarrow> (500, ''merge failed''))"

text \<open>From the tips on: the head may be in the base already, else the branches are merged; then the bookkeeping.\<close>

definition merge_tips ::
  "server_env \<Rightarrow> int \<Rightarrow> int \<Rightarrow> pull_row \<Rightarrow> merge_method \<Rightarrow> string \<Rightarrow> string \<Rightarrow> string \<Rightarrow> merge_reply srv" where
  "merge_tips env repo n p m base_tip head_tip who =
     (if git_is_ancestor (se_git env) head_tip base_tip
      then call (mark_merged repo n head_tip head_tip) (\<lambda>r. case r of
          Inl _ \<Rightarrow> answer (MergeRefused 500 ''failed to update PR state'')
        | Inr updated \<Rightarrow> mirror_branch env (p_base p) (close_linked_issues repo p
            (emit_pull env ''pull.merged'' repo who updated (answer (MergeDone updated base_tip True)))))
      else on_refs (do_merge (se_git env) (p_number p, p_head p, p_base p, p_title p) m base_tip head_tip who) (\<lambda>res. case res of
          MergeFailed e \<Rightarrow> answer (case merge_error_text e of (code, text) \<Rightarrow> MergeRefused code text)
        | Conflicts paths \<Rightarrow> answer (MergeConflict paths)
        | Merged new_tip ff \<Rightarrow> call (mark_merged repo n base_tip head_tip) (\<lambda>r. case r of
              Inl _ \<Rightarrow> answer (MergeRefused 500 ''merged refs but failed to update PR state'')
            | Inr updated \<Rightarrow> mirror_branch env (p_base p) (close_linked_issues repo p
                (enqueue_ref_run env repo (head_ref_name (p_base p)) new_tip ''merge'' who (\<lambda>_.
                  emit_pull env ''pull.merged'' repo who updated (answer (MergeDone updated new_tip ff))))))))"

definition merge_branches :: "server_env \<Rightarrow> int \<Rightarrow> int \<Rightarrow> pull_row \<Rightarrow> merge_method \<Rightarrow> string \<Rightarrow> merge_reply srv" where
  "merge_branches env repo n p m who =
     on_refs (branch_exists (p_base p)) (\<lambda>b. if \<not> b then answer (MergeRefused 409 (''base branch no longer exists: '' @ p_base p))
     else on_refs (branch_exists (p_head p)) (\<lambda>b. if \<not> b then answer (MergeRefused 409 (''head branch no longer exists: '' @ p_head p))
     else on_refs (rev_parse (head_ref_name (p_base p))) (\<lambda>base_tip. case base_tip of
         None \<Rightarrow> answer (MergeRefused 500 ''resolve base failed'')
       | Some base_tip \<Rightarrow> on_refs (rev_parse (head_ref_name (p_head p))) (\<lambda>head_tip. case head_tip of
           None \<Rightarrow> answer (MergeRefused 500 ''resolve head failed'')
         | Some head_tip \<Rightarrow> merge_tips env repo n p m base_tip head_tip who))))"

definition merge_pull :: "server_env \<Rightarrow> int \<Rightarrow> int \<Rightarrow> merge_method \<Rightarrow> string \<Rightarrow> merge_reply srv" where
  "merge_pull env repo n m who = call (get_pull repo n) (\<lambda>r. case r of
     Inl e \<Rightarrow> answer (if e = ErrNotFound then MergeRefused 404 ''pull request not found'' else merge_internal)
   | Inr p \<Rightarrow> if p_state p \<noteq> PROpen then answer (MergeRefused 409 (''pull request is '' @ pr_state_name (p_state p) @ '', not open''))
       else call (review_gate_blocks repo n) (\<lambda>g. case g of
           Inl _ \<Rightarrow> answer merge_internal
         | Inr (Some msg) \<Rightarrow> answer (MergeRefused 409 msg)
         | Inr None \<Rightarrow> merge_branches env repo n p m who))"

text \<open>\<open>lookupRepoOrFail\<close> and \<open>repoDirOrFail\<close>.\<close>

definition lookup_repo_or_fail :: "string \<Rightarrow> string \<Rightarrow> (int \<Rightarrow> string \<Rightarrow> 'b) \<Rightarrow> (int \<Rightarrow> 'b srv) \<Rightarrow> 'b srv" where
  "lookup_repo_or_fail owner repo refuse k =
     (let name = trim_suffix repo ''.git'' in
      call (lookup_repo owner name) (\<lambda>r. case r of
          Inl e \<Rightarrow> answer (if e = ErrNotFound then refuse 404 (not_registered owner name) else refuse 500 ''internal error'')
        | Inr rid \<Rightarrow> k rid))"

definition repo_dir_or_fail :: "server_env \<Rightarrow> string \<Rightarrow> string \<Rightarrow> (int \<Rightarrow> string \<Rightarrow> 'b) \<Rightarrow> (string list \<Rightarrow> 'b srv) \<Rightarrow> 'b srv" where
  "repo_dir_or_fail env owner repo refuse k = (case repo_path (repos_dir (se_cfg env)) owner repo of
     Inl e \<Rightarrow> answer (refuse 400 e)
   | Inr dir \<Rightarrow> if \<not> se_exists env dir then answer (refuse 404 ''repository not found on disk'') else k dir)"

definition handle_merge_pull ::
  "server_env \<Rightarrow> string \<Rightarrow> string \<Rightarrow> int option \<Rightarrow> merge_body \<Rightarrow> api_token option \<Rightarrow> merge_reply srv" where
  "handle_merge_pull env owner repo num body tok =
     (case num of None \<Rightarrow> answer (MergeRefused 400 ''invalid pull request number'') | Some n \<Rightarrow>
      if n \<le> 0 then answer (MergeRefused 400 ''invalid pull request number'')
      else (case body of BadJSON \<Rightarrow> answer (MergeRefused 400 ''invalid JSON'') | _ \<Rightarrow>
        (let name = (case body of Method m \<Rightarrow> if m = [] then ''merge'' else m | _ \<Rightarrow> ''merge'') in
         case method_of name of None \<Rightarrow> answer (MergeRefused 400 (''invalid method: '' @ name)) | Some m \<Rightarrow>
           lookup_repo_or_fail owner repo MergeRefused (\<lambda>rid.
           repo_dir_or_fail env owner repo MergeRefused (\<lambda>_.
           merge_pull env rid n m (identity_from_context tok))))))"


section \<open>The review gate\<close>

lemma callE:
  assumes "call m k h = y"
  obtains r fs d where "m (h_db h) = (r, (fs, d))" and "k r (h\<lparr>h_db := (fs, d)\<rparr>) = y"
  using assms by (cases "m (h_db h)") (auto simp: call_def)

lemma lookup_repo_reads:
  "lookup_repo owner name (fs, d) = (r, (fs', d')) \<Longrightarrow>
   d' = d \<and> (\<forall>i. r = Inr i \<longrightarrow> (\<exists>x. repo_named owner name d = Some x \<and> r_id x = i))"
  by (auto simp: lookup_repo_def dest!: query_cases split: option.splits)

lemma get_pull_reads:
  "get_pull repo n (fs, d) = (r, (fs', d')) \<Longrightarrow>
   d' = d \<and> (\<forall>p. r = Inr p \<longrightarrow> select_one (\<lambda>p. p_repo p = repo \<and> p_number p = n) (pull_requests d) = Some p)"
  by (auto simp: get_pull_def dest!: query_cases split: option.splits)

lemma review_verdict_None:
  "review_verdict vs k = None \<longleftrightarrow> (k \<noteq> 0 \<or> vs \<noteq> []) \<and> (\<forall>v \<in> set vs. rv_state v = PRReviewApproved)"
  by (induction vs arbitrary: k) (auto split: review_state.splits)

definition reviewed :: "db \<Rightarrow> int \<Rightarrow> int \<Rightarrow> bool" where
  "reviewed d repo n \<longleftrightarrow>
     (let vs = select_where (\<lambda>v. rv_repo v = repo \<and> rv_pr v = n) (pr_reviews d) in
      vs \<noteq> [] \<and> list_all (\<lambda>v. rv_state v = PRReviewApproved) vs)"

lemma sort_key_Nil_iff [simp]: "sort_key f xs = [] \<longleftrightarrow> xs = []"
  by (metis set_empty set_sort)

lemma list_reviews_reads:
  "list_reviews repo n (fs, d) = (r, (fs', d')) \<Longrightarrow>
   d' = d \<and> (\<forall>vs. r = Inr vs \<longrightarrow> (review_verdict vs 0 = None \<longleftrightarrow> reviewed d repo n))"
  by (auto simp: list_reviews_def review_verdict_None reviewed_def Let_def list_all_iff dest!: query_cases)

lemma requires_reads:
  "repo_requires_approval repo (fs, d) = (r, (fs', d')) \<Longrightarrow>
   d' = d \<and> (\<forall>b. r = Inr b \<longrightarrow> (\<exists>x. select_one (\<lambda>x. r_id x = repo) (repos d) = Some x \<and> r_require_approval x = b))"
  by (auto simp: repo_requires_approval_def dest!: query_cases split: option.splits)

lemma review_gate_reads:
  assumes "review_gate_blocks repo n (fs, d) = (r, (fs', d'))"
  shows "d' = d \<and> (r = Inr None \<longrightarrow> (\<exists>x. select_one (\<lambda>x. r_id x = repo) (repos d) = Some x \<and>
    (r_require_approval x \<longrightarrow> reviewed d repo n)))"
proof -
  obtain q gs e where q: "repo_requires_approval repo (fs, d) = (q, (gs, e))" by (metis surj_pair)
  obtain l hs u where l: "list_reviews repo n (gs, d) = (l, (hs, u))" by (metis surj_pair)
  from assms q l requires_reads [OF q] list_reviews_reads [OF l] show ?thesis
    by (auto simp: review_gate_blocks_def attempt_def split: sum.splits if_splits)
qed

text \<open>C18: The review gate fails closed: whatever statement of the database fails and whatever is pushed
  meanwhile, a merge is answered with success only for a pull request that was open, and, where the
  repository asks for approval, carried at least one review and no change request.\<close>

theorem unreviewed_merge_refused:
  assumes "handle_merge_pull env owner repo num body tok h = (MergeDone p tip ff, h')"
  shows "\<exists>r x n q. repo_named owner (trim_suffix repo ''.git'') (snd (h_db h)) = Some r \<and> num = Some n \<and>
    select_one (\<lambda>y. r_id y = r_id r) (repos (snd (h_db h))) = Some x \<and>
    select_one (\<lambda>y. p_repo y = r_id r \<and> p_number y = n) (pull_requests (snd (h_db h))) = Some q \<and> p_state q = PROpen \<and>
    (r_require_approval x \<longrightarrow> reviewed (snd (h_db h)) (r_id r) n)"
proof -
  obtain fs d where h: "h_db h = (fs, d)" by (metis surj_pair)
  from assms obtain n m where n: "num = Some n" and
    1: "lookup_repo_or_fail owner repo MergeRefused (\<lambda>rid. repo_dir_or_fail env owner repo MergeRefused
        (\<lambda>_. merge_pull env rid n m (identity_from_context tok))) h = (MergeDone p tip ff, h')"
    by (auto simp: handle_merge_pull_def answer_def Let_def split: option.splits if_splits merge_body.splits)
  from 1 obtain i gs e where l: "lookup_repo owner (trim_suffix repo ''.git'') (fs, d) = (Inr i, (gs, e))"
    and 2: "merge_pull env i n m (identity_from_context tok) (h\<lparr>h_db := (gs, e)\<rparr>) = (MergeDone p tip ff, h')"
    by (auto simp: lookup_repo_or_fail_def repo_dir_or_fail_def Let_def answer_def h elim!: callE split: sum.splits if_splits)
  from lookup_repo_reads [OF l] obtain r where e: "e = d"
    and r: "repo_named owner (trim_suffix repo ''.git'') d = Some r" "r_id r = i" by auto
  from 2 e obtain q hs u where g: "get_pull i n (gs, d) = (Inr q, (hs, u))" and q: "p_state q = PROpen"
    and 3: "call (review_gate_blocks i n) (\<lambda>g. case g of Inl _ \<Rightarrow> answer merge_internal
         | Inr (Some msg) \<Rightarrow> answer (MergeRefused 409 msg)
         | Inr None \<Rightarrow> merge_branches env i n q m (identity_from_context tok)) (h\<lparr>h_db := (hs, u)\<rparr>) = (MergeDone p tip ff, h')"
    unfolding merge_pull_def
    by (elim callE) (auto simp: answer_def merge_internal_def split: sum.splits if_splits)
  from get_pull_reads [OF g] have u: "u = d" and
    sel: "select_one (\<lambda>y. p_repo y = i \<and> p_number y = n) (pull_requests d) = Some q" by auto
  from 3 u obtain ks v where b: "review_gate_blocks i n (hs, d) = (Inr None, (ks, v))"
    by (elim callE) (auto simp: answer_def merge_internal_def split: sum.splits option.splits)
  from review_gate_reads [OF b] sel q r n h show ?thesis by auto
qed


definition demo_env :: server_env where
  "demo_env = \<lparr>se_cfg = demo_config, se_exists = (\<lambda>_. True), se_git = demo_git, se_pipeline = (\<lambda>_. None),
     se_decode = (\<lambda>_. None), se_meta = (\<lambda>_. None), se_marshal = (\<lambda>_. ''{}''), se_runner = True, se_mirror = False\<rparr>"

definition demo_issue_req :: create_issue_request where
  "demo_issue_req = \<lparr>cir_title = ''bug'', cir_body = '''', cir_author = ''ann'', cir_parent = None, cir_labels = []\<rparr>"

definition demo_reviewed :: db where
  "demo_reviewed = after (upsert_review 1 1 ''ann'' PRReviewApproved) (after (create_pull 1 (demo_pull_req\<lparr>cpr_body := ''fixes #1''\<rparr>))
     (after (create_issue 1 demo_issue_req) (after (set_repo_require_approval 1 True) (after (ensure_repo ''ann'' ''site'') (empty_db 5)))))"

definition demo_host :: host where
  "demo_host = \<lparr>h_db = ([], demo_reviewed), h_git = ([], [''refs/heads/main'' \<mapsto> ''a'', ''refs/heads/topic'' \<mapsto> ''ab'']),
     h_executing = (\<lambda>_. None), h_mirrored = []\<rparr>"

fun merge_done :: "merge_reply \<Rightarrow> bool" where
  "merge_done (MergeDone p tip ff) = True"
| "merge_done _ = False"

theorem unreviewed_merge_refused_witness:
  "\<exists>x. select_one (\<lambda>y. r_id y = 1) (repos demo_reviewed) = Some x \<and> r_require_approval x \<and> reviewed demo_reviewed 1 1 \<and>
    merge_done (fst (handle_merge_pull demo_env ''ann'' ''site.git'' (Some 1) NoBody None demo_host))"
proof -
  have success: "merge_done (fst (handle_merge_pull demo_env ''ann'' ''site.git'' (Some 1) NoBody None demo_host))"
    by code_simp
  then obtain p tip ff h' where eq: "handle_merge_pull demo_env ''ann'' ''site.git'' (Some 1) NoBody None demo_host = (MergeDone p tip ff, h')"
    by (metis merge_done.elims(2) prod.collapse)
  have n: "repo_named ''ann'' (trim_suffix ''site.git'' ''.git'') demo_reviewed = Some (hd (rows (repos demo_reviewed)))"
    "r_id (hd (rows (repos demo_reviewed))) = 1" "r_require_approval (hd (rows (repos demo_reviewed)))"
    "select_one (\<lambda>y. r_id y = 1) (repos demo_reviewed) = Some (hd (rows (repos demo_reviewed)))" by code_simp+
  have h: "snd (h_db demo_host) = demo_reviewed" by (simp add: demo_host_def)
  from unreviewed_merge_refused [OF eq] n show ?thesis unfolding h using success by auto
qed


section \<open>Which keywords close an issue\<close>

lemma digit_cases: "is_digit c \<Longrightarrow> \<exists>d \<in> set ''0123456789''. c = d"
  by (simp add: is_digit_def)

lemma closing_ref_digit: "is_digit c \<Longrightarrow> closing_ref_at (c # s) = None"
  by (auto simp: is_digit_def closing_ref_at_def closing_words_def lower_def)

lemma closing_matches_digits: "list_all is_digit s \<Longrightarrow> closing_matches prev s = []"
  by (induction s arbitrary: prev) (auto simp: closing_ref_digit)

lemma digits_dropWhile: "list_all is_digit ds \<Longrightarrow> dropWhile is_digit ds = [] \<and> takeWhile is_digit ds = ds"
  by (auto simp: list_all_iff dropWhile_eq_Nil_conv takeWhile_eq_all_conv)

lemma letters:
  "lower CHR ''c'' = CHR ''c''" "lower CHR ''l'' = CHR ''l''" "lower CHR ''o'' = CHR ''o''" "lower CHR ''s'' = CHR ''s''" "lower CHR ''e'' = CHR ''e''" "lower CHR ''d'' = CHR ''d''" "lower CHR ''f'' = CHR ''f''" "lower CHR ''i'' = CHR ''i''" "lower CHR ''x'' = CHR ''x''" "lower CHR ''r'' = CHR ''r''" "lower CHR ''v'' = CHR ''v''" "lower CHR ''u'' = CHR ''u''"
  "lower CHR ''F'' = CHR ''f''" "lower CHR '' '' = CHR '' ''" "lower CHR ''#'' = CHR ''#''"
  by code_simp+

lemma word_chars:
  "is_word CHR ''c''" "is_word CHR ''l''" "is_word CHR ''o''" "is_word CHR ''s''" "is_word CHR ''e''" "is_word CHR ''d''" "is_word CHR ''f''" "is_word CHR ''i''" "is_word CHR ''x''" "is_word CHR ''r''" "is_word CHR ''v''" "is_word CHR ''u''" "is_word CHR ''F''"
  "\<not> is_word CHR '' ''" "\<not> is_word CHR ''#''"
  by code_simp+

lemmas closing_simps = parse_closing_refs_def closing_ref_at_def closing_words_def ref_number_def is_blank_def letters word_chars

text \<open>The comment lists nine keywords; the expression takes \<open>closes\<close> and \<open>fixes\<close> but not \<open>fix\<close>, \<open>closed\<close> or
  \<open>resolved\<close>: a pull request that says \<open>fix #n\<close> is merged and leaves issue n open.\<close>

theorem closing_keywords_missed:
  assumes "list_all is_digit ds" and "ds \<noteq> []" and "digits_value ds < 9223372036854775808"
  shows "parse_closing_refs (''closes #'' @ ds) = [digits_value ds] \<and> parse_closing_refs (''Fixes #'' @ ds) = [digits_value ds] \<and>
    parse_closing_refs (''fix #'' @ ds) = [] \<and> parse_closing_refs (''closed #'' @ ds) = [] \<and>
    parse_closing_refs (''resolved #'' @ ds) = []"
  using assms(2,3) by (simp add: closing_simps closing_matches_digits [OF assms(1)] digits_dropWhile [OF assms(1)])

theorem closing_keywords_missed_witness:
  "parse_closing_refs (''closes #'' @ ''12'') = [12] \<and> parse_closing_refs (''fix #'' @ ''12'') = []"
proof -
  have "list_all is_digit ''12''" "''12'' \<noteq> []" "digits_value ''12'' < 9223372036854775808" "digits_value ''12'' = 12" by code_simp+
  from closing_keywords_missed [OF this(1-3)] this(4) show ?thesis by simp
qed


end
