(* ===== verification/MergeEffects.thy ===== *)
theory MergeEffects imports Merge IssueLocks begin

text \<open>
  What a merge leaves in the database: the pull request merged with its tips frozen, the issues it names
  closed, everything else of the issue table as it was. The lemmas push an invariant through the
  continuation-passing handlers of \<open>Merge\<close>.
\<close>

section \<open>Invariants of a handler\<close>

definition preserves :: "(db \<Rightarrow> bool) \<Rightarrow> 'b srv \<Rightarrow> bool" where
  "preserves I k \<longleftrightarrow> (\<forall>h. I (snd (h_db h)) \<longrightarrow> I (snd (h_db (snd (k h)))))"

named_theorems preserves_intros

lemma preservesD: "preserves I k \<Longrightarrow> k h = (x, h') \<Longrightarrow> I (snd (h_db h)) \<Longrightarrow> I (snd (h_db h'))"
  unfolding preserves_def by (metis snd_conv)

lemma preserves_answer [preserves_intros]: "preserves I (answer x)"
  by (simp add: preserves_def answer_def)

lemma preserves_call [preserves_intros]:
  assumes "\<And>d. I d \<Longrightarrow> keeps I d m" and "\<And>r. preserves I (k r)"
  shows "preserves I (call m k)"
  unfolding preserves_def
proof (intro allI impI)
  fix h :: host
  assume "I (snd (h_db h))"
  obtain r fs d where m: "m (fst (h_db h), snd (h_db h)) = (r, (fs, d))" by (metis surj_pair)
  with keepsD [OF assms(1) m] \<open>I (snd (h_db h))\<close> have "I d" by blast
  with m assms(2) [of r] show "I (snd (h_db (snd (call m k h))))"
    by (simp add: call_def preserves_def)
qed

lemma preserves_on_refs [preserves_intros]: "(\<And>r. preserves I (k r)) \<Longrightarrow> preserves I (on_refs m k)"
  by (simp add: preserves_def on_refs_def split: prod.splits)

lemma preserves_if [preserves_intros]: "preserves I k \<Longrightarrow> preserves I l \<Longrightarrow> preserves I (if b then k else l)"
  by simp

lemma preserves_mirror [preserves_intros]: "preserves I k \<Longrightarrow> preserves I (mirror_branch env b k)"
  by (simp add: preserves_def mirror_branch_def)

lemma preserves_cancel_runs [preserves_intros]:
  assumes "\<And>i d. I d \<Longrightarrow> keeps I d (cancel_ci_run i)" and "preserves I k"
  shows "preserves I (cancel_runs ids k)"
proof (induction ids)
  case (Cons i ids)
  from preserves_call [of I "cancel_ci_run i" "\<lambda>_. cancel_runs ids k"] assms(1) Cons
  show ?case by (simp add: preserves_def cancel_run_def)
qed (simp add: assms(2))

text \<open>What the best-effort tail of a merge runs besides closing issues.\<close>

definition tail_ops :: "(db \<Rightarrow> bool) \<Rightarrow> bool" where
  "tail_ops I \<longleftrightarrow> (\<forall>d ty repo actor payload. I d \<longrightarrow> keeps I d (append_feed_event ty repo actor payload)) \<and>
     (\<forall>d repo. I d \<longrightarrow> keeps I d (repo_ci_enabled repo)) \<and> (\<forall>d i. I d \<longrightarrow> keeps I d (cancel_ci_run i)) \<and>
     (\<forall>d repo ref. I d \<longrightarrow> keeps I d (active_ci_run_ids_for_ref repo ref)) \<and> (\<forall>d repo r. I d \<longrightarrow> keeps I d (enqueue_run repo r))"

lemma preserves_emit_pull: "tail_ops I \<Longrightarrow> preserves I k \<Longrightarrow> preserves I (emit_pull env ty repo actor p k)"
  unfolding emit_pull_def emit_def tail_ops_def by (intro preserves_call) auto

lemma preserves_enqueue:
  assumes "tail_ops I" and "\<And>r. preserves I (k r)"
  shows "preserves I (enqueue_ref_run env repo ref sha event trigger k)"
proof -
  have emitted: "preserves I (emit_run_queued env repo run (k r))" for run r
    unfolding emit_run_queued_def emit_def using assms by (intro preserves_call) (auto simp: tail_ops_def)
  have queue: "preserves I (call (enqueue_run repo (ref_run env ref sha event trigger)) (\<lambda>r. case r of
      Inl e \<Rightarrow> k (Inl e) | Inr run \<Rightarrow> emit_run_queued env repo run (k (Inr (Some run)))))"
    using assms emitted by (intro preserves_call) (auto simp: tail_ops_def split: sum.splits)
  have "preserves I (supersede env repo ref l)" if "preserves I l" for l :: "'b srv"
    unfolding supersede_def using assms(1) that
    by (intro preserves_if preserves_call) (auto simp: tail_ops_def intro: preserves_cancel_runs split: sum.splits)
  with queue assms show ?thesis
    unfolding enqueue_ref_run_def by (intro preserves_call) (auto simp: tail_ops_def split: sum.splits)
qed

text \<open>None of them touches the issues or the pull requests.\<close>

definition same_work :: "db \<Rightarrow> db \<Rightarrow> bool" where
  "same_work d0 d \<longleftrightarrow> issues d = issues d0 \<and> pull_requests d = pull_requests d0"

lemma same_work_tail: "tail_ops (same_work d0)"
  unfolding tail_ops_def
proof (intro conjI allI impI)
  fix d assume d: "same_work d0 d"
  then have d': "same_work d0 d'" if "issues d' = issues d" "pull_requests d' = pull_requests d" for d'
    using that by (simp add: same_work_def)
  show "keeps (same_work d0) d (append_feed_event ty repo actor payload)" for ty repo actor payload
    unfolding append_feed_event_def using d
    by (intro keeps_exec keeps_ok) (auto intro!: d' simp: insert_event_def insert_row_def Let_def split: if_splits option.splits)
  show "keeps (same_work d0) d (repo_ci_enabled repo)" for repo
    unfolding repo_ci_enabled_def using d by (intro keeps_inv)
  show "keeps (same_work d0) d (cancel_ci_run i)" for i
    unfolding cancel_ci_run_def using d
    by (intro keeps_exec affected_keeps) (auto intro!: d' simp: update_runs_def)
  show "keeps (same_work d0) d (active_ci_run_ids_for_ref repo ref)" for repo ref
    unfolding active_ci_run_ids_for_ref_def using d by (intro keeps_inv)
  show "keeps (same_work d0) d (enqueue_run repo r)" for repo r
    unfolding enqueue_run_def using d
    by (intro keeps_tx keeps_query keeps_exec keeps_ok)
       (auto intro!: d' simp: insert_run_def insert_row_def Let_def split: if_splits)
qed

section \<open>Closing the linked issues\<close>

definition close_row :: "int \<Rightarrow> int \<Rightarrow> db \<Rightarrow> db" where
  "close_row repo n d = d\<lparr>issues := update_where (issue_at repo n) (apply_changes issue_done (now d)) (issues d)\<rparr>"

lemma host_same: "h_db h = s \<Longrightarrow> h\<lparr>h_db := s\<rparr> = h"
  by (cases h) simp

lemma close_issues_healthy:
  "h_db h = ([], d) \<Longrightarrow> close_issues repo ns k h = k (h\<lparr>h_db := ([], fold (close_row repo) ns d)\<rparr>)"
proof (induction ns arbitrary: h d)
  case (Cons n ns)
  have "\<exists>r. update_issue repo n issue_done ([], d) = (r, ([], close_row repo n d))"
    by (auto simp: update_issue_def issue_done_def no_changes_def update_issue_row_def update_returning_def Let_def
        close_row_def split: option.splits)
  then obtain r where "update_issue repo n issue_done ([], d) = (r, ([], close_row repo n d))" ..
  with Cons show ?case by (simp add: call_def)
qed (simp add: host_same)


lemma issue_done_idem: "apply_changes issue_done t (apply_changes issue_done t r) = apply_changes issue_done t r"
  by (simp add: apply_changes_def issue_done_def)

lemma select_close_row:
  "select_issue repo k (close_row repo n d) =
    map_option (\<lambda>r. if k = n then apply_changes issue_done (now d) r else r) (select_issue repo k d)"
  using select_issue_at [of repo k d]
  by (cases "select_issue repo k d") (simp_all add: close_row_def row_simps issue_at_def)

lemma select_close_rows:
  "select_issue repo k (fold (close_row repo) ns d) =
    (if k \<in> set ns then map_option (apply_changes issue_done (now d)) (select_issue repo k d) else select_issue repo k d)"
proof (induction ns arbitrary: d)
  case (Cons n ns)
  have "now (close_row repo n d) = now d" by (simp add: close_row_def)
  with Cons [of "close_row repo n d"] show ?case
    by (cases "select_issue repo k d"; cases "k = n") (simp_all add: select_close_row issue_done_idem)
qed simp

lemma close_rows_pulls: "pull_requests (fold (close_row repo) ns d) = pull_requests d"
  by (induction ns arbitrary: d) (simp_all add: close_row_def)

section \<open>What asks to close an issue\<close>

text \<open>The expression read declaratively. A keyword may be spelled in either case, each s of it as the long s too.\<close>

definition closing_keywords :: "string list" where
  "closing_keywords = [''close'', ''closes'', ''fixe'', ''fixed'', ''fixes'', ''resolve'', ''resolves'']"

definition letter_forms :: "char \<Rightarrow> string set" where
  "letter_forms w = {[c] |c. lower c = w} \<union> (if w = CHR ''s'' then {[CHR 0xC5, CHR 0xBF]} else {})"

primrec spellings :: "string \<Rightarrow> string set" where
  "spellings [] = {[]}"
| "spellings (w # ws) = {v @ u |v u. v \<in> letter_forms w \<and> u \<in> spellings ws}"

text \<open>A reference is a keyword, blanks, a hash sign and all the digits that follow; \<open>ref_text s ds r\<close> says that
  \<open>s\<close> starts with one whose digits are \<open>ds\<close>, before \<open>r\<close>.\<close>

definition ref_text :: "string \<Rightarrow> string \<Rightarrow> string \<Rightarrow> bool" where
  "ref_text s ds r \<longleftrightarrow> (\<exists>w u bl. w \<in> set closing_keywords \<and> u \<in> spellings w \<and> bl \<noteq> [] \<and> list_all is_blank bl \<and>
     ds \<noteq> [] \<and> list_all is_digit ds \<and> (r = [] \<or> \<not> is_digit (hd r)) \<and> s = u @ bl @ CHR ''#'' # ds @ r)"

text \<open>A text asks to close issue n when a reference to it stands anywhere in it, not glued to a word.\<close>

definition asks_to_close :: "string \<Rightarrow> int \<Rightarrow> bool" where
  "asks_to_close t n \<longleftrightarrow> n < 9223372036854775808 \<and>
     (\<exists>pre s ds r. t = pre @ s \<and> (pre = [] \<or> \<not> is_word (last pre)) \<and> ref_text s ds r \<and> n = digits_value ds)"

lemma long_s: "lower CHR 0xC5 = CHR 0xC5" "lower CHR 0xBF = CHR 0xBF" "\<not> is_blank CHR 0xC5" "\<not> is_blank CHR 0xBF"
  by code_simp+

lemma letter_forms_iff: "v \<in> letter_forms w \<longleftrightarrow> (\<exists>c. v = [c] \<and> lower c = w) \<or> (w = CHR ''s'' \<and> v = [CHR 0xC5, CHR 0xBF])"
  by (auto simp: letter_forms_def)

lemma fold_word_iff: "fold_word w s = Some r \<longleftrightarrow> (\<exists>u \<in> spellings w. s = u @ r)"
proof (induction w arbitrary: s)
  case (Cons w ws)
  have "fold_word (w # ws) s = Some r \<longleftrightarrow> (\<exists>v \<in> letter_forms w. \<exists>t. s = v @ t \<and> fold_word ws t = Some r)"
  proof (cases s)
    case (Cons c t)
    have 1: "fold_word (w # ws) s = Some r \<longleftrightarrow> (lower c = w \<and> fold_word ws t = Some r) \<or>
        (lower c \<noteq> w \<and> w = CHR ''s'' \<and> c = CHR 0xC5 \<and> take 1 t = [CHR 0xBF] \<and> fold_word ws (drop 1 t) = Some r)"
      using Cons by simp blast
    have 2: "(\<exists>v \<in> letter_forms w. \<exists>t'. s = v @ t' \<and> fold_word ws t' = Some r) \<longleftrightarrow> (lower c = w \<and> fold_word ws t = Some r) \<or>
        (\<exists>t'. w = CHR ''s'' \<and> c = CHR 0xC5 \<and> t = CHR 0xBF # t' \<and> fold_word ws t' = Some r)"
      unfolding Bex_def letter_forms_iff using Cons by auto
    have 3: "take 1 t = [CHR 0xBF] \<and> P (drop 1 t) \<longleftrightarrow> (\<exists>t'. t = CHR 0xBF # t' \<and> P t')" for P
      by (cases t) simp_all
    have "CHR 0xC5 \<noteq> CHR ''s''" by simp
    then show ?thesis unfolding 1 2 using long_s(1) 3 [of "\<lambda>t. fold_word ws t = Some r"] by metis
  qed (auto simp: letter_forms_iff)
  also have "\<dots> \<longleftrightarrow> (\<exists>v \<in> letter_forms w. \<exists>t. \<exists>u \<in> spellings ws. s = v @ t \<and> t = u @ r)"
    unfolding Cons by blast
  also have "\<dots> \<longleftrightarrow> (\<exists>v \<in> letter_forms w. \<exists>u \<in> spellings ws. s = (v @ u) @ r)" unfolding append_assoc by blast
  also have "\<dots> \<longleftrightarrow> (\<exists>u \<in> spellings (w # ws). s = u @ r)" unfolding spellings.simps by blast
  finally show ?case .
qed auto

lemma takeWhile_prefix: "list_all P ds \<Longrightarrow> r = [] \<or> \<not> P (hd r) \<Longrightarrow> takeWhile P (ds @ r) = ds \<and> dropWhile P (ds @ r) = r"
  by (induction ds) (cases r; auto)+

lemma ref_number_iff:
  "ref_number s = Some (ds, r) \<longleftrightarrow> (\<exists>bl. bl \<noteq> [] \<and> list_all is_blank bl \<and> ds \<noteq> [] \<and> list_all is_digit ds \<and>
    (r = [] \<or> \<not> is_digit (hd r)) \<and> s = bl @ CHR ''#'' # ds @ r)"
proof
  assume a: "ref_number s = Some (ds, r)"
  then obtain c s' t where s: "s = c # s'" "is_blank c" "dropWhile is_blank s = CHR ''#'' # t"
    and t: "takeWhile is_digit t = ds" "dropWhile is_digit t = r" "ds \<noteq> []"
    by (auto simp: ref_number_def split: list.splits if_splits)
  have "s = takeWhile is_blank s @ CHR ''#'' # ds @ r" using s(3) t by (metis takeWhile_dropWhile_id)
  moreover have "list_all is_blank (takeWhile is_blank s)" "takeWhile is_blank s \<noteq> []" "list_all is_digit ds"
    using s t(1) by (auto simp: list_all_iff dest: set_takeWhileD)
  moreover have "r = [] \<or> \<not> is_digit (hd r)" using t(2) by (metis hd_dropWhile)
  ultimately show "\<exists>bl. bl \<noteq> [] \<and> list_all is_blank bl \<and> ds \<noteq> [] \<and> list_all is_digit ds \<and>
    (r = [] \<or> \<not> is_digit (hd r)) \<and> s = bl @ CHR ''#'' # ds @ r" using t(3) by blast
next
  assume "\<exists>bl. bl \<noteq> [] \<and> list_all is_blank bl \<and> ds \<noteq> [] \<and> list_all is_digit ds \<and>
    (r = [] \<or> \<not> is_digit (hd r)) \<and> s = bl @ CHR ''#'' # ds @ r"
  then obtain bl where bl: "bl \<noteq> []" "list_all is_blank bl" and ds: "ds \<noteq> []" "list_all is_digit ds" "r = [] \<or> \<not> is_digit (hd r)"
    and s: "s = bl @ CHR ''#'' # ds @ r" by blast
  have "\<not> is_blank CHR ''#''" by code_simp
  then have "dropWhile is_blank s = CHR ''#'' # ds @ r"
    using takeWhile_prefix [OF bl(2), of "CHR ''#'' # ds @ r"] s by simp
  with bl s takeWhile_prefix [OF ds(2,3)] ds(1) show "ref_number s = Some (ds, r)"
    by (cases bl) (simp_all add: ref_number_def)
qed

lemma ref_text_iff: "ref_text s ds r \<longleftrightarrow> (\<exists>w \<in> set closing_words. Option.bind (fold_word w s) ref_number = Some (ds, r))"
proof -
  have "set closing_keywords = set closing_words" by (auto simp: closing_keywords_def closing_words_def)
  then show ?thesis
    by (simp add: ref_text_def bind_eq_Some_conv fold_word_iff ref_number_iff) blast
qed

lemma spelling_set: "u \<in> spellings w \<Longrightarrow> x \<in> set u \<Longrightarrow> lower x \<in> set w \<or> x = CHR 0xC5 \<or> x = CHR 0xBF"
  by (induction w arbitrary: u) (auto simp: letter_forms_def split: if_splits)

lemma spelling_chars:
  assumes "w \<in> set closing_keywords" and "u \<in> spellings w"
  shows "u \<noteq> [] \<and> lower (hd u) \<in> set ''cfr'' \<and> (\<forall>x \<in> set (tl u). lower x \<notin> set ''cfr'')" and "\<forall>x \<in> set u. \<not> is_blank x"
proof -
  from assms(1) have w: "w \<noteq> []" "hd w \<in> set ''cfr''" "set (tl w) \<inter> set ''cfr'' = {}" "set w \<subseteq> set ''clofixedrsv''"
    by (auto simp: closing_keywords_def)
  then obtain v us where u: "u = v @ us" "v \<in> letter_forms (hd w)" "us \<in> spellings (tl w)"
    using assms(2) by (cases w) auto
  then obtain c where c: "v = [c]" "lower c = hd w" using w(2) by (auto simp: letter_forms_def)
  show "u \<noteq> [] \<and> lower (hd u) \<in> set ''cfr'' \<and> (\<forall>x \<in> set (tl u). lower x \<notin> set ''cfr'')"
  proof -
    have "CHR 0xC5 \<notin> set ''cfr''" "CHR 0xBF \<notin> set ''cfr''" by simp_all
    then have "lower x \<notin> set ''cfr''" if "x \<in> set us" for x
      using spelling_set [OF u(3) that] w(3) long_s(1,2) by (metis disjoint_iff)
    then show ?thesis using u(1) c w(2) by simp
  qed
  have "\<not> is_blank x" if "lower x \<in> set ''clofixedrsv''" for x
    using that by (auto simp: is_blank_def lower_def)
  then show "\<forall>x \<in> set u. \<not> is_blank x"
    using spelling_set [OF assms(2)] w(4) long_s(3,4) by blast
qed

lemma ref_text_unique:
  assumes "ref_text s ds r" and "ref_text s ds' r'" shows "ds' = ds \<and> r' = r"
proof -
  have "ref_number (dropWhile (\<lambda>x. \<not> is_blank x) s) = Some (es, t)" if "ref_text s es t" for es t
  proof -
    from that obtain w u bl where w: "w \<in> set closing_keywords" "u \<in> spellings w" and bl: "bl \<noteq> []" "list_all is_blank bl"
      and es: "es \<noteq> []" "list_all is_digit es" "t = [] \<or> \<not> is_digit (hd t)" and s: "s = u @ bl @ CHR ''#'' # es @ t"
      unfolding ref_text_def by blast
    have "list_all (\<lambda>x. \<not> is_blank x) u" using spelling_chars(2) [OF w] by (simp add: list_all_iff)
    moreover have "is_blank (hd (bl @ CHR ''#'' # es @ t))" using bl by (cases bl) simp_all
    ultimately have "dropWhile (\<lambda>x. \<not> is_blank x) s = bl @ CHR ''#'' # es @ t"
      using takeWhile_prefix [of "\<lambda>x. \<not> is_blank x" u "bl @ CHR ''#'' # es @ t"] s by simp
    then show ?thesis using bl es ref_number_iff by blast
  qed
  from this [OF assms(1)] this [OF assms(2)] show ?thesis by simp
qed

lemma closing_ref_iff: "closing_ref_at s = Some (ds, r) \<longleftrightarrow> ref_text s ds r"
proof
  show "closing_ref_at s = Some (ds, r) \<Longrightarrow> ref_text s ds r" using closing_ref_word ref_text_iff by blast
next
  assume r: "ref_text s ds r"
  have "fold (\<lambda>w found. case found of Some x \<Rightarrow> Some x | None \<Rightarrow> Option.bind (fold_word w s) ref_number) ws y \<noteq> None"
    if "y \<noteq> None \<or> (\<exists>w \<in> set ws. Option.bind (fold_word w s) ref_number \<noteq> None)" for ws y
    using that
  proof (induction ws arbitrary: y)
    case (Cons w ws)
    have "(case y of Some x \<Rightarrow> Some x | None \<Rightarrow> Option.bind (fold_word w s) ref_number) \<noteq> None \<or>
        (\<exists>w \<in> set ws. Option.bind (fold_word w s) ref_number \<noteq> None)"
      using Cons.prems by (cases y) (simp_all del: not_None_eq)
    from Cons.IH [OF this] show ?case by simp
  qed simp
  moreover have "\<exists>w \<in> set closing_words. Option.bind (fold_word w s) ref_number \<noteq> None" using r unfolding ref_text_iff by force
  ultimately have "closing_ref_at s \<noteq> None" unfolding closing_ref_at_def by blast
  then obtain es t where e: "closing_ref_at s = Some (es, t)" by force
  from closing_ref_word [OF this] have "ref_text s es t" unfolding ref_text_iff .
  with e ref_text_unique [OF r] show "closing_ref_at s = Some (ds, r)" by blast
qed

text \<open>References do not overlap: inside one no other starts.\<close>

lemma ref_text_apart:
  assumes "ref_text s ds r" and "s = pre @ s'" and "pre \<noteq> []" and "\<not> is_word (last pre)" and "ref_text s' ds' r'"
  shows "\<exists>pre'. r = pre' @ s' \<and> pre' \<noteq> [] \<and> last pre' = last pre"
proof -
  from assms(1) obtain w u bl where w: "w \<in> set closing_keywords" "u \<in> spellings w" and "list_all is_blank bl"
    and ds: "ds \<noteq> []" "list_all is_digit ds" and s: "s = u @ bl @ CHR ''#'' # ds @ r"
    unfolding ref_text_def by blast
  obtain m where m: "m = u @ bl @ CHR ''#'' # ds" by blast
  have other: "lower x \<notin> set ''cfr''" if "is_blank x \<or> x = CHR ''#'' \<or> is_digit x" for x
    using that by (auto simp: is_blank_def is_digit_def lower_def)
  then have inner: "\<forall>x \<in> set (tl m). lower x \<notin> set ''cfr''"
  proof -
    have "tl m = tl u @ bl @ CHR ''#'' # ds" using spelling_chars(1) [OF w] unfolding m by (cases u) simp_all
    then have "set (tl m) = set (tl u) \<union> set bl \<union> {CHR ''#''} \<union> set ds" by auto
    moreover have "\<forall>x \<in> set (tl u). lower x \<notin> set ''cfr''" using spelling_chars(1) [OF w] by blast
    moreover have "\<forall>x \<in> set bl. is_blank x" "\<forall>x \<in> set ds. is_digit x" using \<open>list_all is_blank bl\<close> ds(2) unfolding list_all_iff .
    ultimately show ?thesis using other by (metis Un_iff singletonD)
  qed
  have last: "is_word (last m)" using ds unfolding m list_all_iff is_word_def by simp
  have start: "s' \<noteq> [] \<and> lower (hd s') \<in> set ''cfr''"
    using assms(5) spelling_chars(1) unfolding ref_text_def by (metis append_is_Nil_conv hd_append2)
  have "m @ r = pre @ s'" using s assms(2) m by simp
  then consider us where "m = pre @ us" "us @ r = s'" "us \<noteq> []" | us where "m @ us = pre" "r = us @ s'"
    by (metis append_Nil2 append_eq_append_conv2 self_append_conv2)
  then show ?thesis
  proof cases
    case (1 us)
    then have "hd us \<in> set (tl m)" "hd us = hd s'" using assms(3) by (cases pre; auto)+
    with inner start show ?thesis by metis
  next
    case (2 us)
    with last assms(4) have "us \<noteq> []" by auto
    with 2 show ?thesis by (metis last_append)
  qed
qed

lemma closing_matches_iff:
  "ds \<in> set (closing_matches prev t) \<longleftrightarrow>
   (\<exists>pre s r. t = pre @ s \<and> (if pre = [] then \<not> prev else \<not> is_word (last pre)) \<and> ref_text s ds r)"
proof (induction prev t rule: closing_matches.induct)
  case (1 prev)
  show ?case by (auto simp: ref_text_def)
next
  case (2 prev c s)
  show ?case
  proof (cases "\<not> prev \<and> closing_ref_at (c # s) \<noteq> None")
    case True
    then obtain es r where e: "closing_ref_at (c # s) = Some (es, r)" "ref_text (c # s) es r"
      using closing_ref_iff by (metis option.exhaust surj_pair)
    from e(2) obtain u bl where "c # s = u @ bl @ CHR ''#'' # es @ r" unfolding ref_text_def by blast
    then have "c # s = (u @ bl @ CHR ''#'' # es) @ r" by simp
    then obtain m where m: "c # s = m @ r" by blast
    have "ds \<in> set (closing_matches prev (c # s)) \<longleftrightarrow>
        ds = es \<or> (\<exists>pre t r'. r = pre @ t \<and> pre \<noteq> [] \<and> \<not> is_word (last pre) \<and> ref_text t ds r')"
      using True e(1) 2(2) [OF _ refl] by (auto split: if_splits)
    also have "\<dots> \<longleftrightarrow> (\<exists>pre t r'. c # s = pre @ t \<and> (if pre = [] then \<not> prev else \<not> is_word (last pre)) \<and> ref_text t ds r')"
    proof
      assume "ds = es \<or> (\<exists>pre t r'. r = pre @ t \<and> pre \<noteq> [] \<and> \<not> is_word (last pre) \<and> ref_text t ds r')"
      then show "\<exists>pre t r'. c # s = pre @ t \<and> (if pre = [] then \<not> prev else \<not> is_word (last pre)) \<and> ref_text t ds r'"
      proof
        assume "ds = es"
        with True e(2) have "c # s = [] @ c # s \<and> (if [] = [] then \<not> prev else \<not> is_word (last [])) \<and> ref_text (c # s) ds r" by simp
        then show ?thesis by blast
      next
        assume "\<exists>pre t r'. r = pre @ t \<and> pre \<noteq> [] \<and> \<not> is_word (last pre) \<and> ref_text t ds r'"
        then obtain pre t r' where "r = pre @ t" "pre \<noteq> []" "\<not> is_word (last pre)" "ref_text t ds r'" by blast
        with m have "c # s = (m @ pre) @ t \<and> (if m @ pre = [] then \<not> prev else \<not> is_word (last (m @ pre))) \<and> ref_text t ds r'" by simp
        then show ?thesis by blast
      qed
    next
      assume "\<exists>pre t r'. c # s = pre @ t \<and> (if pre = [] then \<not> prev else \<not> is_word (last pre)) \<and> ref_text t ds r'"
      then obtain pre t r' where p: "c # s = pre @ t" "if pre = [] then \<not> prev else \<not> is_word (last pre)" "ref_text t ds r'" by blast
      show "ds = es \<or> (\<exists>pre t r'. r = pre @ t \<and> pre \<noteq> [] \<and> \<not> is_word (last pre) \<and> ref_text t ds r')"
      proof (cases "pre = []")
        case True
        with p e(2) ref_text_unique show ?thesis by auto
      next
        case False
        with p ref_text_apart [OF e(2) p(1) _ _ p(3)] show ?thesis by auto metis
      qed
    qed
    finally show ?thesis .
  next
    case False
    then have none: "(if prev then None else closing_ref_at (c # s)) = None" by (cases "closing_ref_at (c # s)") auto
    have "\<not> (\<not> prev \<and> ref_text (c # s) ds r)" for r using False closing_ref_iff by auto
    then have whole: "pre \<noteq> []" if "c # s = pre @ t" "if pre = [] then \<not> prev else \<not> is_word (last pre)" "ref_text t ds r" for pre t r
      using that by (cases pre) simp_all
    have "(\<exists>pre t r. c # s = pre @ t \<and> (if pre = [] then \<not> prev else \<not> is_word (last pre)) \<and> ref_text t ds r) \<longleftrightarrow>
        (\<exists>pre t r. s = pre @ t \<and> \<not> is_word (last (c # pre)) \<and> ref_text t ds r)"
    proof
      assume "\<exists>pre t r. c # s = pre @ t \<and> (if pre = [] then \<not> prev else \<not> is_word (last pre)) \<and> ref_text t ds r"
      then obtain pre t r where p: "c # s = pre @ t" "if pre = [] then \<not> prev else \<not> is_word (last pre)" "ref_text t ds r" by blast
      with whole [OF p] obtain pre' where "pre = c # pre'" "s = pre' @ t" by (cases pre) simp_all
      with p(2,3) have "s = pre' @ t \<and> \<not> is_word (last (c # pre')) \<and> ref_text t ds r" by simp
      then show "\<exists>pre t r. s = pre @ t \<and> \<not> is_word (last (c # pre)) \<and> ref_text t ds r" by blast
    next
      assume "\<exists>pre t r. s = pre @ t \<and> \<not> is_word (last (c # pre)) \<and> ref_text t ds r"
      then obtain pre t r where "s = pre @ t" "\<not> is_word (last (c # pre))" "ref_text t ds r" by blast
      then have "c # s = (c # pre) @ t \<and> (if c # pre = [] then \<not> prev else \<not> is_word (last (c # pre))) \<and> ref_text t ds r" by simp
      then show "\<exists>pre t r. c # s = pre @ t \<and> (if pre = [] then \<not> prev else \<not> is_word (last pre)) \<and> ref_text t ds r" by blast
    qed
    also have "\<dots> \<longleftrightarrow> (\<exists>pre t r. s = pre @ t \<and> (if pre = [] then \<not> is_word c else \<not> is_word (last pre)) \<and> ref_text t ds r)"
      by (auto split: if_splits)
    finally show ?thesis using 2(1) [OF none] none by simp
  qed
qed

lemma closing_refs_iff: "n \<in> set (parse_closing_refs t) \<longleftrightarrow> asks_to_close t n"
proof -
  have "n \<in> set (parse_closing_refs t) \<longleftrightarrow> n < 9223372036854775808 \<and> (\<exists>ds. ds \<in> set (closing_matches False t) \<and> n = digits_value ds)"
    unfolding parse_closing_refs_def by auto
  also have "\<dots> \<longleftrightarrow> asks_to_close t n"
  proof -
    have "(if pre = [] then \<not> False else \<not> is_word (last pre)) \<longleftrightarrow> pre = [] \<or> \<not> is_word (last pre)" for pre :: string by simp
    then show ?thesis unfolding closing_matches_iff asks_to_close_def by blast
  qed
  finally show ?thesis .
qed

section \<open>The effect of a merge\<close>

lemma mark_merged_found:
  assumes "mark_merged repo n b hd' ([], d) = (Inr p, ([], d'))"
  shows "select_one (\<lambda>p. p_repo p = repo \<and> p_number p = n) (pull_requests d') = Some p \<and> issues d' = issues d \<and>
    now d' = now d \<and> p_state p = PRMerged \<and> p_merge_base p = Some b \<and> p_merge_head p = Some hd' \<and>
    (\<forall>q. select_one (\<lambda>p. p_repo p = repo \<and> p_number p = n) (pull_requests d) = Some q \<longrightarrow>
      p_title p = p_title q \<and> p_body p = p_body q \<and> p_base p = p_base q \<and> p_head p = p_head q)"
proof -
  let ?P = "\<lambda>p. p_repo p = repo \<and> p_number p = n" and ?f = "merged_at b hd' (now d)"
  from assms obtain q where q: "find ?P (rows (pull_requests d)) = Some q" "p = ?f q"
    and d': "d' = d\<lparr>pull_requests := update_where ?P ?f (pull_requests d)\<rparr>"
    by (auto simp: mark_merged_def update_pull_row_def update_returning_def Let_def split: option.splits)
  have "find ?P (map (\<lambda>r. if ?P r then ?f r else r) (rows (pull_requests d))) = map_option (\<lambda>r. if ?P r then ?f r else r) (Some q)"
    using find_map_keep [of ?P "\<lambda>r. if ?P r then ?f r else r" "rows (pull_requests d)"] q(1) by simp
  with q d' find_SomeD [OF q(1)] show ?thesis
    by (simp add: select_one_def row_simps merged_at_def)
qed

lemma tail_effect:
  assumes "close_linked_issues repo q k h = (x, h')" and "h_db h = ([], d)" and "\<And>d0. preserves (same_work d0) k"
  shows "same_work (fold (close_row repo) (parse_closing_refs (p_title q @ '' '' @ p_body q)) d) (snd (h_db h'))"
proof -
  let ?d = "fold (close_row repo) (parse_closing_refs (p_title q @ '' '' @ p_body q)) d"
  have "k (h\<lparr>h_db := ([], ?d)\<rparr>) = (x, h')"
    using assms(1) unfolding close_linked_issues_def close_issues_healthy [OF assms(2)] .
  from preservesD [OF assms(3) this, of ?d] show ?thesis by (simp add: same_work_def)
qed

lemma landed:
  assumes "close_linked_issues repo q k h = (x, h')" and "h_db h = ([], d1)" and "\<And>d0. preserves (same_work d0) k"
    and "mark_merged repo n b t ([], d) = (Inr p, ([], d1))"
    and "select_one (\<lambda>p. p_repo p = repo \<and> p_number p = n) (pull_requests d) = Some q"
  shows "select_one (\<lambda>p. p_repo p = repo \<and> p_number p = n) (pull_requests (snd (h_db h'))) = Some p \<and> p_state p = PRMerged \<and>
    p_merge_base p = Some b \<and> p_merge_head p = Some t \<and> p_base p = p_base q \<and> p_head p = p_head q \<and>
    select_issue repo k' (snd (h_db h')) = (if k' \<in> set (parse_closing_refs (p_title p @ '' '' @ p_body p))
      then map_option (apply_changes issue_done (now d)) (select_issue repo k' d) else select_issue repo k' d)"
proof -
  from mark_merged_found [OF assms(4)] assms(5)
  have p: "select_one (\<lambda>p. p_repo p = repo \<and> p_number p = n) (pull_requests d1) = Some p" "issues d1 = issues d"
    "now d1 = now d" "p_state p = PRMerged" "p_merge_base p = Some b" "p_merge_head p = Some t"
    "p_title p = p_title q" "p_body p = p_body q" "p_base p = p_base q" "p_head p = p_head q" by auto
  have sel: "select_issue repo k' e = select_issue repo k' e'" if "issues e = issues e'" for e e'
    using that by (simp add: select_issue_def)
  from tail_effect [OF assms(1-3)] p show ?thesis
    by (simp add: same_work_def close_rows_pulls sel [of "snd (h_db h')"] select_close_rows sel [of d1 d])
qed


lemma mirror_cases: "mirror_branch env b k h = y \<Longrightarrow> \<exists>h3. h_db h3 = h_db h \<and> k h3 = y"
  by (auto simp: mirror_branch_def split: if_splits intro: exI [of _ "h\<lparr>h_mirrored := b # h_mirrored h\<rparr>"])

lemma mark_merged_healthy: "\<exists>r d'. mark_merged repo n b t ([], d) = (r, ([], d'))"
  by (cases "find (\<lambda>p. p_repo p = repo \<and> p_number p = n) (rows (pull_requests d))")
     (auto simp: mark_merged_def update_pull_row_def update_returning_def Let_def)

lemma merged_call:
  assumes "call (mark_merged repo n b t) (\<lambda>r. case r of Inl e \<Rightarrow> answer (MergeRefused 500 s)
      | Inr u \<Rightarrow> mirror_branch env x (close_linked_issues repo q (k u))) h = (MergeDone p tip ff, h')"
    and "h_db h = ([], d)" and "\<And>u d0. preserves (same_work d0) (k u)"
    and "\<And>u h'' y. k u h'' = (y, h') \<Longrightarrow> \<exists>tip ff. y = MergeDone u tip ff"
    and "select_one (\<lambda>p. p_repo p = repo \<and> p_number p = n) (pull_requests d) = Some q"
  shows "select_one (\<lambda>p. p_repo p = repo \<and> p_number p = n) (pull_requests (snd (h_db h'))) = Some p \<and> p_state p = PRMerged \<and>
    p_merge_base p = Some b \<and> p_merge_head p = Some t \<and> p_base p = p_base q \<and> p_head p = p_head q \<and>
    select_issue repo k' (snd (h_db h')) = (if k' \<in> set (parse_closing_refs (p_title p @ '' '' @ p_body p))
      then map_option (apply_changes issue_done (now d)) (select_issue repo k' d) else select_issue repo k' d)"
proof -
  obtain r d1 where m: "mark_merged repo n b t ([], d) = (r, ([], d1))"
    using mark_merged_healthy by blast
  with assms(1,2) obtain u where u: "r = Inr u"
    and 1: "mirror_branch env x (close_linked_issues repo q (k u)) (h\<lparr>h_db := ([], d1)\<rparr>) = (MergeDone p tip ff, h')"
    by (auto simp: call_def answer_def split: sum.splits)
  from mirror_cases [OF 1] obtain h3 where h3: "h_db h3 = ([], d1)"
    and 2: "close_linked_issues repo q (k u) h3 = (MergeDone p tip ff, h')" by auto
  have "k u (h3\<lparr>h_db := ([], fold (close_row repo) (parse_closing_refs (p_title q @ '' '' @ p_body q)) d1)\<rparr>) = (MergeDone p tip ff, h')"
    using 2 unfolding close_linked_issues_def close_issues_healthy [OF h3] .
  with assms(4) have "u = p" by blast
  with landed [OF 2 h3 assms(3) _ assms(5)] m u show ?thesis by blast
qed

lemma emit_pull_answer: "emit_pull env ty repo who u (answer x) h = (y, h') \<Longrightarrow> y = x"
  by (auto simp: emit_pull_def emit_def answer_def elim!: callE)

lemma cancel_runs_cases: "cancel_runs ids k h = y \<Longrightarrow> \<exists>h. k h = y"
  by (induction ids arbitrary: h) (auto simp: cancel_run_def call_def split: if_splits prod.splits)

lemma supersede_cases: "supersede env repo r k h = y \<Longrightarrow> \<exists>h. k h = y"
  by (auto simp: supersede_def call_def intro: cancel_runs_cases [OF refl] split: if_splits prod.splits sum.splits)

lemma enqueue_emit_answer:
  assumes "enqueue_ref_run env repo r s e who (\<lambda>_. emit_pull env ty repo who u (answer x)) h = (y, h')" shows "y = x"
proof -
  let ?k = "emit_pull env ty repo who u (answer x)"

  have "\<exists>h. ?k h = (y, h')"
    using assms by (auto simp: enqueue_ref_run_def emit_run_queued_def emit_def call_def dest!: supersede_cases
      split: prod.splits sum.splits if_splits)
  then show ?thesis by (auto dest: emit_pull_answer)
qed

text \<open>The refs as the merge's \<open>k\<close>-th look at the repository finds them, after the pushes that arrived till then.\<close>

definition refs_seen :: "nat \<Rightarrow> world \<Rightarrow> refs" where
  "refs_seen k w = snd (((\<lambda>w. snd (arrive w)) ^^ k) w)"

lemma refs_seen_tips:
  assumes "branch_exists b w = (x1, w1)" and "branch_exists t w1 = (x2, w2)"
    and "rev_parse rb w2 = (Some bt, w3)" and "rev_parse rt w3 = (Some ht, w4)"
  shows "refs_seen 3 w rb = Some bt \<and> refs_seen 4 w rt = Some ht"
  using assms by (auto simp: refs_seen_def numeral_eq_Suc branch_exists_def rev_parse_def split: prod.splits if_splits)

text \<open>C19: On a healthy engine a merge that is answered with success leaves the pull request merged and in the
  answer, with its frozen tips set to what the base and head branches pointed at when the merge resolved them
  (whatever was pushed before and after), or both to the head's when the base already contained it. Every existing
  issue of the repository to which title or body refer with close, closes, fixe, fixed, fixes, resolve or resolves,
  in any case, blanks, a hash sign and its number (the expression of \<open>merge.go\<close>; the words fix, closed and resolved of
  the comment above it are not in it) is done, and no other issue of the repository has changed.\<close>

theorem merge_closes_linked_issues:
  assumes "merge_pull env repo n m who h = (MergeDone p tip ff, h')" and "h_db h = ([], d)"
  shows "select_one (\<lambda>p. p_repo p = repo \<and> p_number p = n) (pull_requests (snd (h_db h'))) = Some p \<and>
    p_state p = PRMerged \<and>
    (\<exists>bt ht. refs_seen 3 (h_git h) (head_ref_name (p_base p)) = Some bt \<and> refs_seen 4 (h_git h) (head_ref_name (p_head p)) = Some ht \<and>
      p_merge_base p = Some (if git_is_ancestor (se_git env) ht bt then ht else bt) \<and> p_merge_head p = Some ht) \<and>
    select_issue repo k (snd (h_db h')) = (if asks_to_close (p_title p @ '' '' @ p_body p) k
      then map_option (\<lambda>i. i\<lparr>i_state := IssueDone, i_updated := now d\<rparr>) (select_issue repo k d) else select_issue repo k d)"
proof -
  have gate: "\<exists>g. review_gate_blocks repo n ([], d) = (Inr g, ([], d))"
    by (auto simp: review_gate_blocks_def attempt_def repo_requires_approval_def list_reviews_def split: option.splits)
  have same: "apply_changes issue_done (now d) = (\<lambda>i. i\<lparr>i_state := IssueDone, i_updated := now d\<rparr>)"
    by (simp add: apply_changes_def issue_done_def fun_eq_iff)
  from assms obtain q h1 where q: "select_one (\<lambda>p. p_repo p = repo \<and> p_number p = n) (pull_requests d) = Some q"
    and h1: "merge_branches env repo n q m who h1 = (MergeDone p tip ff, h')" "h_db h1 = ([], d)" "h_git h1 = h_git h"
    using gate
    by (fastforce simp: merge_pull_def call_def get_pull_def answer_def merge_internal_def split: option.splits if_splits)
  from h1 obtain bt ht h2 x1 w1 x2 w2 w3 w4 where h2: "merge_tips env repo n q m bt ht who h2 = (MergeDone p tip ff, h')" "h_db h2 = ([], d)"
    and w: "branch_exists (p_base q) (h_git h) = (x1, w1)" "branch_exists (p_head q) w1 = (x2, w2)"
      "rev_parse (head_ref_name (p_base q)) w2 = (Some bt, w3)" "rev_parse (head_ref_name (p_head q)) w3 = (Some ht, w4)"
    by (auto simp: merge_branches_def on_refs_def answer_def split: prod.splits if_splits option.splits)
  note tips = refs_seen_tips [OF w]
  let ?emit = "emit_pull env ''pull.merged'' repo who"
  have tails: "preserves (same_work d0) (?emit u (answer (MergeDone u x f)))"
      "preserves (same_work d0) (enqueue_ref_run env repo r x e who (\<lambda>_. ?emit u (answer (MergeDone u y f))))" for d0 u x y f r e
    by (intro preserves_enqueue preserves_emit_pull preserves_answer same_work_tail)+
  have "select_one (\<lambda>p. p_repo p = repo \<and> p_number p = n) (pull_requests (snd (h_db h'))) = Some p \<and> p_state p = PRMerged \<and>
    p_merge_base p = Some (if git_is_ancestor (se_git env) ht bt then ht else bt) \<and> p_merge_head p = Some ht \<and>
    p_base p = p_base q \<and> p_head p = p_head q \<and>
    select_issue repo k (snd (h_db h')) = (if k \<in> set (parse_closing_refs (p_title p @ '' '' @ p_body p))
      then map_option (apply_changes issue_done (now d)) (select_issue repo k d) else select_issue repo k d)"
  proof (cases "git_is_ancestor (se_git env) ht bt")
    case True
    with h2(1) have "call (mark_merged repo n ht ht) (\<lambda>r. case r of Inl e \<Rightarrow> answer (MergeRefused 500 ''failed to update PR state'')
      | Inr u \<Rightarrow> mirror_branch env (p_base q) (close_linked_issues repo q (?emit u (answer (MergeDone u bt True))))) h2 = (MergeDone p tip ff, h')"
      by (simp add: merge_tips_def)
    note merged = merged_call [OF this h2(2) tails(1) _ q]
    show ?thesis unfolding if_P [OF True] by (rule merged) (fast dest: emit_pull_answer)
  next
    case False
    with h2 obtain nt f h3 where
      "call (mark_merged repo n bt ht) (\<lambda>r. case r of Inl e \<Rightarrow> answer (MergeRefused 500 ''merged refs but failed to update PR state'')
      | Inr u \<Rightarrow> mirror_branch env (p_base q) (close_linked_issues repo q (enqueue_ref_run env repo (head_ref_name (p_base q)) nt ''merge'' who
          (\<lambda>_. ?emit u (answer (MergeDone u nt f)))))) h3 = (MergeDone p tip ff, h')" "h_db h3 = ([], d)"
      by (auto simp: merge_tips_def on_refs_def answer_def split: prod.splits merge_result.splits)
    note merged = merged_call [OF this tails(2) _ q]
    show ?thesis unfolding if_not_P [OF False] by (rule merged) (fast dest: enqueue_emit_answer)
  qed
  with tips show ?thesis unfolding same closing_refs_iff by auto
qed


theorem merge_closes_linked_issues_witness:
  "\<exists>p tip ff h'. merge_pull demo_env 1 1 MergeCommitMethod ''ann'' demo_host = (MergeDone p tip ff, h') \<and>
    p_state p = PRMerged \<and> p_merge_base p = Some ''a'' \<and> p_merge_head p = Some ''ab'' \<and>
    map_option i_state (select_issue 1 1 (snd (h_db h'))) = Some IssueDone"
proof -
  have "merge_done (fst (merge_pull demo_env 1 1 MergeCommitMethod ''ann'' demo_host))" by code_simp
  then obtain p tip ff h' where eq: "merge_pull demo_env 1 1 MergeCommitMethod ''ann'' demo_host = (MergeDone p tip ff, h')"
    by (metis merge_done.elims(2) prod.collapse)
  have db: "h_db demo_host = ([], demo_reviewed)" by (simp add: demo_host_def)
  have "(case merge_pull demo_env 1 1 MergeCommitMethod ''ann'' demo_host of
      (MergeDone p tip ff, h') \<Rightarrow> 1 \<in> set (parse_closing_refs (p_title p @ '' '' @ p_body p)) \<and> p_base p = ''main'' \<and> p_head p = ''topic''
      | _ \<Rightarrow> False)" by code_simp
  then have texts: "asks_to_close (p_title p @ '' '' @ p_body p) 1" and refs: "p_base p = ''main''" "p_head p = ''topic''"
    unfolding eq by (simp_all add: closing_refs_iff)
  have seen: "refs_seen 3 (h_git demo_host) (head_ref_name ''main'') = Some ''a''" "refs_seen 4 (h_git demo_host) (head_ref_name ''topic'') = Some ''ab''"
    "\<not> git_is_ancestor (se_git demo_env) ''ab'' ''a''" by code_simp+
  have "map_option i_state (select_issue 1 1 demo_reviewed) = Some IssueTodo" by code_simp
  then have "select_issue 1 1 demo_reviewed \<noteq> None" by auto
  with merge_closes_linked_issues [OF eq db, of 1] texts refs seen show ?thesis unfolding eq by auto
qed

end
