(* ===== verification/Hooks.thy ===== *)
theory Hooks imports MergeEffects begin

text \<open>
  The other endpoints of \<open>internal/server/pulls.go\<close> and \<open>branches.go\<close>, the events endpoint the post-receive
  hook calls, and the pre-receive hook that protects branches (\<open>ci_hook.go\<close>).
\<close>

section \<open>Pull request endpoints\<close>

datatype 'a reply = Refuse int string | Done 'a

definition internal :: "'a reply" where
  "internal = Refuse 500 ''internal error''"

text \<open>\<open>strconv.Atoi\<close> of the path and \<open>num <= 0\<close>.\<close>

definition with_number :: "int option \<Rightarrow> string \<Rightarrow> (int \<Rightarrow> 'a reply srv) \<Rightarrow> 'a reply srv" where
  "with_number num msg k = (case num of None \<Rightarrow> answer (Refuse 400 msg) | Some n \<Rightarrow> if n \<le> 0 then answer (Refuse 400 msg) else k n)"

text \<open>The body of a request: not JSON, or the value it decodes to.\<close>

definition with_body :: "'b option \<Rightarrow> ('b \<Rightarrow> 'a reply srv) \<Rightarrow> 'a reply srv" where
  "with_body body k = (case body of None \<Rightarrow> answer (Refuse 400 ''invalid JSON'') | Some b \<Rightarrow> k b)"

definition handle_create_pull ::
  "server_env \<Rightarrow> string \<Rightarrow> string \<Rightarrow> create_pull_request option \<Rightarrow> api_token option \<Rightarrow> pull_row reply srv" where
  "handle_create_pull env owner repo body tok =
     lookup_repo_or_fail owner repo Refuse (\<lambda>rid.
     repo_dir_or_fail env owner repo Refuse (\<lambda>_.
     with_body body (\<lambda>req.
       (let base = trim_space (cpr_base req); head = trim_space (cpr_head req); title = trim_space (cpr_title req) in
        if base = [] \<or> head = [] then answer (Refuse 400 ''base and head are required'')
        else if title = [] then answer (Refuse 400 ''title is required'')
        else if base = head then answer (Refuse 400 ''base and head must differ'')
        else on_refs (branch_exists base) (\<lambda>b. if \<not> b then answer (Refuse 404 (''branch not found: '' @ base))
        else on_refs (branch_exists head) (\<lambda>b. if \<not> b then answer (Refuse 404 (''branch not found: '' @ head))
        else call (create_pull rid \<lparr>cpr_base = base, cpr_head = head, cpr_title = title, cpr_body = cpr_body req,
               cpr_author = identity_from_context tok\<rparr>) (\<lambda>r. case r of
            Inl _ \<Rightarrow> answer internal
          | Inr p \<Rightarrow> emit_pull env ''pull.opened'' rid (p_author p) p (answer (Done p)))))))))"

definition pr_state_of :: "string \<Rightarrow> pr_state option" where
  "pr_state_of s = (if s = ''open'' then Some PROpen else if s = ''merged'' then Some PRMerged
     else if s = ''closed'' then Some PRClosed else None)"

text \<open>\<open>parsePRStates\<close>: every value is a comma-separated list; an unknown state is an error.\<close>

fun parse_states :: "string list \<Rightarrow> string + pr_state list" where
  "parse_states [] = Inr []"
| "parse_states (part # ps) = (let s = trim_space part in
     if s = [] then parse_states ps
     else case pr_state_of s of
         None \<Rightarrow> Inl (''invalid state: '' @ s)
       | Some st \<Rightarrow> (case parse_states ps of Inl e \<Rightarrow> Inl e | Inr sts \<Rightarrow> Inr (st # sts)))"

definition parse_pr_states :: "string list \<Rightarrow> string + pr_state list" where
  "parse_pr_states raw = parse_states (concat (map (split_on CHR '','') raw))"

definition handle_list_pulls :: "string \<Rightarrow> string \<Rightarrow> string list \<Rightarrow> string \<Rightarrow> pull_row list reply srv" where
  "handle_list_pulls owner repo raw q =
     lookup_repo_or_fail owner repo Refuse (\<lambda>rid. case parse_pr_states raw of
         Inl e \<Rightarrow> answer (Refuse 400 e)
       | Inr states \<Rightarrow> call (list_pulls rid states (trim_space q)) (\<lambda>r. case r of
             Inl _ \<Rightarrow> answer internal | Inr ps \<Rightarrow> answer (Done ps)))"

text \<open>The \<open>UpdatePullRequest\<close> of the body; a state that is given is checked first.\<close>

record update_pull_request =
  upr_title :: "string option"
  upr_body :: "string option"
  upr_state :: "string option"

definition check_update :: "update_pull_request \<Rightarrow> string + pull_changes" where
  "check_update req =
     (let state = Option.bind (upr_state req) pr_state_of; title = map_option trim_space (upr_title req) in
      if upr_state req \<noteq> None \<and> state = None then Inl (''invalid state: '' @ the (upr_state req))
      else if state = Some PRMerged then Inl ''cannot set state to merged; use the merge endpoint''
      else if title = Some [] then Inl ''title cannot be empty''
      else Inr \<lparr>pc_title = title, pc_body = upr_body req, pc_state = state\<rparr>)"

definition emit_state :: "server_env \<Rightarrow> int \<Rightarrow> api_token option \<Rightarrow> pr_state option \<Rightarrow> pull_row \<Rightarrow> 'b srv \<Rightarrow> 'b srv" where
  "emit_state env rid tok st p k = (case st of
     Some PRClosed \<Rightarrow> emit_pull env ''pull.closed'' rid (identity_from_context tok) p k
   | Some PROpen \<Rightarrow> emit_pull env ''pull.opened'' rid (identity_from_context tok) p k
   | _ \<Rightarrow> k)"

definition handle_update_pull ::
  "server_env \<Rightarrow> string \<Rightarrow> string \<Rightarrow> int option \<Rightarrow> update_pull_request option \<Rightarrow> api_token option \<Rightarrow> pull_row reply srv" where
  "handle_update_pull env owner repo num body tok =
     with_number num ''invalid pull request number'' (\<lambda>n.
     with_body body (\<lambda>req. case check_update req of
         Inl e \<Rightarrow> answer (Refuse 400 e)
       | Inr c \<Rightarrow> lookup_repo_or_fail owner repo Refuse (\<lambda>rid.
           call (update_pull rid n c) (\<lambda>r. case r of
               Inl e \<Rightarrow> answer (if e = ErrNoUpdateFields then Refuse 400 ''no fields to update (provide title, body, and/or state)''
                 else if e = ErrNotFound then Refuse 404 ''pull request not found'' else internal)
             | Inr p \<Rightarrow> emit_state env rid tok (pc_state c) p (answer (Done p))))))"

definition review_state_of :: "string \<Rightarrow> review_state option" where
  "review_state_of s = (if s = ''approved'' then Some PRReviewApproved
     else if s = ''changes_requested'' then Some PRReviewChangesRequested else None)"

definition handle_submit_review ::
  "server_env \<Rightarrow> string \<Rightarrow> string \<Rightarrow> int option \<Rightarrow> string option \<Rightarrow> api_token option \<Rightarrow> review_row reply srv" where
  "handle_submit_review env owner repo num body tok =
     with_number num ''invalid pull req number'' (\<lambda>n.
     lookup_repo_or_fail owner repo Refuse (\<lambda>rid.
     case body of None \<Rightarrow> answer (Refuse 400 ''invalid request body'') | Some s \<Rightarrow>
       (case review_state_of s of
          None \<Rightarrow> answer (Refuse 400 (''state must be '' @ CHR 0x27 # ''approved'' @ CHR 0x27 # '' or '' @ CHR 0x27 # ''changes_requested'' @ [CHR 0x27]))
        | Some st \<Rightarrow> (let actor = identity_from_context tok in
            call (upsert_review rid n actor st) (\<lambda>r. case r of
                Inl _ \<Rightarrow> answer internal
              | Inr v \<Rightarrow> emit env ''review.submitted'' rid actor [(''number'', JInt n), (''state'', JStr s)] (answer (Done v)))))))"

section \<open>Branches\<close>

text \<open>\<open>head\<close> is what \<open>headRef\<close> finds, \<open>resolve\<close> what \<open>rev-parse --verify\<close> makes of a revision: the world
  resolves the names of refs.\<close>

definition handle_create_branch ::
  "server_env \<Rightarrow> string \<Rightarrow> string \<Rightarrow> string \<Rightarrow> (string \<times> string) option \<Rightarrow> (string \<times> string) reply srv" where
  "handle_create_branch env head owner repo body =
     repo_dir_or_fail env owner repo Refuse (\<lambda>_.
     case body of None \<Rightarrow> answer (Refuse 400 ''invalid request body'') | Some (name, base) \<Rightarrow>
       (let name = trim_space name; base = (if base = [] then head else base) in
        if name = [] then answer (Refuse 400 ''branch name required'')
        else on_refs (rev_parse base) (\<lambda>sha. case sha of
            None \<Rightarrow> answer (Refuse 422 (''base ref '' @ CHR 0x22 # base @ CHR 0x22 # '' not found''))
          | Some sha \<Rightarrow> on_refs (branch_exists name) (\<lambda>b.
              if b then answer (Refuse 409 (''branch '' @ CHR 0x22 # name @ CHR 0x22 # '' already exists''))
              else on_refs (update_ref (head_ref_name name) sha zero_oid) (\<lambda>moved.
                if \<not> moved then answer (Refuse 500 ''could not create branch'') else answer (Done (name, sha)))))))"


section \<open>A push arrives\<close>

record ci_event =
  ce_repo :: string
  ce_old :: string
  ce_new :: string
  ce_ref :: string
  ce_pusher :: string

definition is_zero_sha :: "string \<Rightarrow> bool" where
  "is_zero_sha sha \<longleftrightarrow> list_all (\<lambda>c. c = CHR ''0'') sha"

text \<open>\<open>autoCloseMergedPRs\<close>: every open pull request into the pushed branch whose head is in its new tip is
  marked merged; a head that does not resolve and a write that fails are skipped.\<close>

primrec auto_close :: "server_env \<Rightarrow> int \<Rightarrow> string \<Rightarrow> string \<Rightarrow> pull_row list \<Rightarrow> 'b srv \<Rightarrow> 'b srv" where
  "auto_close env repo old new [] k = k"
| "auto_close env repo old new (p # ps) k = on_refs (rev_parse (head_ref_name (p_head p))) (\<lambda>h. case h of
     None \<Rightarrow> auto_close env repo old new ps k
   | Some head_sha \<Rightarrow>
       if git_is_ancestor (se_git env) head_sha new
       then call (mark_merged repo (p_number p) old head_sha) (\<lambda>_. auto_close env repo old new ps k)
       else auto_close env repo old new ps k)"

definition auto_close_merged :: "server_env \<Rightarrow> int \<Rightarrow> string \<Rightarrow> string \<Rightarrow> string \<Rightarrow> 'b srv \<Rightarrow> 'b srv" where
  "auto_close_merged env repo base old new k = call (open_prs_for_base repo base) (\<lambda>r. case r of
     Inl _ \<Rightarrow> k | Inr ps \<Rightarrow> auto_close env repo old new ps k)"

text \<open>The endpoint: method, loopback and secret are checked before the body, \<open>NoRun\<close> is 204. The constant time
  comparison is equality.\<close>

datatype push_reply = PushRefused int string | NoRun | RunQueuedAs int

definition handle_push :: "server_env \<Rightarrow> int \<Rightarrow> ci_event \<Rightarrow> push_reply srv" where
  "handle_push env repo ev =
     emit env ''push'' repo (ce_pusher ev) [(''ref'', JStr (ce_ref ev)), (''before'', JStr (ce_old ev)), (''after'', JStr (ce_new ev))]
     (let run = enqueue_ref_run env repo (ce_ref ev) (ce_new ev) ''push'' (ce_pusher ev) (\<lambda>r. case r of
         Inl _ \<Rightarrow> answer (PushRefused 500 ''error'')
       | Inr None \<Rightarrow> answer NoRun
       | Inr (Some x) \<Rightarrow> answer (RunQueuedAs (ru_number x)))
      in case cut_prefix (ce_ref ev) ''refs/heads/'' of
           None \<Rightarrow> run
         | Some branch \<Rightarrow> auto_close_merged env repo branch (ce_old ev) (ce_new ev) run)"

definition handle_ci_events :: "server_env \<Rightarrow> string \<Rightarrow> bool \<Rightarrow> string \<Rightarrow> ci_event option \<Rightarrow> push_reply srv" where
  "handle_ci_events env meth loopback secret body =
     (if meth \<noteq> ''POST'' then answer (PushRefused 405 ''method not allowed'')
      else if \<not> loopback then answer (PushRefused 403 ''forbidden'')
      else if ci_secret (se_cfg env) = [] \<or> secret \<noteq> ci_secret (se_cfg env) then answer (PushRefused 403 ''forbidden'')
      else (case body of None \<Rightarrow> answer (PushRefused 400 ''bad request'') | Some ev \<Rightarrow>
        if is_zero_sha (ce_new ev) then answer NoRun
        else (case cut_at slash (ce_repo ev) of None \<Rightarrow> answer (PushRefused 400 ''bad repo'') | Some (owner, name) \<Rightarrow>
          if owner = [] \<or> name = [] then answer (PushRefused 400 ''bad repo'')
          else call (lookup_repo owner name) (\<lambda>r. case r of
              Inl _ \<Rightarrow> answer (PushRefused 404 ''unknown repo'')
            | Inr repo \<Rightarrow> handle_push env repo ev))))"

section \<open>The pre-receive hook\<close>

text \<open>The shell script, on the lines \<open>old new ref\<close> of a push. The environment variable is split at newlines
  (\<open>IFS\<close>), empty fields disappear. As the expansion is not quoted and \<open>set -f\<close> is not in force, the
  shell replaces each field that names existing files of the repository directory by their names:
  \<open>expand\<close> is that pathname expansion, the field itself when nothing matches; \<open>glob\<close> is the matching of
  \<open>case\<close>. \<open>is_ancestor\<close> is \<open>git merge-base --is-ancestor\<close>.\<close>

record shell =
  sh_expand :: "string \<Rightarrow> string list"
  sh_glob :: "string \<Rightarrow> string \<Rightarrow> bool"

definition hook_patterns :: "shell \<Rightarrow> string \<Rightarrow> string list" where
  "hook_patterns sh env = concat (map (sh_expand sh) (filter (\<lambda>f. f \<noteq> []) (split_on CHR 0x0A env)))"

definition is_null :: "string \<Rightarrow> bool" where
  "is_null v \<longleftrightarrow> \<not> list_ex (\<lambda>c. c \<noteq> CHR ''0'') v"

definition update_refused :: "shell \<Rightarrow> git \<Rightarrow> string \<Rightarrow> string \<times> string \<times> string \<Rightarrow> bool" where
  "update_refused sh g env upd = (case upd of (old, new, ref) \<Rightarrow>
     (case cut_prefix ref ''refs/heads/'' of
        None \<Rightarrow> False
      | Some branch \<Rightarrow>
          list_ex (\<lambda>pat. pat \<noteq> [] \<and> sh_glob sh pat branch) (hook_patterns sh env) \<and>
          (is_null new \<or> \<not> is_null old \<and> \<not> git_is_ancestor g old new)))"

definition pre_receive :: "shell \<Rightarrow> git \<Rightarrow> string \<Rightarrow> (string \<times> string \<times> string) list \<Rightarrow> bool" where
  "pre_receive sh g env updates \<longleftrightarrow> env = [] \<or> \<not> list_ex (update_refused sh g env) updates"

lemma update_refused_head:
  "update_refused sh g env (old, new, ''refs/heads/'' @ branch) \<longleftrightarrow>
     (\<exists>pat \<in> set (hook_patterns sh env). pat \<noteq> [] \<and> sh_glob sh pat branch) \<and>
     (is_null new \<or> \<not> is_null old \<and> \<not> git_is_ancestor g old new)"
  by (simp only: update_refused_def prod.case cut_prefix_append option.case list_ex_iff)

text \<open>C20: Branch protection holds for the patterns the shell leaves alone: when a push is accepted, no branch
  that a pattern of the setting matches is deleted, and none that existed moves to a commit that does
  not contain its old tip.\<close>

theorem protected_branches_move_forward:
  assumes "pre_receive sh g env updates" and "(old, new, ''refs/heads/'' @ branch) \<in> set updates"
    and "pat \<in> set (split_on CHR 0x0A env)" and "sh_expand sh pat = [pat]" and "pat \<noteq> []" and "sh_glob sh pat branch"
  shows "\<not> is_null new \<and> (is_null old \<or> git_is_ancestor g old new)"
proof -
  have "env \<noteq> []" using assms(3,5) by auto
  then have "\<not> update_refused sh g env (old, new, ''refs/heads/'' @ branch)"
    using assms(1,2) unfolding pre_receive_def list_ex_iff by blast
  moreover have "pat \<in> set (hook_patterns sh env)" using assms(3-5) by (auto simp: hook_patterns_def)
  ultimately show ?thesis using assms(5,6) unfolding update_refused_head by blast
qed

definition demo_shell :: shell where
  "demo_shell = \<lparr>sh_expand = (\<lambda>p. if p = ''*'' then [''HEAD'', ''config'', ''hooks'', ''objects'', ''refs''] else [p]),
     sh_glob = (\<lambda>p b. p = ''*'' \<or> p = b)\<rparr>"

theorem protected_branches_move_forward_witness:
  "pre_receive demo_shell demo_git ''main'' [(''ab'', ''abc'', ''refs/heads/main'')] \<and> git_is_ancestor demo_git ''ab'' ''abc''"
proof -
  have push: "pre_receive demo_shell demo_git ''main'' [(''ab'', ''abc'', ''refs/heads/main'')]" by code_simp
  have "(''ab'', ''abc'', ''refs/heads/'' @ ''main'') \<in> set [(''ab'', ''abc'', ''refs/heads/main'')]"
    "''main'' \<in> set (split_on CHR 0x0A ''main'')" "sh_expand demo_shell ''main'' = [''main'']" "''main'' \<noteq> ''''"
    "sh_glob demo_shell ''main'' ''main''" "\<not> is_null ''ab''" by code_simp+
  with protected_branches_move_forward [OF push this(1-5)] push show ?thesis by blast
qed

text \<open>A pattern that the shell expands to file names protects nothing: with \<open>*\<close> as the only pattern, which is
  meant to protect every branch, a push may delete or rewrite any branch that none of the files in the
  repository's directory is a pattern for.\<close>

theorem expanded_pattern_protects_nothing:
  assumes "sh_expand sh ''*'' = names" and "\<forall>f \<in> set names. \<not> sh_glob sh f branch"
  shows "pre_receive sh g ''*'' [(old, new, ''refs/heads/'' @ branch)]"
proof -
  have "hook_patterns sh ''*'' = names" using assms(1) by (simp add: hook_patterns_def)
  with assms(2) have "\<not> update_refused sh g ''*'' (old, new, ''refs/heads/'' @ branch)"
    unfolding update_refused_head by blast
  then show ?thesis unfolding pre_receive_def list_ex_iff by simp
qed

theorem expanded_pattern_protects_nothing_witness:
  "sh_glob demo_shell ''*'' ''main'' \<and> pre_receive demo_shell demo_git ''*'' [(''ab'', replicate 40 CHR ''0'', ''refs/heads/'' @ ''main'')]"
proof -
  have 1: "sh_expand demo_shell ''*'' = [''HEAD'', ''config'', ''hooks'', ''objects'', ''refs'']" by code_simp
  have 2: "\<forall>f \<in> set [''HEAD'', ''config'', ''hooks'', ''objects'', ''refs'']. \<not> sh_glob demo_shell f ''main''"
    and 3: "sh_glob demo_shell ''*'' ''main''" by code_simp+
  from 3 expanded_pattern_protects_nothing [OF 1 2] show ?thesis by blast
qed


section \<open>What a push leaves alone\<close>

definition same_issues :: "db \<Rightarrow> db \<Rightarrow> bool" where
  "same_issues d0 d \<longleftrightarrow> issues d = issues d0"

lemma same_issues_tail: "tail_ops (same_issues d0)"
  unfolding tail_ops_def same_issues_def
  using same_work_tail unfolding tail_ops_def same_work_def keeps_def by metis

lemma mark_merged_issues: "same_issues d0 d \<Longrightarrow> keeps (same_issues d0) d (mark_merged repo n b h)"
  unfolding mark_merged_def
  by (intro keeps_inv) (auto simp: same_issues_def update_pull_row_def update_returning_def Let_def)

lemma open_prs_issues: "same_issues d0 d \<Longrightarrow> keeps (same_issues d0) d (open_prs_for_base repo base)"
  unfolding open_prs_for_base_def by (intro keeps_inv)

lemma preserves_auto_close: "preserves (same_issues d0) k \<Longrightarrow> preserves (same_issues d0) (auto_close env repo old new ps k)"
  by (induction ps)
     (auto intro!: preserves_on_refs preserves_call mark_merged_issues split: option.splits)

lemma preserves_push: "preserves (same_issues d0) (handle_push env repo ev)"
proof -
  let ?run = "enqueue_ref_run env repo (ce_ref ev) (ce_new ev) ''push'' (ce_pusher ev) (\<lambda>r. case r of
     Inl _ \<Rightarrow> answer (PushRefused 500 ''error'') | Inr None \<Rightarrow> answer NoRun | Inr (Some x) \<Rightarrow> answer (RunQueuedAs (ru_number x)))"
  have "preserves (same_issues d0) ?run"
    by (intro preserves_enqueue same_issues_tail) (auto intro: preserves_answer split: sum.splits option.splits)
  moreover from this have "preserves (same_issues d0) (auto_close_merged env repo b (ce_old ev) (ce_new ev) ?run)" for b
    unfolding auto_close_merged_def
    by (intro preserves_call open_prs_issues) (auto intro: preserves_auto_close split: sum.splits)
  ultimately show ?thesis
    unfolding handle_push_def emit_def Let_def
    using same_issues_tail by (intro preserves_call) (auto simp: tail_ops_def split: option.splits)
qed

text \<open>A pull request that a push lands, without the merge endpoint, is marked merged but the issues it names
  are not closed: the events endpoint never changes the issue table, whatever fails.\<close>

theorem pushed_merge_leaves_issues:
  assumes "handle_ci_events env meth loopback secret body h = (x, h')"
  shows "issues (snd (h_db h')) = issues (snd (h_db h))"
proof -
  let ?d = "snd (h_db h)"
  have "same_issues ?d d \<Longrightarrow> keeps (same_issues ?d) d (lookup_repo owner name)" for d owner name
    unfolding lookup_repo_def by (intro keeps_inv)
  then have "preserves (same_issues ?d) (handle_ci_events env meth loopback secret body)"
    unfolding handle_ci_events_def
    by (auto intro!: preserves_call preserves_answer preserves_push split: option.splits sum.splits prod.splits)
  from preservesD [OF this assms] show ?thesis by (simp add: same_issues_def)
qed

definition demo_push :: ci_event where
  "demo_push = \<lparr>ce_repo = ''ann/site'', ce_old = ''a'', ce_new = ''abc'', ce_ref = ''refs/heads/main'', ce_pusher = ''ann''\<rparr>"

theorem pushed_merge_leaves_issues_witness:
  "\<exists>x h'. handle_ci_events demo_env ''POST'' True ''s'' (Some demo_push) demo_host = (x, h') \<and>
    map p_state (rows (pull_requests (snd (h_db h')))) = [PRMerged] \<and>
    map p_body (rows (pull_requests (snd (h_db h')))) = [''fixes #1''] \<and>
    map i_state (rows (issues (snd (h_db h')))) = [IssueTodo]"
proof -
  obtain x h' where eq: "handle_ci_events demo_env ''POST'' True ''s'' (Some demo_push) demo_host = (x, h')"
    by (metis surj_pair)
  have "map p_state (rows (pull_requests (snd (h_db (snd (handle_ci_events demo_env ''POST'' True ''s'' (Some demo_push) demo_host)))))) = [PRMerged]"
    "map p_body (rows (pull_requests (snd (h_db (snd (handle_ci_events demo_env ''POST'' True ''s'' (Some demo_push) demo_host)))))) = [''fixes #1'']"
    by code_simp+
  moreover have "map i_state (rows (issues (snd (h_db demo_host)))) = [IssueTodo]" by code_simp
  ultimately show ?thesis using pushed_merge_leaves_issues [OF eq] eq by auto
qed

end
