(* ===== verification/Budget.thy ===== *)
theory Budget imports RunUpkeep begin

text \<open>
  The run-concurrency budget of \<open>cmd/codefortd/budget.go\<close> and the dispatch loops of \<open>ci_runner.go\<close> that
  draw from it: \<open>drainKind\<close>, \<open>drainTurns\<close>, \<open>drainFinishing\<close>. A buffered channel used as a semaphore is the
  number of tokens in it and its capacity. A dispatched run is a worker: the goroutine that holds its
  slot until it returns.
\<close>

section \<open>The budget\<close>

record chan =
  ch_len :: nat
  ch_cap :: nat

record work_budget =
  shared :: chan
  ci_allow :: chan

definition new_work_budget :: "int \<Rightarrow> int \<Rightarrow> work_budget" where
  "new_work_budget slots reserved =
     (let slots = (if slots < 1 then 1 else slots);
          reserved = (if reserved < 0 then 0 else reserved);
          reserved = (if slots < reserved then slots else reserved) in
      \<lparr>shared = \<lparr>ch_len = 0, ch_cap = nat slots\<rparr>, ci_allow = \<lparr>ch_len = 0, ch_cap = nat (slots - reserved)\<rparr>\<rparr>)"

text \<open>A send that does not block (\<open>select\<close> with \<open>default\<close>), and a receive of a token that is there.\<close>

definition try_send :: "chan \<Rightarrow> chan option" where
  "try_send c = (if ch_len c < ch_cap c then Some (c\<lparr>ch_len := ch_len c + 1\<rparr>) else None)"

definition receive :: "chan \<Rightarrow> chan" where
  "receive c = c\<lparr>ch_len := ch_len c - 1\<rparr>"

definition try_acquire_ci :: "work_budget \<Rightarrow> bool \<times> work_budget" where
  "try_acquire_ci b = (case try_send (ci_allow b) of
     None \<Rightarrow> (False, b)
   | Some a \<Rightarrow> (let b = b\<lparr>ci_allow := a\<rparr> in case try_send (shared b) of
       Some s \<Rightarrow> (True, b\<lparr>shared := s\<rparr>)
     | None \<Rightarrow> (False, b\<lparr>ci_allow := receive (ci_allow b)\<rparr>)))"

definition release_ci :: "work_budget \<Rightarrow> work_budget" where
  "release_ci b = b\<lparr>shared := receive (shared b), ci_allow := receive (ci_allow b)\<rparr>"

definition try_acquire_agent :: "work_budget \<Rightarrow> bool \<times> work_budget" where
  "try_acquire_agent b = (case try_send (shared b) of Some s \<Rightarrow> (True, b\<lparr>shared := s\<rparr>) | None \<Rightarrow> (False, b))"

definition release_agent :: "work_budget \<Rightarrow> work_budget" where
  "release_agent b = b\<lparr>shared := receive (shared b)\<rparr>"

section \<open>What a slot holder may rely on\<close>

text \<open>The interface of one side of the budget, over the number of slots that side and the others hold:
  an acquire that succeeds adds one holder and never passes the limit, one that fails took nothing, and
  a release gives one back.\<close>

locale slot_pool =
  fixes acquire :: "'b \<Rightarrow> bool \<times> 'b" and release :: "'b \<Rightarrow> 'b"
    and ok :: "nat \<Rightarrow> nat \<Rightarrow> 'b \<Rightarrow> bool"
  assumes acquired: "ok mine others b \<Longrightarrow> acquire b = (True, b') \<Longrightarrow> ok (mine + 1) others b'"
    and refused: "ok mine others b \<Longrightarrow> acquire b = (False, b') \<Longrightarrow> b' = b"
    and released: "ok (mine + 1) others b \<Longrightarrow> ok mine others (release b)"
begin

text \<open>A dispatcher that acquires before it claims, and releases when there is nothing to claim or when the
  work is done, keeps the count of holders exact.\<close>

lemma claim_failed: "ok mine others b \<Longrightarrow> acquire b = (True, b') \<Longrightarrow> ok mine others (release b')"
  using acquired released by blast

lemma acquire_keeps:
  "ok mine others b \<Longrightarrow> acquire b = (got, b') \<Longrightarrow> ok (mine + (if got then 1 else 0)) others b'"
  using acquired [of mine others b b'] refused [of mine others b b'] by (cases got) auto

end

definition budget_ok :: "nat \<Rightarrow> nat \<Rightarrow> nat \<Rightarrow> nat \<Rightarrow> work_budget \<Rightarrow> bool" where
  "budget_ok slots reserved ci agents b \<longleftrightarrow>
     ch_cap (shared b) = slots \<and> ch_cap (ci_allow b) = slots - reserved \<and> reserved \<le> slots \<and> 0 < slots \<and>
     ch_len (shared b) = ci + agents \<and> ch_len (ci_allow b) = ci \<and> ci + agents \<le> slots \<and> ci \<le> slots - reserved"

lemma try_send_iff: "try_send c = Some c' \<longleftrightarrow> ch_len c < ch_cap c \<and> c' = c\<lparr>ch_len := ch_len c + 1\<rparr>"
  by (auto simp: try_send_def)

interpretation ci_slots: slot_pool try_acquire_ci release_ci "\<lambda>ci agents. budget_ok slots reserved ci agents" for slots reserved
  by unfold_locales
     (auto simp: budget_ok_def try_acquire_ci_def release_ci_def try_send_iff try_send_def receive_def Let_def
       split: option.splits if_splits)

interpretation agent_slots: slot_pool try_acquire_agent release_agent "\<lambda>agents ci. budget_ok slots reserved ci agents" for slots reserved
  by unfold_locales
     (auto simp: budget_ok_def try_acquire_agent_def release_agent_def try_send_def receive_def
       split: option.splits if_splits)

lemma new_budget_ok:
  "budget_ok (nat (max slots 1)) (nat (min (max reserved 0) (max slots 1))) 0 0 (new_work_budget slots reserved)"
  by (auto simp: budget_ok_def new_work_budget_def Let_def)


section \<open>The dispatch loops\<close>

text \<open>What a slot is held for.\<close>

datatype work = RunWork run_row | TurnWork turn_row run_row | FinishWork run_row

fun is_ci_work :: "work \<Rightarrow> bool" where
  "is_ci_work (RunWork r) = (ru_kind r = RunKindCI)"
| "is_ci_work _ = False"

record runner =
  rn_budget :: work_budget
  rn_workers :: "work list"
  rn_db :: "db session"

text \<open>One turn of a drain loop: take a slot, claim, and start the worker or give the slot back. The first
  component tells whether the loop goes on.\<close>

definition dispatch ::
  "(work_budget \<Rightarrow> bool \<times> work_budget) \<Rightarrow> (work_budget \<Rightarrow> work_budget) \<Rightarrow> (db, work) dbm \<Rightarrow> runner \<Rightarrow> bool \<times> runner" where
  "dispatch acquire release next_work rn = (case acquire (rn_budget rn) of
     (False, b) \<Rightarrow> (False, rn)
   | (True, b) \<Rightarrow> (case next_work (rn_db rn) of
       (Inl _, s) \<Rightarrow> (False, rn\<lparr>rn_budget := release b, rn_db := s\<rparr>)
     | (Inr w, s) \<Rightarrow> (True, rn\<lparr>rn_budget := b, rn_workers := w # rn_workers rn, rn_db := s\<rparr>)))"

text \<open>The leases of \<open>runLease\<close>, \<open>agentLease\<close> and \<open>turnLease\<close>, in nanoseconds.\<close>

definition run_lease :: "int \<Rightarrow> int" where
  "run_lease timeout = (if timeout \<le> 0 then 0 else timeout + 300000000000)"

definition turn_lease :: "int \<Rightarrow> int" where
  "turn_lease timeout = (if timeout \<le> 0 then 0 else timeout + 120000000000)"

record timeouts =
  ci_run_timeout :: int
  agent_run_timeout :: int
  agent_turn_timeout :: int

definition dispatch_kind :: "timeouts \<Rightarrow> run_kind \<Rightarrow> runner \<Rightarrow> bool \<times> runner" where
  "dispatch_kind cfg k =
     (if k = RunKindCI
      then dispatch try_acquire_ci release_ci (bind (claim_next_run_of_kind k (run_lease (ci_run_timeout cfg))) (\<lambda>r. ok (RunWork r)))
      else dispatch try_acquire_agent release_agent
        (bind (claim_next_run_of_kind k (run_lease (agent_run_timeout cfg))) (\<lambda>r. ok (RunWork r))))"

definition dispatch_turns :: "timeouts \<Rightarrow> runner \<Rightarrow> bool \<times> runner" where
  "dispatch_turns cfg = dispatch try_acquire_agent release_agent
     (bind (claim_next_turn (turn_lease (agent_turn_timeout cfg))) (\<lambda>(t, r). ok (TurnWork t r)))"

definition dispatch_finishing :: "runner \<Rightarrow> bool \<times> runner" where
  "dispatch_finishing = dispatch try_acquire_agent release_agent (bind claim_next_finishing_run (\<lambda>r. ok (FinishWork r)))"

text \<open>A drain loop among the other goroutines: before its i-th iteration they do \<open>others i\<close> to the runner (workers
  end and release their slots, runs are enqueued, other loops dispatch), and \<open>stop i\<close> tells whether the context is
  cancelled by then. \<open>None\<close> is a loop that never returns.\<close>

partial_function (option) drain ::
  "(nat \<Rightarrow> bool) \<Rightarrow> (nat \<Rightarrow> runner \<Rightarrow> runner) \<Rightarrow> (runner \<Rightarrow> bool \<times> runner) \<Rightarrow> nat \<Rightarrow> runner \<Rightarrow> runner option" where
  "drain stop others step i rn =
     (if stop i then Some (others i rn)
      else case step (others i rn) of (goes_on, rn') \<Rightarrow> if goes_on then drain stop others step (i + 1) rn' else Some rn')"

text \<open>A worker that returns releases its slot.\<close>

definition work_done :: "work \<Rightarrow> runner \<Rightarrow> runner" where
  "work_done w rn = rn\<lparr>rn_budget := (if is_ci_work w then release_ci else release_agent) (rn_budget rn),
     rn_workers := remove1 w (rn_workers rn)\<rparr>"

text \<open>The runner in any interleaving of its loops with workers that end and with writes of others.\<close>

inductive runner_step :: "timeouts \<Rightarrow> runner \<Rightarrow> runner \<Rightarrow> bool" for cfg where
  step_kind: "dispatch_kind cfg k rn = (c, rn') \<Longrightarrow> runner_step cfg rn rn'"
| step_turns: "dispatch_turns cfg rn = (c, rn') \<Longrightarrow> runner_step cfg rn rn'"
| step_finishing: "dispatch_finishing rn = (c, rn') \<Longrightarrow> runner_step cfg rn rn'"
| step_done: "w \<in> set (rn_workers rn) \<Longrightarrow> runner_step cfg rn (work_done w rn)"
| step_other: "runner_step cfg rn (rn\<lparr>rn_db := s\<rparr>)"

definition ci_work :: "runner \<Rightarrow> nat" where
  "ci_work rn = length (filter is_ci_work (rn_workers rn))"

definition agent_work :: "runner \<Rightarrow> nat" where
  "agent_work rn = length (filter (\<lambda>w. \<not> is_ci_work w) (rn_workers rn))"

abbreviation runner_ok :: "nat \<Rightarrow> nat \<Rightarrow> runner \<Rightarrow> bool" where
  "runner_ok slots reserved rn \<equiv> budget_ok slots reserved (ci_work rn) (agent_work rn) (rn_budget rn)"

lemma dispatch_ci_ok:
  assumes "runner_ok slots reserved rn" and "dispatch try_acquire_ci release_ci next_work rn = (c, rn')"
    and "\<And>s w s'. next_work s = (Inr w, s') \<Longrightarrow> is_ci_work w"
  shows "runner_ok slots reserved rn'"
  using assms ci_slots.acquired [OF assms(1)] ci_slots.claim_failed [OF assms(1)]
  by (fastforce simp: dispatch_def ci_work_def agent_work_def split: prod.splits bool.splits sum.splits)

lemma dispatch_agent_ok:
  assumes "runner_ok slots reserved rn" and "dispatch try_acquire_agent release_agent next_work rn = (c, rn')"
    and "\<And>s w s'. next_work s = (Inr w, s') \<Longrightarrow> \<not> is_ci_work w"
  shows "runner_ok slots reserved rn'"
  using assms agent_slots.acquired [OF assms(1)] agent_slots.claim_failed [OF assms(1)]
  by (fastforce simp: dispatch_def ci_work_def agent_work_def split: prod.splits bool.splits sum.splits)


text \<open>What the claims hand out.\<close>

lemma bind_ok_InrD: "bind m (\<lambda>x. ok (f x)) s = (Inr w, s') \<Longrightarrow> \<exists>x s'. m s = (Inr x, s') \<and> w = f x"
  by (auto simp: bind_def split: prod.splits sum.splits)

lemma take_run_kind:
  assumes "take_run i k lease d = (Inr (Some r), d')" shows "ru_kind r = k"
proof -
  from assms obtain x where "find (\<lambda>r. ru_id r = i \<and> run_claimable k lease (now d) r) (rows (ci_runs d)) = Some x"
    and "r = start_run (now d) x" by (auto simp: take_run_def update_returning_def Let_def)
  with find_SomeD [OF this(1)] show ?thesis
    by (auto simp: row_simps run_claimable_def may_take_def run_waiting_def run_busy_def)
qed

lemma claim_kind:
  assumes "claim_next_run_of_kind k lease s = (Inr r, s')" shows "ru_kind r = k"
proof -
  obtain fs d fs' d' where s: "s = (fs, d)" "s' = (fs', d')" by (metis surj_pair)
  from assms show ?thesis
    unfolding s claim_next_run_of_kind_def
    by (elim tx_InrE query_InrE) (auto split: option.splits elim!: exec_InrE dest: take_run_kind)
qed

lemma runner_step_ok: "runner_step cfg rn rn' \<Longrightarrow> runner_ok slots reserved rn \<Longrightarrow> runner_ok slots reserved rn'"
proof (induction rule: runner_step.induct)
  case (step_kind k rn c rn')
  then show ?case
  proof (cases "k = RunKindCI")
    case True
    with step_kind show ?thesis
      by (auto simp: dispatch_kind_def dest!: bind_ok_InrD elim!: dispatch_ci_ok dest: claim_kind)
  next
    case False
    with step_kind show ?thesis
      by (auto simp: dispatch_kind_def dest!: bind_ok_InrD elim!: dispatch_agent_ok dest: claim_kind)
  qed
next
  case (step_turns rn c rn')
  then show ?case
    by (auto simp: dispatch_turns_def bind_def elim!: dispatch_agent_ok split: prod.splits sum.splits)
next
  case (step_finishing rn c rn')
  then show ?case
    by (auto simp: dispatch_finishing_def elim!: dispatch_agent_ok dest!: bind_ok_InrD)
next
  case (step_done w rn)
  have len: "length (filter P (remove1 w xs)) = length (filter P xs) - (if P w then 1 else 0)" if "w \<in> set xs" for P and xs :: "work list"
    using that by (auto simp: filter_remove1 length_remove1 remove1_idem)
  have pos: "P w \<Longrightarrow> 0 < length (filter P (rn_workers rn))" for P
    using step_done(1) by (auto simp: filter_empty_conv)
  show ?case
  proof (cases "is_ci_work w")
    case True
    with step_done len pos [of is_ci_work] ci_slots.released [where mine = "ci_work rn - 1"] show ?thesis
      by (auto simp: work_done_def ci_work_def agent_work_def)
  next
    case False
    with step_done len pos [of "\<lambda>w. \<not> is_ci_work w"] agent_slots.released [where mine = "agent_work rn - 1"] show ?thesis
      by (auto simp: work_done_def ci_work_def agent_work_def)
  qed
qed (simp add: ci_work_def agent_work_def)


section \<open>The bounds\<close>

definition start_runner :: "int \<Rightarrow> int \<Rightarrow> db session \<Rightarrow> runner" where
  "start_runner slots reserved s = \<lparr>rn_budget = new_work_budget slots reserved, rn_workers = [], rn_db = s\<rparr>"

lemma runner_reach_ok:
  assumes "(runner_step cfg)\<^sup>*\<^sup>* (start_runner slots reserved s) rn"
  shows "runner_ok (nat (max slots 1)) (nat (min (max reserved 0) (max slots 1))) rn"
  using assms
proof (induction rule: rtranclp_induct)
  case base
  then show ?case using new_budget_ok [of slots reserved] by (simp add: start_runner_def ci_work_def agent_work_def)
qed (rule runner_step_ok)

text \<open>C21: Whatever is claimed, ends or fails in whatever order: no more runs are in flight than the budget has
  slots, CI runs leave the reserved slots alone, and a slot is refused only when its side is really
  full, so that a backlog of CI runs never keeps an agent out while fewer than the reserved number of
  agents run. The bounds hold for every configuration, a non-positive size or reservation included.\<close>

theorem budget_bounds:
  assumes "(runner_step cfg)\<^sup>*\<^sup>* (start_runner slots reserved s) rn"
  shows "int (length (rn_workers rn)) \<le> max slots 1 \<and>
    int (ci_work rn) \<le> max slots 1 - min (max reserved 0) (max slots 1) \<and>
    (fst (try_acquire_agent (rn_budget rn)) \<longleftrightarrow> int (length (rn_workers rn)) < max slots 1) \<and>
    (fst (try_acquire_ci (rn_budget rn)) \<longleftrightarrow> int (length (rn_workers rn)) < max slots 1 \<and>
      int (ci_work rn) < max slots 1 - min (max reserved 0) (max slots 1)) \<and>
    (int (agent_work rn) < min (max reserved 0) (max slots 1) \<longrightarrow> fst (try_acquire_agent (rn_budget rn)))"
proof -
  define S R where "S = nat (max slots 1)" and "R = nat (min (max reserved 0) (max slots 1))"
  then have SR: "max slots 1 = int S" "min (max reserved 0) (int S) = int R" by (simp_all add: max_def min_def)
  have len: "length (rn_workers rn) = ci_work rn + agent_work rn"
    using sum_length_filter_compl [of is_ci_work "rn_workers rn"] by (simp add: ci_work_def agent_work_def)
  have b: "runner_ok S R rn" using runner_reach_ok [OF assms] by (simp only: S_def R_def)
  then have "fst (try_acquire_agent (rn_budget rn)) \<longleftrightarrow> ci_work rn + agent_work rn < S"
    and "fst (try_acquire_ci (rn_budget rn)) \<longleftrightarrow> ci_work rn < S - R \<and> ci_work rn + agent_work rn < S"
    by (simp_all add: budget_ok_def try_acquire_agent_def try_acquire_ci_def try_send_def Let_def)
  moreover from b have "ci_work rn + agent_work rn \<le> S" "ci_work rn + R \<le> S" "R \<le> S"
    unfolding budget_ok_def by linarith+
  ultimately show ?thesis unfolding SR len by auto
qed

section \<open>A drain comes to an end\<close>

definition free_slots :: "runner \<Rightarrow> nat" where
  "free_slots rn = ch_cap (shared (rn_budget rn)) - ch_len (shared (rn_budget rn))"

lemma dispatch_uses_slot:
  assumes "runner_ok slots reserved rn" and "dispatch_kind cfg k rn = (True, rn')"
  shows "free_slots rn' < free_slots rn"
  using assms
  by (auto simp: dispatch_kind_def dispatch_def budget_ok_def free_slots_def try_acquire_ci_def try_acquire_agent_def
      try_send_def Let_def split: if_splits prod.splits sum.splits bool.splits option.splits)

lemma tx_failure: "tx m (False # fs, d) = (Inl e, s) \<Longrightarrow> e = ErrEngine \<or> (\<exists>s'. m (fs, d) = (Inl e, s'))"
  by (cases "(d, m (fs, d))" rule: commit.cases) auto

lemma claim_refused_kind:
  assumes "claim_next_run_of_kind k lease (fs, d) = (Inl e, (fs', d'))"
  shows "d' = d \<and> (e = ErrNoRunQueued \<or> fs = [] \<longrightarrow> \<not> exists_where (run_claimable k lease (now d)) (ci_runs d))"
proof (cases "select_one (run_claimable k lease (now d)) (ci_runs d)")
  case None
  with assms tx_atomic [where m = "query (\<lambda>d. select_one (run_claimable k lease (now d)) (ci_runs d)) (\<lambda>r.
       case r of None \<Rightarrow> err ErrNoRunQueued | Some r \<Rightarrow> exec (take_run (ru_id r) k lease) (\<lambda>r'.
           case r' of None \<Rightarrow> err ErrNoRunQueued | Some r' \<Rightarrow> ok r'))"] show ?thesis
    by (auto simp: claim_next_run_of_kind_def select_one_None)
next
  case (Some x)
  let ?P = "\<lambda>r. ru_id r = ru_id x \<and> run_claimable k lease (now d) r"
  from select_one_SomeD [OF Some] obtain y where "find ?P (rows (ci_runs d)) = Some y"
    using find_Some_ex [of x "rows (ci_runs d)" ?P] by auto
  then have take: "\<exists>r d'. take_run (ru_id x) k lease d = (Inr (Some r), d')"
    by (simp add: take_run_def update_returning_def Let_def)
  have body: "e \<noteq> ErrNoRunQueued \<and> gs \<noteq> []"
    if "query (\<lambda>d. select_one (run_claimable k lease (now d)) (ci_runs d)) (\<lambda>r. case r of None \<Rightarrow> err ErrNoRunQueued
        | Some r \<Rightarrow> exec (take_run (ru_id r) k lease) (\<lambda>r'. case r' of None \<Rightarrow> err ErrNoRunQueued | Some r' \<Rightarrow> ok r')) (gs, d) = (Inl e, s)"
    for gs e and s :: "db session"
  proof (cases gs rule: remdups_adj.cases)
    case 1
    with that Some take show ?thesis by auto
  next
    case (2 b)
    with that Some take show ?thesis by (cases b) auto
  next
    case (3 b c)
    with that Some take show ?thesis by (cases b; cases c) auto
  qed
  have "e \<noteq> ErrNoRunQueued \<and> fs \<noteq> []"
  proof (cases fs)
    case Nil
    with assms Some take show ?thesis by (auto simp: claim_next_run_of_kind_def)
  next
    case (Cons b gs)
    show ?thesis
    proof (cases b)
      case True
      with assms Cons show ?thesis by (simp add: claim_next_run_of_kind_def)
    next
      case False
      with assms Cons show ?thesis unfolding claim_next_run_of_kind_def by (auto simp del: tx.simps dest!: tx_failure dest: body)
    qed
  qed
  with assms show ?thesis unfolding claim_next_run_of_kind_def by (auto dest: tx_atomic)
qed

definition kind_lease :: "timeouts \<Rightarrow> run_kind \<Rightarrow> int" where
  "kind_lease cfg k = run_lease (if k = RunKindCI then ci_run_timeout cfg else agent_run_timeout cfg)"

definition kind_acquire :: "run_kind \<Rightarrow> work_budget \<Rightarrow> bool \<times> work_budget" where
  "kind_acquire k = (if k = RunKindCI then try_acquire_ci else try_acquire_agent)"

lemma dispatch_kind_eq: "dispatch_kind cfg k =
  dispatch (kind_acquire k) (if k = RunKindCI then release_ci else release_agent)
    (bind (claim_next_run_of_kind k (kind_lease cfg k)) (\<lambda>r. ok (RunWork r)))"
  by (simp add: dispatch_kind_def kind_lease_def kind_acquire_def)

lemma kind_slot_back:
  assumes "runner_ok slots reserved rn" and "kind_acquire k (rn_budget rn) = (True, b)"
  shows "(if k = RunKindCI then release_ci else release_agent) b = rn_budget rn"
  using assms
  by (auto simp: kind_acquire_def budget_ok_def try_acquire_ci_def try_acquire_agent_def release_ci_def release_agent_def
      try_send_def receive_def Let_def split: if_splits option.splits)

lemma dispatch_kind_ends:
  assumes "dispatch_kind cfg k rn = (False, rn')" and "runner_ok slots reserved rn"
  shows "(\<not> fst (kind_acquire k (rn_budget rn)) \<and> rn' = rn) \<or>
    (\<exists>e s. claim_next_run_of_kind k (kind_lease cfg k) (rn_db rn) = (Inl e, s) \<and> rn' = rn\<lparr>rn_db := s\<rparr>)"
proof (cases "kind_acquire k (rn_budget rn)")
  case (Pair got b)
  with assms kind_slot_back [OF assms(2), of k b] show ?thesis
    by (cases got) (auto simp: dispatch_kind_eq dispatch_def bind_def split: prod.splits sum.splits)
qed

text \<open>The runner as the n-th iteration from the i-th on finds it, while the loop runs.\<close>

primrec drain_at :: "(nat \<Rightarrow> runner \<Rightarrow> runner) \<Rightarrow> (runner \<Rightarrow> bool \<times> runner) \<Rightarrow> nat \<Rightarrow> runner \<Rightarrow> nat \<Rightarrow> runner" where
  "drain_at others step i rn 0 = others i rn"
| "drain_at others step i rn (Suc n) = others (i + Suc n) (snd (step (drain_at others step i rn n)))"

lemma drain_at_later: "drain_at others step i rn (Suc n) = drain_at others step (Suc i) (snd (step (others i rn))) n"
  by (induction n) simp_all

lemma drain_None:
  assumes "drain stop others step i rn = None"
  shows "\<not> stop (i + n) \<and> fst (step (drain_at others step i rn n))"
  using assms
proof (induction n arbitrary: i rn)
  case 0
  then show ?case by (subst (asm) drain.simps) (auto split: if_splits prod.splits)
next
  case (Suc n)
  then have "drain stop others step (Suc i) (snd (step (others i rn))) = None"
    by (subst (asm) drain.simps) (auto split: if_splits prod.splits)
  from Suc.IH [OF this] show ?case unfolding drain_at_later by simp
qed

lemma drain_Some:
  assumes "drain stop others step i rn = Some rn'"
  shows "\<exists>n. if stop (i + n) then rn' = drain_at others step i rn n else step (drain_at others step i rn n) = (False, rn')"
proof -
  let ?P = "\<lambda>stop others step i rn rn'. \<exists>n. if stop (i + n) then rn' = drain_at others step i rn n
    else step (drain_at others step i rn n) = (False, rn')"
  show ?thesis
  proof (rule drain.raw_induct [where P = ?P, OF _ assms])
    fix loop stop others step i rn rn'
    assume IH: "\<And>stop others step i rn rn'. loop stop others step i rn = Some rn' \<Longrightarrow> ?P stop others step i rn rn'"
      and body: "(if stop i then Some (others i rn)
        else case step (others i rn) of (goes_on, rn') \<Rightarrow> if goes_on then loop stop others step (i + 1) rn' else Some rn') = Some rn'"
    show "?P stop others step i rn rn'"
    proof (cases "\<not> stop i \<and> fst (step (others i rn))")
      case True
      with body have "loop stop others step (i + 1) (snd (step (others i rn))) = Some rn'" by (auto split: prod.splits)
      from IH [OF this] obtain n where "if stop (i + 1 + n) then rn' = drain_at others step (i + 1) (snd (step (others i rn))) n
        else step (drain_at others step (i + 1) (snd (step (others i rn))) n) = (False, rn')" by blast
      then show ?thesis by (intro exI [of _ "Suc n"]) (simp add: drain_at_later del: drain_at.simps split: if_splits)
    next
      case False
      with body show ?thesis by (intro exI [of _ 0]) (auto split: if_splits prod.splits)
    qed
  qed
qed

lemma drain_at_ok:
  assumes "runner_ok slots reserved rn" and "\<And>i rn. (runner_step cfg)\<^sup>*\<^sup>* rn (others i rn)"
  shows "runner_ok slots reserved (drain_at others (dispatch_kind cfg k) i rn n)"
proof -
  have others: "runner_ok slots reserved (others j x)" if "runner_ok slots reserved x" for j x
    using assms(2) [of x j] that by (induction rule: rtranclp_induct) (auto dest: runner_step_ok)
  show ?thesis
  proof (induction n)
    case 0
    then show ?case using others assms(1) by simp
  next
    case (Suc n)
    have "runner_step cfg x (snd (dispatch_kind cfg k x))" for x by (rule step_kind [where k = k]) (rule prod.collapse [symmetric])
    from others [OF runner_step_ok [OF this Suc]] show ?case by simp
  qed
qed

lemma falling_free:
  assumes "\<And>n :: nat. N \<le> n \<Longrightarrow> (f (Suc n) :: nat) < f n" shows False
proof -
  have "f (N + n) + n \<le> f N" for n
  proof (induction n)
    case (Suc n)
    with assms [of "N + n"] show ?case by simp
  qed simp
  from this [of "f N + 1"] show False by simp
qed

text \<open>C22: \<open>drainKind\<close> among everything else that goes on: workers that end and release their slots, runs that are
  enqueued, other loops that dispatch, statements that fail. It returns only as its comment says: the context is
  cancelled, or the budget refuses its side a slot, or the claim fails, when the slot is given back and nothing else
  has changed; and when the claim found nothing queued, or on a healthy engine, no run of the kind is claimable then.
  It does not return only when the context is never cancelled, every single iteration claims and starts a run, and
  slots are released by others again and again for ever: once no slot is released any more, it returns.\<close>

theorem drain_kind_returns:
  assumes "runner_ok slots reserved rn" and "\<And>i rn. (runner_step cfg)\<^sup>*\<^sup>* rn (others i rn)"
  shows "case drain stop others (dispatch_kind cfg k) 0 rn of
      Some rn' \<Rightarrow> (\<exists>i r. r = drain_at others (dispatch_kind cfg k) 0 rn i \<and>
        (stop i \<and> rn' = r \<or> \<not> fst (kind_acquire k (rn_budget r)) \<and> rn' = r \<or>
         (\<exists>e s. claim_next_run_of_kind k (kind_lease cfg k) (rn_db r) = (Inl e, s) \<and> rn' = r\<lparr>rn_db := s\<rparr> \<and> snd s = snd (rn_db r) \<and>
           (e = ErrNoRunQueued \<or> fst (rn_db r) = [] \<longrightarrow>
             \<not> exists_where (run_claimable k (kind_lease cfg k) (now (snd s))) (ci_runs (snd s))))))
    | None \<Rightarrow> (\<forall>i. \<not> stop i \<and> fst (dispatch_kind cfg k (drain_at others (dispatch_kind cfg k) 0 rn i))) \<and>
        (\<forall>N. \<exists>i \<ge> N. free_slots (snd (dispatch_kind cfg k (drain_at others (dispatch_kind cfg k) 0 rn i))) <
          free_slots (drain_at others (dispatch_kind cfg k) 0 rn (Suc i)))"
proof (cases "drain stop others (dispatch_kind cfg k) 0 rn")
  case None
  let ?at = "drain_at others (dispatch_kind cfg k) 0 rn"
  have go: "\<not> stop i \<and> fst (dispatch_kind cfg k (?at i))" for i
    using drain_None [OF None, of i] by simp
  have used: "free_slots (snd (dispatch_kind cfg k (?at i))) < free_slots (?at i)" for i
  proof (rule dispatch_uses_slot [OF drain_at_ok [OF assms]])
    show "dispatch_kind cfg k (?at i) = (True, snd (dispatch_kind cfg k (?at i)))"
      using go [of i] by (cases "dispatch_kind cfg k (?at i)") simp
  qed
  have "\<exists>i \<ge> N. free_slots (snd (dispatch_kind cfg k (?at i))) < free_slots (?at (Suc i))" for N
  proof (rule ccontr)
    assume "\<not> ?thesis"
    then have "free_slots (?at (Suc i)) < free_slots (?at i)" if "N \<le> i" for i
      using used [of i] that by (meson le_less_trans not_less)
    then show False by (rule falling_free)
  qed
  with go None show ?thesis by simp
next
  case (Some rn')
  then obtain i where i: "if stop i then rn' = drain_at others (dispatch_kind cfg k) 0 rn i
      else dispatch_kind cfg k (drain_at others (dispatch_kind cfg k) 0 rn i) = (False, rn')"
    using drain_Some by fastforce
  define r where r: "r = drain_at others (dispatch_kind cfg k) 0 rn i"
  have ok: "runner_ok slots reserved r" unfolding r by (rule drain_at_ok [OF assms])
  have "stop i \<and> rn' = r \<or> \<not> fst (kind_acquire k (rn_budget r)) \<and> rn' = r \<or>
      (\<exists>e s. claim_next_run_of_kind k (kind_lease cfg k) (rn_db r) = (Inl e, s) \<and> rn' = r\<lparr>rn_db := s\<rparr> \<and> snd s = snd (rn_db r) \<and>
        (e = ErrNoRunQueued \<or> fst (rn_db r) = [] \<longrightarrow>
          \<not> exists_where (run_claimable k (kind_lease cfg k) (now (snd s))) (ci_runs (snd s))))"
  proof (cases "stop i")
    case False
    with i have "dispatch_kind cfg k r = (False, rn')" by (simp add: r)
    from dispatch_kind_ends [OF this ok] show ?thesis
    proof
      assume "\<exists>e s. claim_next_run_of_kind k (kind_lease cfg k) (rn_db r) = (Inl e, s) \<and> rn' = r\<lparr>rn_db := s\<rparr>"
      then obtain e s where e: "claim_next_run_of_kind k (kind_lease cfg k) (rn_db r) = (Inl e, s)" "rn' = r\<lparr>rn_db := s\<rparr>" by blast
      with claim_refused_kind [of k "kind_lease cfg k" "fst (rn_db r)" "snd (rn_db r)" e "fst s" "snd s"] show ?thesis by simp
    qed blast
  qed (use i r in simp)
  with Some r show ?thesis by auto
qed

definition demo_start :: runner where
  "demo_start = start_runner 2 1 ([], demo_runs)"

definition demo_cfg :: timeouts where
  "demo_cfg = \<lparr>ci_run_timeout = 60000000000, agent_run_timeout = 0, agent_turn_timeout = 0\<rparr>"

lemma demo_start_ok: "runner_ok 2 1 demo_start"
  using runner_reach_ok [of demo_cfg 2 1 "([], demo_runs)" demo_start] by (simp add: demo_start_def)

theorem budget_bounds_witness:
  "length (rn_workers (snd (dispatch_kind demo_cfg RunKindCI demo_start))) = 1 \<and>
   fst (try_acquire_agent (rn_budget (snd (dispatch_kind demo_cfg RunKindCI demo_start)))) \<and>
   \<not> fst (try_acquire_ci (rn_budget (snd (dispatch_kind demo_cfg RunKindCI demo_start))))"
proof -
  let ?rn = "snd (dispatch_kind demo_cfg RunKindCI demo_start)"
  have "runner_step demo_cfg demo_start ?rn" by (rule step_kind [where k = RunKindCI]) (simp add: prod_eq_iff)
  then have reach: "(runner_step demo_cfg)\<^sup>*\<^sup>* (start_runner 2 1 ([], demo_runs)) ?rn" by (simp add: demo_start_def)
  have one: "length (rn_workers ?rn) = 1" "int (ci_work ?rn) = 1" by code_simp+
  from budget_bounds [OF reach] one show ?thesis by simp
qed

text \<open>A drain of CI runs, where the first worker ends before the second iteration.\<close>

definition demo_others :: "nat \<Rightarrow> runner \<Rightarrow> runner" where
  "demo_others i rn = (if i = 1 \<and> rn_workers rn \<noteq> [] then work_done (hd (rn_workers rn)) rn else rn)"

theorem drain_kind_returns_witness:
  "\<exists>rn' i. drain (\<lambda>_. False) demo_others (dispatch_kind demo_cfg RunKindCI) 0 demo_start = Some rn' \<and>
    (\<not> fst (kind_acquire RunKindCI (rn_budget (drain_at demo_others (dispatch_kind demo_cfg RunKindCI) 0 demo_start i))) \<or>
     (\<exists>e s. claim_next_run_of_kind RunKindCI (kind_lease demo_cfg RunKindCI)
       (rn_db (drain_at demo_others (dispatch_kind demo_cfg RunKindCI) 0 demo_start i)) = (Inl e, s)))"
proof -
  have "(runner_step demo_cfg)\<^sup>*\<^sup>* rn (demo_others i rn)" for i rn
    by (cases "rn_workers rn") (auto simp: demo_others_def intro!: r_into_rtranclp step_done)
  note returns = drain_kind_returns [where others = demo_others and cfg = demo_cfg, OF demo_start_ok this, of "\<lambda>_. False" RunKindCI]
  have "drain_at demo_others (dispatch_kind demo_cfg RunKindCI) 0 demo_start (Suc i) =
      snd (dispatch_kind demo_cfg RunKindCI (drain_at demo_others (dispatch_kind demo_cfg RunKindCI) 0 demo_start i))" if "1 \<le> i" for i
    using that by (simp add: demo_others_def)
  then have still: "\<not> (\<exists>i \<ge> 1. free_slots (snd (dispatch_kind demo_cfg RunKindCI (drain_at demo_others (dispatch_kind demo_cfg RunKindCI) 0 demo_start i))) <
      free_slots (drain_at demo_others (dispatch_kind demo_cfg RunKindCI) 0 demo_start (Suc i)))" by (metis less_irrefl)
  from returns obtain rn' where "drain (\<lambda>_. False) demo_others (dispatch_kind demo_cfg RunKindCI) 0 demo_start = Some rn'"
  proof (cases "drain (\<lambda>_. False) demo_others (dispatch_kind demo_cfg RunKindCI) 0 demo_start")
    case None
    with returns have "\<forall>N. \<exists>i \<ge> N. free_slots (snd (dispatch_kind demo_cfg RunKindCI (drain_at demo_others (dispatch_kind demo_cfg RunKindCI) 0 demo_start i))) <
      free_slots (drain_at demo_others (dispatch_kind demo_cfg RunKindCI) 0 demo_start (Suc i))" by (simp del: drain_at.simps)
    from this [rule_format, of 1] still show ?thesis by blast
  qed
  with returns show ?thesis by (auto simp del: drain_at.simps)
qed

end
