(* ===== verification/Handoff.thy ===== *)
theory Handoff imports GitMerge begin

text \<open>
  The handoff of an agent's work, \<open>materializeAgentBranch\<close> and \<open>allocateHandoffRef\<close> of
  \<open>cmd/codefortd/agent_handoff.go\<close>: the workspace becomes a commit on the run's base, and the commit gets the
  first free branch of a series. Git and the pushes of others are as in \<open>GitMerge\<close>; an empty old value of
  \<open>update-ref\<close>, like the zero id, stands for a missing ref.
\<close>

definition max_handoff_ref_attempts :: nat where
  "max_handoff_ref_attempts = 100"

datatype handoff_error = StepFailed string | RefBroken string | SeriesFull

text \<open>The names of the series: the base name, then the numbered ones from 2 on.\<close>

definition series_ref :: "string \<Rightarrow> nat \<Rightarrow> string" where
  "series_ref ref_base attempt = (if attempt \<le> 1 then ref_base else ref_base @ ''-'' @ itoa (int attempt))"

text \<open>The loop, with the attempts that are left.\<close>

fun allocate_from :: "nat \<Rightarrow> nat \<Rightarrow> string \<Rightarrow> string \<Rightarrow> world \<Rightarrow> (handoff_error + string) \<times> world" where
  "allocate_from 0 attempt ref_base commit w = (Inl SeriesFull, w)"
| "allocate_from (Suc left) attempt ref_base commit w =
     (let ref = series_ref ref_base attempt in
      case update_ref ref commit zero_oid w of
        (True, w') \<Rightarrow> (Inr ref, w')
      | (False, w') \<Rightarrow> (case rev_parse ref w' of
          (None, w'') \<Rightarrow> (Inl (RefBroken ref), w'')
        | (Some _, w'') \<Rightarrow> allocate_from left (attempt + 1) ref_base commit w''))"

definition allocate_handoff_ref :: "string \<Rightarrow> string \<Rightarrow> world \<Rightarrow> (handoff_error + string) \<times> world" where
  "allocate_handoff_ref = allocate_from max_handoff_ref_attempts 1"

text \<open>The git commands on the throwaway index: \<open>read-tree\<close>, \<open>add\<close>, \<open>write-tree\<close>, the tree of the base and
  \<open>commit-tree\<close> with its parent; a failure is \<open>False\<close> or \<open>None\<close>.\<close>

record handoff_git =
  hg_read_tree :: "string \<Rightarrow> bool"
  hg_add :: bool
  hg_write_tree :: "string option"
  hg_base_tree :: "string \<Rightarrow> string option"
  hg_commit_tree :: "string \<Rightarrow> string \<Rightarrow> string \<Rightarrow> string \<Rightarrow> string option"

text \<open>The ref, the commit and whether anything changed.\<close>

definition materialize_agent_branch ::
  "handoff_git \<Rightarrow> string \<Rightarrow> string \<Rightarrow> string \<Rightarrow> string \<Rightarrow> world \<Rightarrow> (handoff_error + string \<times> string \<times> bool) \<times> world" where
  "materialize_agent_branch g base ref_base author msg w =
     (let base = trim_space base in
      if \<not> hg_read_tree g base then (Inl (StepFailed ''read-tree''), w)
      else if \<not> hg_add g then (Inl (StepFailed ''add''), w)
      else (case hg_write_tree g of None \<Rightarrow> (Inl (StepFailed ''write-tree''), w) | Some tree \<Rightarrow>
           (case hg_base_tree g base of None \<Rightarrow> (Inl (StepFailed ''rev-parse base tree''), w) | Some base_tree \<Rightarrow>
             if tree = base_tree then (Inr ([], [], False), w)
             else (case hg_commit_tree g tree base author msg of None \<Rightarrow> (Inl (StepFailed ''commit-tree''), w) | Some commit \<Rightarrow>
                 (case allocate_handoff_ref ref_base commit w of
                    (Inl e, w') \<Rightarrow> (Inl e, w')
                  | (Inr ref, w') \<Rightarrow> (Inr (ref, commit, True), w'))))))"

section \<open>A handoff destroys nothing\<close>

lemma others_trans: "others w v \<Longrightarrow> others v w' \<Longrightarrow> others w w'"
  unfolding others_def by (rule rtranclp_trans)

lemma others_then_moved: "others w v \<Longrightarrow> moved_ref ref old new v w' \<Longrightarrow> moved_ref ref old new w w'"
  unfolding moved_ref_def using others_trans by blast

lemma allocate_cases:
  assumes "allocate_from left attempt ref_base commit w = (res, w')"
  shows "(\<exists>k. attempt \<le> k \<and> k < attempt + left \<and> res = Inr (series_ref ref_base k) \<and> moved_ref (series_ref ref_base k) zero_oid commit w w') \<or>
    ((\<exists>e. res = Inl e) \<and> others w w')"
  using assms
proof (induction left arbitrary: attempt w)
  case (Suc left)
  let ?ref = "series_ref ref_base attempt"
  obtain moved v where u: "update_ref ?ref commit zero_oid w = (moved, v)" by (metis surj_pair)
  show ?case
  proof (cases moved)
    case True
    with Suc.prems u update_ref_cases [OF u] show ?thesis by (intro disjI1 exI [of _ attempt]) (auto simp: Let_def)
  next
    case False
    with update_ref_cases [OF u] have o1: "others w v" by simp
    obtain tip v' where p: "rev_parse ?ref v = (tip, v')" by (metis surj_pair)
    from others_trans [OF o1 rev_parse_others [OF p]] have o2: "others w v'" .
    show ?thesis
    proof (cases tip)
      case None
      with Suc.prems u p False o2 show ?thesis by (auto simp: Let_def)
    next
      case (Some t)
      with Suc.prems u p False have "allocate_from left (attempt + 1) ref_base commit v' = (res, w')" by (simp add: Let_def)
      from Suc.IH [OF this] show ?thesis
      proof
        assume "\<exists>k. attempt + 1 \<le> k \<and> k < attempt + 1 + left \<and> res = Inr (series_ref ref_base k) \<and> moved_ref (series_ref ref_base k) zero_oid commit v' w'"
        then obtain k where "attempt + 1 \<le> k" "k < attempt + 1 + left" "res = Inr (series_ref ref_base k)" "moved_ref (series_ref ref_base k) zero_oid commit v' w'"
          by blast
        with others_then_moved [OF o2] show ?thesis by (intro disjI1 exI [of _ k]) auto
      next
        assume "(\<exists>e. res = Inl e) \<and> others v' w'"
        with others_trans [OF o2] show ?thesis by blast
      qed
    qed
  qed
qed auto

text \<open>C28: A handoff, with pushes of others before, between and after its steps and any of its git commands failing: when it
  reports a branch, the branch is in the issue's series, did not exist at that moment and points at the new
  commit on the run's base; in every other case the handoff has changed no ref. No earlier work is lost.\<close>

theorem handoff_destroys_nothing:
  assumes "materialize_agent_branch g base ref_base author msg w = (res, w')"
  shows "case res of
      Inr (ref, commit, True) \<Rightarrow> (\<exists>k \<ge> 1. k \<le> 100 \<and> ref = series_ref ref_base k) \<and> moved_ref ref zero_oid commit w w' \<and>
        (\<exists>tree. hg_write_tree g = Some tree \<and> hg_base_tree g (trim_space base) \<noteq> Some tree \<and> hg_commit_tree g tree (trim_space base) author msg = Some commit)
    | Inr (ref, commit, False) \<Rightarrow> w' = w \<and> hg_write_tree g = hg_base_tree g (trim_space base)
    | Inl e \<Rightarrow> others w w'"
proof -
  have alloc: "(\<exists>ref. r = Inr ref \<and> (\<exists>k \<ge> 1. k \<le> 100 \<and> ref = series_ref ref_base k) \<and> moved_ref ref zero_oid commit w v) \<or> ((\<exists>e. r = Inl e) \<and> others w v)"
    if "allocate_handoff_ref ref_base commit w = (r, v)" for commit r v
    using allocate_cases [OF that [unfolded allocate_handoff_ref_def]] by (force simp: max_handoff_ref_attempts_def)
  show ?thesis
  proof (cases "hg_read_tree g (trim_space base) \<and> hg_add g")
    case ready: True
    show ?thesis
    proof (cases "hg_write_tree g")
      case (Some tree)
      note t = Some
      show ?thesis
      proof (cases "hg_base_tree g (trim_space base)")
        case (Some bt)
        show ?thesis
        proof (cases "tree = bt")
          case True
          with assms ready t Some show ?thesis by (auto simp: materialize_agent_branch_def Let_def)
        next
          case ne: False
          show ?thesis
          proof (cases "hg_commit_tree g tree (trim_space base) author msg")
            case None
            with assms ready t Some ne show ?thesis by (auto simp: materialize_agent_branch_def Let_def)
          next
            case c: (Some commit)
            obtain r v where a: "allocate_handoff_ref ref_base commit w = (r, v)" by (metis surj_pair)
            from alloc [OF a] assms ready t Some ne c a show ?thesis
              by (cases r) (auto simp: materialize_agent_branch_def Let_def)
          qed
        qed
      qed (use assms ready t in \<open>auto simp: materialize_agent_branch_def Let_def\<close>)
    qed (use assms ready in \<open>auto simp: materialize_agent_branch_def Let_def\<close>)
  qed (use assms in \<open>auto simp: materialize_agent_branch_def Let_def split: if_splits\<close>)
qed

text \<open>Nobody else at work and no command failing, the handoff takes the first free name of the series, and leaves
  all other refs alone; only when all hundred names are taken does it give up.\<close>

theorem handoff_takes_first_free:
  "allocate_handoff_ref ref_base commit ([], r) =
     (case find (\<lambda>k. r (series_ref ref_base k) = None) [1..<101] of
        Some k \<Rightarrow> (Inr (series_ref ref_base k), ([], r(series_ref ref_base k \<mapsto> commit)))
      | None \<Rightarrow> (Inl SeriesFull, ([], r)))"
proof -
  have "allocate_from left a ref_base commit ([], r) =
     (case find (\<lambda>k. r (series_ref ref_base k) = None) [a..<a + left] of
        Some k \<Rightarrow> (Inr (series_ref ref_base k), ([], r(series_ref ref_base k \<mapsto> commit)))
      | None \<Rightarrow> (Inl SeriesFull, ([], r)))" for left a
  proof (induction left arbitrary: a)
    case (Suc left)
    have "[a..<a + Suc left] = a # [a + 1..<a + 1 + left]" by (simp add: upt_conv_Cons)
    with Suc.IH [of "a + 1"] show ?case
      by (auto simp: Let_def update_ref_def arrive_def points_at_def rev_parse_def split: option.splits)
  qed simp
  from this [of 100 1] show ?thesis by (simp add: allocate_handoff_ref_def max_handoff_ref_attempts_def)
qed

definition demo_handoff :: handoff_git where
  "demo_handoff = \<lparr>hg_read_tree = (\<lambda>_. True), hg_add = True, hg_write_tree = Some ''t2'', hg_base_tree = (\<lambda>_. Some ''t1''),
     hg_commit_tree = (\<lambda>tree base author msg. Some ''c9'')\<rparr>"

theorem handoff_destroys_nothing_witness:
  "\<exists>w'. materialize_agent_branch demo_handoff ''c1'' ''refs/heads/agent/issue-1'' ''a'' ''m'' ([], [''refs/heads/agent/issue-1'' \<mapsto> ''c5'']) =
      (Inr (''refs/heads/agent/issue-1-2'', ''c9'', True), w') \<and>
    moved_ref ''refs/heads/agent/issue-1-2'' zero_oid ''c9'' ([], [''refs/heads/agent/issue-1'' \<mapsto> ''c5'']) w'"
proof -
  let ?w = "([], [''refs/heads/agent/issue-1'' \<mapsto> ''c5''])"
  obtain res w' where m: "materialize_agent_branch demo_handoff ''c1'' ''refs/heads/agent/issue-1'' ''a'' ''m'' ?w = (res, w')"
    by (metis surj_pair)
  have "fst (materialize_agent_branch demo_handoff ''c1'' ''refs/heads/agent/issue-1'' ''a'' ''m'' ?w) = Inr (''refs/heads/agent/issue-1-2'', ''c9'', True)"
    by code_simp
  with m have "res = Inr (''refs/heads/agent/issue-1-2'', ''c9'', True)" by simp
  with handoff_destroys_nothing [OF m] m show ?thesis by auto
qed

end
