(* ===== verification/Specs.thy ===== *)
theory Specs imports Schema GoText begin

text \<open>
  \<open>internal/specs\<close>: the reader of the in-repository specifications (\<open>specs.go\<close>), frontmatter, headings and
  checklist, and the stamp of the verify workflow (\<open>verify.go\<close>). The YAML decoder of the frontmatter is an
  argument. An alignment is a rational number; Go's float arithmetic is taken as exact.
\<close>

section \<open>Text\<close>

abbreviation newline :: char where
  "newline \<equiv> CHR 0x0A"

definition trim_left_of :: "string \<Rightarrow> string \<Rightarrow> string" where
  "trim_left_of cs s = dropWhile (\<lambda>c. c \<in> set cs) s"

definition trim_right_of :: "string \<Rightarrow> string \<Rightarrow> string" where
  "trim_right_of cs s = rev (dropWhile (\<lambda>c. c \<in> set cs) (rev s))"

text \<open>\<open>strings.ReplaceAll(s, "\r\n", "\n")\<close>.\<close>

fun normalize_crlf :: "string \<Rightarrow> string" where
  "normalize_crlf (c # d # s) =
     (if c = CHR 0x0D \<and> d = newline then newline # normalize_crlf s else c # normalize_crlf (d # s))"
| "normalize_crlf s = s"

text \<open>\<open>path.Base\<close> and \<open>path.Ext\<close>.\<close>

definition path_base :: "string \<Rightarrow> string" where
  "path_base p = (if p = [] then ''.''
     else let q = trim_right_of ''/'' p in if q = [] then ''/'' else last (split_on CHR ''/'' q))"

definition path_ext :: "string \<Rightarrow> string" where
  "path_ext p = (let b = last (split_on CHR ''/'' p); stem = dropWhile (\<lambda>c. c \<noteq> CHR ''.'') (rev b) in
     if stem = [] then [] else CHR ''.'' # rev (takeWhile (\<lambda>c. c \<noteq> CHR ''.'') (rev b)))"

definition id_from_path :: "string \<Rightarrow> string" where
  "id_from_path p = trim_suffix (path_base p) (path_ext (path_base p))"

text \<open>\<open>strings.ToUpper\<close> of one byte; a byte that is no character becomes the replacement character.\<close>

definition upper_byte :: "char \<Rightarrow> string" where
  "upper_byte c = (let n = of_char c :: nat in
     if 97 \<le> n \<and> n \<le> 122 then [char_of (n - 32)] else if n < 128 then [c] else [CHR 0xEF, CHR 0xBF, CHR 0xBD])"

definition title_word :: "string \<Rightarrow> string" where
  "title_word w = (case w of [] \<Rightarrow> [] | c # s \<Rightarrow> upper_byte c @ s)"

definition title_from_path :: "string \<Rightarrow> string" where
  "title_from_path p = join '' '' (map title_word (filter (\<lambda>w. w \<noteq> [])
     (concat (map (split_on CHR ''_'') (split_on CHR ''-'' (id_from_path p))))))"

section \<open>Frontmatter\<close>

record frontmatter =
  fm_id :: string
  fm_status :: string
  fm_owners :: "string list"
  fm_covers :: "string list"
  fm_last_verified :: string
  fm_alignment :: "rat option"

definition no_frontmatter :: frontmatter where
  "no_frontmatter = \<lparr>fm_id = [], fm_status = [], fm_owners = [], fm_covers = [], fm_last_verified = [], fm_alignment = None\<rparr>"

definition fence :: string where
  "fence = ''---''"

definition is_fence :: "string \<Rightarrow> bool" where
  "is_fence line = (let t = trim_right_of [CHR '' '', CHR 0x09] line in t = fence \<or> t = ''...'')"

text \<open>The lines before the closing fence, and the fence with what follows it.\<close>

fun until_fence :: "string list \<Rightarrow> (string list \<times> string list) option" where
  "until_fence [] = None"
| "until_fence (l # ls) = (if is_fence l then Some ([], l # ls)
     else map_option (\<lambda>(ys, zs). (l # ys, zs)) (until_fence ls))"

definition split_frontmatter ::
  "(string \<Rightarrow> frontmatter option) \<Rightarrow> string \<Rightarrow> (frontmatter \<times> string \<times> int) option" where
  "split_frontmatter decode data =
     (let s = normalize_crlf data in
      if \<not> has_prefix s (fence @ [newline]) \<and> s \<noteq> fence then Some (no_frontmatter, s, 1)
      else (case until_fence (tl (split_on newline s)) of
          None \<Rightarrow> Some (no_frontmatter, s, 1)
        | Some (yaml, rest) \<Rightarrow>
            (let block = join [newline] yaml;
                 fm = (if trim_space block = [] then Some no_frontmatter else decode block) in
             map_option (\<lambda>fm. (fm, join [newline] (tl rest), int (length yaml) + 3)) fm)))"

section \<open>Headings and checklist\<close>

record section_row =
  sec_title :: string
  sec_level :: nat
  sec_body :: string
  sec_line :: int

record checklist_item =
  ck_text :: string
  ck_checked :: bool
  ck_line :: int

definition parse_heading :: "string \<Rightarrow> (nat \<times> string) option" where
  "parse_heading line =
     (if has_prefix line ''    '' then None
      else (let t = trim_left_of '' '' line; n = length (takeWhile (\<lambda>c. c = CHR ''#'') t) in
        if n = 0 \<or> 6 < n \<or> length t \<le> n \<or> t ! n \<noteq> CHR '' '' then None
        else Some (n, trim_space (trim_right_of ''#'' (trim_space (drop (n + 1) t))))))"

definition parse_checklist_item :: "string \<Rightarrow> (string \<times> bool) option" where
  "parse_checklist_item line =
     (let t = trim_left_of [CHR '' '', CHR 0x09] line in
      if length t < 5 \<or> hd t \<notin> set ''-*+'' then None
      else (let rest = trim_left_of '' '' (tl t) in
        if length rest < 3 \<or> rest ! 0 \<noteq> CHR ''['' \<or> rest ! 2 \<noteq> CHR '']'' then None
        else if rest ! 1 = CHR '' '' then Some (trim_space (drop 3 rest), False)
        else if rest ! 1 \<in> set ''xX'' then Some (trim_space (drop 3 rest), True)
        else None))"

text \<open>An open section: its index, the line its body begins at, its level. The stack has the innermost first.\<close>

type_synonym open_section = "nat \<times> nat \<times> nat"

record analysis =
  an_title :: string
  an_sections :: "section_row list"
  an_stack :: "open_section list"
  an_checklist :: "checklist_item list"
  an_in_fence :: bool

definition section_text :: "string list \<Rightarrow> nat \<Rightarrow> nat \<Rightarrow> string" where
  "section_text lines from till = (let b = join [newline] (take (till - from) (drop from lines)) in
     trim_right_of [newline] (trim_left_of [newline] b))"

fun close_to :: "string list \<Rightarrow> nat \<Rightarrow> nat \<Rightarrow> section_row list \<Rightarrow> open_section list \<Rightarrow> section_row list \<times> open_section list" where
  "close_to lines lvl till secs [] = (secs, [])"
| "close_to lines lvl till secs ((idx, from, l) # stack) =
     (if lvl \<le> l then close_to lines lvl till (secs[idx := (secs ! idx)\<lparr>sec_body := section_text lines from till\<rparr>]) stack
      else (secs, (idx, from, l) # stack))"

definition open_heading :: "string list \<Rightarrow> int \<Rightarrow> nat \<Rightarrow> nat \<times> string \<Rightarrow> section_row list \<times> open_section list \<Rightarrow> section_row list \<times> open_section list" where
  "open_heading lines base i h st = (case (h, st) of ((lvl, txt), (secs, stack)) \<Rightarrow>
     (case close_to lines lvl i secs stack of (secs, stack) \<Rightarrow>
       (secs @ [\<lparr>sec_title = txt, sec_level = lvl, sec_body = [], sec_line = base + int i\<rparr>],
        (length secs, i + 1, lvl) # stack)))"

definition is_code_fence :: "string \<Rightarrow> bool" where
  "is_code_fence line \<longleftrightarrow> has_prefix (trim_space line) ''```'' \<or> has_prefix (trim_space line) ''~~~''"

definition analyze_line :: "string list \<Rightarrow> int \<Rightarrow> nat \<times> string \<Rightarrow> analysis \<Rightarrow> analysis" where
  "analyze_line lines base l an = (case l of (i, line) \<Rightarrow>
     if is_code_fence line then an\<lparr>an_in_fence := \<not> an_in_fence an\<rparr>
     else if an_in_fence an then an
     else (case parse_heading line of
         Some (lvl, txt) \<Rightarrow> (case open_heading lines base i (lvl, txt) (an_sections an, an_stack an) of (secs, stack) \<Rightarrow>
           an\<lparr>an_title := (if lvl = 1 \<and> an_title an = [] then txt else an_title an), an_sections := secs, an_stack := stack\<rparr>)
       | None \<Rightarrow> (case parse_checklist_item line of
           Some (txt, checked) \<Rightarrow> an\<lparr>an_checklist := an_checklist an @ [\<lparr>ck_text = txt, ck_checked = checked, ck_line = base + int i\<rparr>]\<rparr>
         | None \<Rightarrow> an)))"

definition start_analysis :: analysis where
  "start_analysis = \<lparr>an_title = [], an_sections = [], an_stack = [], an_checklist = [], an_in_fence = False\<rparr>"

definition analyze :: "string \<Rightarrow> int \<Rightarrow> string \<times> section_row list \<times> checklist_item list" where
  "analyze body base = (if body = [] then ([], [], [])
     else (let lines = split_on newline body;
               an = fold (analyze_line lines base) (enumerate 0 lines) start_analysis in
           (an_title an, fst (close_to lines 1 (length lines) (an_sections an) (an_stack an)), an_checklist an)))"

section \<open>Specifications\<close>

record spec =
  sp_path :: string
  sp_frontmatter :: frontmatter
  sp_title :: string
  sp_body :: string
  sp_sections :: "section_row list"
  sp_checklist :: "checklist_item list"

definition parse_spec :: "(string \<Rightarrow> frontmatter option) \<Rightarrow> string \<Rightarrow> string \<Rightarrow> spec option" where
  "parse_spec decode path data = map_option (\<lambda>(fm, body, start). (case analyze body start of (title, secs, items) \<Rightarrow>
     \<lparr>sp_path = path, sp_frontmatter = (if fm_id fm = [] then fm\<lparr>fm_id := id_from_path path\<rparr> else fm),
      sp_title = (if title = [] then title_from_path path else title), sp_body = body, sp_sections = secs, sp_checklist = items\<rparr>))
     (split_frontmatter decode data)"

datatype spec_problem = UnknownStatus string | AlignmentOutOfRange rat

definition validate_spec :: "spec \<Rightarrow> spec_problem list" where
  "validate_spec s = (let fm = sp_frontmatter s in
     (if fm_status fm \<in> {'''', ''living'', ''draft'', ''superseded''} then [] else [UnknownStatus (fm_status fm)]) @
     (case fm_alignment fm of None \<Rightarrow> [] | Some a \<Rightarrow> if a < 0 \<or> 1 < a then [AlignmentOutOfRange a] else []))"

definition spec_section :: "(string \<Rightarrow> string \<Rightarrow> bool) \<Rightarrow> spec \<Rightarrow> string \<Rightarrow> section_row option" where
  "spec_section equal_fold s name = find (\<lambda>x. equal_fold (trim_space (sec_title x)) name) (sp_sections s)"

section \<open>The verify pass\<close>

definition marker_valid :: "string \<Rightarrow> bool" where
  "marker_valid m \<longleftrightarrow> m \<in> {''aligned'', ''drifted'', ''unverifiable'', ''unspecced''}"

record line_marker =
  lm_line :: int
  lm_text :: string
  lm_marker :: string
  lm_note :: string

record verification_result =
  vr_alignment :: rat
  vr_markers :: "line_marker list"
  vr_conflicts :: "string list"
  vr_notes :: string

fun count_markers :: "line_marker list \<Rightarrow> int \<times> int \<Rightarrow> int \<times> int" where
  "count_markers [] (aligned, verifiable) = (aligned, verifiable)"
| "count_markers (m # ms) (aligned, verifiable) =
     (if lm_marker m = ''aligned'' then count_markers ms (aligned + 1, verifiable + 1)
      else if lm_marker m = ''drifted'' then count_markers ms (aligned, verifiable + 1)
      else count_markers ms (aligned, verifiable))"

definition compute_alignment :: "line_marker list \<Rightarrow> rat" where
  "compute_alignment ms = (case count_markers ms (0, 0) of (aligned, verifiable) \<Rightarrow>
     if verifiable = 0 then 1 else of_int aligned / of_int verifiable)"

definition rounded_alignment :: "rat \<Rightarrow> rat" where
  "rounded_alignment a = (let a = (if a < 0 then 0 else a); a = (if 1 < a then 1 else a) in of_int \<lfloor>a * 100 + 1 / 2\<rfloor> / 100)"

text \<open>\<open>strconv.FormatFloat(x, 'f', 2, 64)\<close> of a number of hundredths.\<close>

definition format_hundredths :: "rat \<Rightarrow> string" where
  "format_hundredths x = (let k = \<lfloor>x * 100\<rfloor>; r = k mod 100 in
     itoa (k div 100) @ ''.'' @ (if r < 10 then ''0'' else []) @ itoa r)"

fun upsert_yaml :: "string list \<Rightarrow> string \<Rightarrow> string \<Rightarrow> string list" where
  "upsert_yaml [] key value = [key @ '': '' @ value]"
| "upsert_yaml (l # ls) key value =
     (let t = trim_space l; prefix = key @ '':'' in
      if t = prefix \<or> has_prefix t (prefix @ '' '') then (key @ '': '' @ value) # ls else l # upsert_yaml ls key value)"

definition stamp :: "string \<Rightarrow> string \<Rightarrow> rat \<Rightarrow> string" where
  "stamp content last_verified alignment =
     (let align = format_hundredths (rounded_alignment alignment);
          lines = split_on newline (normalize_crlf content);
          block = [fence, ''last_verified: '' @ last_verified, ''alignment: '' @ align, fence] in
      if hd lines \<noteq> fence then join [newline] (block @ lines)
      else (case until_fence (tl lines) of
          None \<Rightarrow> join [newline] (block @ lines)
        | Some (fm, rest) \<Rightarrow>
            join [newline] (fence # upsert_yaml (upsert_yaml fm ''last_verified'' last_verified) ''alignment'' align @ rest)))"


section \<open>The sections of a body\<close>

text \<open>The headings outside code fences, and what a section is: the lines from its heading to the next one of its
  level or a shallower one.\<close>

fun headings_from :: "bool \<Rightarrow> nat \<Rightarrow> string list \<Rightarrow> (nat \<times> nat \<times> string) list" where
  "headings_from f i [] = []"
| "headings_from f i (l # ls) =
     (if is_code_fence l then headings_from (\<not> f) (i + 1) ls
      else if f then headings_from f (i + 1) ls
      else (case parse_heading l of None \<Rightarrow> headings_from f (i + 1) ls | Some h \<Rightarrow> (i, h) # headings_from f (i + 1) ls))"

definition section_end :: "string list \<Rightarrow> nat \<Rightarrow> (nat \<times> nat \<times> string) list \<Rightarrow> nat" where
  "section_end lines lvl hs = (case find (\<lambda>(_, l, _). l \<le> lvl) hs of None \<Rightarrow> length lines | Some (j, _) \<Rightarrow> j)"

fun sections_of :: "string list \<Rightarrow> int \<Rightarrow> (nat \<times> nat \<times> string) list \<Rightarrow> section_row list" where
  "sections_of lines base [] = []"
| "sections_of lines base ((i, lvl, txt) # hs) =
     \<lparr>sec_title = txt, sec_level = lvl, sec_body = section_text lines (i + 1) (section_end lines lvl hs), sec_line = base + int i\<rparr>
       # sections_of lines base hs"

definition fill :: "string list \<Rightarrow> (nat \<Rightarrow> nat) \<Rightarrow> open_section list \<Rightarrow> section_row list \<Rightarrow> section_row list" where
  "fill lines e stack secs = fold (\<lambda>(idx, from, l) secs. secs[idx := (secs ! idx)\<lparr>sec_body := section_text lines from (e l)\<rparr>]) stack secs"

lemma fill_length [simp]: "length (fill lines e stack secs) = length secs"
  by (induction stack arbitrary: secs) (auto simp: fill_def)

lemma fill_append: "fill lines e (s @ t) secs = fill lines e t (fill lines e s secs)"
  by (simp add: fill_def)

lemma fill_cong: "(\<And>idx from l. (idx, from, l) \<in> set stack \<Longrightarrow> e l = e' l) \<Longrightarrow> fill lines e stack secs = fill lines e' stack secs"
  unfolding fill_def by (rule fold_cong) auto

lemma fill_snoc: "\<forall>(idx, _) \<in> set stack. idx < length secs \<Longrightarrow> fill lines e stack (secs @ [x]) = fill lines e stack secs @ [x]"
proof (induction stack arbitrary: secs)
  case (Cons s stack)
  then show ?case by (cases s) (auto simp: fill_def list_update_append nth_append)
qed (simp add: fill_def)

text \<open>Closing pops the sections of the level and the deeper ones, when the stack has the deepest on top.\<close>

lemma close_to_spec:
  "sorted_wrt (\<lambda>(_, _, a) (_, _, b). b < a) stack \<Longrightarrow>
   \<exists>popped kept. stack = popped @ kept \<and> (\<forall>(_, _, l) \<in> set popped. lvl \<le> l) \<and> (\<forall>(_, _, l) \<in> set kept. l < lvl) \<and>
     close_to lines lvl till secs stack = (fill lines (\<lambda>_. till) popped secs, kept)"
proof (induction stack arbitrary: secs)
  case (Cons s stack)
  obtain idx start l where s: "s = (idx, start, l)" by (metis surj_pair)
  show ?case
  proof (cases "lvl \<le> l")
    case True
    from Cons.IH [of "secs[idx := (secs ! idx)\<lparr>sec_body := section_text lines start till\<rparr>]"] Cons.prems obtain popped kept
      where k: "stack = popped @ kept" "\<forall>(_, _, l) \<in> set popped. lvl \<le> l" "\<forall>(_, _, l) \<in> set kept. l < lvl"
      "close_to lines lvl till (secs[idx := (secs ! idx)\<lparr>sec_body := section_text lines start till\<rparr>]) stack =
         (fill lines (\<lambda>_. till) popped (secs[idx := (secs ! idx)\<lparr>sec_body := section_text lines start till\<rparr>]), kept)"
      by auto
    with True s show ?thesis by (intro exI [of _ "s # popped"] exI [of _ kept]) (auto simp: fill_def)
  next
    case False
    with Cons.prems s show ?thesis by (intro exI [of _ "[]"] exI [of _ "s # stack"]) (auto simp: fill_def)
  qed
qed (simp add: fill_def)

lemma close_all: "\<forall>(_, _, l) \<in> set stack. 1 \<le> l \<Longrightarrow> fst (close_to lines 1 till secs stack) = fill lines (\<lambda>_. till) stack secs"
  by (induction stack arbitrary: secs) (auto simp: fill_def)

lemma headings_fold:
  assumes "sorted_wrt (\<lambda>(_, _, a) (_, _, b). b < a) stack" and "\<forall>(idx, _, l) \<in> set stack. idx < length secs \<and> 1 \<le> l"
    and "\<forall>(_, l, _) \<in> set hs. 1 \<le> l"
  shows "(case fold (\<lambda>(i, h). open_heading lines base i h) hs (secs, stack) of (secs', stack') \<Rightarrow> fst (close_to lines 1 (length lines) secs' stack')) =
    fill lines (\<lambda>l. section_end lines l hs) stack secs @ sections_of lines base hs"
  using assms
proof (induction hs arbitrary: secs stack)
  case Nil
  then have "\<forall>(_, _, l) \<in> set stack. 1 \<le> l" by auto
  from close_all [OF this] show ?case by (simp add: section_end_def)
next
  case (Cons h hs)
  obtain i lvl tx where h: "h = (i, lvl, tx)" by (metis surj_pair)
  from close_to_spec [OF Cons.prems(1), of lvl lines i secs] obtain popped kept where
    k: "stack = popped @ kept" "\<forall>(_, _, l) \<in> set popped. lvl \<le> l" "\<forall>(_, _, l) \<in> set kept. l < lvl"
    "close_to lines lvl i secs stack = (fill lines (\<lambda>_. i) popped secs, kept)" by blast
  let ?secs = "fill lines (\<lambda>_. i) popped secs"
  let ?new = "\<lparr>sec_title = tx, sec_level = lvl, sec_body = [], sec_line = base + int i\<rparr>"
  let ?full = "\<lparr>sec_title = tx, sec_level = lvl, sec_body = section_text lines (i + 1) (section_end lines lvl hs), sec_line = base + int i\<rparr>"
  have step: "open_heading lines base i (lvl, tx) (secs, stack) = (?secs @ [?new], (length ?secs, i + 1, lvl) # kept)"
    using k(4) by (simp add: open_heading_def)
  have small: "idx < length secs \<and> 1 \<le> l" if "(idx, start, l) \<in> set stack" for idx start l
    using Cons.prems(2) that by blast
  then have kept: "\<forall>(idx, _) \<in> set kept. idx < length ?secs" using k(1) by auto
  have "sorted_wrt (\<lambda>(_, _, a) (_, _, b). b < a) ((length ?secs, i + 1, lvl) # kept)"
    using Cons.prems(1) k(1,3) by (auto simp: sorted_wrt_append)
  moreover have "\<forall>(idx, _, l) \<in> set ((length ?secs, i + 1, lvl) # kept). idx < length (?secs @ [?new]) \<and> 1 \<le> l"
    using small Cons.prems(3) k(1) h by (auto intro: less_SucI)
  moreover have "\<forall>(_, l, _) \<in> set hs. 1 \<le> l" using Cons.prems(3) by simp
  ultimately have "(case fold (\<lambda>(i, h). open_heading lines base i h) (h # hs) (secs, stack) of (secs', stack') \<Rightarrow>
      fst (close_to lines 1 (length lines) secs' stack')) =
    fill lines (\<lambda>l. section_end lines l hs) ((length ?secs, i + 1, lvl) # kept) (?secs @ [?new]) @ sections_of lines base hs"
    using Cons.IH by (simp add: h step)
  also have "fill lines (\<lambda>l. section_end lines l hs) ((length ?secs, i + 1, lvl) # kept) (?secs @ [?new]) =
      fill lines (\<lambda>l. section_end lines l hs) kept (?secs @ [?full])" by (simp add: fill_def)
  also have "\<dots> = fill lines (\<lambda>l. section_end lines l hs) kept ?secs @ [?full]" by (rule fill_snoc [OF kept])
  also have "fill lines (\<lambda>l. section_end lines l hs) kept ?secs = fill lines (\<lambda>l. section_end lines l (h # hs)) stack secs"
  proof -
    have "fill lines (\<lambda>_. i) popped secs = fill lines (\<lambda>l. section_end lines l (h # hs)) popped secs"
      using k(2) h by (intro fill_cong) (auto simp: section_end_def)
    moreover have "fill lines (\<lambda>l. section_end lines l hs) kept s = fill lines (\<lambda>l. section_end lines l (h # hs)) kept s" for s
      using k(3) h by (intro fill_cong) (auto simp: section_end_def)
    ultimately show ?thesis by (simp add: k(1) fill_append)
  qed
  finally show ?case by (simp add: h)
qed

lemma analyze_fold:
  "(let an' = fold (analyze_line lines base) (enumerate i ls) an in (an_sections an', an_stack an')) =
   fold (\<lambda>(i, h). open_heading lines base i h) (headings_from (an_in_fence an) i ls) (an_sections an, an_stack an)"
  by (induction ls arbitrary: i an) (auto simp: analyze_line_def Let_def split: option.splits prod.splits)

lemma heading_level: "parse_heading l = Some (lvl, txt) \<Longrightarrow> 1 \<le> lvl \<and> lvl \<le> 6"
  by (auto simp: parse_heading_def Let_def Suc_le_eq split: if_splits)

lemma headings_levels: "(i, lvl, txt) \<in> set (headings_from f k ls) \<Longrightarrow> 1 \<le> lvl"
  by (induction f k ls rule: headings_from.induct) (auto split: if_splits option.splits dest: heading_level)

text \<open>C29: The one pass over the body with its stack of open sections finds every heading outside code fences, in
  order, and gives it exactly the lines up to the next heading of the same or a shallower level, so that a
  section contains its subsections.\<close>

theorem analyze_finds_sections:
  "fst (snd (analyze body base)) = sections_of (split_on newline body) base (headings_from False 0 (split_on newline body))"
proof (cases "body = []")
  case True
  then show ?thesis by (simp add: analyze_def is_code_fence_def trim_space_def trim_left.simps trim_right.simps
      space_width_end_def has_prefix_def parse_heading_def trim_left_of_def)
next
  case False
  let ?ls = "split_on newline body"
  let ?hs = "headings_from False 0 ?ls"
  have "\<forall>(_, l, _) \<in> set ?hs. 1 \<le> l" using headings_levels by auto
  from headings_fold [of "[]" "[]", OF _ _ this] have
    "(case fold (\<lambda>(i, h). open_heading ?ls base i h) ?hs ([], []) of (secs', stack') \<Rightarrow> fst (close_to ?ls 1 (length ?ls) secs' stack')) =
      sections_of ?ls base ?hs" by (simp add: fill_def)
  moreover have "fold (\<lambda>(i, h). open_heading ?ls base i h) ?hs ([], []) =
      (let an' = fold (analyze_line ?ls base) (enumerate 0 ?ls) start_analysis in (an_sections an', an_stack an'))"
    using analyze_fold [of ?ls base 0 ?ls start_analysis] by (simp add: start_analysis_def)
  ultimately show ?thesis using False by (simp add: analyze_def Let_def)
qed


section \<open>The stamp\<close>

definition plain_char :: "char \<Rightarrow> bool" where
  "plain_char c \<longleftrightarrow> 32 < (of_char c :: nat) \<and> (of_char c :: nat) < 127"

lemma plain_head: "plain_char c \<Longrightarrow> trim_left (c # s) = c # s"
  by (subst trim_left.simps) (auto simp: plain_char_def Let_def)

lemma plain_end: assumes "plain_char c" shows "trim_right (s @ [c]) = s @ [c]"
proof -
  have one: "space_width [c] \<noteq> 1" using assms by (auto simp: plain_char_def Let_def)
  have two: "space_width [b, c] \<noteq> 2" for b using assms by (auto simp: plain_char_def Let_def)
  have three: "space_width [a, b, c] \<noteq> 3" for a b using assms by (auto simp: plain_char_def Let_def)
  define P where "P = (\<lambda>w. w \<le> length (s @ [c]) \<and> space_width (drop (length (s @ [c]) - w) (s @ [c])) = w)"
  have "\<not> P w" if "w \<in> {1, 2, 3}" for w
  proof (cases "w \<le> length (s @ [c])")
    case True
    define t where "t = drop (length (s @ [c]) - w) s"
    have d: "drop (length (s @ [c]) - w) (s @ [c]) = t @ [c]" and len: "length t = w - 1"
      using True that by (auto simp: t_def)
    from that consider "w = 1" "t = []" | b where "w = 2" "t = [b]" | a b where "w = 3" "t = [a, b]"
      using len by (auto simp: length_Suc_conv numeral_2_eq_2 numeral_3_eq_3)
    then have "space_width (t @ [c]) \<noteq> w" using one two three by cases simp_all
    then show ?thesis unfolding P_def d by simp
  qed (simp add: P_def)
  then have "find P [1, 2, 3] = None" by simp
  then have "space_width_end (s @ [c]) = 0" unfolding space_width_end_def P_def [symmetric] by simp
  then show ?thesis by (subst trim_right.simps) simp
qed

lemma plain_trim: "plain_char c \<Longrightarrow> plain_char (last (c # s)) \<Longrightarrow> trim_space (c # s) = c # s"
  using plain_end [of "last (c # s)" "butlast (c # s)"] append_butlast_last_id [of "c # s"]
  by (simp only: trim_space_def plain_head) simp

lemma plain_not_fence:
  assumes "plain_char c" and "c \<noteq> CHR ''-''" and "c \<noteq> CHR ''.''" shows "\<not> is_fence (c # s)"
proof -
  have "c \<notin> set [CHR '' '', CHR 0x09]" using assms(1) by (auto simp: plain_char_def)
  then have "\<exists>t. trim_right_of [CHR '' '', CHR 0x09] (c # s) = c # t"
    by (cases "\<forall>x \<in> set s. x \<in> set [CHR '' '', CHR 0x09]")
      (auto simp: trim_right_of_def dropWhile_append intro: exI [of _ "rev (dropWhile (\<lambda>c. c = CHR '' '' \<or> c = CHR 0x09) (rev s))"])
  with assms(2,3) show ?thesis by (auto simp: is_fence_def fence_def Let_def)
qed

text \<open>A line that sets a key, and the keys the stamp writes.\<close>

definition sets_key :: "string \<Rightarrow> string \<Rightarrow> bool" where
  "sets_key key l \<longleftrightarrow> (let t = trim_space l in t = key @ '':'' \<or> has_prefix t (key @ '':'' @ '' ''))"

lemma upsert_yaml_sets [simp]:
  "upsert_yaml (l # ls) key value = (if sets_key key l then (key @ '': '' @ value) # ls else l # upsert_yaml ls key value)"
  by (simp add: sets_key_def Let_def)

declare upsert_yaml.simps(2) [simp del]

lemma upsert_others: "sets_key key (key @ '': '' @ value) \<Longrightarrow>
    filter (\<lambda>l. \<not> sets_key key l) (upsert_yaml ls key value) = filter (\<lambda>l. \<not> sets_key key l) ls"
  by (induction ls) auto

lemma upsert_idem: "sets_key key (key @ '': '' @ value) \<Longrightarrow> upsert_yaml (upsert_yaml ls key value) key value = upsert_yaml ls key value"
  by (induction ls) auto

text \<open>Writing another key in between does not matter.\<close>

lemma upsert_upsert:
  assumes "sets_key k (k @ '': '' @ v)" and "sets_key k' (k' @ '': '' @ v')" and "\<And>l. \<not> (sets_key k l \<and> sets_key k' l)"
  shows "upsert_yaml (upsert_yaml (upsert_yaml ls k v) k' v') k v = upsert_yaml (upsert_yaml ls k v) k' v'"
  using upsert_idem [OF assms(1)] assms by (induction ls) auto

lemma upsert_mem: "x \<in> set (upsert_yaml ls key value) \<Longrightarrow> x \<in> set ls \<or> x = key @ '': '' @ value"
  by (induction ls) (auto split: if_splits)

lemma until_fence_Some: "until_fence ls = Some (ys, zs) \<longleftrightarrow>
    ls = ys @ zs \<and> (\<forall>y \<in> set ys. \<not> is_fence y) \<and> (\<exists>z zs'. zs = z # zs' \<and> is_fence z)"
proof (induction ls arbitrary: ys)
  case (Cons l ls)
  then show ?case by (cases ys) (auto split: if_splits simp: Cons_eq_append_conv)
qed auto

lemma split_join: "ls \<noteq> [] \<Longrightarrow> (\<And>l. l \<in> set ls \<Longrightarrow> newline \<notin> set l) \<Longrightarrow> split_on newline (join [newline] ls) = ls"
proof (induction ls rule: induct_list012)
  case (3 x y zs)
  have "newline \<notin> set x \<Longrightarrow> split_on newline (x @ newline # r) = x # split_on newline r" for x r
    by (induction x) auto
  with 3 show ?case by simp
next
  case (2 x)
  have "newline \<notin> set x \<Longrightarrow> split_on newline x = [x]" for x by (induction x) auto
  with 2 show ?case by simp
qed simp

lemma normalize_id: "CHR 0x0D \<notin> set s \<Longrightarrow> normalize_crlf s = s"
  by (induction s rule: normalize_crlf.induct) auto


lemma split_hd: "hd (split_on c s) = takeWhile (\<lambda>x. x \<noteq> c) s"
  by (induction s) (auto split: list.splits)

lemma opening_fence: "hd (split_on newline s) = fence \<longleftrightarrow> has_prefix s (fence @ [newline]) \<or> s = fence"
proof
  assume "hd (split_on newline s) = fence"
  then have f: "takeWhile (\<lambda>x. x \<noteq> newline) s = fence" by (simp add: split_hd)
  then have "s = fence @ dropWhile (\<lambda>x. x \<noteq> newline) s" by (metis takeWhile_dropWhile_id)
  moreover have "dropWhile (\<lambda>x. x \<noteq> newline) s = [] \<or> (\<exists>r. dropWhile (\<lambda>x. x \<noteq> newline) s = newline # r)"
    using hd_dropWhile [of "\<lambda>x. x \<noteq> newline" s] by (cases "dropWhile (\<lambda>x. x \<noteq> newline) s") auto
  ultimately consider "s = fence @ []" | r where "s = fence @ newline # r" by metis
  then show "has_prefix s (fence @ [newline]) \<or> s = fence" by cases (simp_all add: has_prefix_iff)
next
  assume "has_prefix s (fence @ [newline]) \<or> s = fence"
  then obtain r where "s = fence @ r" "r = [] \<or> hd r = newline" by (auto simp: has_prefix_iff)
  then show "hd (split_on newline s) = fence" by (cases r) (simp_all add: split_hd fence_def)
qed

text \<open>The frontmatter and the rest from the closing fence on; a file without frontmatter gets an empty one.\<close>

definition frontmatter_lines :: "string \<Rightarrow> string list \<times> string list" where
  "frontmatter_lines c = (let lines = split_on newline c in
     case (if hd lines = fence then until_fence (tl lines) else None) of Some p \<Rightarrow> p | None \<Rightarrow> ([], fence # lines))"

definition stamped_lines :: "string \<Rightarrow> rat \<Rightarrow> string list \<Rightarrow> string list" where
  "stamped_lines date a fm = upsert_yaml (upsert_yaml fm ''last_verified'' date) ''alignment'' (format_hundredths (rounded_alignment a))"

definition is_date :: "string \<Rightarrow> bool" where
  "is_date d \<longleftrightarrow> d \<noteq> [] \<and> set d \<subseteq> set ''0123456789-''"

lemma digits_chars: "set (digits n) \<subseteq> set ''0123456789'' \<and> digits n \<noteq> []"
proof (induction n rule: digits.induct)
  case (1 n)
  define D where "D = set ''0123456789''"
  have all: "list_all (\<lambda>k. char_of (48 + k) \<in> set ''0123456789'') [0..<10::nat]" by code_simp
  have d: "char_of (48 + k) \<in> D" if "k < 10" for k :: nat
    using all that unfolding D_def list_all_iff by (simp only: set_upt atLeastLessThan_iff) simp
  have "set (digits n) \<subseteq> D \<and> digits n \<noteq> []"
  proof (cases "n < 10")
    case True
    with d [of n] show ?thesis by simp
  next
    case False
    moreover have "char_of (48 + n mod 10) \<in> D" by (rule d) simp
    moreover have "set (digits (n div 10)) \<subseteq> D" using 1 [OF False] by (simp add: D_def)
    ultimately show ?thesis by (subst (1 2) digits.simps) (simp del: digits.simps)
  qed
  then show ?case by (simp add: D_def del: digits.simps)
qed

lemma format_chars:
  assumes "0 \<le> a" shows "format_hundredths a \<noteq> [] \<and> set (format_hundredths a) \<subseteq> set ''0123456789.''"
proof -
  have "0 \<le> \<lfloor>a * 100\<rfloor>" using assms by simp
  then have "0 \<le> \<lfloor>a * 100\<rfloor> div 100" "0 \<le> \<lfloor>a * 100\<rfloor> mod 100" by (simp_all only: pos_imp_zdiv_nonneg_iff pos_mod_sign zero_less_numeral)
  then have f: "format_hundredths a = digits (nat (\<lfloor>a * 100\<rfloor> div 100)) @ ''.'' @ (if \<lfloor>a * 100\<rfloor> mod 100 < 10 then ''0'' else []) @ digits (nat (\<lfloor>a * 100\<rfloor> mod 100))"
    by (simp add: format_hundredths_def Let_def itoa_def del: digits.simps)
  have "set (digits n) \<subseteq> set ''0123456789.''" for n using digits_chars [of n] by (simp del: digits.simps) blast
  then show ?thesis unfolding f by (auto simp del: digits.simps)
qed

lemma rounded_bounds: "0 \<le> rounded_alignment a \<and> rounded_alignment a \<le> 1"
proof -
  define b where "b = (if 1 < (if a < 0 then 0 else a) then 1 else (if a < 0 then 0 else a))"
  then have b: "0 \<le> b" "b \<le> 1" by auto
  then have "0 \<le> \<lfloor>b * 100 + 1 / 2\<rfloor>" "\<lfloor>b * 100 + 1 / 2\<rfloor> \<le> 100" by (simp_all add: floor_le_iff)
  then have "0 \<le> (of_int \<lfloor>b * 100 + 1 / 2\<rfloor> :: rat)" "(of_int \<lfloor>b * 100 + 1 / 2\<rfloor> :: rat) \<le> of_int 100"
    by (simp_all del: of_int_numeral)
  then show ?thesis by (simp add: rounded_alignment_def Let_def b_def [symmetric])
qed

lemma plain_set: "v \<noteq> [] \<Longrightarrow> set v \<subseteq> set ''0123456789-.'' \<Longrightarrow> plain_char (last v)"
proof -
  have "\<forall>c \<in> set ''0123456789-.''. plain_char c" by (simp add: plain_char_def)
  then show "v \<noteq> [] \<Longrightarrow> set v \<subseteq> set ''0123456789-.'' \<Longrightarrow> plain_char (last v)" using last_in_set [of v] by blast
qed

lemma key_line:
  assumes "v \<noteq> []" and "set v \<subseteq> set ''0123456789-.''" and "k \<in> {''last_verified'', ''alignment''}"
  shows "sets_key k (k @ '': '' @ v)" and "\<not> is_fence (k @ '': '' @ v)" and "newline \<notin> set (k @ '': '' @ v)"
    and "CHR 0x0D \<notin> set (k @ '': '' @ v)"
proof -
  define c r where "c = hd k" and "r = tl k"
  then have k: "k = c # r" "plain_char c" "c \<noteq> CHR ''-''" "c \<noteq> CHR ''.''" using assms(3) by (elim insertE; simp add: plain_char_def)+
  have "plain_char (last (k @ '': '' @ v))" using plain_set [OF assms(1,2)] assms(1) by simp
  then have "trim_space (k @ '': '' @ v) = k @ '': '' @ v" using plain_trim [of c "r @ '': '' @ v"] k by simp
  then show "sets_key k (k @ '': '' @ v)" by (simp add: sets_key_def has_prefix_iff)
  show "\<not> is_fence (k @ '': '' @ v)" using plain_not_fence [OF k(2-4)] k(1) by simp
  have "newline \<notin> set v" "CHR 0x0D \<notin> set v" using assms(2) by (simp_all add: subset_iff) blast+
  moreover have "newline \<notin> set k" "CHR 0x0D \<notin> set k" using assms(3) by (elim insertE; simp)+
  ultimately show "newline \<notin> set (k @ '': '' @ v)" "CHR 0x0D \<notin> set (k @ '': '' @ v)" by simp_all
qed

lemma keys_disjoint: "\<not> (sets_key ''last_verified'' l \<and> sets_key ''alignment'' l)"
  by (auto simp: sets_key_def Let_def has_prefix_iff)


lemma join_chars: "x \<in> set (join [c] ls) \<Longrightarrow> x = c \<or> (\<exists>l \<in> set ls. x \<in> set l)"
  by (induction ls rule: induct_list012) auto

lemma split_chars: "l \<in> set (split_on c s) \<Longrightarrow> set l \<subseteq> set s"
  by (induction s arbitrary: l) (fastforce split: list.splits if_splits)+

text \<open>What the reader makes of the lines, whatever the YAML decoder accepts.\<close>

definition spec_body :: "string \<Rightarrow> string" where
  "spec_body c = (case split_frontmatter (\<lambda>_. Some no_frontmatter) c of Some (_, body, _) \<Rightarrow> body | None \<Rightarrow> [])"

definition other_lines :: "string \<Rightarrow> string list" where
  "other_lines c = filter (\<lambda>l. \<not> sets_key ''last_verified'' l \<and> \<not> sets_key ''alignment'' l) (fst (frontmatter_lines c))"

lemma spec_body_eq: "CHR 0x0D \<notin> set c \<Longrightarrow> spec_body c = join [newline] (tl (snd (frontmatter_lines c)))"
  using opening_fence [of c]
  by (simp add: spec_body_def split_frontmatter_def frontmatter_lines_def normalize_id Let_def split: option.splits prod.splits)

lemma stamp_eq:
  "CHR 0x0D \<notin> set c \<Longrightarrow> frontmatter_lines c = (fm, rest) \<Longrightarrow> \<not> sets_key ''alignment'' (''last_verified'' @ '': '' @ date) \<Longrightarrow>
    stamp c date a = join [newline] (fence # stamped_lines date a fm @ rest)"
  by (auto simp: stamp_def frontmatter_lines_def stamped_lines_def normalize_id Let_def split: option.splits if_splits prod.splits)

lemma frontmatter_shape:
  assumes "frontmatter_lines c = (fm, rest)"
  shows "(\<exists>z zs. rest = z # zs \<and> is_fence z) \<and> (\<forall>l \<in> set fm. \<not> is_fence l) \<and>
    (\<forall>l \<in> set (fm @ rest). l = fence \<or> l \<in> set (split_on newline c))"
proof -
  have f: "is_fence fence" by code_simp
  have tl: "l \<in> set (tl xs) \<Longrightarrow> l \<in> set xs" for l and xs :: "string list" by (cases xs) auto
  show ?thesis
  proof (cases "hd (split_on newline c) = fence \<and> until_fence (tl (split_on newline c)) \<noteq> None")
    case True
    then have u: "until_fence (tl (split_on newline c)) = Some (fm, rest)"
      using assms by (auto simp: frontmatter_lines_def Let_def)
    from iffD1 [OF until_fence_Some u] have "fm @ rest = tl (split_on newline c)" by simp
    with iffD1 [OF until_fence_Some u] tl [of _ "split_on newline c"] show ?thesis by metis
  next
    case False
    then have "fm = []" "rest = fence # split_on newline c"
      using assms by (auto simp: frontmatter_lines_def Let_def split: if_splits option.splits)
    with f show ?thesis by auto
  qed
qed




text \<open>The alignment counts the aligned lines among those that could be checked.\<close>

lemma count_markers_eq:
  "count_markers ms (x, y) = (x + int (length (filter (\<lambda>m. lm_marker m = ''aligned'') ms)),
     y + int (length (filter (\<lambda>m. lm_marker m \<in> {''aligned'', ''drifted''}) ms)))"
  by (induction ms arbitrary: x y) auto

text \<open>The alignment of a verify pass lies between 0 and 1, it is 1 exactly when no line has drifted, and lines that
  could not be verified or that the specification does not cover make no difference to it.\<close>

theorem alignment_spec:
  "0 \<le> compute_alignment ms \<and> compute_alignment ms \<le> 1 \<and>
   (compute_alignment ms = 1 \<longleftrightarrow> filter (\<lambda>m. lm_marker m = ''drifted'') ms = []) \<and>
   compute_alignment ms = compute_alignment (filter (\<lambda>m. lm_marker m \<in> {''aligned'', ''drifted''}) ms)"
proof -
  let ?A = "length (filter (\<lambda>m. lm_marker m = ''aligned'') ms)"
  let ?D = "length (filter (\<lambda>m. lm_marker m = ''drifted'') ms)"
  have sum: "length (filter (\<lambda>m. lm_marker m \<in> {''aligned'', ''drifted''}) ms) = ?A + ?D" by (induction ms) auto
  have c: "compute_alignment ms = (if ?A + ?D = 0 then 1 else of_nat ?A / of_nat (?A + ?D))"
    unfolding compute_alignment_def count_markers_eq sum by (simp flip: of_nat_add)
  have sub: "filter (\<lambda>m. lm_marker m = ''aligned'') (filter (\<lambda>m. lm_marker m \<in> {''aligned'', ''drifted''}) ms) = filter (\<lambda>m. lm_marker m = ''aligned'') ms"
    by (simp add: filter_filter conj_commute) (metis (mono_tags, opaque_lifting) filter_cong)
  have bounds: "0 \<le> compute_alignment ms \<and> compute_alignment ms \<le> 1 \<and> (compute_alignment ms = 1 \<longleftrightarrow> ?D = 0)"
    unfolding c by (auto simp: divide_le_eq field_simps)
  moreover have "compute_alignment ms = compute_alignment (filter (\<lambda>m. lm_marker m \<in> {''aligned'', ''drifted''}) ms)"
    unfolding compute_alignment_def count_markers_eq sub by (simp only: filter_filter conj_absorb)
  ultimately show ?thesis by simp
qed


end
