(* ===== verification/AgentTurn.thy ===== *)
theory AgentTurn imports Specs Accounts Feed Runs begin

text \<open>
  One turn of an agent run, as data: what is run in the container (\<open>agent_executor.go\<close>, \<open>agent_launch.go\<close>), how its
  output becomes events and a status (\<open>agent_stream.go\<close>, \<open>runAgentTurn\<close>), and the credentials the container gets
  (\<open>agent_creds.go\<close>). SHA-1, Go's quoting of a string and the JSON decoder are arguments.
\<close>

unbundle bit_operations_syntax

section \<open>What a turn is asked\<close>

text \<open>The fields of \<open>turnInput\<close>; the issue is its number, title and body.\<close>

record turn_input =
  ti_session :: string
  ti_owner :: string
  ti_repo :: string
  ti_issue :: "int \<times> string \<times> string"
  ti_message :: string
  ti_first :: bool
  ti_mcp :: string
  ti_resume :: bool
  ti_verify :: bool
  ti_spec_path :: string
  ti_spec_content :: string

definition compose_turn_prompt :: "int \<times> string \<times> string \<Rightarrow> string" where
  "compose_turn_prompt i = (case i of (number, title, body) \<Rightarrow>
     ''Issue #'' @ itoa number @ '': '' @ title @ (if trim_space body = [] then [] else [newline, newline] @ body))"

definition compose_agent_system_prompt :: "(string \<Rightarrow> string) \<Rightarrow> string \<Rightarrow> string \<Rightarrow> int \<times> string \<times> string \<Rightarrow> string" where \<open>
  compose_agent_system_prompt quote owner repo issue = (case issue of (number, title, _) \<Rightarrow>
     ''You are an autonomous coding agent working on the codefort repository '' @
     owner @
     ''/'' @
     repo @
     ''.'' @
     [newline] @
     ''Your task is issue #'' @
     itoa number @
     '': '' @
     quote title @
     ''.'' @
     [newline, newline] @
     ''The working directory /work is a clean checkout at the issue'' @
     [CHR 0x27] @
     ''s base commit. Make focused changes there that address the issue; do not wander beyond its scope.'' @
     [newline] @
     ''Stay within /work. You run inside an isolated container with no ambient credentials and tightly scop'' @
     ''ed network access '' @
     [CHR 0xE2, CHR 0x80, CHR 0x94] @
     '' treat anything outside the workspace as off-limits.'' @
     [newline] @
     ''Do your work by editing files in /work directly (read/edit/write). Running shell commands isn'' @
     [CHR 0x27] @
     ''t available in this session, so don'' @
     [CHR 0x27] @
     ''t rely on git, tests, or other CLIs '' @
     [CHR 0xE2, CHR 0x80, CHR 0x94] @
     '' if a command needs running, describe it in your summary and it'' @
     [CHR 0x27] @
     ''ll be handled by codefort. codefort snapshots your file changes into a branch and posts the summary '' @
     ''for you when the run is finished.'' @
     [newline] @
     ''When you finish, end your turn with a concise summary of what you changed and why.'' @
     [newline] @
     ''If a decision falls outside your mandate, do not guess: stop and ask it as your final message, and a'' @
     '' human will answer in the next turn.'' @
     [newline])\<close>

definition compose_verify_turn_prompt :: "string \<Rightarrow> string \<Rightarrow> string" where \<open>
  compose_verify_turn_prompt spec_path content =
     ''Verify the spec at '' @
     spec_path @
     '' against the code it governs.'' @
     [newline, newline] @
     ''The spec'' @
     [CHR 0x27] @
     ''s full content (frontmatter + body):'' @
     [newline, newline] @
     ''```markdown'' @
     [newline] @
     content @
     (if has_suffix content [newline] then [] else [newline]) @
     ''```'' @
     [newline, newline] @
     ''Read the code under the spec'' @
     [CHR 0x27] @
     ''s `covers` globs (the files live under /work). For each behavior and checklist line, decide whether '' @
     ''the code bears it out.'' @
     [newline, newline] @
     ''Output ONLY a single fenced ```json block (no prose outside it) of this shape:'' @
     [newline] @
     ''{'' @
     [newline] @
     ''  '' @
     [CHR 0x22] @
     ''alignment'' @
     [CHR 0x22] @
     '': 0.0,  // fraction in [0,1] of verifiable lines that are aligned'' @
     [newline] @
     ''  '' @
     [CHR 0x22] @
     ''markers'' @
     [CHR 0x22] @
     '': [ {'' @
     [CHR 0x22] @
     ''line'' @
     [CHR 0x22] @
     '': <int>, '' @
     [CHR 0x22] @
     ''text'' @
     [CHR 0x22] @
     '': '' @
     [CHR 0x22] @
     ''<line>'' @
     [CHR 0x22] @
     '', '' @
     [CHR 0x22] @
     ''marker'' @
     [CHR 0x22] @
     '': '' @
     [CHR 0x22] @
     ''aligned|drifted|unverifiable|unspecced'' @
     [CHR 0x22] @
     '', '' @
     [CHR 0x22] @
     ''note'' @
     [CHR 0x22] @
     '': '' @
     [CHR 0x22] @
     ''<evidence>'' @
     [CHR 0x22] @
     ''} ],'' @
     [newline] @
     ''  '' @
     [CHR 0x22] @
     ''conflicts'' @
     [CHR 0x22] @
     '': ['' @
     [CHR 0x22] @
     ''<short description of each drifted point>'' @
     [CHR 0x22] @
     ''],'' @
     [newline] @
     ''  '' @
     [CHR 0x22] @
     ''notes'' @
     [CHR 0x22] @
     '': '' @
     [CHR 0x22] @
     ''<optional overall remarks>'' @
     [CHR 0x22, newline] @
     ''}'' @
     [newline, newline] @
     ''Use the line numbers from the spec content above (1-based, frontmatter included).'' @
     [newline]\<close>

definition compose_verify_system_prompt :: "string \<Rightarrow> string \<Rightarrow> string" where \<open>
  compose_verify_system_prompt owner repo =
     ''You are a spec-verification agent for the codefort repository '' @
     owner @
     ''/'' @
     repo @
     ''.'' @
     [newline] @
     ''Your job is to check whether the code MATCHES the spec '' @
     [CHR 0xE2, CHR 0x80, CHR 0x94] @
     '' not whether the spec is a good or correct spec. Never judge the spec'' @
     [CHR 0x27] @
     ''s correctness, design, or completeness; only report agreement between what the spec says and what th'' @
     ''e code does.'' @
     [newline, newline] @
     ''This is READ-ONLY. Do not edit, create, or delete any file; do not run mutating commands. Read the g'' @
     ''overned code under /work.'' @
     [newline, newline] @
     ''Marker meanings: aligned = code bears out the line; drifted = code contradicts it; unverifiable = ca'' @
     ''n'' @
     [CHR 0x27] @
     ''t tell from the code; unspecced = code behavior the spec doesn'' @
     [CHR 0x27] @
     ''t cover.'' @
     [newline] @
     ''Base every verdict on evidence you actually found (cite file:line in the note). If you cannot find t'' @
     ''he governed code, mark lines unverifiable rather than guessing.'' @
     [newline] @
     ''End your turn with the single JSON block and nothing else.'' @
     [newline]\<close>


definition turn_goal :: "turn_input \<Rightarrow> string" where
  "turn_goal t = (if ti_verify t then compose_verify_turn_prompt (ti_spec_path t) (ti_spec_content t)
     else if ti_first t then compose_turn_prompt (ti_issue t) else ti_message t)"

definition build_claude_argv :: "string \<Rightarrow> string \<Rightarrow> string \<Rightarrow> string \<Rightarrow> bool \<Rightarrow> string list" where
  "build_claude_argv session prompt system_prompt mcp resume =
     [''claude'', ''-p'', prompt, ''--output-format'', ''stream-json'', ''--verbose'', ''--permission-mode'', ''bypassPermissions''] @
     (if resume then [''--resume'', session] else [''--session-id'', session]) @
     (if system_prompt = [] then [] else [''--append-system-prompt'', system_prompt]) @
     (if mcp = [] then [] else [''--mcp-config'', mcp, ''--strict-mcp-config''])"

definition claude_argv :: "(string \<Rightarrow> string) \<Rightarrow> turn_input \<Rightarrow> string list" where
  "claude_argv quote t = build_claude_argv (ti_session t) (turn_goal t)
     (if ti_verify t then compose_verify_system_prompt (ti_owner t) (ti_repo t)
      else if ti_first t then compose_agent_system_prompt quote (ti_owner t) (ti_repo t) (ti_issue t) else [])
     (ti_mcp t) (ti_resume t)"

definition model_claude_edit :: string where
  "model_claude_edit = ''claude-edit''"

text \<open>The executor of a model: there is one, and an unknown name is an error.\<close>

definition new_agent_executor :: "string \<Rightarrow> string option" where
  "new_agent_executor model = (if model = [] \<or> model = model_claude_edit then Some model_claude_edit else None)"

text \<open>A version 5 UUID from the first sixteen bytes of a hash.\<close>

definition agent_session_id :: "(string \<Rightarrow> string) \<Rightarrow> int \<Rightarrow> string" where
  "agent_session_id sha1 run =
     (let b = take 16 (sha1 (''codefort-agent-run-'' @ itoa run));
          b = b[6 := char_of (((of_char (b ! 6) :: nat) AND 0x0F) OR 0x50)];
          b = b[8 := char_of (((of_char (b ! 8) :: nat) AND 0x3F) OR 0x80)];
          hex = (\<lambda>from till. hex_encode (take (till - from) (drop from b)))
      in hex 0 4 @ ''-'' @ hex 4 6 @ ''-'' @ hex 6 8 @ ''-'' @ hex 8 10 @ ''-'' @ hex 10 16)"

section \<open>What comes out of it\<close>

record claude_result =
  cl_subtype :: string
  cl_is_error :: bool
  cl_num_turns :: int
  cl_duration :: int
  cl_cost :: rat
  cl_result :: string

record turn_result =
  tr_is_error :: bool
  tr_subtype :: string
  tr_stop_reason :: string
  tr_num_turns :: int
  tr_duration :: int
  tr_cost :: rat
  tr_final_text :: string

text \<open>The JSON of a line: the object, and what the result struct reads of it.\<close>

record claude_decoder =
  cd_object :: "string \<Rightarrow> (string \<times> jvalue) list option"
  cd_result :: "string \<Rightarrow> claude_result"

definition translate_claude_line :: "claude_decoder \<Rightarrow> string \<Rightarrow> stream_event option \<times> claude_result option" where
  "translate_claude_line dec line =
     (let t = trim_space line in
      if t = [] then (None, None)
      else (case cd_object dec t of
          None \<Rightarrow> (Some (''agent.raw'', [(''line'', JStr t)]), None)
        | Some obj \<Rightarrow> (Some (''agent.message'', [(''claude'', JObj obj)]),
            if map_of obj ''type'' = Some (JStr ''result'') then Some (cd_result dec t) else None)))"

definition translate_line :: "claude_decoder \<Rightarrow> string \<Rightarrow> stream_event option \<times> turn_result option" where
  "translate_line dec line = (case translate_claude_line dec line of (ev, r) \<Rightarrow> (ev, map_option (\<lambda>r.
     \<lparr>tr_is_error = cl_is_error r, tr_subtype = cl_subtype r, tr_stop_reason = [], tr_num_turns = cl_num_turns r,
      tr_duration = cl_duration r, tr_cost = cl_cost r, tr_final_text = cl_result r\<rparr>) r))"

definition soft_stop_reasons :: "string list" where
  "soft_stop_reasons = [''max_iterations'', ''no_progress'', ''no_change'', ''canceled'', ''aborted'']"

definition turn_status_of :: "turn_result option \<Rightarrow> int \<Rightarrow> string option \<Rightarrow> string" where
  "turn_status_of result exit_code exec_err = (case result of
     None \<Rightarrow> ''error''
   | Some r \<Rightarrow>
       (if exec_err \<noteq> None \<or> exit_code \<noteq> 0 then ''error''
        else if tr_is_error r \<or> (tr_subtype r \<noteq> [] \<and> tr_subtype r \<noteq> ''success'' \<and> tr_subtype r \<noteq> ''step_done'') then ''failed''
        else if tr_stop_reason r \<in> set soft_stop_reasons then ''stalled''
        else ''success''))"

text \<open>What a command did in the container: its lines on both streams, its exit code, the error of running it.\<close>

record exec_result =
  ex_stdout :: "string list"
  ex_stderr :: "string list"
  ex_code :: int
  ex_error :: "string option"

fun translate_lines :: "claude_decoder \<Rightarrow> turn_result option \<Rightarrow> string list \<Rightarrow> stream_event list \<times> turn_result option" where
  "translate_lines dec result [] = ([], result)"
| "translate_lines dec result (line # ls) = (case translate_line dec line of
     (None, _) \<Rightarrow> translate_lines dec result ls
   | (Some ev, r) \<Rightarrow> (case translate_lines dec (case r of None \<Rightarrow> result | Some r \<Rightarrow> Some r) ls of
       (evs, result') \<Rightarrow> (ev # evs, result')))"

definition run_agent_turn :: "claude_decoder \<Rightarrow> (string list \<Rightarrow> exec_result) \<Rightarrow> (string \<Rightarrow> string) \<Rightarrow> string \<Rightarrow> int \<Rightarrow> turn_input \<Rightarrow>
    string \<times> string \<times> string option \<times> stream_event list" where
  "run_agent_turn dec sh quote model turn t =
     (let started = (''agent.turn.started'', [(''turn'', JInt turn), (''prompt'', JStr (turn_goal t)), (''model'', JStr model)]);
          x = sh (claude_argv quote t);
          (out, result) = translate_lines dec None (ex_stdout x);
          status = turn_status_of result (ex_code x) (ex_error x);
          raw = (if status = ''success'' then []
                 else map (\<lambda>l. (''agent.raw'', [(''line'', JStr l)])) (filter (\<lambda>l. l \<noteq> []) (map (trim_right_of [CHR 0x0D, newline]) (ex_stderr x))));
          data = [(''turn'', JInt turn), (''status'', JStr status)] @ (case result of None \<Rightarrow> []
                  | Some r \<Rightarrow> [(''num_turns'', JInt (tr_num_turns r)), (''duration_ms'', JInt (tr_duration r)), (''cost_usd'', JNum (tr_cost r))])
      in (status, case result of None \<Rightarrow> [] | Some r \<Rightarrow> tr_final_text r, ex_error x,
          started # out @ raw @ [(''agent.turn.completed'', data)]))"

section \<open>Credentials\<close>

definition agent_token_name :: "int \<Rightarrow> string" where
  "agent_token_name run = ''agent-run-'' @ itoa run"

record agent_config =
  ac_claude_token :: string
  ac_api_key :: string
  ac_base_url :: string
  ac_server_url :: string
  ac_addr :: string

record settings_override =
  so_claude_token :: string
  so_base_url :: string
  so_auth_token :: string

definition agent_auth :: "agent_config \<Rightarrow> settings_override \<Rightarrow> (string \<times> string) list" where
  "agent_auth cfg o' =
     (if so_auth_token o' \<noteq> [] then [(''ANTHROPIC_AUTH_TOKEN'', so_auth_token o')]
      else if so_claude_token o' \<noteq> [] then [(''CLAUDE_CODE_OAUTH_TOKEN'', so_claude_token o')]
      else if ac_claude_token cfg \<noteq> [] then [(''CLAUDE_CODE_OAUTH_TOKEN'', ac_claude_token cfg)]
      else if ac_api_key cfg \<noteq> [] then [(''ANTHROPIC_API_KEY'', ac_api_key cfg)]
      else [])"

text \<open>The pairs of the environment, before they are joined by \<open>=\<close>.\<close>

definition agent_container_env :: "agent_config \<Rightarrow> settings_override \<Rightarrow> string \<Rightarrow> string \<Rightarrow> (string \<times> string) list" where
  "agent_container_env cfg o' token server =
     (let base = (if so_base_url o' = [] then ac_base_url cfg else so_base_url o') in
      agent_auth cfg o' @
      (if base = [] then [] else [(''ANTHROPIC_BASE_URL'', base)]) @
      (if token = [] then [] else [(''CODEFORT_TOKEN'', token)]) @
      (if server = [] then [] else [(''CODEFORT_SERVER'', server)]))"

definition agent_server_url :: "agent_config \<Rightarrow> string" where
  "agent_server_url cfg =
     (if ac_server_url cfg \<noteq> [] then ac_server_url cfg
      else (let port = last (split_on CHR '':'' (ac_addr cfg)) in
        ''http://host.docker.internal:'' @ (if port = [] then ''8080'' else port)))"

definition agent_mcp_config_name :: string where
  "agent_mcp_config_name = ''.codefort-agent-mcp.json''"

definition agent_mcp_config :: "string \<Rightarrow> jvalue" where
  "agent_mcp_config profile = JObj [(''mcpServers'', JObj [(''cf'', JObj [(''command'', JStr ''cf''),
     (''args'', JList [JStr ''mcp'', JStr ''--profile'', JStr (if profile = [] then default_tool_profile else profile)])])])]"


section \<open>Properties\<close>

text \<open>Whatever a turn's command prints, the transcript opens with the start of the turn and closes with its status.
  The status is a success only when the command ran, exited with 0 and printed a result that is no error;
  and when it is not a success every line the command wrote to stderr is in the transcript.\<close>

theorem turn_transcript:
  assumes "run_agent_turn dec sh quote model n t = (st, text, e, evs)"
  shows "(\<exists>mid data. evs = (''agent.turn.started'', [(''turn'', JInt n), (''prompt'', JStr (turn_goal t)), (''model'', JStr model)]) # mid @
       [(''agent.turn.completed'', (''turn'', JInt n) # (''status'', JStr st) # data)]) \<and>
    (st = ''success'' \<longrightarrow> e = None \<and> ex_code (sh (claude_argv quote t)) = 0 \<and>
      (\<exists>l \<in> set (ex_stdout (sh (claude_argv quote t))). \<exists>ev r. translate_line dec l = (ev, Some r) \<and> \<not> tr_is_error r \<and> text = tr_final_text r)) \<and>
    (st \<noteq> ''success'' \<longrightarrow> (\<forall>l \<in> set (ex_stderr (sh (claude_argv quote t))). trim_right_of [CHR 0x0D, newline] l \<noteq> [] \<longrightarrow>
      (''agent.raw'', [(''line'', JStr (trim_right_of [CHR 0x0D, newline] l))]) \<in> set evs))"
proof -
  have src: "snd (translate_lines dec r0 ls) = Some r \<Longrightarrow> r0 = Some r \<or> (\<exists>l \<in> set ls. \<exists>ev. translate_line dec l = (ev, Some r))" for r0 ls r
    by (induction dec r0 ls rule: translate_lines.induct) (auto split: prod.splits option.splits)
  obtain out result where tl: "translate_lines dec None (ex_stdout (sh (claude_argv quote t))) = (out, result)" by (metis surj_pair)
  let ?x = "sh (claude_argv quote t)"
  have st: "st = turn_status_of result (ex_code ?x) (ex_error ?x)" "e = ex_error ?x"
    and fin: "text = (case result of None \<Rightarrow> [] | Some r \<Rightarrow> tr_final_text r)"
    using assms tl by (auto simp: run_agent_turn_def Let_def)
  have succ: "\<exists>r. result = Some r \<and> \<not> tr_is_error r \<and> ex_error ?x = None \<and> ex_code ?x = 0" if "st = ''success''"
    using that unfolding st(1) by (auto simp: turn_status_of_def split: option.splits if_splits)
  have "st = ''success'' \<longrightarrow> e = None \<and> ex_code ?x = 0 \<and>
      (\<exists>l \<in> set (ex_stdout ?x). \<exists>ev r. translate_line dec l = (ev, Some r) \<and> \<not> tr_is_error r \<and> text = tr_final_text r)"
  proof
    assume "st = ''success''"
    from succ [OF this] obtain r where r: "result = Some r" "\<not> tr_is_error r" "ex_error ?x = None" "ex_code ?x = 0" by blast
    with src [of None "ex_stdout ?x" r] tl obtain l ev where "l \<in> set (ex_stdout ?x)" "translate_line dec l = (ev, Some r)" by auto
    with r st(2) fin show "e = None \<and> ex_code ?x = 0 \<and>
      (\<exists>l \<in> set (ex_stdout ?x). \<exists>ev r. translate_line dec l = (ev, Some r) \<and> \<not> tr_is_error r \<and> text = tr_final_text r)" by auto
  qed
  moreover have "\<exists>mid data. evs = (''agent.turn.started'', [(''turn'', JInt n), (''prompt'', JStr (turn_goal t)), (''model'', JStr model)]) # mid @
       [(''agent.turn.completed'', (''turn'', JInt n) # (''status'', JStr st) # data)]"
    using assms tl by (auto simp: run_agent_turn_def Let_def)
  moreover have "st \<noteq> ''success'' \<longrightarrow> (\<forall>l \<in> set (ex_stderr ?x). trim_right_of [CHR 0x0D, newline] l \<noteq> [] \<longrightarrow>
      (''agent.raw'', [(''line'', JStr (trim_right_of [CHR 0x0D, newline] l))]) \<in> set evs)"
    using assms tl by (auto simp: run_agent_turn_def Let_def)
  ultimately show ?thesis by blast
qed

definition demo_turn :: turn_input where
  "demo_turn = \<lparr>ti_session = ''s'', ti_owner = ''alice'', ti_repo = ''w'', ti_issue = (1, ''t'', ''''), ti_message = ''go on'', ti_first = False,
     ti_mcp = '''', ti_resume = True, ti_verify = False, ti_spec_path = '''', ti_spec_content = ''''\<rparr>"

definition demo_decoder :: claude_decoder where
  "demo_decoder = \<lparr>cd_object = (\<lambda>l. if l = ''ok'' then Some [(''type'', JStr ''result'')] else None),
     cd_result = (\<lambda>_. \<lparr>cl_subtype = ''success'', cl_is_error = False, cl_num_turns = 1, cl_duration = 7, cl_cost = 1 / 4, cl_result = ''all done''\<rparr>)\<rparr>"

definition demo_exec :: "bool \<Rightarrow> string list \<Rightarrow> exec_result" where
  "demo_exec good argv = \<lparr>ex_stdout = (if good then [''ok''] else []), ex_stderr = [''boom''], ex_code = (if good then 0 else 2), ex_error = None\<rparr>"

theorem turn_transcript_witness:
  "\<exists>evs. run_agent_turn demo_decoder (demo_exec False) id model_claude_edit 2 demo_turn = (''error'', '''', None, evs) \<and>
    (''agent.raw'', [(''line'', JStr ''boom'')]) \<in> set evs"
proof -
  obtain st tx e evs where r: "run_agent_turn demo_decoder (demo_exec False) id model_claude_edit 2 demo_turn = (st, tx, e, evs)"
    by (metis surj_pair)
  have "st = ''error''" "tx = ''''" "e = None" using r by (auto simp: run_agent_turn_def demo_exec_def turn_status_of_def Let_def)
  moreover have "trim_right_of [CHR 0x0D, newline] ''boom'' = ''boom''" by code_simp
  ultimately show ?thesis using turn_transcript [OF r] r by (simp add: demo_exec_def)
qed


text \<open>The two bytes the session id changes.\<close>

lemma low_or_high: "take_bit k n OR push_bit k m = take_bit k n + push_bit k (m :: nat)"
proof -
  have "take_bit k n AND push_bit k m = 0" by (rule bit_eqI) (auto simp: bit_simps simp del: push_bit_of_nat)
  then show ?thesis by (simp add: disjunctive_add_eq_or)
qed

lemma version_nibble: "((n AND 0x0F) OR 0x50) mod 256 div 16 = (5 :: nat)"
proof -
  have eq: "(n AND 0x0F) OR 0x50 = n mod 16 + 0x50"
    using low_or_high [of 4 n 5] take_bit_eq_mask [of 4 n] by (simp add: take_bit_eq_mod push_bit_eq_mult mask_eq_exp_minus_1)
  show ?thesis unfolding eq by (subst mod_less) (auto simp: div_add1_eq intro: order.strict_trans2 [of _ 16])
qed

lemma variant_nibble: "((n AND 0x3F) OR 0x80) mod 256 div 16 \<in> {8, 9, 10, 11 :: nat}"
proof -
  have eq: "(n AND 0x3F) OR 0x80 = n mod 64 + 0x80"
    using low_or_high [of 6 n 2] take_bit_eq_mask [of 6 n] by (simp add: take_bit_eq_mod push_bit_eq_mult mask_eq_exp_minus_1)
  have "n mod 64 < 64" by simp
  then show ?thesis unfolding eq by (auto; presburger)
qed

lemma hex_encode_Cons [simp]:
  "hex_encode [] = []" "hex_encode (c # s) = hex_digit ((of_char c :: nat) div 16) # hex_digit ((of_char c :: nat) mod 16) # hex_encode s"
  by (simp_all add: hex_encode_def Let_def)

text \<open>Whatever the hash gives, the session id is shaped like a version 5 UUID: 36 characters, dashes after the 8th,
  12th, 16th and 20th digit, version 5 and the RFC 4122 variant.\<close>

theorem session_id_is_uuid:
  assumes "16 \<le> length (sha1 (''codefort-agent-run-'' @ itoa run))"
  shows "length (agent_session_id sha1 run) = 36 \<and>
    map ((!) (agent_session_id sha1 run)) [8, 13, 18, 23] = ''----'' \<and>
    agent_session_id sha1 run ! 14 = CHR ''5'' \<and> agent_session_id sha1 run ! 19 \<in> set ''89ab''"
proof -
  define h where "h = take 16 (sha1 (''codefort-agent-run-'' @ itoa run))"
  have "length h = 16" using assms unfolding h_def by simp
  then obtain a0 a1 a2 a3 a4 a5 a6 a7 a8 a9 b0 b1 b2 b3 b4 b5 where
    b: "h = [a0, a1, a2, a3, a4, a5, a6, a7, a8, a9, b0, b1, b2, b3, b4, b5]"
    by (auto simp: numeral_eq_Suc length_Suc_conv)
  have five: "hex_digit 5 = CHR ''5''" by code_simp
  have "hex_digit 8 = CHR ''8''" "hex_digit 9 = CHR ''9''" "hex_digit 10 = CHR ''a''" "hex_digit 11 = CHR ''b''" by code_simp+
  then have var: "hex_digit (((n AND 0x3F) OR 0x80) mod 256 div 16) \<in> set ''89ab''" for n
    using variant_nibble [of n] by (elim insertE) auto
  show ?thesis unfolding agent_session_id_def Let_def h_def [symmetric] b
    by (simp add: version_nibble five var [simplified])
qed

theorem session_id_is_uuid_witness:
  "agent_session_id (\<lambda>_. replicate 20 CHR 0xFF) 7 ! 14 = CHR ''5'' \<and> length (agent_session_id (\<lambda>_. replicate 20 CHR 0xFF) 7) = 36"
  using session_id_is_uuid [of "\<lambda>_. replicate 20 CHR 0xFF" 7] by simp

text \<open>The container gets at most one credential for the model; the operator's gateway token comes first and keeps the
  Claude token and the API key of the server out of the container, and the run's own token is passed as it is.\<close>

theorem container_gets_one_credential:
  defines "creds \<equiv> {''ANTHROPIC_AUTH_TOKEN'', ''CLAUDE_CODE_OAUTH_TOKEN'', ''ANTHROPIC_API_KEY''}"
  shows "length (filter (\<lambda>p. fst p \<in> creds) (agent_container_env cfg o' token server)) \<le> 1 \<and>
    (so_auth_token o' \<noteq> [] \<longrightarrow> filter (\<lambda>p. fst p \<in> creds) (agent_container_env cfg o' token server) = [(''ANTHROPIC_AUTH_TOKEN'', so_auth_token o')]) \<and>
    distinct (map fst (agent_container_env cfg o' token server)) \<and>
    map_of (agent_container_env cfg o' token server) ''CODEFORT_TOKEN'' = (if token = [] then None else Some token)"
  by (simp add: creds_def agent_container_env_def agent_auth_def Let_def)

theorem container_gets_one_credential_witness:
  "filter (\<lambda>p. fst p \<in> {''ANTHROPIC_AUTH_TOKEN'', ''CLAUDE_CODE_OAUTH_TOKEN'', ''ANTHROPIC_API_KEY''})
     (agent_container_env \<lparr>ac_claude_token = ''c'', ac_api_key = ''k'', ac_base_url = '''', ac_server_url = '''', ac_addr = '':8080''\<rparr>
       \<lparr>so_claude_token = ''o'', so_base_url = '''', so_auth_token = ''g''\<rparr> ''t'' '''') = [(''ANTHROPIC_AUTH_TOKEN'', ''g'')]"
  using container_gets_one_credential [of "\<lparr>ac_claude_token = ''c'', ac_api_key = ''k'', ac_base_url = '''', ac_server_url = '''', ac_addr = '':8080''\<rparr>"
      "\<lparr>so_claude_token = ''o'', so_base_url = '''', so_auth_token = ''g''\<rparr>" "''t''" "''''"] by simp

end
