(* ===== verification/Scheduler.thy ===== *)
theory Scheduler imports Translate Runs EventLog Feed Repos begin

text \<open>
  The execution of a CI run, \<open>executeRun\<close>, \<open>runJob\<close>, \<open>runWave\<close> and \<open>classifyJob\<close> of
  \<open>cmd/codefortd/ci_runner.go\<close>. What the environment decides is an argument: the order in which Go ranges
  over the pending map, the state of the context when it is looked at, what \<open>provision\<close> reports.
  The jobs of a wave run at the same time; their statements are about different rows, and the model
  takes them one job after the other, in the order of their names.
\<close>

section \<open>One job\<close>

text \<open>A line of \<open>provision apply --json\<close>, the fields the runner reads.\<close>

record provision_event =
  pe_index :: int
  pe_status :: string
  pe_rc :: "int option"
  pe_stdout :: string
  pe_stderr :: string
  pe_duration :: int

text \<open>\<open>fmt.Sprintf("step-%04d", i)\<close> for the numbers the runner formats, which are not negative.\<close>

definition step_id :: "int \<Rightarrow> string" where
  "step_id i = (let s = itoa i in ''step-'' @ replicate (4 - length s) CHR ''0'' @ s)"

definition emit_lines :: "string \<Rightarrow> string \<Rightarrow> string \<Rightarrow> string \<Rightarrow> stream_event list" where
  "emit_lines sid ty stream output =
     (if output = [] then []
      else map (\<lambda>(i, line). (ty, [(''step_id'', JStr sid), (''stream'', JStr stream), (''line'', JStr line), (''line_number'', JInt (int i + 1))]))
        (enumerate 0 (split_on CHR 0x0A (trim_suffix output [CHR 0x0A]))))"

text \<open>\<open>startStep\<close>: announces step i (0-based) when there is one; \<open>next\<close> is its 1-based number.\<close>

definition start_step :: "step_meta list \<Rightarrow> nat \<Rightarrow> nat \<Rightarrow> stream_event list \<times> nat" where
  "start_step meta i next =
     (if length meta \<le> i then ([], next)
      else ([(''step.started'', [(''step_id'', JStr (step_id (int i + 1))), (''action'', JStr (sm_action (meta ! i))),
               (''name'', JStr (sm_label (meta ! i))), (''global_step'', JInt (int i + 1))])], i + 1))"

definition step_result :: "provision_event \<Rightarrow> (string \<times> jvalue) list" where
  "step_result ev = [(''status'', JStr (pe_status ev)), (''failed'', JBool (pe_status ev = ''failed''))] @
     (case pe_rc ev of None \<Rightarrow> [] | Some rc \<Rightarrow> [(''rc'', JInt rc)]) @
     (if pe_stdout ev = [] then [] else [(''stdout'', JStr (pe_stdout ev))]) @
     (if pe_stderr ev = [] then [] else [(''stderr'', JStr (pe_stderr ev))])"

text \<open>The callback: the index of the event, or the step in flight when it is out of range.\<close>

definition event_step :: "step_meta list \<Rightarrow> nat \<Rightarrow> provision_event \<Rightarrow> int" where
  "event_step meta next ev =
     (if pe_index ev - 1 < 0 \<or> int (length meta) \<le> pe_index ev - 1 then int next - 1 else pe_index ev - 1)"

definition on_event :: "step_meta list \<Rightarrow> nat \<Rightarrow> provision_event \<Rightarrow> stream_event list \<times> nat" where
  "on_event meta next ev =
     (let i = event_step meta next ev; sid = step_id (i + 1);
          (started, next') = start_step meta (nat (i + 1)) next in
      (emit_lines sid ''step.stdout'' ''stdout'' (pe_stdout ev) @ emit_lines sid ''step.stderr'' ''stderr'' (pe_stderr ev) @
       [(''step.completed'', [(''step_id'', JStr sid), (''duration_ms'', JInt (pe_duration ev)),
          (''changed'', JBool (pe_status ev = ''changed'')), (''result'', JObj (step_result ev))])] @ started, next'))"

primrec on_events :: "step_meta list \<Rightarrow> nat \<Rightarrow> provision_event option \<Rightarrow> provision_event list \<Rightarrow>
    stream_event list \<times> nat \<times> provision_event option" where
  "on_events meta next failed [] = ([], next, failed)"
| "on_events meta next failed (ev # evs) =
     (let (out, next') = on_event meta next ev;
          (outs, r) = on_events meta next' (if pe_status ev = ''failed'' then Some ev else failed) evs
      in (out @ outs, r))"

text \<open>What happens to one job outside the code: whether its log opens and its plan is written, whether the session
  opens (with the error text), the events of the plan, the error of running it, and whether the context
  is \<open>Canceled\<close> when such an error is looked at.\<close>

record job_env =
  je_log :: bool
  je_plan :: bool
  je_session :: "string option"
  je_events :: "provision_event list"
  je_error :: "string option"
  je_canceled :: bool

definition stderr_event :: "string \<Rightarrow> string \<Rightarrow> stream_event" where
  "stderr_event sid line = (''step.stderr'', [(''step_id'', JStr sid), (''stream'', JStr ''stderr''), (''line'', JStr line), (''line_number'', JInt 1)])"

definition aborted_event :: "string \<Rightarrow> string \<Rightarrow> stream_event" where
  "aborted_event sid status = (''step.completed'', [(''step_id'', JStr sid),
     (''result'', JObj [(''rc'', JInt (-1)), (''failed'', JBool True), (''status'', JStr status)])])"

text \<open>From the session on: the status of the job, its exit code and the events.\<close>

definition run_plan :: "job_env \<Rightarrow> step_meta list \<Rightarrow> job_status \<times> int option \<times> stream_event list" where
  "run_plan env meta = (case je_session env of
     Some e \<Rightarrow>
       (if je_canceled env then (JobInterrupted, None, [stderr_event ''session'' ''session interrupted: runner shutting down''])
        else (JobError, None, [stderr_event ''session'' e, (''run.failed'', [(''error'', JStr e)])]))
   | None \<Rightarrow>
       (let (started, next) = start_step meta 0 0;
            (out, next, failed) = on_events meta next None (je_events env);
            sid = step_id (int next)
        in case je_error env of
             Some e \<Rightarrow>
               (if je_canceled env
                then (JobInterrupted, None, started @ out @ [stderr_event sid ''step interrupted: runner shutting down'', aborted_event sid ''interrupted''])
                else (JobError, None, started @ out @ [stderr_event sid e, aborted_event sid ''error'',
                   (''run.failed'', [(''step_id'', JStr sid), (''error'', JStr e)])]))
           | None \<Rightarrow> (case failed of
               Some ev \<Rightarrow> (let rc = (case pe_rc ev of None \<Rightarrow> 1 | Some rc \<Rightarrow> rc) in
                 (JobFailed, Some rc, started @ out @ [(''run.failed'', [(''step_id'', JStr (step_id (pe_index ev))), (''rc'', JInt rc)])]))
             | None \<Rightarrow> (JobSuccess, Some 0, started @ out @ [(''run.completed'', [(''total_steps'', JInt (int (length meta)))])]))))"

text \<open>The whole job: its status, exit code, events, and whether it was marked started. The event log also
  refuses names that are no safe path component.\<close>

definition run_job ::
  "http_decoder \<Rightarrow> (string \<Rightarrow> string) \<Rightarrow> string \<times> string \<times> string \<Rightarrow> job_env \<Rightarrow> job \<Rightarrow>
    job_status \<times> int option \<times> stream_event list \<times> bool" where
  "run_job decode quote path env j = (case path of (owner, repo, name) \<Rightarrow>
     (case job_step_meta decode quote j of
        Inl _ \<Rightarrow> (JobError, None, [], False)
      | Inr meta \<Rightarrow> (case translate_job_plan decode quote j of
          Inl _ \<Rightarrow> (JobError, None, [], False)
        | Inr plan \<Rightarrow>
            if \<not> list_all safe_component [owner, repo, name] \<or> \<not> je_log env then (JobError, None, [], False)
            else (let n = (''total_steps'', JInt (int (length meta)));
                      intro = [(''run.started'', [n]), (''plan.loaded'', [n])] in
              if \<not> je_plan env then (JobError, None, intro, True)
              else (case run_plan env meta of (st, code, out) \<Rightarrow> (st, code, intro @ out, True))))))"

section \<open>Waves\<close>

fun classify_needs :: "bool \<Rightarrow> string list \<Rightarrow> (string \<rightharpoonup> job_status) \<Rightarrow> bool \<times> bool" where
  "classify_needs all_ok [] status = (all_ok, False)"
| "classify_needs all_ok (dep # deps) status = (case status dep of
     None \<Rightarrow> classify_needs False deps status
   | Some st \<Rightarrow> if st \<noteq> JobSuccess then (False, True) else classify_needs all_ok deps status)"

definition classify_job :: "string list \<Rightarrow> (string \<rightharpoonup> job_status) \<Rightarrow> bool \<times> bool" where
  "classify_job needs status = classify_needs True needs status"

text \<open>The variables of the loop; \<open>sc_ran\<close> keeps the jobs that were run, newest first.\<close>

record sched =
  sc_status :: "string \<rightharpoonup> job_status"
  sc_pending :: "string list"
  sc_failed :: bool
  sc_ran :: "string list"
  sc_db :: "db session"

text \<open>\<open>r.finishJob\<close>: an error is logged and forgotten.\<close>

definition finish_sched_job :: "(string \<Rightarrow> int) \<Rightarrow> string \<Rightarrow> job_status \<Rightarrow> int option \<Rightarrow> sched \<Rightarrow> sched" where
  "finish_sched_job ids jn st code sc = sc\<lparr>sc_db := snd (finish_job (ids jn) st code (sc_db sc))\<rparr>"

definition resolve :: "string \<Rightarrow> job_status \<Rightarrow> sched \<Rightarrow> sched" where
  "resolve jn st sc = sc\<lparr>sc_status := (sc_status sc)(jn \<mapsto> st), sc_pending := removeAll jn (sc_pending sc),
     sc_failed := (sc_failed sc \<or> st \<noteq> JobSuccess)\<rparr>"

text \<open>One range over the pending jobs: skips are resolved at once, the ready jobs are collected.\<close>

fun classify_pass :: "(string \<Rightarrow> string list) \<Rightarrow> (string \<Rightarrow> int) \<Rightarrow> string list \<Rightarrow> sched \<Rightarrow> string list \<times> sched" where
  "classify_pass needs ids [] sc = ([], sc)"
| "classify_pass needs ids (jn # rest) sc = (case classify_job (needs jn) (sc_status sc) of
     (ready, skip) \<Rightarrow>
       if skip then classify_pass needs ids rest (resolve jn JobSkipped (finish_sched_job ids jn JobSkipped None sc))
       else (let (rs, sc') = classify_pass needs ids rest sc in (if ready then jn # rs else rs, sc')))"

text \<open>The jobs that are left when nothing is ready.\<close>

definition stuck :: "(string \<Rightarrow> int) \<Rightarrow> string list \<Rightarrow> sched \<Rightarrow> sched" where
  "stuck ids jobs sc = fold (\<lambda>jn sc. resolve jn JobError (finish_sched_job ids jn JobError None sc)) jobs sc"

text \<open>The outcome of running a job: its status, its exit code and whether it was marked started.\<close>

type_synonym outcome = "job_status \<times> int option \<times> bool"

definition run_sched_job :: "(string \<Rightarrow> int) \<Rightarrow> (string \<Rightarrow> outcome) \<Rightarrow> string \<Rightarrow> sched \<Rightarrow> sched" where
  "run_sched_job ids run jn sc = (case run jn of (st, code, started) \<Rightarrow>
     (let s = (if started then snd (start_job (ids jn) (sc_db sc)) else sc_db sc) in
      resolve jn st (finish_sched_job ids jn st code (sc\<lparr>sc_db := s, sc_ran := jn # sc_ran sc\<rparr>))))"

definition run_wave :: "(string \<Rightarrow> int) \<Rightarrow> (string \<Rightarrow> outcome) \<Rightarrow> string list \<Rightarrow> sched \<Rightarrow> sched" where
  "run_wave ids run jobs sc = fold (run_sched_job ids run) jobs sc"

text \<open>The state of the context, and what the environment decides for a pass. Go ranges over a map in any order: the
  one asked for, when it is an order of the pending jobs.\<close>

datatype ctx = CtxLive | CtxCanceled | CtxDeadline

record pass =
  ps_ctx :: ctx
  ps_order :: "string list"
  ps_run :: "string \<Rightarrow> outcome"

definition range_order :: "string list \<Rightarrow> string list \<Rightarrow> string list" where
  "range_order asked pending = (if distinct asked \<and> set asked = set pending then asked else remdups pending)"

lemma set_range_order [simp]: "set (range_order asked pending) = set pending"
  by (simp add: range_order_def)

lemma distinct_range_order [simp]: "distinct (range_order asked pending)"
  by (simp add: range_order_def)

lemma resolve_pending [simp]: "sc_pending (resolve jn st sc) = removeAll jn (sc_pending sc)"
  "sc_status (resolve jn st sc) = (sc_status sc)(jn \<mapsto> st)" "sc_ran (resolve jn st sc) = sc_ran sc"
  "sc_failed (resolve jn st sc) = (sc_failed sc \<or> st \<noteq> JobSuccess)" "sc_db (resolve jn st sc) = sc_db sc"
  by (simp_all add: resolve_def)

lemma finish_sched_sel [simp]: "sc_pending (finish_sched_job ids jn st code sc) = sc_pending sc"
  "sc_status (finish_sched_job ids jn st code sc) = sc_status sc" "sc_ran (finish_sched_job ids jn st code sc) = sc_ran sc"
  "sc_failed (finish_sched_job ids jn st code sc) = sc_failed sc"
  by (simp_all add: finish_sched_job_def)

lemma run_sched_sel:
  "sc_pending (run_sched_job ids run jn sc) = removeAll jn (sc_pending sc)"
  "sc_status (run_sched_job ids run jn sc) = (sc_status sc)(jn \<mapsto> fst (run jn))"
  "sc_ran (run_sched_job ids run jn sc) = jn # sc_ran sc"
  "sc_failed (run_sched_job ids run jn sc) = (sc_failed sc \<or> fst (run jn) \<noteq> JobSuccess)"
  by (simp_all add: run_sched_job_def Let_def split: prod.splits)

lemma run_wave_sel:
  "sc_pending (run_wave ids run js sc) = filter (\<lambda>x. x \<notin> set js) (sc_pending sc)"
  "sc_status (run_wave ids run js sc) n = (if n \<in> set js then Some (fst (run n)) else sc_status sc n)"
  "sc_ran (run_wave ids run js sc) = rev js @ sc_ran sc"
  "sc_failed (run_wave ids run js sc) = (sc_failed sc \<or> (\<exists>n \<in> set js. fst (run n) \<noteq> JobSuccess))"
  by (induction js arbitrary: sc) (auto simp: run_wave_def run_sched_sel removeAll_filter_not_eq intro: filter_cong)

lemma classify_needs_iff:
  "classify_needs b deps status = (r, s) \<Longrightarrow>
    (s \<longleftrightarrow> (\<exists>d \<in> set deps. \<exists>st. status d = Some st \<and> st \<noteq> JobSuccess)) \<and>
    (r \<longleftrightarrow> b \<and> (\<forall>d \<in> set deps. status d = Some JobSuccess))"
  by (induction b deps status rule: classify_needs.induct) (auto split: option.splits if_splits)

lemma classify_job_iff:
  "classify_job deps status = (r, s) \<Longrightarrow>
    (s \<longleftrightarrow> (\<exists>d \<in> set deps. \<exists>st. status d = Some st \<and> st \<noteq> JobSuccess)) \<and>
    (r \<longleftrightarrow> (\<forall>d \<in> set deps. status d = Some JobSuccess))"
  unfolding classify_job_def using classify_needs_iff by blast

text \<open>What a pass does: it skips some of the jobs, and the ready ones have all their needs.\<close>

lemma classify_pass_spec:
  assumes "classify_pass needs ids js sc = (ready, sc')" and "distinct js"
  shows "\<exists>S. S \<subseteq> set js \<and> S \<inter> set ready = {} \<and> set ready \<subseteq> set js \<and> distinct ready \<and>
    sc_pending sc' = filter (\<lambda>x. x \<notin> S) (sc_pending sc) \<and>
    sc_status sc' = (\<lambda>n. if n \<in> S then Some JobSkipped else sc_status sc n) \<and> sc_ran sc' = sc_ran sc \<and>
    (sc_failed sc' \<longleftrightarrow> sc_failed sc \<or> S \<noteq> {}) \<and>
    (\<forall>n \<in> set ready. \<forall>d \<in> set (needs n). sc_status sc d = Some JobSuccess)"
  using assms
proof (induction js arbitrary: sc ready sc')
  case (Cons j js)
  let ?sk = "resolve j JobSkipped (finish_sched_job ids j JobSkipped None sc)"
  obtain r s where c: "classify_job (needs j) (sc_status sc) = (r, s)" by (metis surj_pair)
  show ?case
  proof (cases s)
    case True
    with Cons.prems c have p: "classify_pass needs ids js ?sk = (ready, sc')" by simp
    from Cons.IH [OF p] Cons.prems(2) obtain S where S: "S \<subseteq> set js" "S \<inter> set ready = {}" "set ready \<subseteq> set js"
      "distinct ready" "sc_pending sc' = filter (\<lambda>x. x \<notin> S) (sc_pending ?sk)"
      "sc_status sc' = (\<lambda>n. if n \<in> S then Some JobSkipped else sc_status ?sk n)" "sc_ran sc' = sc_ran sc"
      "sc_failed sc' \<longleftrightarrow> sc_failed ?sk \<or> S \<noteq> {}" "\<forall>n \<in> set ready. \<forall>d \<in> set (needs n). sc_status ?sk d = Some JobSuccess"
      by auto
    from S(9) have "\<forall>n \<in> set ready. \<forall>d \<in> set (needs n). sc_status sc d = Some JobSuccess"
      by (auto split: if_splits)
    with S Cons.prems(2) show ?thesis
      by (intro exI [of _ "insert j S"]) (auto simp: removeAll_filter_not_eq fun_eq_iff intro: filter_cong)
  next
    case False
    obtain rs sc1 where p: "classify_pass needs ids js sc = (rs, sc1)" by (metis surj_pair)
    with False c Cons.prems(1) have r: "ready = (if r then j # rs else rs)" "sc' = sc1" by auto
    from Cons.IH [OF p] Cons.prems(2) obtain S where S: "S \<subseteq> set js" "S \<inter> set rs = {}" "set rs \<subseteq> set js" "distinct rs"
      "sc_pending sc' = filter (\<lambda>x. x \<notin> S) (sc_pending sc)"
      "sc_status sc' = (\<lambda>n. if n \<in> S then Some JobSkipped else sc_status sc n)" "sc_ran sc' = sc_ran sc"
      "sc_failed sc' \<longleftrightarrow> sc_failed sc \<or> S \<noteq> {}" "\<forall>n \<in> set rs. \<forall>d \<in> set (needs n). sc_status sc d = Some JobSuccess"
      unfolding r by auto
    with r Cons.prems(2) classify_job_iff [OF c] show ?thesis by (intro exI [of _ S]) auto
  qed
qed auto

section \<open>The loop\<close>

lemma pass_progress:
  assumes "classify_pass needs ids (range_order asked (sc_pending sc)) sc = (ready, sc1)" and "ready \<noteq> []"
  shows "length (sc_pending (run_wave ids run (sort ready) sc1)) < length (sc_pending sc)"
proof -
  from classify_pass_spec [OF assms(1)] obtain S where S: "set ready \<subseteq> set (sc_pending sc)"
    "sc_pending sc1 = filter (\<lambda>x. x \<notin> S) (sc_pending sc)" by auto
  from assms(2) S(1) have "\<exists>x \<in> set (sc_pending sc). x \<in> set ready" by (cases ready) auto
  then have "length (filter (\<lambda>x. x \<notin> S \<and> x \<notin> set ready) (sc_pending sc)) < length (sc_pending sc)"
    by (auto intro: length_filter_less)
  with S(2) show ?thesis by (simp add: run_wave_sel filter_filter)
qed

text \<open>It goes on while jobs are pending and the context lives; the pass of the k-th iteration is \<open>passes k\<close>.\<close>

function schedule :: "(string \<Rightarrow> string list) \<Rightarrow> (string \<Rightarrow> int) \<Rightarrow> (nat \<Rightarrow> pass) \<Rightarrow> nat \<Rightarrow> sched \<Rightarrow> sched" where
  "schedule needs ids passes k sc =
     (if sc_pending sc = [] \<or> ps_ctx (passes k) \<noteq> CtxLive then sc
      else (case classify_pass needs ids (range_order (ps_order (passes k)) (sc_pending sc)) sc of (ready, sc1) \<Rightarrow>
        (if ready = [] then stuck ids (sc_pending sc1) sc1
         else schedule needs ids passes (k + 1) (run_wave ids (ps_run (passes k)) (sort ready) sc1))))"
  by pat_completeness auto
termination
  by (relation "measure (\<lambda>(_, _, _, _, sc). length (sc_pending sc))") (auto dest: pass_progress [OF sym])

declare schedule.simps [simp del]


section \<open>The order of the jobs\<close>

fun ran_in_order :: "(string \<Rightarrow> string list) \<Rightarrow> string list \<Rightarrow> bool" where
  "ran_in_order needs [] = True"
| "ran_in_order needs (n # before) = (set (needs n) \<subseteq> set before \<and> n \<notin> set before \<and> ran_in_order needs before)"

definition sched_inv :: "(string \<Rightarrow> string list) \<Rightarrow> string list \<Rightarrow> sched \<Rightarrow> bool" where
  "sched_inv needs jobs sc \<longleftrightarrow> distinct (sc_pending sc) \<and> set (sc_pending sc) \<subseteq> set jobs \<and>
     (\<forall>n. sc_status sc n = None \<longleftrightarrow> n \<notin> set jobs \<or> n \<in> set (sc_pending sc)) \<and>
     (sc_failed sc \<longleftrightarrow> (\<exists>n st. sc_status sc n = Some st \<and> st \<noteq> JobSuccess)) \<and>
     ran_in_order needs (sc_ran sc) \<and> (\<forall>n \<in> set (sc_ran sc). sc_status sc n \<noteq> None) \<and>
     (\<forall>n. sc_status sc n = Some JobSuccess \<longrightarrow> n \<in> set (sc_ran sc)) \<and>
     (\<forall>n \<in> set (sc_ran sc). \<forall>d \<in> set (needs n). sc_status sc d = Some JobSuccess)"

lemma sched_invD:
  assumes "sched_inv needs jobs sc"
  shows "distinct (sc_pending sc)" and "set (sc_pending sc) \<subseteq> set jobs"
    and "\<And>n. sc_status sc n = None \<longleftrightarrow> n \<notin> set jobs \<or> n \<in> set (sc_pending sc)"
    and "sc_failed sc \<longleftrightarrow> (\<exists>n st. sc_status sc n = Some st \<and> st \<noteq> JobSuccess)"
    and "ran_in_order needs (sc_ran sc)" and "\<And>n. n \<in> set (sc_ran sc) \<Longrightarrow> sc_status sc n \<noteq> None"
    and "\<And>n. sc_status sc n = Some JobSuccess \<Longrightarrow> n \<in> set (sc_ran sc)"
    and "\<And>n d. n \<in> set (sc_ran sc) \<Longrightarrow> d \<in> set (needs n) \<Longrightarrow> sc_status sc d = Some JobSuccess"
  using assms unfolding sched_inv_def by blast+

lemma ran_in_order_append:
  assumes "ran_in_order needs before" and "distinct js" and "set js \<inter> set before = {}"
    and "\<And>j. j \<in> set js \<Longrightarrow> set (needs j) \<subseteq> set before"
  shows "ran_in_order needs (rev js @ before)"
  using assms
proof (induction js rule: rev_induct)
  case (snoc j js)
  then show ?case by fastforce
qed simp

text \<open>Resolving pending jobs as failures, by a skip or because nothing is ready.\<close>

lemma sched_inv_fail:
  assumes "sched_inv needs jobs sc" and "S \<subseteq> set (sc_pending sc)" and "st \<noteq> JobSuccess"
    and "sc_pending sc' = filter (\<lambda>x. x \<notin> S) (sc_pending sc)"
    and "\<And>n. sc_status sc' n = (if n \<in> S then Some st else sc_status sc n)"
    and "sc_ran sc' = sc_ran sc" and "sc_failed sc' \<longleftrightarrow> sc_failed sc \<or> S \<noteq> {}"
  shows "sched_inv needs jobs sc'"
proof -
  note I = sched_invD [OF assms(1)]
  have new: "sc_status sc n = None" if "n \<in> S" for n using that assms(2) I(3) by blast
  have "sc_failed sc' \<longleftrightarrow> (\<exists>n st. sc_status sc' n = Some st \<and> st \<noteq> JobSuccess)"
    unfolding assms(5,7) I(4) using assms(3) new by (auto split: if_splits)
  moreover have "\<forall>n \<in> set (sc_ran sc). \<forall>d \<in> set (needs n). sc_status sc' d = Some JobSuccess"
    using I(8) new assms(5) by fastforce
  moreover have "distinct (sc_pending sc')" "set (sc_pending sc') \<subseteq> set jobs"
    unfolding assms(4) using I(1,2) by auto
  moreover have "\<forall>n. sc_status sc' n = None \<longleftrightarrow> n \<notin> set jobs \<or> n \<in> set (sc_pending sc')"
    unfolding assms(4,5) using I(2,3) assms(2) by auto
  moreover have "\<forall>n \<in> set (sc_ran sc). sc_status sc' n \<noteq> None"
    unfolding assms(5) using I(6) by auto
  moreover have "\<forall>n. sc_status sc' n = Some JobSuccess \<longrightarrow> n \<in> set (sc_ran sc)"
    unfolding assms(5) using I(7) assms(3) by auto
  ultimately show ?thesis using I(5) assms(6) unfolding sched_inv_def by simp
qed

lemma stuck_sel:
  "sc_pending (stuck ids js sc) = filter (\<lambda>x. x \<notin> set js) (sc_pending sc)"
  "sc_status (stuck ids js sc) n = (if n \<in> set js then Some JobError else sc_status sc n)"
  "sc_ran (stuck ids js sc) = sc_ran sc" "sc_failed (stuck ids js sc) = (sc_failed sc \<or> js \<noteq> [])"
  by (induction js arbitrary: sc) (auto simp: stuck_def removeAll_filter_not_eq intro: filter_cong)

lemma pass_inv:
  assumes "sched_inv needs jobs sc"
    and "classify_pass needs ids (range_order asked (sc_pending sc)) sc = (ready, sc1)"
  shows "sched_inv needs jobs sc1 \<and> distinct ready \<and> set ready \<subseteq> set (sc_pending sc1) \<and>
    (\<forall>n \<in> set ready. \<forall>d \<in> set (needs n). sc_status sc1 d = Some JobSuccess)"
proof -
  from classify_pass_spec [OF assms(2)] obtain S where S: "S \<subseteq> set (sc_pending sc)" "S \<inter> set ready = {}"
    "set ready \<subseteq> set (sc_pending sc)" "distinct ready" "sc_pending sc1 = filter (\<lambda>x. x \<notin> S) (sc_pending sc)"
    "sc_status sc1 = (\<lambda>n. if n \<in> S then Some JobSkipped else sc_status sc n)" "sc_ran sc1 = sc_ran sc"
    "sc_failed sc1 \<longleftrightarrow> sc_failed sc \<or> S \<noteq> {}" "\<forall>n \<in> set ready. \<forall>d \<in> set (needs n). sc_status sc d = Some JobSuccess"
    by auto
  have "sched_inv needs jobs sc1"
    by (rule sched_inv_fail [OF assms(1) S(1), of JobSkipped]) (simp_all add: S(5-8))
  moreover have "sc_status sc1 d = Some JobSuccess" if "sc_status sc d = Some JobSuccess" for d
    using that S(1,6) sched_invD(3) [OF assms(1), of d] by auto
  ultimately show ?thesis using S by auto
qed

lemma wave_inv:
  assumes "sched_inv needs jobs sc" and "distinct js" and "set js \<subseteq> set (sc_pending sc)"
    and "\<And>n d. n \<in> set js \<Longrightarrow> d \<in> set (needs n) \<Longrightarrow> sc_status sc d = Some JobSuccess"
  shows "sched_inv needs jobs (run_wave ids run js sc)"
proof -
  note I = sched_invD [OF assms(1)]
  let ?sc = "run_wave ids run js sc"
  have new: "sc_status sc n = None" if "n \<in> set js" for n using that assms(3) I(3) by blast
  then have "set js \<inter> set (sc_ran sc) = {}" using I(6) by blast
  then have "ran_in_order needs (rev js @ sc_ran sc)"
    using I(5,7) assms(2,4) by (intro ran_in_order_append) auto
  moreover have "sc_failed ?sc \<longleftrightarrow> (\<exists>n st. sc_status ?sc n = Some st \<and> st \<noteq> JobSuccess)"
    unfolding run_wave_sel I(4) using new by (auto split: if_splits) (metis option.distinct(1))+
  moreover have "sc_status ?sc d = Some JobSuccess" if "sc_status sc d = Some JobSuccess" for d
    using that new unfolding run_wave_sel by fastforce
  then have "\<forall>n \<in> set (rev js @ sc_ran sc). \<forall>d \<in> set (needs n). sc_status ?sc d = Some JobSuccess"
    using I(8) assms(4) by auto
  moreover have "\<forall>n. sc_status ?sc n = Some JobSuccess \<longrightarrow> n \<in> set (rev js @ sc_ran sc)"
    using I(7) by (auto simp: run_wave_sel split: if_splits)
  moreover have "\<forall>n. sc_status ?sc n = None \<longleftrightarrow> n \<notin> set jobs \<or> n \<in> set (sc_pending ?sc)"
    using I(2,3) assms(3) by (auto simp: run_wave_sel)
  moreover have "distinct (sc_pending ?sc)" "set (sc_pending ?sc) \<subseteq> set jobs"
    using I(1,2) by (auto simp: run_wave_sel)
  moreover have "\<forall>n \<in> set (rev js @ sc_ran sc). sc_status ?sc n \<noteq> None"
    using I(6) by (auto simp: run_wave_sel)
  moreover have "sc_ran ?sc = rev js @ sc_ran sc" by (simp add: run_wave_sel)
  ultimately show ?thesis unfolding sched_inv_def by simp
qed

lemma schedule_inv: "sched_inv needs jobs sc \<Longrightarrow> sched_inv needs jobs (schedule needs ids passes k sc)"
proof (induction needs ids passes k sc rule: schedule.induct)
  case (1 needs ids passes k sc)
  show ?case
  proof (cases "sc_pending sc = [] \<or> ps_ctx (passes k) \<noteq> CtxLive")
    case True
    with 1(2) show ?thesis by (simp add: schedule.simps)
  next
    case False
    obtain ready sc1 where p: "classify_pass needs ids (range_order (ps_order (passes k)) (sc_pending sc)) sc = (ready, sc1)"
      by (metis surj_pair)
    note inv1 = pass_inv [OF 1(2) p]
    show ?thesis
    proof (cases "ready = []")
      case True
      have "sched_inv needs jobs (stuck ids (sc_pending sc1) sc1)"
        by (rule sched_inv_fail [where S = "set (sc_pending sc1)" and st = JobError]) (use inv1 in \<open>auto simp: stuck_sel\<close>)
      with False p True show ?thesis by (simp add: schedule.simps)
    next
      case ne: False
      have "sched_inv needs jobs (run_wave ids (ps_run (passes k)) (sort ready) sc1)"
        using inv1 by (intro wave_inv) auto
      from 1(1) [OF False p [symmetric] ne this] False p ne show ?thesis by (simp add: schedule.simps)
    qed
  qed
qed


definition start_sched :: "string list \<Rightarrow> db session \<Rightarrow> sched" where
  "start_sched jobs s = \<lparr>sc_status = Map.empty, sc_pending = jobs, sc_failed = False, sc_ran = [], sc_db = s\<rparr>"

lemma start_sched_inv: "distinct jobs \<Longrightarrow> sched_inv needs jobs (start_sched jobs s)"
  by (simp add: sched_inv_def start_sched_def)

lemma ran_in_orderD: "ran_in_order needs (later @ n # before) \<Longrightarrow> set (needs n) \<subseteq> set before \<and> n \<notin> set before \<and> n \<notin> set later"
  by (induction later) auto

lemma schedule_ends: "sc_pending (schedule needs ids passes k sc) = [] \<or> (\<exists>i. ps_ctx (passes i) \<noteq> CtxLive)"
proof (induction needs ids passes k sc rule: schedule.induct)
  case (1 needs ids passes k sc)
  then show ?case by (auto simp: schedule.simps [of needs ids passes k sc] stuck_sel split: prod.splits)
qed

text \<open>C23: Whatever order Go ranges over the map in, whatever the jobs and the context do: a job is run at most once,
  and only after every job it needs has run and succeeded; the run counts as failed exactly when some
  job did not succeed; and when the context lives on, every job of the run has got a status.\<close>

theorem jobs_run_after_their_needs:
  assumes "distinct jobs" and "fin = schedule needs ids passes 0 (start_sched jobs s)"
  shows "(sc_ran fin = later @ n # before \<longrightarrow> set (needs n) \<subseteq> set before \<and> n \<notin> set before \<union> set later \<and>
      (\<forall>d \<in> set (needs n). sc_status fin d = Some JobSuccess)) \<and>
    (sc_failed fin \<longleftrightarrow> (\<exists>j st. sc_status fin j = Some st \<and> st \<noteq> JobSuccess)) \<and>
    (sc_status fin j = Some JobSuccess \<longrightarrow> j \<in> set (sc_ran fin)) \<and>
    ((\<forall>k. ps_ctx (passes k) = CtxLive) \<longrightarrow> dom (sc_status fin) = set jobs)"
proof -
  from schedule_inv [OF start_sched_inv [OF assms(1)]] have I: "sched_inv needs jobs fin" by (simp add: assms(2))
  note D = sched_invD [OF I]
  have "dom (sc_status fin) = set jobs" if "\<forall>k. ps_ctx (passes k) = CtxLive"
    using that schedule_ends [of needs ids passes 0 "start_sched jobs s"] D(3) by (force simp: assms(2) dom_def)
  with D show ?thesis by (auto dest!: ran_in_orderD) (blast dest: D(8))+
qed

section \<open>Green pipelines\<close>

definition all_green :: "sched \<Rightarrow> bool" where
  "all_green sc \<longleftrightarrow> (\<forall>n st. sc_status sc n = Some st \<longrightarrow> st = JobSuccess)"

lemma pass_green:
  assumes "all_green sc" and "distinct js" and "classify_pass needs ids js sc = (ready, sc1)"
  shows "sc1 = sc \<and> set ready = {n \<in> set js. \<forall>d \<in> set (needs n). sc_status sc d = Some JobSuccess}"
  using assms
proof (induction js arbitrary: ready sc1)
  case (Cons j js)
  obtain r s where c: "classify_job (needs j) (sc_status sc) = (r, s)" by (metis surj_pair)
  with classify_job_iff [OF c] Cons.prems(1) have s: "\<not> s" "r \<longleftrightarrow> (\<forall>d \<in> set (needs j). sc_status sc d = Some JobSuccess)"
    unfolding all_green_def by blast+
  obtain rs sc2 where p: "classify_pass needs ids js sc = (rs, sc2)" by (metis surj_pair)
  from Cons.IH [OF Cons.prems(1) _ p] Cons.prems(2,3) c s p show ?case by (auto split: if_splits)
qed simp

lemma ready_exists:
  assumes "acyclic (need_edges p)" and "needs_known p" and "sched_inv (needs_of p) (job_names p) sc" and "all_green sc"
    and "sc_pending sc \<noteq> []"
  shows "\<exists>n \<in> set (sc_pending sc). \<forall>d \<in> set (needs_of p n). sc_status sc d = Some JobSuccess"
proof -
  note I = sched_invD [OF assms(3)]
  have "wf ((need_edges p)\<inverse>)"
    using assms(1) finite_need_edges by (rule finite_acyclic_wf_converse [rotated])
  with assms(5) obtain n where n: "n \<in> set (sc_pending sc)"
    and min: "\<And>m. (m, n) \<in> (need_edges p)\<inverse> \<Longrightarrow> m \<notin> set (sc_pending sc)"
    by (metis wfE_min ex_in_conv set_empty)
  have "sc_status sc d = Some JobSuccess" if "d \<in> set (needs_of p n)" for d
  proof -
    from that n I(2) assms(2) have "d \<in> set (job_names p)" by (auto simp: needs_known_def)
    moreover from min that have "d \<notin> set (sc_pending sc)" by (auto simp: need_edges_def)
    ultimately have "sc_status sc d \<noteq> None" using I(3) by blast
    with assms(4) show ?thesis by (auto simp: all_green_def)
  qed
  with n show ?thesis by blast
qed

lemma schedule_green:
  assumes "acyclic (need_edges p)" and "needs_known p" and "\<And>k. ps_ctx (passes k) = CtxLive"
    and "\<And>k n. fst (ps_run (passes k) n) = JobSuccess"
    and "sched_inv (needs_of p) (job_names p) sc" and "all_green sc"
  shows "all_green (schedule (needs_of p) ids passes k sc)"
  using assms(5,6)
proof (induction "length (sc_pending sc)" arbitrary: k sc rule: less_induct)
  case less
  show ?case
  proof (cases "sc_pending sc = []")
    case True
    with less show ?thesis by (simp add: schedule.simps)
  next
    case False
    obtain ready sc1 where p: "classify_pass (needs_of p) ids (range_order (ps_order (passes k)) (sc_pending sc)) sc = (ready, sc1)"
      by (metis surj_pair)
    from pass_green [OF less(3) _ p] have eq: "sc1 = sc"
      and ready: "set ready = {n \<in> set (sc_pending sc). \<forall>d \<in> set (needs_of p n). sc_status sc d = Some JobSuccess}" by auto
    with ready_exists [OF assms(1,2) less(2,3) False] have ne: "ready \<noteq> []" by auto
    let ?w = "run_wave ids (ps_run (passes k)) (sort ready) sc1"
    have "sched_inv (needs_of p) (job_names p) ?w" using pass_inv [OF less(2) p] by (intro wave_inv) auto
    moreover have "all_green ?w" using less(3) assms(4) eq by (auto simp: all_green_def run_wave_sel split: if_splits)
    ultimately have "all_green (schedule (needs_of p) ids passes (k + 1) ?w)"
      using less(1) pass_progress [OF p ne] by blast
    with False p ne assms(3) show ?thesis by (subst schedule.simps) simp
  qed
qed


lemma validate_ok:
  assumes "validate p = Inr ()" shows "acyclic (need_edges p)" and "needs_known p"
proof -
  show "acyclic (need_edges p)"
    using assms find_cycle_sound [of p] by (auto simp: validate_def split: if_splits sum.splits option.splits)
  from assms have jobs: "\<forall>n \<in> set (job_names p). check_job p n = Inr ()"
    unfolding first_error_ok [symmetric] by (auto simp: validate_def split: if_splits sum.splits)
  have "set (needs_of p n) \<subseteq> set (job_names p)" if n: "n \<in> set (job_names p)" for n
  proof -
    from n obtain j where j: "job_of p n = Some j" by (auto simp: job_names_iff)
    with jobs n check_job_ok [OF j] show ?thesis by (auto simp: needs_of_def)
  qed
  then show "needs_known p" by (simp add: needs_known_def)
qed

text \<open>C24: A valid pipeline is never stuck: when the context lives on and every job that is run succeeds, every job
  of the pipeline is run to success and the run does not count as failed, whatever the order of the
  ranges.\<close>

theorem green_pipeline_succeeds:
  assumes "validate p = Inr ()" and "\<And>k. ps_ctx (passes k) = CtxLive"
    and "\<And>k n. fst (ps_run (passes k) n) = JobSuccess"
  shows "let fin = schedule (needs_of p) ids passes 0 (start_sched (job_names p) s) in
    \<not> sc_failed fin \<and> sc_status fin = (\<lambda>n. if n \<in> set (job_names p) then Some JobSuccess else None)"
proof -
  let ?fin = "schedule (needs_of p) ids passes 0 (start_sched (job_names p) s)"
  have start: "sched_inv (needs_of p) (job_names p) (start_sched (job_names p) s)" by (rule start_sched_inv) simp
  note I = sched_invD [OF schedule_inv [OF start, of ids passes 0]]
  have green: "all_green ?fin"
    by (rule schedule_green [OF validate_ok [OF assms(1)] assms(2,3) start]) (simp add: all_green_def start_sched_def)
  moreover have "sc_pending ?fin = []"
    using schedule_ends [of "needs_of p" ids passes 0 "start_sched (job_names p) s"] assms(2) by auto
  ultimately have "sc_status ?fin n = (if n \<in> set (job_names p) then Some JobSuccess else None)" for n
    using I(3) [of n] by (cases "sc_status ?fin n") (auto simp: all_green_def)
  moreover have "\<not> sc_failed ?fin" using I(4) green by (auto simp: all_green_def)
  ultimately show ?thesis by (simp add: Let_def fun_eq_iff)
qed

text \<open>The stuck check ignores that a pass may have skipped a job: after a failed job, with one job that needs it
  and one that needs that, the last one is skipped or finalized as an error (and logged as a malformed
  pipeline) depending on the order in which Go ranges over the map.\<close>

theorem skip_depends_on_map_order:
  assumes "needs b = [a]" and "needs c = [b]" and "b \<noteq> a" and "c \<noteq> b" and "sc_status sc a = Some JobFailed"
    and "sc_status sc b = None" and "sc_pending sc = [b, c]" and "ps_ctx (passes k) = CtxLive"
  shows "(ps_order (passes k) = [b, c] \<longrightarrow> sc_status (schedule needs ids passes k sc) c = Some JobSkipped) \<and>
    (ps_order (passes k) = [c, b] \<longrightarrow> sc_status (schedule needs ids passes k sc) c = Some JobError)"
  using assms
  by (auto simp: schedule.simps [of needs ids passes k sc] range_order_def classify_job_def stuck_sel)

text \<open>A pipeline with three jobs in a row, and environments for it.\<close>

definition demo_ids :: "string \<Rightarrow> int" where
  "demo_ids n = (if n = ''lint'' then 1 else if n = ''build'' then 2 else 3)"

definition demo_passes :: "job_status \<Rightarrow> string list \<Rightarrow> nat \<Rightarrow> pass" where
  "demo_passes st order k = \<lparr>ps_ctx = CtxLive, ps_order = order, ps_run = (\<lambda>n. (st, Some 0, True))\<rparr>"

lemma demo_pipeline_ok: "validate demo_pipeline = Inr ()"
  by code_simp

theorem green_pipeline_succeeds_witness:
  "sc_status (schedule (needs_of demo_pipeline) demo_ids (demo_passes JobSuccess []) 0 (start_sched (job_names demo_pipeline) ([], empty_db 5))) ''test'' = Some JobSuccess"
proof -
  have "''test'' \<in> set (job_names demo_pipeline)" by code_simp
  with green_pipeline_succeeds [OF demo_pipeline_ok, of "demo_passes JobSuccess []" demo_ids "([], empty_db 5)"]
  show ?thesis by (simp add: demo_passes_def Let_def)
qed

theorem skip_depends_on_map_order_witness:
  "sc_status (schedule (\<lambda>n. if n = ''b'' then [''a''] else if n = ''c'' then [''b''] else []) demo_ids (demo_passes JobSuccess [''c'', ''b'']) 1
     \<lparr>sc_status = [''a'' \<mapsto> JobFailed], sc_pending = [''b'', ''c''], sc_failed = True, sc_ran = [''a''], sc_db = ([], empty_db 5)\<rparr>) ''c'' = Some JobError"
  by (rule skip_depends_on_map_order [where a = "''a''" and b = "''b''", THEN conjunct2, THEN mp]) (simp_all add: demo_passes_def)

theorem jobs_run_after_their_needs_witness:
  "\<exists>fin. fin = schedule (needs_of demo_pipeline) demo_ids (demo_passes JobSuccess []) 0 (start_sched (job_names demo_pipeline) ([], empty_db 5)) \<and>
    sc_ran fin = [''test'', ''build'', ''lint''] \<and> sc_status fin ''build'' = Some JobSuccess"
proof -
  let ?fin = "schedule (needs_of demo_pipeline) demo_ids (demo_passes JobSuccess []) 0 (start_sched (job_names demo_pipeline) ([], empty_db 5))"
  have ran: "sc_ran ?fin = [] @ ''test'' # [''build'', ''lint'']" by code_simp
  have "''build'' \<in> set (needs_of demo_pipeline ''test'')" by code_simp
  with jobs_run_after_their_needs [OF job_names_distinct refl, THEN conjunct1, THEN mp, OF ran]
  have "sc_status ?fin ''build'' = Some JobSuccess" by blast
  with ran show ?thesis by (intro exI [of _ ?fin]) simp
qed

end
