(* ===== verification/Executor.thy ===== *)
theory Executor imports Scheduler RunQueue begin

text \<open>
  The rest of \<open>executeRun\<close> in \<open>cmd/codefortd/ci_runner.go\<close>: the gates in front of the jobs, the job rows, the
  jobs that are left when the context ends, the final status of the run and its event. The outcome of a
  job is that of \<open>Scheduler.run_job\<close>.
\<close>

section \<open>The end of a run\<close>

definition run_status_name :: "run_status \<Rightarrow> string" where
  "run_status_name s = (case s of RunQueued \<Rightarrow> ''queued'' | RunRunning \<Rightarrow> ''running'' | RunAwaitingInput \<Rightarrow> ''awaiting_input''
     | RunFinishing \<Rightarrow> ''finishing'' | RunSuccess \<Rightarrow> ''success'' | RunFailed \<Rightarrow> ''failed'' | RunCanceled \<Rightarrow> ''canceled''
     | RunError \<Rightarrow> ''error'' | RunInterrupted \<Rightarrow> ''interrupted'' | RunStalled \<Rightarrow> ''stalled'')"

type_synonym marshaler = "(string \<times> jvalue) list \<Rightarrow> string"

definition emit_agent_event :: "marshaler \<Rightarrow> run_row \<Rightarrow> string \<Rightarrow> (string \<times> jvalue) list \<Rightarrow> (db, unit) dbm" where
  "emit_agent_event marshal run ty extra =
     (let data = (''number'', JInt (ru_number run)) # (case ru_issue run of None \<Rightarrow> [] | Some n \<Rightarrow> [(''issue_number'', JInt n)]) @ extra in
      attempt (append_feed_event ty (ru_repo run) (ru_trigger run) (marshal data)) (\<lambda>_. ok ()))"

text \<open>\<open>r.finish\<close>: errors are logged and forgotten.\<close>

definition finish_ci :: "marshaler \<Rightarrow> run_row \<Rightarrow> run_status \<Rightarrow> (db, unit) dbm" where
  "finish_ci marshal run st = attempt (finish_run (ru_id run) st) (\<lambda>_.
     if is_agent (ru_kind run) then emit_agent_event marshal run ''agent.run.finished'' [(''status'', JStr (run_status_name st))]
     else attempt (append_feed_event ''ci.run.finished'' (ru_repo run) (ru_trigger run)
         (marshal [(''number'', JInt (ru_number run)), (''status'', JStr (run_status_name st)), (''ref'', JStr (ru_ref run)), (''sha'', JStr (ru_sha run))]))
       (\<lambda>_. ok ()))"

section \<open>The run\<close>

text \<open>The environment of one run: the pipeline file at a commit (\<open>None\<close> when reading it fails, \<open>Some None\<close> when there
  is none), the YAML decoders, whether the workspace is made and the checkout succeeds, the context and
  the map order of every iteration, what happens to the jobs it runs, the context after the loop, once
  for the jobs that are left and once for the final status, and whether the operator stopped the run.\<close>

record exec_env =
  ee_read :: "string \<Rightarrow> string option option"
  ee_decode :: "string \<Rightarrow> pipeline option"
  ee_http :: http_decoder
  ee_quote :: "string \<Rightarrow> string"
  ee_workspace :: bool
  ee_checkout :: bool
  ee_ctx :: "nat \<Rightarrow> ctx"
  ee_order :: "nat \<Rightarrow> string list"
  ee_jobs :: "nat \<Rightarrow> string \<Rightarrow> job_env"
  ee_ctx_left :: ctx
  ee_ctx_final :: ctx
  ee_stopped :: bool

definition exec_passes :: "exec_env \<Rightarrow> string \<Rightarrow> string \<Rightarrow> pipeline \<Rightarrow> nat \<Rightarrow> pass" where
  "exec_passes env owner repo p k = \<lparr>ps_ctx = ee_ctx env k, ps_order = ee_order env k,
     ps_run = (\<lambda>n. case job_of p n of
         None \<Rightarrow> (JobError, None, False)
       | Some j \<Rightarrow> (case run_job (ee_http env) (ee_quote env) (owner, repo, n) (ee_jobs env k n) j of
           (st, code, evs, started) \<Rightarrow> (st, code, started)))\<rparr>"

primrec create_jobs :: "int \<Rightarrow> (string \<Rightarrow> string list) \<Rightarrow> string list \<Rightarrow> (string \<Rightarrow> int) \<Rightarrow> (db, string \<Rightarrow> int) dbm" where
  "create_jobs run needs [] ids = ok ids"
| "create_jobs run needs (n # ns) ids = bind (create_job run n (needs n)) (\<lambda>j. create_jobs run needs ns (ids(n := j_id j)))"

text \<open>The jobs that never started when a timeout or a shutdown ends the loop.\<close>

definition leftover :: "(string \<Rightarrow> int) \<Rightarrow> ctx \<Rightarrow> sched \<Rightarrow> sched" where
  "leftover ids c sc = (if c = CtxLive then sc
     else fold (\<lambda>n sc. finish_sched_job ids n (if c = CtxCanceled then JobInterrupted else JobError) None sc) (sc_pending sc) sc)"

definition final_status :: "bool \<Rightarrow> ctx \<Rightarrow> bool \<Rightarrow> run_status" where
  "final_status stopped c failed =
     (if stopped then RunCanceled else if c = CtxCanceled then RunInterrupted else if c \<noteq> CtxLive then RunError
      else if failed then RunFailed else RunSuccess)"

definition execute_jobs :: "marshaler \<Rightarrow> exec_env \<Rightarrow> run_row \<Rightarrow> string \<Rightarrow> string \<Rightarrow> pipeline \<Rightarrow> string list \<Rightarrow> (string \<Rightarrow> int) \<Rightarrow> (db, unit) dbm" where
  "execute_jobs marshal env run owner repo p order ids = (\<lambda>s.
     let sc = schedule (needs_of p) ids (exec_passes env owner repo p) 0 (start_sched order s);
         sc = leftover ids (ee_ctx_left env) sc
     in finish_ci marshal run (final_status (ee_stopped env) (ee_ctx_final env) (sc_failed sc)) (sc_db sc))"

definition execute_ci_run :: "marshaler \<Rightarrow> exec_env \<Rightarrow> run_row \<Rightarrow> (db, unit) dbm" where
  "execute_ci_run marshal env run =
     attempt (repo_ident (ru_repo run)) (\<lambda>r. case r of Inl _ \<Rightarrow> finish_ci marshal run RunError | Inr (owner, repo) \<Rightarrow>
     attempt (repo_ci_enabled (ru_repo run)) (\<lambda>e. case e of Inl _ \<Rightarrow> finish_ci marshal run RunError | Inr enabled \<Rightarrow>
     (case ee_read env (ru_sha run) of
        None \<Rightarrow> finish_ci marshal run RunError
      | Some raw \<Rightarrow>
          if \<not> enabled \<or> raw = None then finish_ci marshal run RunCanceled
          else (case Option.bind raw (parse_pipeline (ee_decode env)) of
              None \<Rightarrow> finish_ci marshal run RunError
            | Some p \<Rightarrow> (case topo_order p of
                None \<Rightarrow> finish_ci marshal run RunError
              | Some order \<Rightarrow>
                  if \<not> ee_workspace env \<or> \<not> ee_checkout env then finish_ci marshal run RunError
                  else attempt (create_jobs (ru_id run) (needs_of p) order (\<lambda>_. 0)) (\<lambda>j. case j of
                      Inl _ \<Rightarrow> finish_ci marshal run RunError
                    | Inr ids \<Rightarrow> execute_jobs marshal env run owner repo p order ids))))))"


section \<open>The job rows follow the jobs\<close>

definition job_terminal :: "job_status \<Rightarrow> bool" where
  "job_terminal st \<longleftrightarrow> st \<noteq> JobQueued \<and> st \<noteq> JobRunning"

definition job_state :: "db \<Rightarrow> int \<Rightarrow> job_status option" where
  "job_state d i = map_option j_status (select_one (\<lambda>j. j_id j = i) (ci_jobs d))"

text \<open>Two databases with the same runs and the same identity of every job.\<close>

definition same_rows :: "db \<Rightarrow> db \<Rightarrow> bool" where
  "same_rows d d' \<longleftrightarrow> ci_runs d' = ci_runs d \<and>
     map (\<lambda>j. (j_id j, j_run j, j_name j)) (rows (ci_jobs d')) = map (\<lambda>j. (j_id j, j_run j, j_name j)) (rows (ci_jobs d))"

lemma same_rows_refl [simp]: "same_rows d d"
  by (simp add: same_rows_def)

lemma same_rows_trans: "same_rows d d' \<Longrightarrow> same_rows d' d'' \<Longrightarrow> same_rows d d''"
  by (simp add: same_rows_def)

lemma update_job_state:
  assumes "\<And>j. j_id (f j) = j_id j" and "\<And>j. j_status (f j) = st"
  shows "job_state (d\<lparr>ci_jobs := update_where (\<lambda>j. j_id j = i) f (ci_jobs d)\<rparr>) k =
    (if k = i then map_option (\<lambda>_. st) (job_state d k) else job_state d k)"
  using assms find_map_keep [of "\<lambda>j. j_id j = k" "\<lambda>j. if j_id j = i then f j else j" "rows (ci_jobs d)"]
  by (cases "find (\<lambda>j. j_id j = k) (rows (ci_jobs d))")
     (auto simp: job_state_def select_one_def row_simps dest: find_SomeD)

lemma update_same_rows:
  assumes "\<And>j. j_id (f j) = j_id j" and "\<And>j. j_run (f j) = j_run j" and "\<And>j. j_name (f j) = j_name j"
  shows "same_rows d (d\<lparr>ci_jobs := update_where P f (ci_jobs d)\<rparr>)"
  using assms by (simp add: same_rows_def row_simps)

lemma finish_job_healthy:
  "\<exists>r d'. finish_job i st code ([], d) = (r, ([], d')) \<and> same_rows d d' \<and>
    (\<forall>k. job_state d' k = (if k = i then map_option (\<lambda>_. st) (job_state d k) else job_state d k))"
  by (auto simp: finish_job_def update_jobs_def affected_def update_job_state intro: update_same_rows)

lemma start_job_healthy:
  "\<exists>r d'. start_job i ([], d) = (r, ([], d')) \<and> same_rows d d' \<and>
    (\<forall>k. job_state d' k = (if k = i then map_option (\<lambda>_. JobRunning) (job_state d k) else job_state d k))"
  by (auto simp: start_job_def update_jobs_def affected_def update_job_state intro: update_same_rows)

text \<open>On a healthy engine, what the loop knows of a job is in its row.\<close>

definition mirrored :: "db \<Rightarrow> (string \<Rightarrow> int) \<Rightarrow> string list \<Rightarrow> sched \<Rightarrow> bool" where
  "mirrored d0 ids jobs sc \<longleftrightarrow> (\<exists>d. sc_db sc = ([], d) \<and> same_rows d0 d \<and> set (sc_pending sc) \<subseteq> set jobs \<and>
     (\<forall>n \<in> set jobs. job_state d (ids n) \<noteq> None \<and>
       (\<forall>st. sc_status sc n = Some st \<longrightarrow> job_state d (ids n) = Some st \<and> job_terminal st)))"

lemma mirrored_finish:
  assumes "mirrored d0 ids jobs sc" and "inj_on ids (set jobs)" and "n \<in> set jobs" and "job_terminal st"
  shows "mirrored d0 ids jobs (resolve n st (finish_sched_job ids n st code sc))"
proof -
  from assms(1) obtain d where d: "sc_db sc = ([], d)" "same_rows d0 d" "set (sc_pending sc) \<subseteq> set jobs"
    "\<And>m. m \<in> set jobs \<Longrightarrow> job_state d (ids m) \<noteq> None \<and>
       (\<forall>st. sc_status sc m = Some st \<longrightarrow> job_state d (ids m) = Some st \<and> job_terminal st)"
    unfolding mirrored_def by blast
  from finish_job_healthy [of "ids n" st code d] obtain r d' where f: "finish_job (ids n) st code ([], d) = (r, ([], d'))"
    "same_rows d d'" "\<And>k. job_state d' k = (if k = ids n then map_option (\<lambda>_. st) (job_state d k) else job_state d k)"
    by blast
  have "ids m = ids n \<longleftrightarrow> m = n" if "m \<in> set jobs" for m using assms(2,3) that by (auto simp: inj_on_def)
  with d f assms(3,4) same_rows_trans [OF d(2) f(2)] show ?thesis
    unfolding mirrored_def by (intro exI [of _ d']) (auto simp: finish_sched_job_def)
qed

lemma mirrored_run:
  assumes "mirrored d0 ids jobs sc" and "inj_on ids (set jobs)" and "n \<in> set jobs" and "job_terminal (fst (run n))"
    and "sc_status sc n = None"
  shows "mirrored d0 ids jobs (run_sched_job ids run n sc)"
proof -
  obtain st code started where run: "run n = (st, code, started)" by (metis surj_pair)
  from assms(1) obtain d where d: "sc_db sc = ([], d)" "same_rows d0 d" "set (sc_pending sc) \<subseteq> set jobs"
    "\<And>m. m \<in> set jobs \<Longrightarrow> job_state d (ids m) \<noteq> None \<and>
       (\<forall>st. sc_status sc m = Some st \<longrightarrow> job_state d (ids m) = Some st \<and> job_terminal st)"
    unfolding mirrored_def by blast
  from start_job_healthy [of "ids n" d] obtain r d1 where f: "start_job (ids n) ([], d) = (r, ([], d1))"
    "same_rows d d1" "\<And>k. job_state d1 k = (if k = ids n then map_option (\<lambda>_. JobRunning) (job_state d k) else job_state d k)"
    by blast
  let ?s = "if started then snd (start_job (ids n) (sc_db sc)) else sc_db sc"
  let ?sc = "sc\<lparr>sc_db := ?s, sc_ran := n # sc_ran sc\<rparr>"
  have inj: "ids m = ids n \<longleftrightarrow> m = n" if "m \<in> set jobs" for m using assms(2,3) that by (auto simp: inj_on_def)
  have "mirrored d0 ids jobs ?sc"
  proof (cases started)
    case True
    have "job_state d1 (ids m) \<noteq> None \<and> (\<forall>st. sc_status sc m = Some st \<longrightarrow> job_state d1 (ids m) = Some st \<and> job_terminal st)"
      if "m \<in> set jobs" for m using d(4) [OF that] inj [OF that] f(3) assms(5) by auto
    with True d f same_rows_trans [OF d(2) f(2)] show ?thesis unfolding mirrored_def by (intro exI [of _ d1]) auto
  next
    case False
    with d show ?thesis unfolding mirrored_def by auto
  qed
  from mirrored_finish [OF this assms(2,3), of st code] assms(4) run show ?thesis
    by (simp add: run_sched_job_def Let_def)
qed


lemma mirrored_pass:
  assumes "mirrored d0 ids jobs sc" and "inj_on ids (set jobs)" and "set js \<subseteq> set jobs"
    and "classify_pass needs ids js sc = (ready, sc1)"
  shows "mirrored d0 ids jobs sc1"
  using assms
proof (induction js arbitrary: sc ready)
  case (Cons j js)
  obtain r s where c: "classify_job (needs j) (sc_status sc) = (r, s)" by (metis surj_pair)
  show ?case
  proof (cases s)
    case True
    have "mirrored d0 ids jobs (resolve j JobSkipped (finish_sched_job ids j JobSkipped None sc))"
      using Cons.prems by (intro mirrored_finish) (auto simp: job_terminal_def)
    with Cons.IH Cons.prems(2-4) c True show ?thesis by auto
  next
    case False
    obtain rs sc2 where "classify_pass needs ids js sc = (rs, sc2)" by (metis surj_pair)
    with Cons.IH Cons.prems c False show ?thesis by auto
  qed
qed simp

lemma mirrored_wave:
  assumes "mirrored d0 ids jobs sc" and "inj_on ids (set jobs)" and "set js \<subseteq> set jobs" and "distinct js"
    and "\<And>n. n \<in> set js \<Longrightarrow> sc_status sc n = None" and "\<And>n. n \<in> set jobs \<Longrightarrow> job_terminal (fst (run n))"
  shows "mirrored d0 ids jobs (run_wave ids run js sc)"
  using assms
proof (induction js arbitrary: sc)
  case (Cons j js)
  have "mirrored d0 ids jobs (run_sched_job ids run j sc)" using Cons.prems by (intro mirrored_run) auto
  moreover have "\<And>n. n \<in> set js \<Longrightarrow> sc_status (run_sched_job ids run j sc) n = None"
    using Cons.prems by (auto simp: run_sched_sel)
  ultimately show ?case using Cons.IH [of "run_sched_job ids run j sc"] Cons.prems by (simp add: run_wave_def)
qed (simp add: run_wave_def)

lemma mirrored_stuck:
  "mirrored d0 ids jobs sc \<Longrightarrow> inj_on ids (set jobs) \<Longrightarrow> set js \<subseteq> set jobs \<Longrightarrow> mirrored d0 ids jobs (stuck ids js sc)"
proof (induction js arbitrary: sc)
  case (Cons j js)
  have "mirrored d0 ids jobs (resolve j JobError (finish_sched_job ids j JobError None sc))"
    using Cons.prems by (intro mirrored_finish) (auto simp: job_terminal_def)
  with Cons.IH Cons.prems show ?case by (simp add: stuck_def)
qed (simp add: stuck_def)

lemma mirrored_schedule:
  assumes "mirrored d0 ids jobs sc" and "sched_inv needs jobs sc" and "inj_on ids (set jobs)"
    and "\<And>k n. n \<in> set jobs \<Longrightarrow> job_terminal (fst (ps_run (passes k) n))"
  shows "mirrored d0 ids jobs (schedule needs ids passes k sc)"
  using assms(1,2)
proof (induction "length (sc_pending sc)" arbitrary: k sc rule: less_induct)
  case less
  show ?case
  proof (cases "sc_pending sc = [] \<or> ps_ctx (passes k) \<noteq> CtxLive")
    case True
    with less show ?thesis by (simp add: schedule.simps)
  next
    case False
    obtain ready sc1 where p: "classify_pass needs ids (range_order (ps_order (passes k)) (sc_pending sc)) sc = (ready, sc1)"
      by (metis surj_pair)
    note inv = pass_inv [OF less(3) p]
    note pend = sched_invD(2) [OF conjunct1 [OF inv]]
    have "set (range_order (ps_order (passes k)) (sc_pending sc)) \<subseteq> set jobs"
      using sched_invD(2) [OF less(3)] by simp
    from mirrored_pass [OF less(2) assms(3) this p] have m: "mirrored d0 ids jobs sc1" .
    show ?thesis
    proof (cases "ready = []")
      case True
      from mirrored_stuck [OF m assms(3) pend] have "mirrored d0 ids jobs (stuck ids (sc_pending sc1) sc1)" .
      with False p True show ?thesis by (simp add: schedule.simps)
    next
      case ne: False
      let ?w = "run_wave ids (ps_run (passes k)) (sort ready) sc1"
      have ready: "set (sort ready) \<subseteq> set (sc_pending sc1)" "distinct (sort ready)" using inv by auto
      have new: "sc_status sc1 n = None" if "n \<in> set (sort ready)" for n
        using sched_invD(3) [OF conjunct1 [OF inv], of n] ready(1) that by blast
      from mirrored_wave [OF m assms(3) subset_trans [OF ready(1) pend] ready(2) new assms(4)]
      have "mirrored d0 ids jobs ?w" .
      moreover have "sched_inv needs jobs ?w" using inv by (intro wave_inv) auto
      ultimately have "mirrored d0 ids jobs (schedule needs ids passes (k + 1) ?w)"
        by (rule less(1) [OF pass_progress [OF p ne]])
      with False p ne show ?thesis by (subst schedule.simps) (simp del: sort_key_simps)
    qed
  qed
qed

text \<open>The jobs of a run all end: with a status of their own, or as left over.\<close>

lemma leftover_healthy:
  assumes "sc_db sc = ([], d)" and "same_rows d0 d" and "job_terminal st"
  shows "\<exists>d'. sc_db (fold (\<lambda>n sc. finish_sched_job ids n st None sc) ns sc) = ([], d') \<and> same_rows d0 d' \<and>
    (\<forall>i. (job_state d' i = None \<longleftrightarrow> job_state d i = None) \<and>
      (i \<in> ids ` set ns \<longrightarrow> job_state d i \<noteq> None \<longrightarrow> job_state d' i = Some st) \<and>
      (i \<notin> ids ` set ns \<longrightarrow> job_state d' i = job_state d i))"
  using assms(1,2)
proof (induction ns arbitrary: sc d)
  case (Cons n ns)
  from finish_job_healthy [of "ids n" st None d] obtain r d1 where f: "finish_job (ids n) st None ([], d) = (r, ([], d1))"
    "same_rows d d1" "\<And>k. job_state d1 k = (if k = ids n then map_option (\<lambda>_. st) (job_state d k) else job_state d k)"
    by blast
  have "sc_db (finish_sched_job ids n st None sc) = ([], d1)" using Cons.prems f by (simp add: finish_sched_job_def)
  from Cons.IH [OF this same_rows_trans [OF Cons.prems(2) f(2)]] obtain d' where
    "sc_db (fold (\<lambda>n sc. finish_sched_job ids n st None sc) ns (finish_sched_job ids n st None sc)) = ([], d')" "same_rows d0 d'"
    "\<And>i. (job_state d' i = None \<longleftrightarrow> job_state d1 i = None) \<and> (i \<in> ids ` set ns \<longrightarrow> job_state d1 i \<noteq> None \<longrightarrow> job_state d' i = Some st) \<and>
      (i \<notin> ids ` set ns \<longrightarrow> job_state d' i = job_state d1 i)" by blast
  note d' = this
  have "(job_state d' i = None \<longleftrightarrow> job_state d i = None) \<and>
      (i \<in> ids ` set (n # ns) \<longrightarrow> job_state d i \<noteq> None \<longrightarrow> job_state d' i = Some st) \<and>
      (i \<notin> ids ` set (n # ns) \<longrightarrow> job_state d' i = job_state d i)" for i
    using d'(3) [of i] f(3) [of i] by (cases "i = ids n"; cases "i \<in> ids ` set ns"; auto)
  with d'(1,2) show ?case by simp
qed auto

lemma jobs_all_end:
  assumes "mirrored d0 ids jobs sc" and "sched_inv needs jobs sc"
    and "c \<noteq> CtxLive \<or> sc_pending sc = []"
  shows "\<exists>d. sc_db (leftover ids c sc) = ([], d) \<and> same_rows d0 d \<and>
    (\<forall>n \<in> set jobs. \<exists>st. job_state d (ids n) = Some st \<and> job_terminal st)"
proof -
  from assms(1) obtain d where d: "sc_db sc = ([], d)" "same_rows d0 d"
    "\<And>m. m \<in> set jobs \<Longrightarrow> job_state d (ids m) \<noteq> None \<and>
       (\<forall>st. sc_status sc m = Some st \<longrightarrow> job_state d (ids m) = Some st \<and> job_terminal st)"
    unfolding mirrored_def by blast
  have resolved: "\<exists>st. sc_status sc n = Some st" if "n \<in> set jobs" "n \<notin> set (sc_pending sc)" for n
    using that sched_invD(3) [OF assms(2), of n] by (cases "sc_status sc n") auto
  show ?thesis
  proof (cases "c = CtxLive")
    case True
    with assms(3) resolved d show ?thesis by (fastforce simp: leftover_def)
  next
    case False
    let ?st = "if c = CtxCanceled then JobInterrupted else JobError"
    have t: "job_terminal ?st" by (simp add: job_terminal_def)
    from leftover_healthy [OF d(1,2) t, of ids "sc_pending sc"] obtain d' where d': "sc_db (leftover ids c sc) = ([], d')"
      "same_rows d0 d'" "\<And>i. (i \<in> ids ` set (sc_pending sc) \<longrightarrow> job_state d i \<noteq> None \<longrightarrow> job_state d' i = Some ?st) \<and>
      (i \<notin> ids ` set (sc_pending sc) \<longrightarrow> job_state d' i = job_state d i)"
      using False by (auto simp: leftover_def)
    have "\<exists>st. job_state d' (ids n) = Some st \<and> job_terminal st" if n: "n \<in> set jobs" for n
    proof (cases "ids n \<in> ids ` set (sc_pending sc)")
      case True
      with d'(3) [of "ids n"] d(3) [OF n] t show ?thesis by blast
    next
      case f: False
      then have "n \<notin> set (sc_pending sc)" by blast
      from resolved [OF n this] f d'(3) [of "ids n"] d(3) [OF n] show ?thesis by auto
    qed
    with d' show ?thesis by blast
  qed
qed


section \<open>No job and no run stays open\<close>

lemma run_job_terminal: "fst (run_job decode quote path env j) \<noteq> JobQueued \<and> fst (run_job decode quote path env j) \<noteq> JobRunning"
  by (auto simp: run_job_def run_plan_def Let_def split: prod.splits sum.splits option.splits)

lemma exec_passes_terminal: "job_terminal (fst (ps_run (exec_passes env owner repo p k) n))"
proof (cases "job_of p n")
  case (Some j)
  with run_job_terminal [of "ee_http env" "ee_quote env" "(owner, repo, n)" "ee_jobs env k n" j]
  show ?thesis
    by (cases "run_job (ee_http env) (ee_quote env) (owner, repo, n) (ee_jobs env k n) j") (simp add: exec_passes_def job_terminal_def)
qed (simp add: exec_passes_def job_terminal_def)

text \<open>The jobs of a run are exactly those of the names D, and \<open>ids\<close> knows their rows.\<close>

definition jobs_known :: "int \<Rightarrow> db \<Rightarrow> (string \<Rightarrow> int) \<Rightarrow> string set \<Rightarrow> bool" where
  "jobs_known run d ids D \<longleftrightarrow> distinct (map j_id (rows (ci_jobs d))) \<and>
     (\<forall>j \<in> set (rows (ci_jobs d)). j_run j = run \<longrightarrow> j_name j \<in> D \<and> j_id j = ids (j_name j)) \<and>
     (\<forall>n \<in> D. \<exists>j \<in> set (rows (ci_jobs d)). j_run j = run \<and> j_name j = n)"

lemma jobs_known_inj: "jobs_known run d ids D \<Longrightarrow> inj_on ids D"
  unfolding jobs_known_def inj_on_def by (metis distinct_map_eqD)

lemma jobs_known_same: 
  assumes "jobs_known run d ids D" and "same_rows d d'"
  shows "jobs_known run d' ids D"
proof -
  let ?f = "\<lambda>j. (j_id j, j_run j, j_name j)"
  have f: "map ?f (rows (ci_jobs d')) = map ?f (rows (ci_jobs d))" using assms(2) by (simp add: same_rows_def)
  then have "map fst (map ?f (rows (ci_jobs d'))) = map fst (map ?f (rows (ci_jobs d)))" by simp
  then have ids: "map j_id (rows (ci_jobs d')) = map j_id (rows (ci_jobs d))" by (simp add: comp_def)
  from arg_cong [OF f, of set] have img: "?f ` set (rows (ci_jobs d')) = ?f ` set (rows (ci_jobs d))" by simp
  have new: "\<exists>j \<in> set (rows (ci_jobs d)). j_id j = j_id j' \<and> j_run j = j_run j' \<and> j_name j = j_name j'"
    if "j' \<in> set (rows (ci_jobs d'))" for j'
  proof -
    from imageI [OF that, of ?f] obtain j where "j \<in> set (rows (ci_jobs d))" "?f j' = ?f j" unfolding img by (elim imageE)
    then show ?thesis by auto
  qed
  have old: "\<exists>j' \<in> set (rows (ci_jobs d')). j_run j' = j_run j \<and> j_name j' = j_name j"
    if "j \<in> set (rows (ci_jobs d))" for j
  proof -
    from imageI [OF that, of ?f] obtain j' where "j' \<in> set (rows (ci_jobs d'))" "?f j = ?f j'" unfolding img [symmetric] by (elim imageE)
    then show ?thesis by auto
  qed
  from assms(1) have J: "distinct (map j_id (rows (ci_jobs d)))"
    "\<And>j. j \<in> set (rows (ci_jobs d)) \<Longrightarrow> j_run j = run \<Longrightarrow> j_name j \<in> D \<and> j_id j = ids (j_name j)"
    "\<And>n. n \<in> D \<Longrightarrow> \<exists>j \<in> set (rows (ci_jobs d)). j_run j = run \<and> j_name j = n"
    by (auto simp: jobs_known_def)
  show ?thesis unfolding jobs_known_def
  proof (intro conjI ballI impI)
    show "distinct (map j_id (rows (ci_jobs d')))" using J(1) ids by simp
  next
    fix j assume "j \<in> set (rows (ci_jobs d'))" and "j_run j = run"
    with new [of j] J(2) show "j_name j \<in> D" and "j_id j = ids (j_name j)" by metis+
  next
    fix n assume "n \<in> D"
    with J(3) old show "\<exists>j \<in> set (rows (ci_jobs d')). j_run j = run \<and> j_name j = n" by metis
  qed
qed

lemma job_state_row:
  "distinct (map j_id (rows (ci_jobs d))) \<Longrightarrow> j \<in> set (rows (ci_jobs d)) \<Longrightarrow> job_state d (j_id j) = Some (j_status j)"
  using find_unique_key [of j_id "rows (ci_jobs d)" j] by (simp add: job_state_def select_one_def)

lemma create_jobs_healthy:
  assumes "run_exists run d" and "ids_ok j_id (ci_jobs d)" and "jobs_known run d ids D" and "distinct ns" and "set ns \<inter> D = {}"
  shows "\<exists>ids' d'. create_jobs run needs ns ids ([], d) = (Inr ids', ([], d')) \<and> jobs_known run d' ids' (D \<union> set ns) \<and> ci_runs d' = ci_runs d"
  using assms
proof (induction ns arbitrary: d ids D)
  case (Cons n ns)
  have "select_one (job_at run n) (ci_jobs d) = None"
    using Cons.prems(3,5) by (auto simp: select_one_None exists_where_iff jobs_known_def job_at_def)
  with Cons.prems(1) obtain j d1 where u: "upsert_job run n (needs n) d = (Inr j, d1)" "ci_runs d1 = ci_runs d"
    "rows (ci_jobs d1) = rows (ci_jobs d) @ [j]" "seqno (ci_jobs d1) = seqno (ci_jobs d) + 1"
    "j_id j = seqno (ci_jobs d) + 1" "j_run j = run" "j_name j = n"
    by (simp add: upsert_job_def Let_def row_simps split: prod.splits) (simp add: insert_row_def Let_def)
  have fresh: "j_id x < j_id j" if "x \<in> set (rows (ci_jobs d))" for x
    using Cons.prems(2) that u(5) by (auto simp: ids_ok_def)
  have "ids_ok j_id (ci_jobs d1)"
    using Cons.prems(2) fresh u(3-5) by (auto simp: ids_ok_def sorted_wrt_append)
  moreover have "jobs_known run d1 (ids(n := j_id j)) (insert n D)"
    using Cons.prems(3,5) fresh u(3,6,7) by (fastforce simp: jobs_known_def)
  moreover have "run_exists run d1" using Cons.prems(1) u(2) by (simp add: run_exists_def)
  ultimately obtain ids' d' where "create_jobs run needs ns (ids(n := j_id j)) ([], d1) = (Inr ids', ([], d'))"
    "jobs_known run d' ids' (insert n D \<union> set ns)" "ci_runs d' = ci_runs d1"
    using Cons.IH [of d1 "ids(n := j_id j)" "insert n D"] Cons.prems(4,5) by (auto simp del: fun_upd_apply)
  with u show ?case by (simp add: create_job_def bind_def)
qed simp


lemma topo_loop_distinct: "topo_inv p indeg order \<Longrightarrow> topo_loop p indeg order = Some out \<Longrightarrow> distinct out"
proof (induction p indeg order rule: topo_loop.induct)
  case (1 p indeg order)
  obtain b indeg' order' where sw: "sweep p (job_names p) (False, indeg, order) = (b, indeg', order')"
    by (metis prod_cases3)
  from sweep_inv [OF "1.prems"(1) subset_refl sw] have inv: "topo_inv p indeg' order'" by auto
  show ?case
  proof (cases "length (job_names p) \<le> length order")
    case True
    with "1.prems" show ?thesis by (simp add: topo_loop.simps [of p indeg order] topo_inv_def)
  next
    case False
    with "1.prems"(2) sw have b: "b" and "topo_loop p indeg' order' = Some out"
      by (simp_all add: topo_loop.simps [of p indeg order] split: if_splits)
    from "1.IH" [OF False sw [symmetric] refl _ inv this(2)] b show ?thesis by simp
  qed
qed

text \<open>Every way the execution ends writes the end of the run.\<close>

definition run_over :: "run_row \<Rightarrow> db \<Rightarrow> bool" where
  "run_over run d \<longleftrightarrow> (\<forall>r \<in> set (rows (ci_runs d)). ru_id r = ru_id run \<longrightarrow> run_terminal (ru_status r))"

lemma finish_ci_healthy:
  assumes "run_terminal st"
  shows "\<exists>r d'. finish_ci marshal run st ([], d) = (r, ([], d')) \<and> ci_jobs d' = ci_jobs d \<and> run_over run d'"
proof -
  let ?d = "d\<lparr>ci_runs := update_where (\<lambda>r. ru_id r = ru_id run) (end_run st (now d)) (ci_runs d)\<rparr>"
  obtain x where f: "finish_run (ru_id run) st ([], d) = (x, ([], ?d))"
    using assms by (cases "count_where (\<lambda>r. ru_id r = ru_id run) (ci_runs d) = 0")
      (auto simp: finish_run_def update_runs_def affected_def)
  have over: "run_over run ?d"
    using assms by (auto simp: run_over_def row_simps end_run_def)
  have feed: "\<exists>y d'. append_feed_event ty repo actor payload ([], ?d) = (y, ([], d')) \<and> ci_jobs d' = ci_jobs d \<and> ci_runs d' = ci_runs ?d"
    for ty repo actor payload
    by (auto simp: append_feed_event_def insert_event_def Let_def split: prod.splits)
  from feed [of "''agent.run.finished''" "ru_repo run" "ru_trigger run"
      "marshal ((''number'', JInt (ru_number run)) # (case ru_issue run of None \<Rightarrow> [] | Some n \<Rightarrow> [(''issue_number'', JInt n)]) @
         [(''status'', JStr (run_status_name st))])"]
    feed [of "''ci.run.finished''" "ru_repo run" "ru_trigger run"
      "marshal [(''number'', JInt (ru_number run)), (''status'', JStr (run_status_name st)), (''ref'', JStr (ru_ref run)), (''sha'', JStr (ru_sha run))]"]
    f over
  show ?thesis
    by (cases "is_agent (ru_kind run)")
       (auto simp: finish_ci_def attempt_def emit_agent_event_def Let_def run_over_def)
qed

lemma final_status_terminal: "run_terminal (final_status stopped c failed)"
  by (simp add: final_status_def)

definition jobs_over :: "int \<Rightarrow> db \<Rightarrow> bool" where
  "jobs_over run d \<longleftrightarrow> (\<forall>j \<in> set (rows (ci_jobs d)). j_run j = run \<longrightarrow> job_terminal (j_status j))"

lemma execute_jobs_healthy:
  assumes "jobs_known (ru_id run) d ids (set order)" and "distinct order"
    and "\<And>i. ee_ctx env i \<noteq> CtxLive \<Longrightarrow> ee_ctx_left env \<noteq> CtxLive"
  shows "\<exists>r d'. execute_jobs marshal env run owner repo p order ids ([], d) = (r, ([], d')) \<and> jobs_over (ru_id run) d' \<and> run_over run d'"
proof -
  let ?passes = "exec_passes env owner repo p"
  let ?sc = "schedule (needs_of p) ids ?passes 0 (start_sched order ([], d))"
  have rows0: "job_state d (ids n) \<noteq> None" if "n \<in> set order" for n
    using that assms(1) job_state_row [of d] unfolding jobs_known_def by fastforce
  then have "mirrored d ids order (start_sched order ([], d))"
    by (auto simp: mirrored_def start_sched_def)
  from mirrored_schedule [OF this start_sched_inv [OF assms(2)] jobs_known_inj [OF assms(1)] exec_passes_terminal]
  have m: "mirrored d ids order ?sc" .
  have "ee_ctx_left env \<noteq> CtxLive \<or> sc_pending ?sc = []"
    using schedule_ends [of "needs_of p" ids ?passes 0 "start_sched order ([], d)"] assms(3) by (auto simp: exec_passes_def)
  from jobs_all_end [OF m schedule_inv [OF start_sched_inv [OF assms(2)]] this] obtain d1
    where d1: "sc_db (leftover ids (ee_ctx_left env) ?sc) = ([], d1)" "same_rows d d1"
      "\<And>n. n \<in> set order \<Longrightarrow> \<exists>st. job_state d1 (ids n) = Some st \<and> job_terminal st" by blast
  from jobs_known_same [OF assms(1) d1(2)] have K: "jobs_known (ru_id run) d1 ids (set order)" .
  have "job_terminal (j_status j)" if j: "j \<in> set (rows (ci_jobs d1))" "j_run j = ru_id run" for j
  proof -
    from K j have n: "j_name j \<in> set order" "j_id j = ids (j_name j)" "distinct (map j_id (rows (ci_jobs d1)))"
      unfolding jobs_known_def by blast+
    from job_state_row [OF n(3) j(1)] d1(3) [OF n(1)] n(2) show ?thesis by auto
  qed
  then have over: "jobs_over (ru_id run) d1" by (simp add: jobs_over_def)
  from finish_ci_healthy [OF final_status_terminal, of marshal run "ee_stopped env" "ee_ctx_final env"
      "sc_failed (leftover ids (ee_ctx_left env) ?sc)" d1] over d1(1)
  show ?thesis by (auto simp: execute_jobs_def Let_def jobs_over_def)
qed



lemma read_healthy:
  "\<exists>r. repo_ident i ([], d) = (r, ([], d))" "\<exists>r. repo_ci_enabled i ([], d) = (r, ([], d))"
  by (auto simp: repo_ident_def repo_ci_enabled_def split: option.splits)

lemma topo_order_distinct: "topo_order p = Some order \<Longrightarrow> distinct order"
  unfolding topo_order_def by (rule topo_loop_distinct [OF topo_inv_start])

text \<open>C25: However the execution of a CI run ends (no repository, no pipeline, a broken one, a failed checkout, a
  timeout, a shutdown, the operator's stop, or all its jobs) on a healthy engine: the run is finished
  and none of its jobs is left queued or running, when the run had no jobs before and the context, once
  ended, stays so.\<close>

theorem run_leaves_no_open_job:
  assumes "run_exists (ru_id run) d" and "ids_ok j_id (ci_jobs d)"
    and "\<And>j. j \<in> set (rows (ci_jobs d)) \<Longrightarrow> j_run j \<noteq> ru_id run"
    and "\<And>i. ee_ctx env i \<noteq> CtxLive \<Longrightarrow> ee_ctx_left env \<noteq> CtxLive"
  shows "\<exists>r d'. execute_ci_run marshal env run ([], d) = (r, ([], d')) \<and>
    (\<forall>j \<in> set (rows (ci_jobs d')). j_run j = ru_id run \<longrightarrow> j_status j \<notin> {JobQueued, JobRunning}) \<and>
    (\<forall>x \<in> set (rows (ci_runs d')). ru_id x = ru_id run \<longrightarrow> run_terminal (ru_status x))"
proof -
  let ?done = "\<lambda>m. \<exists>r d'. m ([], d) = (r, ([], d')) \<and> jobs_over (ru_id run) d' \<and> run_over run d'"
  have none: "jobs_over (ru_id run) d" using assms(3) by (auto simp: jobs_over_def)
  have quit: "?done (finish_ci marshal run st)" if "run_terminal st" for st
    using finish_ci_healthy [OF that, of marshal run d] none by (auto simp: jobs_over_def)
  have known: "jobs_known (ru_id run) d (\<lambda>_. 0) {}"
    using assms(2,3) ids_ok_distinct by (auto simp: jobs_known_def)
  have jobs: "?done (attempt (create_jobs (ru_id run) (needs_of p) order (\<lambda>_. 0)) (\<lambda>j. case j of
      Inl _ \<Rightarrow> finish_ci marshal run RunError | Inr ids \<Rightarrow> execute_jobs marshal env run owner repo p order ids))"
    if "topo_order p = Some order" for p order owner repo
  proof -
    note dist = topo_order_distinct [OF that]
    from create_jobs_healthy [OF assms(1,2) known dist, of "needs_of p"] obtain ids d1 where
      c: "create_jobs (ru_id run) (needs_of p) order (\<lambda>_. 0) ([], d) = (Inr ids, ([], d1))" "jobs_known (ru_id run) d1 ids (set order)"
      by auto
    from execute_jobs_healthy [OF c(2) dist assms(4)] show ?thesis by (simp add: attempt_def c(1))
  qed
  obtain i where i: "repo_ident (ru_repo run) ([], d) = (i, ([], d))" using read_healthy(1) by blast
  obtain e where e: "repo_ci_enabled (ru_repo run) ([], d) = (e, ([], d))" using read_healthy(2) by blast
  have "?done (execute_ci_run marshal env run)"
    unfolding execute_ci_run_def attempt_def [of "repo_ident (ru_repo run)"] attempt_def [of "repo_ci_enabled (ru_repo run)"]
    using quit jobs by (simp add: i e split: sum.split option.split prod.split)
  then show ?thesis by (simp add: jobs_over_def run_over_def job_terminal_def)
qed


text \<open>A run of the demo pipeline whose second job fails.\<close>

definition demo_exec_env :: exec_env where
  "demo_exec_env = \<lparr>ee_read = (\<lambda>_. Some (Some ''x'')), ee_decode = (\<lambda>_. Some demo_pipeline), ee_http = (\<lambda>_. None), ee_quote = (\<lambda>s. s),
     ee_workspace = True, ee_checkout = True, ee_ctx = (\<lambda>_. CtxLive), ee_order = (\<lambda>_. []),
     ee_jobs = (\<lambda>k n. \<lparr>je_log = True, je_plan = (k = 0), je_session = None, je_events = [], je_error = None, je_canceled = False\<rparr>),
     ee_ctx_left = CtxLive, ee_ctx_final = CtxLive, ee_stopped = False\<rparr>"

definition demo_ci_db :: db where
  "demo_ci_db = after (set_repo_ci_enabled 1 True)
     (demo_runs\<lparr>users := \<lparr>rows = [\<lparr>u_id = 1, u_name = ''alice'', u_created = 0, u_password = None\<rparr>], seqno = 1\<rparr>\<rparr>)"

definition demo_ci_run :: run_row where
  "demo_ci_run = hd (rows (ci_runs demo_ci_db))"

theorem run_leaves_no_open_job_witness:
  "\<exists>d'. snd (execute_ci_run (\<lambda>_. ''{}'') demo_exec_env demo_ci_run ([], demo_ci_db)) = ([], d') \<and> length (rows (ci_jobs d')) = 3 \<and>
    filter (\<lambda>j. j_run j = 1 \<and> j_status j = JobQueued) (rows (ci_jobs d')) = []"
proof -
  have known: "run_exists (ru_id demo_ci_run) demo_ci_db" by code_simp
  have none: "rows (ci_jobs demo_ci_db) = []" "0 \<le> seqno (ci_jobs demo_ci_db)" "ru_id demo_ci_run = 1" by code_simp+
  have live: "ee_ctx demo_exec_env i = CtxLive" for i by (simp add: demo_exec_env_def)
  have "length (rows (ci_jobs (after (execute_ci_run (\<lambda>_. ''{}'') demo_exec_env demo_ci_run) demo_ci_db))) = 3" by code_simp
  moreover from run_leaves_no_open_job [OF known, of demo_exec_env "\<lambda>_. ''{}''"] none live
  obtain r d' where "execute_ci_run (\<lambda>_. ''{}'') demo_exec_env demo_ci_run ([], demo_ci_db) = (r, ([], d'))"
    "\<forall>j \<in> set (rows (ci_jobs d')). j_run j = 1 \<longrightarrow> j_status j \<notin> {JobQueued, JobRunning}"
    by (auto simp: ids_ok_def)
  ultimately show ?thesis by (auto simp: after_def filter_empty_conv)
qed

end
