(* ===== verification/AgentRuns.thy ===== *)
theory AgentRuns imports Handoff AgentTurn Executor Turns EventLog begin

text \<open>
  The life of an agent run, \<open>cmd/codefortd/agent_runner.go\<close>, \<open>agent_handoff.go\<close> and \<open>agent_verify.go\<close>: turn 1, follow-up
  turns, the handoff, the idle reaper and the operator's stop. The state is the host's: the database, the
  refs, the live containers, the workspaces, whether the runner has a teardown for containers, which
  containers \<open>docker rm\<close> and which workspaces \<open>os.RemoveAll\<close> do remove now, the handles of the turns in
  flight (with their flag) and the events written to run logs. A turn's environment says what git, docker, the file system and the command
  in the container do, and what other goroutines do while the command runs and before the run is parked.
\<close>

record agent_host =
  ah_db :: "db session"
  ah_world :: world
  ah_containers :: "string list"
  ah_dirs :: "int list"
  ah_teardown :: bool
  ah_rm :: "string \<Rightarrow> bool"
  ah_rmdir :: "int \<Rightarrow> bool"
  ah_turns :: "int \<rightharpoonup> bool"
  ah_log :: "(string \<times> string \<times> int \<times> stream_event) list"

type_synonym agent_op = "agent_host \<Rightarrow> agent_host"

definition db_step :: "(db, 'a) dbm \<Rightarrow> (db_error + 'a \<Rightarrow> agent_op) \<Rightarrow> agent_op" where
  "db_step m k h = (case m (ah_db h) of (r, s) \<Rightarrow> k r (h\<lparr>ah_db := s\<rparr>))"

text \<open>A call whose error is logged and forgotten.\<close>

definition db_try :: "(db, 'a) dbm \<Rightarrow> agent_op" where
  "db_try m = db_step m (\<lambda>_ h. h)"

definition write_log :: "string \<times> string \<times> int \<Rightarrow> stream_event list \<Rightarrow> agent_op" where
  "write_log key evs h = (case key of (owner, repo, n) \<Rightarrow> h\<lparr>ah_log := ah_log h @ map (\<lambda>e. (owner, repo, n, e)) evs\<rparr>)"

section \<open>The environment of a turn\<close>

record agent_env =
  ae_marshal :: marshaler
  ae_workspace :: bool
  ae_checkout :: bool
  ae_spec :: "string option"
  ae_log :: bool
  ae_token :: "string option"
  ae_sha256 :: "string \<Rightarrow> string"
  ae_sha1 :: "string \<Rightarrow> string"
  ae_quote :: "string \<Rightarrow> string"
  ae_mcp :: bool
  ae_session :: "(string \<times> string) list \<Rightarrow> string + bool"
  ae_attach :: "string + bool"
  ae_db_error :: "db_error \<Rightarrow> string"
  ae_decoder :: claude_decoder
  ae_exec :: "string list \<Rightarrow> exec_result"
  ae_during :: agent_op
  ae_late :: agent_op
  ae_config :: agent_config
  ae_git :: handoff_git
  ae_error_text :: "handoff_error \<Rightarrow> string"
  ae_diff_stat :: "string \<Rightarrow> string \<Rightarrow> string"
  ae_verdict :: "string \<Rightarrow> verification_result option"
  ae_verdict_error :: "string \<Rightarrow> string"
  ae_verdict_json :: "verification_result \<Rightarrow> string"
  ae_frontmatter :: "string \<Rightarrow> frontmatter option"
  ae_write_spec :: bool
  ae_date :: string
  ae_percent :: "rat \<Rightarrow> string"
  ae_hundredths :: "rat \<Rightarrow> string"

definition agent_job_name :: string where
  "agent_job_name = ''agent''"

definition agent_comment_author :: string where
  "agent_comment_author = ''codefort-agent''"

definition agent_branch_ref :: "int \<Rightarrow> string" where
  "agent_branch_ref n = ''agent/issue-'' @ itoa n"

definition agent_container_name :: "int \<Rightarrow> string" where
  "agent_container_name job = ''codefort-agent-'' @ itoa job"

definition run_link :: "string \<Rightarrow> string \<Rightarrow> int \<Rightarrow> string" where
  "run_link owner repo n = ''/'' @ owner @ ''/'' @ repo @ ''/agents/'' @ itoa n"

section \<open>Ending a run\<close>

text \<open>The id of the run's agent job; \<open>None\<close> when the list fails or has none.\<close>

definition agent_job_id :: "int \<Rightarrow> (db, int option) dbm" where
  "agent_job_id run = attempt (list_jobs run) (\<lambda>r. ok (case r of
     Inl _ \<Rightarrow> None | Inr js \<Rightarrow> map_option j_id (find (\<lambda>j. j_name j = agent_job_name) js)))"

definition agent_job_id_or_zero :: "int \<Rightarrow> (db, int) dbm" where
  "agent_job_id_or_zero run = bind (agent_job_id run) (\<lambda>j. ok (case j of None \<Rightarrow> 0 | Some i \<Rightarrow> i))"

text \<open>Both removals are best effort: their errors are dropped, and what could not be removed stays.\<close>

definition remove_container :: "string \<Rightarrow> agent_op" where
  "remove_container name h = (if ah_teardown h \<and> ah_rm h name then h\<lparr>ah_containers := removeAll name (ah_containers h)\<rparr> else h)"

definition remove_workspace :: "int \<Rightarrow> agent_op" where
  "remove_workspace run h = (if ah_rmdir h run then h\<lparr>ah_dirs := removeAll run (ah_dirs h)\<rparr> else h)"

definition tear_down_agent :: "int \<Rightarrow> int \<Rightarrow> agent_op" where
  "tear_down_agent run job h =
     (let h = (if job \<noteq> 0 then remove_container (agent_container_name job) h else h);
          h = db_try (revoke_token (agent_token_name run)) h
      in remove_workspace run h)"

text \<open>The row \<open>failAgentRun\<close> makes up: the id and the kind, everything else zero.\<close>

definition bare_agent_run :: "int \<Rightarrow> run_row" where
  "bare_agent_run i = \<lparr>ru_id = i, ru_repo = 0, ru_number = 0, ru_sha = [], ru_ref = [], ru_event = [], ru_trigger = [],
     ru_status = RunQueued, ru_claimed = None, ru_created = 0, ru_started = None, ru_finished = None, ru_msg = [],
     ru_author = [], ru_kind = RunKindAgent, ru_issue = None, ru_model = [], ru_profile = [], ru_spec = []\<rparr>"

definition finish_agent :: "marshaler \<Rightarrow> run_row \<Rightarrow> run_status \<Rightarrow> agent_op" where
  "finish_agent marshal run st = db_try (finish_ci marshal run st)"

definition fail_agent_run :: "marshaler \<Rightarrow> int \<Rightarrow> int \<Rightarrow> agent_op" where
  "fail_agent_run marshal run job h =
     (let h = tear_down_agent run job h;
          h = (if job \<noteq> 0 then db_try (finish_job job JobError None) h else h)
      in finish_agent marshal (bare_agent_run run) RunError h)"

definition post_agent_comment :: "int \<Rightarrow> string \<Rightarrow> agent_op" where
  "post_agent_comment issue body = db_try (create_comment issue agent_comment_author body)"

definition warning_sign :: string where
  "warning_sign = [CHR 0xE2, CHR 0x9A, CHR 0xA0, CHR 0xEF, CHR 0xB8, CHR 0x8F]"

definition comment_agent_failure :: "run_row \<Rightarrow> string \<Rightarrow> agent_op" where
  "comment_agent_failure run reason = (case ru_issue run of
     None \<Rightarrow> (\<lambda>h. h)
   | Some n \<Rightarrow> db_step (repo_ident (ru_repo run)) (\<lambda>r. case r of Inl _ \<Rightarrow> (\<lambda>h. h) | Inr (owner, name) \<Rightarrow>
       db_step (get_issue (ru_repo run) n) (\<lambda>r. case r of Inl _ \<Rightarrow> (\<lambda>h. h) | Inr issue \<Rightarrow>
         post_agent_comment (is_id issue) (warning_sign @ '' Agent run [#'' @ itoa (ru_number run) @ ''](''
           @ run_link owner name (ru_number run) @ '') ended: '' @ reason
           @ ''. The transcript is on the run page; no branch was pushed.''))))"

text \<open>The operator's stop of a run.\<close>

definition stop_turn :: "int \<Rightarrow> agent_op" where
  "stop_turn run h = (if ah_turns h run = None then h else h\<lparr>ah_turns := (ah_turns h)(run \<mapsto> True)\<rparr>)"

definition drop_stopped :: "int \<Rightarrow> db_error + int option \<Rightarrow> agent_op" where
  "drop_stopped run j h =
     (let job = (case j of Inr (Some i) \<Rightarrow> i | _ \<Rightarrow> 0);
          h = (if job \<noteq> 0 then db_try (finish_job job JobInterrupted None) h else h)
      in tear_down_agent run job h)"

definition stop_agent_run :: "int \<Rightarrow> agent_host \<Rightarrow> bool \<times> agent_host" where
  "stop_agent_run run h = (case cancel_agent_run run (ah_db h) of
     (Inl _, s) \<Rightarrow> (False, h\<lparr>ah_db := s\<rparr>)
   | (Inr _, s) \<Rightarrow> (True, db_step (agent_job_id run) (drop_stopped run) (stop_turn run (h\<lparr>ah_db := s\<rparr>))))"

section \<open>Turns\<close>

definition register_turn :: "int \<Rightarrow> agent_op" where
  "register_turn run h = h\<lparr>ah_turns := (ah_turns h)(run \<mapsto> False)\<rparr>"

definition unregister_turn :: "int \<Rightarrow> agent_op" where
  "unregister_turn run h = h\<lparr>ah_turns := (ah_turns h)(run := None)\<rparr>"

text \<open>A registered turn: its command runs while others go on, its events are logged, and its flag is read.\<close>

definition run_registered_turn ::
  "agent_env \<Rightarrow> int \<Rightarrow> string \<times> string \<times> int \<Rightarrow> string \<Rightarrow> int \<Rightarrow> turn_input \<Rightarrow>
    (bool \<Rightarrow> string \<Rightarrow> string \<Rightarrow> string option \<Rightarrow> agent_op) \<Rightarrow> agent_op" where
  "run_registered_turn env run key model turn t k h =
     (case run_agent_turn (ae_decoder env) (ae_exec env) (ae_quote env) model turn t of (status, final, e, evs) \<Rightarrow>
        let h = write_log key evs (ae_during env (register_turn run h));
            canceled = (ah_turns h run = Some True)
        in k canceled status final e (unregister_turn run h))"

text \<open>Parking a run that did its turn; when that fails, the run is failed.\<close>

definition park_agent_run :: "agent_env \<Rightarrow> run_row \<Rightarrow> int \<Rightarrow> agent_op" where
  "park_agent_run env run job h = db_step (mark_run_awaiting_input (ru_id run)) (\<lambda>r. case r of
       Inl _ \<Rightarrow> fail_agent_run (ae_marshal env) (ru_id run) job
     | Inr _ \<Rightarrow> db_try (emit_agent_event (ae_marshal env) run ''agent.run.awaiting_input'' [])) (ae_late env h)"


section \<open>Verify runs\<close>

text \<open>\<open>strings.Cut\<close> at the first occurrence of a text.\<close>

fun cut_sub :: "string \<Rightarrow> string \<Rightarrow> (string \<times> string) option" where
  "cut_sub sub [] = (if sub = [] then Some ([], []) else None)"
| "cut_sub sub (c # s) = (if has_prefix (c # s) sub then Some ([], drop (length sub) (c # s))
     else map_option (\<lambda>(a, b). (c # a, b)) (cut_sub sub s))"

text \<open>The first \<open>json\<close> block, or what is between the first opening and the last closing brace.\<close>

definition json_block :: "string \<Rightarrow> string option" where
  "json_block s = (case cut_sub ''```json'' s of
     None \<Rightarrow> None
   | Some (_, rest) \<Rightarrow> map_option fst
       (cut_sub ''```'' (trim_left_of [CHR 0x09, CHR 0x0A, CHR 0x0C, CHR 0x0D, CHR '' ''] rest)))"

definition json_braces :: "string \<Rightarrow> string" where
  "json_braces s = (let a = dropWhile (\<lambda>c. c \<noteq> CHR ''{'') s; b = rev (dropWhile (\<lambda>c. c \<noteq> CHR ''}'') (rev a)) in b)"

definition parse_verify_result :: "(string \<Rightarrow> verification_result option) \<Rightarrow> string \<Rightarrow> verification_result option" where
  "parse_verify_result decode s =
     (let raw = (case json_block s of Some b \<Rightarrow> b | None \<Rightarrow> json_braces s) in
      if trim_space raw = [] then None else decode raw)"

fun replace_unsafe :: "bool \<Rightarrow> string \<Rightarrow> string" where
  "replace_unsafe dashed [] = []"
| "replace_unsafe dashed (c # s) =
     (let n = of_char c :: nat in
      if 97 \<le> n \<and> n \<le> 122 \<or> 65 \<le> n \<and> n \<le> 90 \<or> 48 \<le> n \<and> n \<le> 57 \<or> c \<in> set ''._-'' then c # replace_unsafe False s
      else (if dashed then [] else ''-'') @ replace_unsafe True s)"

definition branch_safe :: "string \<Rightarrow> string" where
  "branch_safe i = (let s = trim_right_of ''-.'' (trim_left_of ''-.'' (replace_unsafe False i)) in if s = [] then ''spec'' else s)"

definition emit_verify_summary :: "agent_env \<Rightarrow> string \<times> string \<times> int \<Rightarrow> string \<Rightarrow> agent_op" where
  "emit_verify_summary env key line =
     (if ae_log env then write_log key [(''agent.raw'', [(''line'', JStr line)])] else (\<lambda>h. h))"

definition short_sha :: "string \<Rightarrow> string" where
  "short_sha s = (if 8 < length s then take 8 s else s)"

text \<open>The branch and the commit of the stamp, both empty when there is none.\<close>

definition stamp_verify_branch :: "agent_env \<Rightarrow> run_row \<Rightarrow> string \<Rightarrow> rat \<Rightarrow> (string \<times> string \<Rightarrow> agent_op) \<Rightarrow> agent_op" where
  "stamp_verify_branch env run spec_id alignment k h =
     (if \<not> ae_write_spec env then k ([], []) h
      else (let msg = ''docs(specs): stamp '' @ ru_spec run @ '' '' @ [CHR 0xE2, CHR 0x80, CHR 0x94] @ '' alignment ''
                      @ ae_hundredths env alignment @ '', verified '' @ ae_date env @ [newline] in
        case materialize_agent_branch (ae_git env) (ru_sha run) (''refs/heads/spec-verify/'' @ branch_safe spec_id)
               agent_comment_author msg (ah_world h) of
          (Inl _, w) \<Rightarrow> k ([], []) (h\<lparr>ah_world := w\<rparr>)
        | (Inr (ref, oid, changed), w) \<Rightarrow>
            k (if changed then (trim_prefix ref ''refs/heads/'', oid) else ([], [])) (h\<lparr>ah_world := w\<rparr>)))"

definition spec_id_of :: "agent_env \<Rightarrow> string \<Rightarrow> string \<Rightarrow> string" where
  "spec_id_of env path spec_text = (case parse_spec (ae_frontmatter env) path spec_text of
     Some s \<Rightarrow> if fm_id (sp_frontmatter s) \<noteq> [] then fm_id (sp_frontmatter s) else trim_suffix (path_base path) (path_ext path)
   | None \<Rightarrow> trim_suffix (path_base path) (path_ext path))"

definition verify_summary :: "agent_env \<Rightarrow> run_row \<Rightarrow> rat \<Rightarrow> line_marker list \<Rightarrow> string \<Rightarrow> string \<Rightarrow> string" where
  "verify_summary env run alignment markers branch oid =
     [CHR 0xE2, CHR 0x9C, CHR 0x85] @ '' Verified '' @ ru_spec run @ '' against '' @ short_sha (ru_sha run) @ '': alignment ''
     @ ae_percent env alignment @ ''%, '' @ itoa (int (length (filter (\<lambda>m. lm_marker m = ''drifted'') markers))) @ '' drifted line(s).''
     @ (if branch = [] then [] else '' Stamp on branch `'' @ branch @ ''` ('' @ short_sha oid @ '').'')"

definition finalize_verify_run :: "agent_env \<Rightarrow> run_row \<Rightarrow> int \<Rightarrow> string \<times> string \<times> int \<Rightarrow> string \<Rightarrow> string \<Rightarrow> agent_op" where
  "finalize_verify_run env run job key spec_text final =
     (case parse_verify_result (ae_verdict env) final of
        None \<Rightarrow> (\<lambda>h. finish_agent (ae_marshal env) run RunFailed (tear_down_agent (ru_id run) job (db_try (finish_job job JobError None)
          (emit_verify_summary env key (warning_sign @ '' Verify run produced no parseable result: '' @ ae_verdict_error env final) h))))
      | Some res \<Rightarrow>
          (let alignment = (if vr_markers res = [] then vr_alignment res else compute_alignment (vr_markers res));
               res = res\<lparr>vr_alignment := alignment\<rparr>;
               spec_id = spec_id_of env (ru_spec run) spec_text in
           (\<lambda>h. stamp_verify_branch env run spec_id alignment (\<lambda>(branch, oid) h.
                finish_agent (ae_marshal env) run RunSuccess (tear_down_agent (ru_id run) job (db_try (finish_job job JobSuccess (Some 0))
                  (emit_verify_summary env key (verify_summary env run alignment (vr_markers res) branch oid) h))))
              (db_try (record_verification \<lparr>v_id = 0, v_repo = ru_repo run, v_spec = spec_id, v_path = ru_spec run, v_sha = ru_sha run,
                 v_alignment = alignment, v_result = ae_verdict_json env res, v_verifier = agent_comment_author, v_created = 0\<rparr>) h))))"


section \<open>Turn 1\<close>

definition agent_session_opened :: "agent_env \<Rightarrow> run_row \<Rightarrow> int \<Rightarrow> string \<times> string \<times> int \<Rightarrow> (string \<times> string) list \<Rightarrow> agent_op \<Rightarrow> agent_op" where
  "agent_session_opened env run job key vars k =
     (let give_up = (\<lambda>evs h. fail_agent_run (ae_marshal env) (ru_id run) job (write_log key evs h)) in
      case ae_session env vars of
        Inl e \<Rightarrow> give_up [(''agent.raw'', [(''line'', JStr e)]), (''run.failed'', [(''error'', JStr e)])]
      | Inr streams \<Rightarrow> (\<lambda>h. let h = h\<lparr>ah_containers := agent_container_name job # ah_containers h\<rparr> in
          if streams then k h else give_up [(''run.failed'', [(''error'', JStr ''session does not support streaming exec'')])] h))"

text \<open>The operator's settings; a setting that cannot be read counts as empty.\<close>

definition agent_settings :: "(db, settings_override) dbm" where
  "agent_settings = bind (setting_value ''agent.claude_oauth_token'') (\<lambda>c. bind (setting_value ''agent.llm_base_url'') (\<lambda>b.
     bind (setting_value ''agent.anthropic_auth_token'') (\<lambda>a. ok \<lparr>so_claude_token = c, so_base_url = b, so_auth_token = a\<rparr>)))"

definition mint_agent_token :: "agent_env \<Rightarrow> run_row \<Rightarrow> (db, string) dbm" where
  "mint_agent_token env run = (case ae_token env of
     None \<Rightarrow> err ErrRand
   | Some token \<Rightarrow> bind (create_token (ae_sha256 env) (agent_token_name (ru_id run)) token) (\<lambda>_. ok token))"

text \<open>The argument \<open>issue\<close> is the issue's number, title and body, \<open>spec_text\<close> the specification of a verify run.\<close>

definition first_turn_input :: "agent_env \<Rightarrow> run_row \<Rightarrow> string \<times> string \<Rightarrow> int \<times> string \<times> string \<Rightarrow> string \<Rightarrow> turn_input" where
  "first_turn_input env run who issue spec_text = (case who of (owner, name) \<Rightarrow>
     \<lparr>ti_session = agent_session_id (ae_sha1 env) (ru_id run), ti_owner = owner, ti_repo = name, ti_issue = issue, ti_message = [],
      ti_first = True, ti_mcp = (if ae_mcp env then ''/work/'' @ agent_mcp_config_name else []), ti_resume = False,
      ti_verify = (ru_kind run = RunKindSpecVerify), ti_spec_path = ru_spec run, ti_spec_content = spec_text\<rparr>)"

definition run_first_turn :: "agent_env \<Rightarrow> run_row \<Rightarrow> int \<Rightarrow> string \<times> string \<Rightarrow> string \<Rightarrow> int \<times> string \<times> string \<Rightarrow> string \<Rightarrow> agent_op" where
  "run_first_turn env run job who model issue spec_text = (case who of (owner, name) \<Rightarrow>
     (let verify = (ru_kind run = RunKindSpecVerify); key = (owner, name, ru_number run) in
      run_registered_turn env (ru_id run) key model 1 (first_turn_input env run who issue spec_text)
        (\<lambda>canceled status final e h.
          if canceled then h
          else if e \<noteq> None then
            fail_agent_run (ae_marshal env) (ru_id run) job
              ((if verify then (\<lambda>h. h) else comment_agent_failure run ''the first turn failed to run'') h)
          else if verify then finalize_verify_run env run job key spec_text final h
          else park_agent_run env run job h)))"

definition mint_and_open :: "agent_env \<Rightarrow> run_row \<Rightarrow> int \<Rightarrow> string \<times> string \<times> int \<Rightarrow> agent_op \<Rightarrow> agent_op" where
  "mint_and_open env run job key k = db_step (mint_agent_token env run) (\<lambda>t. case t of
     Inl e \<Rightarrow> (\<lambda>h. fail_agent_run (ae_marshal env) (ru_id run) job
         (write_log key [(''run.failed'', [(''error'', JStr (''mint agent token: '' @ ae_db_error env e))])] h))
   | Inr token \<Rightarrow> db_step agent_settings (\<lambda>o'. case o' of
       Inl _ \<Rightarrow> (\<lambda>h. h)
     | Inr o' \<Rightarrow> agent_session_opened env run job key (agent_container_env (ae_config env) o' token (agent_server_url (ae_config env))) k))"

text \<open>From the job row on; the checkout is there.\<close>

definition start_agent_session :: "agent_env \<Rightarrow> run_row \<Rightarrow> string \<times> string \<Rightarrow> string \<Rightarrow> int \<times> string \<times> string \<Rightarrow> string \<Rightarrow> agent_op" where
  "start_agent_session env run who model issue spec_text = (case who of (owner, name) \<Rightarrow>
     db_step (create_job (ru_id run) agent_job_name []) (\<lambda>r. case r of
       Inl _ \<Rightarrow> (\<lambda>h. finish_agent (ae_marshal env) run RunError (remove_workspace (ru_id run) h))
     | Inr j \<Rightarrow> (\<lambda>h.
         let job = j_id j; key = (owner, name, ru_number run); h = db_try (start_job job) h in
         if \<not> list_all safe_component [owner, name] \<or> \<not> ae_log env then fail_agent_run (ae_marshal env) (ru_id run) job h
         else mint_and_open env run job key (run_first_turn env run job who model issue spec_text)
                (write_log key [(''run.started'', [(''total_steps'', JInt 1)])] h))))"

text \<open>From the choice of the executor on; the issue (or the specification's path) is known.\<close>

definition check_out_agent :: "agent_env \<Rightarrow> run_row \<Rightarrow> string \<times> string \<Rightarrow> int \<times> string \<times> string \<Rightarrow> agent_op" where
  "check_out_agent env run who issue h =
     (let quit = finish_agent (ae_marshal env) run RunError;
          drop_dir = (\<lambda>h. quit (remove_workspace (ru_id run) h)) in
      case new_agent_executor (ru_model run) of
        None \<Rightarrow> quit h
      | Some model \<Rightarrow>
          if \<not> ae_workspace env then quit h
          else (let h = h\<lparr>ah_dirs := ru_id run # removeAll (ru_id run) (ah_dirs h)\<rparr> in
            if \<not> ae_checkout env then drop_dir h
            else if ru_kind run = RunKindSpecVerify then
              (case ae_spec env of None \<Rightarrow> drop_dir h | Some spec_text \<Rightarrow> start_agent_session env run who model issue spec_text h)
            else start_agent_session env run who model issue [] h))"

definition execute_agent_run :: "agent_env \<Rightarrow> run_row \<Rightarrow> agent_op" where
  "execute_agent_run env run =
     (let quit = finish_agent (ae_marshal env) run RunError in
      db_step (repo_ident (ru_repo run)) (\<lambda>r. case r of Inl _ \<Rightarrow> quit | Inr who \<Rightarrow> (\<lambda>h.
        let h = db_try (emit_agent_event (ae_marshal env) run ''agent.run.started'' []) h in
        if ru_kind run = RunKindSpecVerify then (if ru_spec run = [] then quit h else check_out_agent env run who (0, [], []) h)
        else (case ru_issue run of
            None \<Rightarrow> quit h
          | Some n \<Rightarrow> db_step (get_issue (ru_repo run) n) (\<lambda>i. case i of
                Inl _ \<Rightarrow> quit | Inr issue \<Rightarrow> check_out_agent env run who (is_number issue, is_title issue, is_body issue)) h))))"

section \<open>Follow-up turns\<close>

definition turn_error :: "turn_row \<Rightarrow> agent_op" where
  "turn_error turn = db_try (finish_turn (tn_id turn) TurnError)"

definition run_follow_up :: "agent_env \<Rightarrow> turn_row \<Rightarrow> run_row \<Rightarrow> int \<Rightarrow> string \<times> string \<times> int \<Rightarrow> string \<Rightarrow> agent_op" where
  "run_follow_up env turn run job key model =
     run_registered_turn env (ru_id run) key model (tn_seq turn + 1)
       \<lparr>ti_session = agent_session_id (ae_sha1 env) (ru_id run), ti_owner = [], ti_repo = [], ti_issue = (0, [], []),
        ti_message = tn_body turn, ti_first = False, ti_mcp = ''/work/'' @ agent_mcp_config_name, ti_resume = True, ti_verify = False,
        ti_spec_path = [], ti_spec_content = []\<rparr>
       (\<lambda>canceled status final e h.
         if canceled then turn_error turn h
         else if e \<noteq> None then
           fail_agent_run (ae_marshal env) (ru_id run) job
             (comment_agent_failure run (''turn '' @ itoa (tn_seq turn + 1) @ '' failed to run'') (turn_error turn h))
         else park_agent_run env run job (db_try (finish_turn (tn_id turn) TurnDone) h))"

definition dispatch_turn :: "agent_env \<Rightarrow> turn_row \<Rightarrow> run_row \<Rightarrow> agent_op" where
  "dispatch_turn env turn run =
     db_step (repo_ident (ru_repo run)) (\<lambda>r. case r of
       Inl _ \<Rightarrow> (\<lambda>h. finish_agent (ae_marshal env) run RunError (turn_error turn h))
     | Inr (owner, name) \<Rightarrow> db_step (agent_job_id (ru_id run)) (\<lambda>j. case (case j of Inr j \<Rightarrow> j | Inl _ \<Rightarrow> None) of
         None \<Rightarrow> (\<lambda>h. fail_agent_run (ae_marshal env) (ru_id run) 0 (turn_error turn h))
       | Some job \<Rightarrow>
           (let key = (owner, name, ru_number run);
                fail = (\<lambda>e h. fail_agent_run (ae_marshal env) (ru_id run) job
                         (turn_error turn (write_log key [(''run.failed'', [(''error'', JStr e)])] h))) in
            if \<not> list_all safe_component [owner, name] \<or> \<not> ae_log env then turn_error turn
            else (case ae_attach env of
                Inl e \<Rightarrow> fail e
              | Inr False \<Rightarrow> fail ''session does not support streaming exec''
              | Inr True \<Rightarrow> (case new_agent_executor (ru_model run) of
                  None \<Rightarrow> fail (''unknown agent execution model '' @ ae_quote env (ru_model run))
                | Some model \<Rightarrow> run_follow_up env turn run job key model)))))"


section \<open>The handoff\<close>

definition handoff_failed_text :: "string \<Rightarrow> string \<Rightarrow> int \<Rightarrow> string \<Rightarrow> string" where
  "handoff_failed_text owner name n e = warning_sign @ '' Agent run [#'' @ itoa n @ ''](''  @ run_link owner name n
     @ '') finished, but handoff failed: '' @ e @ ''. The transcript is on the run page.''"

definition handoff_text :: "string \<Rightarrow> string \<Rightarrow> int \<Rightarrow> (string \<times> string \<times> string) option \<Rightarrow> string" where
  "handoff_text owner name n work = (case work of
     Some (branch, oid, stat) \<Rightarrow>
       [CHR 0xE2, CHR 0x9C, CHR 0x85] @ '' Agent run [#'' @ itoa n @ ''](''  @ run_link owner name n @ '') finished. Work is on branch `''
       @ branch @ ''` (commit `'' @ short_sha oid @ ''`).'' @ [newline, newline] @ stat @ [newline, newline]
       @ ''Review the diff and merge if it looks good '' @ [CHR 0xE2, CHR 0x80, CHR 0x94] @ '' there'' @ [CHR 0x27]
       @ ''s no PR object; the deliverable is the branch + this comment.''
   | None \<Rightarrow>
       [CHR 0xE2, CHR 0x84, CHR 0xB9, CHR 0xEF, CHR 0xB8, CHR 0x8F] @ '' Agent run [#'' @ itoa n @ ''](''  @ run_link owner name n
       @ '') finished with no file changes '' @ [CHR 0xE2, CHR 0x80, CHR 0x94] @ '' nothing to hand off.'')"

definition handoff_message :: "run_row \<Rightarrow> issue \<Rightarrow> string" where
  "handoff_message run issue = ''agent: '' @ is_title issue @ [newline, newline] @ ''Worked issue #'' @ itoa (is_number issue)
     @ '' via cf agent run #'' @ itoa (ru_number run) @ ''.'' @ [newline]"

text \<open>The end of a handoff: the job, the container, the token and the workspace, the run.\<close>

definition close_handoff :: "agent_env \<Rightarrow> run_row \<Rightarrow> int \<Rightarrow> agent_op" where
  "close_handoff env run job h = finish_agent (ae_marshal env) run RunSuccess (tear_down_agent (ru_id run) job
     ((if job \<noteq> 0 then db_try (finish_job job JobSuccess (Some 0)) else (\<lambda>h. h)) h))"

definition hand_off :: "agent_env \<Rightarrow> run_row \<Rightarrow> string \<times> string \<Rightarrow> issue \<Rightarrow> int \<Rightarrow> agent_op" where
  "hand_off env run who issue job h = (case who of (owner, name) \<Rightarrow>
     (case materialize_agent_branch (ae_git env) (ru_sha run) (''refs/heads/'' @ agent_branch_ref (is_number issue))
             agent_comment_author (handoff_message run issue) (ah_world h) of
        (Inl e, w) \<Rightarrow>
          (let h = post_agent_comment (is_id issue) (handoff_failed_text owner name (ru_number run) (ae_error_text env e)) (h\<lparr>ah_world := w\<rparr>);
               h = db_try (finish_job job JobError None) (tear_down_agent (ru_id run) job h)
           in finish_agent (ae_marshal env) run RunError h)
      | (Inr (ref, oid, changed), w) \<Rightarrow>
          close_handoff env run job (post_agent_comment (is_id issue) (handoff_text owner name (ru_number run)
            (if changed then Some (trim_prefix ref ''refs/heads/'', oid, ae_diff_stat env (ru_sha run) oid) else None)) (h\<lparr>ah_world := w\<rparr>))))"

definition finish_agent_run :: "agent_env \<Rightarrow> run_row \<Rightarrow> agent_op" where
  "finish_agent_run env run =
     (let give_up = db_step (agent_job_id_or_zero (ru_id run)) (\<lambda>j. fail_agent_run (ae_marshal env) (ru_id run) (case j of Inr i \<Rightarrow> i | Inl _ \<Rightarrow> 0)) in
      db_step (repo_ident (ru_repo run)) (\<lambda>r. case r of Inl _ \<Rightarrow> give_up | Inr who \<Rightarrow>
      (case ru_issue run of None \<Rightarrow> give_up | Some n \<Rightarrow>
      db_step (get_issue (ru_repo run) n) (\<lambda>i. case i of Inl _ \<Rightarrow> give_up | Inr issue \<Rightarrow>
      db_step (agent_job_id_or_zero (ru_id run)) (\<lambda>j. hand_off env run who issue (case j of Inr i \<Rightarrow> i | Inl _ \<Rightarrow> 0))))))"

section \<open>The reaper\<close>

definition reap_agent :: "agent_env \<Rightarrow> run_row \<Rightarrow> agent_op" where
  "reap_agent env run = db_step (repo_ident (ru_repo run)) (\<lambda>r h.
     let h = (case r of
           Inl _ \<Rightarrow> h
         | Inr (owner, name) \<Rightarrow>
             (if list_all safe_component [owner, name] \<and> ae_log env
              then write_log (owner, name, ru_number run) [(''run.completed'', [(''reason'', JStr ''idle timeout'')])] h else h))
     in db_step (agent_job_id_or_zero (ru_id run)) (\<lambda>j h.
          let job = (case j of Inr i \<Rightarrow> i | Inl _ \<Rightarrow> 0);
              h = db_try (finish_job job JobSuccess (Some 0)) (tear_down_agent (ru_id run) job h)
          in comment_agent_failure run ''idle/lifetime timeout'' (finish_agent (ae_marshal env) run RunCanceled h)) h)"

text \<open>The context is looked at before every run; \<open>live\<close> is how many of them it allows.\<close>

definition reap_expired_agents :: "agent_env \<Rightarrow> int \<Rightarrow> nat \<Rightarrow> agent_op" where
  "reap_expired_agents env timeout live = db_step (list_expired_awaiting_runs timeout) (\<lambda>rs. case rs of
     Inl _ \<Rightarrow> (\<lambda>h. h) | Inr rs \<Rightarrow> fold (reap_agent env) (take live rs))"


section \<open>Ends\<close>

text \<open>On a healthy engine: a call succeeds or fails, and what it does to the database.\<close>

definition reaches :: "(db, 'a) dbm \<Rightarrow> (db \<Rightarrow> db \<Rightarrow> bool) \<Rightarrow> bool" where
  "reaches m R \<longleftrightarrow> (\<forall>d. \<exists>r d'. m ([], d) = (r, ([], d')) \<and> R d d')"

text \<open>What most calls leave alone: the tokens, the runs, and the ids of the jobs.\<close>

definition same_core :: "db \<Rightarrow> db \<Rightarrow> bool" where
  "same_core d d' \<longleftrightarrow> tokens d' = tokens d \<and> ci_runs d' = ci_runs d \<and> (ids_ok j_id (ci_jobs d) \<longrightarrow> ids_ok j_id (ci_jobs d'))"

lemma same_core_refl [simp]: "same_core d d"
  by (simp add: same_core_def)

lemma db_try_reaches: "reaches m R \<Longrightarrow> ah_db h = ([], d) \<Longrightarrow> \<exists>d'. db_try m h = h\<lparr>ah_db := ([], d')\<rparr> \<and> R d d'"
  unfolding reaches_def db_try_def db_step_def by (force split: prod.split)

lemma reaches_finish_job: "reaches (finish_job i st code) same_core"
  by (auto simp: reaches_def finish_job_def update_jobs_def affected_def same_core_def ids_ok_update)

lemma reaches_start_job: "reaches (start_job i) same_core"
  by (auto simp: reaches_def start_job_def update_jobs_def affected_def same_core_def ids_ok_update)

lemma reaches_comment: "reaches (create_comment i author body) same_core"
  by (auto simp: reaches_def create_comment_def insert_comment_def same_core_def Let_def split: prod.splits)

lemma reaches_verification: "reaches (record_verification v) same_core"
  by (auto simp: reaches_def record_verification_def insert_verification_def same_core_def Let_def split: prod.splits)

lemma reaches_event: "reaches (append_feed_event ty repo actor payload) same_core"
  by (auto simp: reaches_def append_feed_event_def insert_event_def same_core_def Let_def split: prod.splits)

lemma reaches_attempt_ok: "reaches m R \<Longrightarrow> reaches (attempt m (\<lambda>_. ok x)) R"
  by (simp add: reaches_def attempt_def split: prod.split) (metis prod.inject)

lemma reaches_emit: "reaches (emit_agent_event marshal run ty extra) same_core"
  unfolding emit_agent_event_def Let_def by (intro reaches_attempt_ok reaches_event)

definition live_token :: "int \<Rightarrow> db \<Rightarrow> bool" where
  "live_token run d \<longleftrightarrow> (\<exists>t \<in> set (rows (tokens d)). t_name t = agent_token_name run \<and> t_revoked t = None)"

lemma reaches_revoke:
  "reaches (revoke_token (agent_token_name run)) (\<lambda>d d'. \<not> live_token run d' \<and> ci_runs d' = ci_runs d \<and> ci_jobs d' = ci_jobs d)"
  by (auto simp: reaches_def revoke_token_def update_tokens_def affected_def live_token_def set_revoked_def row_simps)

text \<open>The runs of an id, all in a given kind of status.\<close>

definition runs_in :: "int \<Rightarrow> (run_status \<Rightarrow> bool) \<Rightarrow> db \<Rightarrow> bool" where
  "runs_in run S d \<longleftrightarrow> (\<forall>r \<in> set (rows (ci_runs d)). ru_id r = run \<longrightarrow> S (ru_status r))"

lemma reaches_finish:
  assumes "run_terminal st"
  shows "reaches (finish_ci marshal run st) (\<lambda>d d'. runs_in (ru_id run) run_terminal d' \<and> tokens d' = tokens d)"
  unfolding reaches_def
proof
  fix d :: db
  let ?d = "d\<lparr>ci_runs := update_where (\<lambda>r. ru_id r = ru_id run) (end_run st (now d)) (ci_runs d)\<rparr>"
  obtain x where f: "finish_run (ru_id run) st ([], d) = (x, ([], ?d))"
    using assms by (cases "count_where (\<lambda>r. ru_id r = ru_id run) (ci_runs d) = 0")
      (auto simp: finish_run_def update_runs_def affected_def)
  have over: "runs_in (ru_id run) run_terminal ?d" using assms by (auto simp: runs_in_def row_simps end_run_def)
  have "reaches (attempt (append_feed_event ty repo actor payload) (\<lambda>_. ok ())) same_core" for ty repo actor payload
    by (intro reaches_attempt_ok reaches_event)
  with reaches_emit obtain y d' where "(if is_agent (ru_kind run) then emit_agent_event marshal run ''agent.run.finished'' [(''status'', JStr (run_status_name st))]
     else attempt (append_feed_event ''ci.run.finished'' (ru_repo run) (ru_trigger run)
         (marshal [(''number'', JInt (ru_number run)), (''status'', JStr (run_status_name st)), (''ref'', JStr (ru_ref run)), (''sha'', JStr (ru_sha run))]))
       (\<lambda>_. ok ())) ([], ?d) = (y, ([], d'))" "same_core ?d d'"
    unfolding reaches_def by (cases "is_agent (ru_kind run)") (simp_all; metis)+
  with f over show "\<exists>r d'. finish_ci marshal run st ([], d) = (r, ([], d')) \<and> runs_in (ru_id run) run_terminal d' \<and> tokens d' = tokens d"
    by (auto simp: finish_ci_def attempt_def same_core_def runs_in_def)
qed

text \<open>What is gone, or could not be removed. \<open>C\<close> are the containers of others.\<close>

definition cleaned :: "int \<Rightarrow> string set \<Rightarrow> agent_host \<Rightarrow> bool" where
  "cleaned run C h \<longleftrightarrow> (run \<notin> set (ah_dirs h) \<or> \<not> ah_rmdir h run) \<and>
     (\<forall>c \<in> set (ah_containers h). c \<in> C \<or> \<not> (ah_teardown h \<and> ah_rm h c))"

text \<open>A run that has ended: on the healthy host its rows are terminal, its token is revoked, and its workspace and
  its container are gone unless their removal failed.\<close>

definition run_ended :: "int \<Rightarrow> string set \<Rightarrow> agent_host \<Rightarrow> bool" where
  "run_ended run C h \<longleftrightarrow> (\<exists>d. ah_db h = ([], d) \<and> runs_in run run_terminal d \<and> \<not> live_token run d) \<and> cleaned run C h"

lemma cleaned_db [simp]: "cleaned run C (h\<lparr>ah_db := s\<rparr>) = cleaned run C h"
  by (simp add: cleaned_def)

lemma live_token_cong: "tokens d' = tokens d \<Longrightarrow> live_token run d' = live_token run d"
  by (simp add: live_token_def)

lemma finish_ends:
  assumes "ah_db h = ([], d)" and "\<not> live_token (ru_id run) d" and "cleaned (ru_id run) C h" and "run_terminal st"
  shows "run_ended (ru_id run) C (finish_agent marshal run st h)"
proof -
  from db_try_reaches [OF reaches_finish [OF assms(4)] assms(1), of marshal run] obtain d' where
    d': "db_try (finish_ci marshal run st) h = h\<lparr>ah_db := ([], d')\<rparr>" "runs_in (ru_id run) run_terminal d'" "tokens d' = tokens d" by blast
  have "\<not> live_token (ru_id run) d'" using live_token_cong [OF d'(3)] assms(2) by simp
  with d' assms(3) show ?thesis by (simp add: finish_agent_def run_ended_def)
qed

lemma tear_down_spec:
  assumes "ah_db h = ([], d)" and "set (ah_containers h) \<subseteq> insert (agent_container_name job) C" and "job \<noteq> 0"
  shows "\<exists>d'. ah_db (tear_down_agent run job h) = ([], d') \<and> \<not> live_token run d' \<and> ci_runs d' = ci_runs d \<and> ci_jobs d' = ci_jobs d \<and>
    cleaned run C (tear_down_agent run job h)"
proof -
  let ?h = "remove_container (agent_container_name job) h"
  have "ah_db ?h = ([], d)" using assms(1) by (simp add: remove_container_def)
  from db_try_reaches [OF reaches_revoke [of run] this] obtain d' where
    "db_try (revoke_token (agent_token_name run)) ?h = ?h\<lparr>ah_db := ([], d')\<rparr>" "\<not> live_token run d'" "ci_runs d' = ci_runs d" "ci_jobs d' = ci_jobs d"
    by blast
  with assms(2,3) show ?thesis
    by (auto simp: tear_down_agent_def Let_def remove_container_def remove_workspace_def cleaned_def)
qed

text \<open>Tear down and finish, with a call on the jobs in between or before.\<close>

lemma torn_down_ends:
  assumes "ah_db h = ([], d)" and "set (ah_containers h) \<subseteq> insert (agent_container_name job) C" and "job \<noteq> 0"
    and "run_terminal st" and "reaches m same_core"
  shows "run_ended (ru_id run) C (finish_agent marshal run st (db_try m (tear_down_agent (ru_id run) job h)))"
    and "run_ended (ru_id run) C (finish_agent marshal run st (tear_down_agent (ru_id run) job (db_try m h)))"
proof -
  from tear_down_spec [OF assms(1-3), of "ru_id run"] obtain d' where d': "ah_db (tear_down_agent (ru_id run) job h) = ([], d')"
    "\<not> live_token (ru_id run) d'" "cleaned (ru_id run) C (tear_down_agent (ru_id run) job h)" by blast
  from db_try_reaches [OF assms(5) d'(1)] obtain d2 where d2: "db_try m (tear_down_agent (ru_id run) job h) = (tear_down_agent (ru_id run) job h)\<lparr>ah_db := ([], d2)\<rparr>"
    "same_core d' d2" by blast
  with d' live_token_cong [of d2 d' "ru_id run"] show "run_ended (ru_id run) C (finish_agent marshal run st (db_try m (tear_down_agent (ru_id run) job h)))"
    by (intro finish_ends [where d = d2] assms(4)) (simp_all add: same_core_def)
  from db_try_reaches [OF assms(5,1)] obtain d3 where d3: "db_try m h = h\<lparr>ah_db := ([], d3)\<rparr>" by blast
  have "ah_db (db_try m h) = ([], d3)" "set (ah_containers (db_try m h)) \<subseteq> insert (agent_container_name job) C" using d3 assms(2) by simp_all
  from tear_down_spec [OF this assms(3), of "ru_id run"] obtain d4 where "ah_db (tear_down_agent (ru_id run) job (db_try m h)) = ([], d4)"
    "\<not> live_token (ru_id run) d4" "cleaned (ru_id run) C (tear_down_agent (ru_id run) job (db_try m h))" by blast
  then show "run_ended (ru_id run) C (finish_agent marshal run st (tear_down_agent (ru_id run) job (db_try m h)))"
    by (rule finish_ends [OF _ _ _ assms(4)])
qed

lemma fail_ends:
  assumes "ah_db h = ([], d)" and "set (ah_containers h) \<subseteq> insert (agent_container_name job) C" and "job \<noteq> 0"
  shows "run_ended run C (fail_agent_run marshal run job h)"
  using torn_down_ends(1) [OF assms _ reaches_finish_job, of RunError "bare_agent_run run" marshal job JobError None] assms(3)
  by (simp add: fail_agent_run_def Let_def bare_agent_run_def)

subsection \<open>Turn 1 settles the run\<close>

definition healthy :: "(db, 'a) dbm \<Rightarrow> bool" where
  "healthy m \<longleftrightarrow> reaches m (\<lambda>_ _. True)"

lemma healthyI: "reaches m R \<Longrightarrow> healthy m"
  unfolding healthy_def reaches_def by blast

text \<open>The run's job is at work: the database answers, and beside the containers \<open>C\<close> of others only the job's is there.\<close>

definition busy :: "int \<Rightarrow> string set \<Rightarrow> agent_host \<Rightarrow> bool" where
  "busy job C h \<longleftrightarrow> job \<noteq> 0 \<and> fst (ah_db h) = [] \<and> set (ah_containers h) \<subseteq> insert (agent_container_name job) C"

definition parked :: "int \<Rightarrow> agent_host \<Rightarrow> bool" where
  "parked run h \<longleftrightarrow> fst (ah_db h) = [] \<and> (\<exists>r \<in> set (rows (ci_runs (snd (ah_db h)))). ru_id r = run \<and> ru_status r = RunAwaitingInput)"

definition settled :: "int \<Rightarrow> string set \<Rightarrow> agent_host \<Rightarrow> bool" where
  "settled run C h \<longleftrightarrow> parked run h \<or> run_ended run C h"

text \<open>What others may do while a turn is in flight: anything but stopping this turn, breaking the database or starting
  containers outside \<open>C\<close>.\<close>

definition bystander :: "int \<Rightarrow> string set \<Rightarrow> agent_op \<Rightarrow> bool" where
  "bystander run C f \<longleftrightarrow> (\<forall>h. ah_turns (f h) run = ah_turns h run \<and> (fst (ah_db h) = [] \<longrightarrow> fst (ah_db (f h)) = []) \<and>
     set (ah_containers (f h)) \<subseteq> set (ah_containers h) \<union> C)"

lemma db_try_other [simp]: "ah_containers (db_try m h) = ah_containers h" "ah_dirs (db_try m h) = ah_dirs h"
  "ah_turns (db_try m h) = ah_turns h" "ah_world (db_try m h) = ah_world h" "ah_log (db_try m h) = ah_log h"
  by (simp_all add: db_try_def db_step_def split: prod.split)

lemma write_log_other [simp]: "ah_containers (write_log key evs h) = ah_containers h" "ah_dirs (write_log key evs h) = ah_dirs h"
  "ah_turns (write_log key evs h) = ah_turns h" "ah_world (write_log key evs h) = ah_world h" "ah_db (write_log key evs h) = ah_db h"
  by (simp_all add: write_log_def split: prod.split)

lemma busy_write_log [simp]: "busy job C (write_log key evs h) = busy job C h"
  by (simp add: busy_def)

lemma busy_db_try: "busy job C h \<Longrightarrow> healthy m \<Longrightarrow> busy job C (db_try m h)"
  using db_try_reaches [of m "\<lambda>_ _. True" h "snd (ah_db h)"] by (fastforce simp: busy_def healthy_def prod_eq_iff)

lemma busy_fails: "busy job C h \<Longrightarrow> run_ended run C (fail_agent_run marshal run job h)"
  using fail_ends [of h "snd (ah_db h)" job C] by (simp add: busy_def prod_eq_iff)

lemma busy_finishes:
  "busy job C h \<Longrightarrow> run_terminal st \<Longrightarrow> reaches m same_core \<Longrightarrow>
    run_ended (ru_id run) C (finish_agent marshal run st (tear_down_agent (ru_id run) job (db_try m h)))"
  using torn_down_ends(2) [of h "snd (ah_db h)" job C] by (simp add: busy_def prod_eq_iff)

lemma busy_summary: "busy job C h \<Longrightarrow> busy job C (emit_verify_summary env key line h)"
  by (simp add: emit_verify_summary_def)

lemma stamped:
  assumes "busy job C h" and "\<And>p h. busy job C h \<Longrightarrow> P (k p h)"
  shows "P (stamp_verify_branch env run spec_id alignment k h)"
proof -
  have "busy job C (h\<lparr>ah_world := w\<rparr>)" for w using assms(1) by (simp add: busy_def)
  with assms show ?thesis by (simp add: stamp_verify_branch_def Let_def split: prod.split sum.split)
qed

lemma verify_run_ends:
  assumes "busy job C h"
  shows "run_ended (ru_id run) C (finalize_verify_run env run job key spec_text final h)"
proof (cases "parse_verify_result (ae_verdict env) final")
  case None
  then show ?thesis unfolding finalize_verify_run_def by (simp add: busy_finishes busy_summary reaches_finish_job assms)
next
  case (Some res)
  have "busy job C (db_try (record_verification v) h)" for v by (rule busy_db_try [OF assms healthyI [OF reaches_verification]])
  then have "run_ended (ru_id run) C (stamp_verify_branch env run i a (\<lambda>(branch, oid) h. finish_agent (ae_marshal env) run RunSuccess
      (tear_down_agent (ru_id run) job (db_try (finish_job job JobSuccess (Some 0)) (emit_verify_summary env key (f branch oid) h))))
      (db_try (record_verification v) h))" for i a f v
    by (rule stamped) (simp add: busy_finishes busy_summary reaches_finish_job split: prod.split)
  with Some show ?thesis unfolding finalize_verify_run_def by (simp add: Let_def)
qed

lemma park_settles:
  assumes "busy job C h" and "bystander (ru_id run) C (ae_late env)"
  shows "settled (ru_id run) C (park_agent_run env run job h)"
proof -
  let ?h = "ae_late env h"
  have b: "busy job C ?h" using assms by (fastforce simp: busy_def bystander_def)
  then obtain d where d: "ah_db ?h = ([], d)" by (metis busy_def prod.collapse)
  let ?P = "\<lambda>r. ru_id r = ru_id run \<and> ru_status r = RunRunning"
  let ?d = "d\<lparr>ci_runs := update_where ?P (\<lambda>r. r\<lparr>ru_status := RunAwaitingInput\<rparr>) (ci_runs d)\<rparr>"
  have b': "busy job C (?h\<lparr>ah_db := ([], ?d)\<rparr>)" using b by (simp add: busy_def)
  show ?thesis
  proof (cases "exists_where ?P (ci_runs d)")
    case False
    then have "count_where ?P (ci_runs d) = 0" by (simp add: count_where_0)
    then have "mark_run_awaiting_input (ru_id run) ([], d) = (Inl ErrNotFound, ([], ?d))"
      by (simp add: mark_run_awaiting_input_def update_runs_def affected_def)
    then show ?thesis using busy_fails [OF b'] d by (simp add: park_agent_run_def db_step_def settled_def)
  next
    case True
    then have n: "count_where ?P (ci_runs d) \<noteq> 0" by (simp add: count_where_0)
    have m: "mark_run_awaiting_input (ru_id run) ([], d) = (Inr (), ([], ?d))"
      using n by (simp add: mark_run_awaiting_input_def update_runs_def affected_def)
    have a: "\<exists>r \<in> set (rows (ci_runs ?d)). ru_id r = ru_id run \<and> ru_status r = RunAwaitingInput"
    proof -
      from True obtain r where r: "r \<in> set (rows (ci_runs d))" "?P r" unfolding exists_where_iff by blast
      then have "r\<lparr>ru_status := RunAwaitingInput\<rparr> \<in> set (rows (ci_runs ?d))" by (force simp: row_simps)
      with r show ?thesis by (intro bexI [of _ "r\<lparr>ru_status := RunAwaitingInput\<rparr>"]) simp_all
    qed
    have e: "\<exists>d'. db_try (emit_agent_event (ae_marshal env) run ''agent.run.awaiting_input'' []) (?h\<lparr>ah_db := ([], ?d)\<rparr>) = ?h\<lparr>ah_db := ([], ?d)\<rparr>\<lparr>ah_db := ([], d')\<rparr> \<and> same_core ?d d'"
      by (rule db_try_reaches [OF reaches_emit]) simp
    from e obtain d' where d': "db_try (emit_agent_event (ae_marshal env) run ''agent.run.awaiting_input'' []) (?h\<lparr>ah_db := ([], ?d)\<rparr>) = ?h\<lparr>ah_db := ([], ?d)\<rparr>\<lparr>ah_db := ([], d')\<rparr>"
      "same_core ?d d'" by blast
    have "parked (ru_id run) (park_agent_run env run job h)"
      using m d d' a by (simp add: park_agent_run_def db_step_def parked_def same_core_def)
    then show ?thesis by (simp add: settled_def)
  qed
qed

lemma ended_settles: "run_ended run C h \<Longrightarrow> settled run C h"
  by (simp add: settled_def)

definition undisturbed :: "int \<Rightarrow> string set \<Rightarrow> agent_env \<Rightarrow> bool" where
  "undisturbed run C env \<longleftrightarrow> bystander run C (ae_during env) \<and> bystander run C (ae_late env)"

lemma bystander_busy: "bystander run C f \<Longrightarrow> busy job C h \<Longrightarrow> busy job C (f h)"
  by (fastforce simp: busy_def bystander_def)

lemma busy_turns [simp]: "busy job C (register_turn run h) = busy job C h" "busy job C (unregister_turn run h) = busy job C h"
  by (simp_all add: busy_def register_turn_def unregister_turn_def)

lemma registered_turn:
  assumes "busy job C h" and "bystander run C (ae_during env)" and "\<And>status final e h. busy job C h \<Longrightarrow> P (k False status final e h)"
  shows "P (run_registered_turn env run key model turn t k h)"
proof -
  have "ah_turns (ae_during env (register_turn run h)) run = Some False"
    using assms(2) by (simp add: bystander_def register_turn_def)
  moreover have "busy job C (ae_during env (register_turn run h))"
    by (rule bystander_busy [OF assms(2)]) (simp add: assms(1))
  ultimately show ?thesis unfolding run_registered_turn_def by (simp add: Let_def assms(3) split: prod.split)
qed

lemma busy_comment:
  assumes "busy job C h" shows "busy job C (post_agent_comment i body h)"
  unfolding post_agent_comment_def by (rule busy_db_try [OF assms healthyI [OF reaches_comment]])

lemma repo_ident_reads: "repo_ident i ([], d) = (fst (repo_ident i ([], d)), ([], d))"
  by (simp add: repo_ident_def split: option.split)

lemma get_issue_reads: "get_issue i n ([], d) = (fst (get_issue i n ([], d)), ([], d))"
  by (simp add: get_issue_def split: option.split)

lemma db_step_reads:
  assumes "fst (ah_db h) = []" and "\<And>d. m ([], d) = (fst (m ([], d)), ([], d))"
  shows "db_step m k h = k (fst (m (ah_db h))) h"
proof -
  obtain d where d: "ah_db h = ([], d)" using assms(1) by (cases "ah_db h") simp
  obtain x where m: "m ([], d) = (x, ([], d))" using assms(2) by blast
  have "h\<lparr>ah_db := ([], d)\<rparr> = h" using d by (cases h) simp
  then show ?thesis by (simp only: db_step_def d m prod.case fst_conv)
qed

lemma busy_failure_comment:
  assumes "busy job C h" shows "busy job C (comment_agent_failure run reason h)"
proof -
  have a: "fst (ah_db h) = []" using assms by (simp add: busy_def)
  show ?thesis unfolding comment_agent_failure_def
    by (simp add: db_step_reads [OF a repo_ident_reads] db_step_reads [OF a get_issue_reads] assms busy_comment split: option.split sum.split prod.split)
qed

lemma first_turn_settles:
  assumes "busy job C h" and "undisturbed (ru_id run) C env"
  shows "settled (ru_id run) C (run_first_turn env run job who model issue spec_text h)"
proof (cases who)
  case (Pair owner name)
  show ?thesis unfolding run_first_turn_def Pair Let_def prod.case
    by (rule registered_turn [OF assms(1)])
      (use assms(2) in \<open>simp_all add: undisturbed_def ended_settles busy_fails busy_failure_comment verify_run_ends park_settles\<close>)
qed

lemma session_settles:
  assumes "fst (ah_db h) = []" and "set (ah_containers h) \<subseteq> C" and "job \<noteq> 0"
    and "\<And>h. busy job C h \<Longrightarrow> settled (ru_id run) C (k h)"
  shows "settled (ru_id run) C (agent_session_opened env run job key vars k h)"
proof -
  have "busy job C h" "busy job C (h\<lparr>ah_containers := agent_container_name job # ah_containers h\<rparr>)"
    using assms(1-3) by (auto simp: busy_def)
  then show ?thesis unfolding agent_session_opened_def
    by (simp add: Let_def ended_settles busy_fails assms(4) split: sum.split)
qed

lemma setting_reads: "\<exists>v. setting_value key ([], d) = (Inr v, ([], d))"
  by (simp add: setting_value_def get_setting_def attempt_def split: option.split)

lemma agent_settings_read: "\<exists>o'. agent_settings ([], d) = (Inr o', ([], d))"
proof -
  obtain c b a where "setting_value ''agent.claude_oauth_token'' ([], d) = (Inr c, ([], d))"
    "setting_value ''agent.llm_base_url'' ([], d) = (Inr b, ([], d))"
    "setting_value ''agent.anthropic_auth_token'' ([], d) = (Inr a, ([], d))"
    using setting_reads by meson
  then show ?thesis by (simp add: agent_settings_def bind_def)
qed

lemma reaches_mint: "healthy (mint_agent_token env run)"
  unfolding healthy_def reaches_def mint_agent_token_def create_token_def get_token_by_id_def
  by (auto simp: bind_def attempt_def insert_token_def Let_def split: option.split prod.split sum.split)

lemma create_job_id:
  assumes "ids_ok j_id (ci_jobs d)"
  shows "\<exists>r d'. create_job run nm needs ([], d) = (r, ([], d')) \<and> tokens d' = tokens d \<and> (\<forall>j. r = Inr j \<longrightarrow> j_id j \<noteq> 0)"
proof (cases "select_one (job_at run nm) (ci_jobs d)")
  case (Some j)
  then have "0 < j_id j" using assms select_one_SomeD by (fastforce simp: ids_ok_def)
  with Some show ?thesis by (simp add: create_job_def upsert_job_def reset_job_def)
next
  case None
  have "0 < seqno (ci_jobs d) + 1" using assms by (simp add: ids_ok_def)
  with None show ?thesis by (simp add: create_job_def upsert_job_def insert_row_def Let_def)
qed

lemma mint_settles:
  assumes "fst (ah_db h) = []" and "set (ah_containers h) \<subseteq> C" and "job \<noteq> 0"
    and "\<And>h. busy job C h \<Longrightarrow> settled (ru_id run) C (k h)"
  shows "settled (ru_id run) C (mint_and_open env run job key k h)"
proof -
  obtain d where d: "ah_db h = ([], d)" using assms(1) by (cases "ah_db h") simp
  from reaches_mint [of env run] obtain t d' where m: "mint_agent_token env run ([], d) = (t, ([], d'))"
    unfolding healthy_def reaches_def by blast
  from agent_settings_read obtain o' where o': "agent_settings ([], d') = (Inr o', ([], d'))" by blast
  let ?h = "h\<lparr>ah_db := ([], d')\<rparr>"
  have b: "busy job C ?h" using assms(2,3) by (auto simp: busy_def)
  show ?thesis
  proof (cases t)
    case (Inl e)
    have "run_ended (ru_id run) C (fail_agent_run (ae_marshal env) (ru_id run) job (write_log key l ?h))" for l
      by (rule busy_fails) (simp add: b)
    with d m Inl show ?thesis unfolding mint_and_open_def db_step_def by (simp only: prod.case sum.case settled_def simp_thms)
  next
    case (Inr token)
    have "?h\<lparr>ah_db := ([], d')\<rparr> = ?h" by simp
    moreover have "settled (ru_id run) C (agent_session_opened env run job key vars k ?h)" for vars
      by (rule session_settles) (use assms in simp_all)
    ultimately show ?thesis using d m o' Inr by (simp add: mint_and_open_def db_step_def)
  qed
qed

lemma start_settles:
  assumes "ah_db h = ([], d)" and "ids_ok j_id (ci_jobs d)" and "\<not> live_token (ru_id run) d"
    and "set (ah_containers h) \<subseteq> C" and "undisturbed (ru_id run) C env"
  shows "settled (ru_id run) C (start_agent_session env run who model issue spec_text h)"
proof (cases who)
  case (Pair owner name)
  from create_job_id [OF assms(2), of "ru_id run" agent_job_name "[]"] obtain r d1 where
    j: "create_job (ru_id run) agent_job_name [] ([], d) = (r, ([], d1))" "tokens d1 = tokens d" "\<And>j. r = Inr j \<Longrightarrow> j_id j \<noteq> 0"
    by blast
  let ?h1 = "h\<lparr>ah_db := ([], d1)\<rparr>"
  show ?thesis
  proof (cases r)
    case (Inl e)
    have "run_ended (ru_id run) C (finish_agent (ae_marshal env) run RunError (remove_workspace (ru_id run) ?h1))"
      by (rule finish_ends [of _ d1]) (use assms(3,4) j(2) in \<open>auto simp: live_token_def remove_workspace_def cleaned_def\<close>)
    with Inl assms(1) j(1) show ?thesis by (simp add: start_agent_session_def Pair db_step_def ended_settles)
  next
    case (Inr j)
    let ?job = "j_id j"
    have "busy ?job C ?h1" using j(3) [OF Inr] assms(4) by (auto simp: busy_def)
    then have b: "busy ?job C (db_try (start_job ?job) ?h1)" by (rule busy_db_try [OF _ healthyI [OF reaches_start_job]])
    have "settled (ru_id run) C (mint_and_open env run ?job key (run_first_turn env run ?job who model issue spec_text)
        (write_log key l (db_try (start_job ?job) ?h1)))" for key l
      by (rule mint_settles) (use b assms(4,5) j(3) [OF Inr] in \<open>simp_all add: busy_def first_turn_settles\<close>)
    with Inr assms(1) j(1) b show ?thesis by (simp add: start_agent_session_def Pair db_step_def Let_def ended_settles busy_fails)
  qed
qed

text \<open>The host an agent run starts on: the engine answers, the ids of the jobs are in order, no token of the run is live,
  its workspace is not there yet, and \<open>C\<close> are the containers of others.\<close>

definition agent_ready :: "int \<Rightarrow> string set \<Rightarrow> agent_host \<Rightarrow> bool" where
  "agent_ready run C h \<longleftrightarrow> fst (ah_db h) = [] \<and> ids_ok j_id (ci_jobs (snd (ah_db h))) \<and> \<not> live_token run (snd (ah_db h)) \<and>
     run \<notin> set (ah_dirs h) \<and> set (ah_containers h) \<subseteq> C"

lemma ready_quits:
  "agent_ready (ru_id run) C h \<Longrightarrow> settled (ru_id run) C (finish_agent marshal run RunError h)"
  using finish_ends [of h "snd (ah_db h)" run C RunError marshal] by (auto simp: agent_ready_def settled_def cleaned_def prod_eq_iff)

lemma ready_quits_dir:
  "agent_ready (ru_id run) C h \<Longrightarrow>
    settled (ru_id run) C (finish_agent marshal run RunError (remove_workspace (ru_id run) (h\<lparr>ah_dirs := ru_id run # removeAll (ru_id run) (ah_dirs h)\<rparr>)))"
proof -
  let ?h = "remove_workspace (ru_id run) (h\<lparr>ah_dirs := ru_id run # removeAll (ru_id run) (ah_dirs h)\<rparr>)"
  assume r: "agent_ready (ru_id run) C h"
  then have "set (ah_containers h) \<subseteq> C" by (simp add: agent_ready_def)
  then have "cleaned (ru_id run) C ?h" by (auto simp: cleaned_def remove_workspace_def)
  moreover have "ah_db ?h = ([], snd (ah_db h))" "\<not> live_token (ru_id run) (snd (ah_db h))"
    using r by (simp_all add: agent_ready_def remove_workspace_def prod_eq_iff)
  ultimately show ?thesis unfolding settled_def using finish_ends [of ?h "snd (ah_db h)" run C RunError marshal] by simp
qed

lemma ready_emit:
  assumes "agent_ready run C h"
  shows "agent_ready run C (db_try (emit_agent_event marshal r ty extra) h)"
proof -
  have "ah_db h = ([], snd (ah_db h))" using assms by (simp add: agent_ready_def prod_eq_iff)
  from db_try_reaches [OF reaches_emit this] obtain d' where
    "db_try (emit_agent_event marshal r ty extra) h = h\<lparr>ah_db := ([], d')\<rparr>" "same_core (snd (ah_db h)) d'" by blast
  with assms live_token_cong [of d' "snd (ah_db h)" run] show ?thesis by (simp add: agent_ready_def same_core_def)
qed

lemma ready_starts:
  assumes "agent_ready (ru_id run) C h" and "undisturbed (ru_id run) C env"
  shows "settled (ru_id run) C (start_agent_session env run who model issue spec_text (h\<lparr>ah_dirs := dirs\<rparr>))"
  using assms by (intro start_settles [of _ "snd (ah_db h)"]) (simp_all add: agent_ready_def prod_eq_iff)

lemma checkout_settles:
  assumes "agent_ready (ru_id run) C h" and "undisturbed (ru_id run) C env"
  shows "settled (ru_id run) C (check_out_agent env run who issue h)"
  using ready_quits [OF assms(1)] ready_quits_dir [OF assms(1)] ready_starts [OF assms]
  by (simp add: check_out_agent_def Let_def split: option.split)

text \<open>C26: An agent run's first turn never leaves a run half done. On a host whose engine answers, where the ids of
  the job table are in order, no token of the run is live and its workspace is not there yet, while the other goroutines
  neither stop the turn, break the engine nor start containers outside \<open>C\<close>, \<open>executeAgentRun\<close> ends, on every path
  through the issue, the checkout, the token, the session, the command, a verify run's verdict and the parking, in one
  of two ways: the run is parked awaiting input, or its rows are terminal, the token minted for it is revoked, and its
  container and its workspace are gone, but for what \<open>docker rm\<close> or \<open>os.RemoveAll\<close> could not remove.\<close>

theorem agent_run_ends_clean:
  assumes "agent_ready (ru_id run) C h" and "undisturbed (ru_id run) C env"
  shows "parked (ru_id run) (execute_agent_run env run h) \<or> run_ended (ru_id run) C (execute_agent_run env run h)"
proof -
  let ?h = "db_try (emit_agent_event (ae_marshal env) run ''agent.run.started'' []) h"
  have ok: "fst (ah_db h) = []" and ready: "agent_ready (ru_id run) C ?h" using assms(1) ready_emit by (simp_all add: agent_ready_def)
  then have ok': "fst (ah_db ?h) = []" by (simp add: agent_ready_def)
  have "settled (ru_id run) C (execute_agent_run env run h)"
    unfolding execute_agent_run_def Let_def db_step_reads [OF ok repo_ident_reads]
    by (simp add: ready_quits [OF assms(1)] ready_quits [OF ready] checkout_settles [OF ready assms(2)]
        db_step_reads [OF ok' get_issue_reads] split: sum.split option.split)
  then show ?thesis by (simp add: settled_def)
qed

subsection \<open>A stop in the wrong moment\<close>

lemma reaches_finish_as:
  assumes "run_terminal st"
  shows "reaches (finish_ci marshal run st) (\<lambda>_ d'. runs_in (ru_id run) ((=) st) d')"
  unfolding reaches_def
proof
  fix d :: db
  let ?d = "d\<lparr>ci_runs := update_where (\<lambda>r. ru_id r = ru_id run) (end_run st (now d)) (ci_runs d)\<rparr>"
  obtain x where f: "finish_run (ru_id run) st ([], d) = (x, ([], ?d))"
    using assms by (cases "count_where (\<lambda>r. ru_id r = ru_id run) (ci_runs d) = 0")
      (auto simp: finish_run_def update_runs_def affected_def)
  have over: "runs_in (ru_id run) ((=) st) ?d" by (auto simp: runs_in_def row_simps end_run_def)
  have ev: "reaches (attempt (append_feed_event ty repo actor payload) (\<lambda>_. ok ())) same_core" for ty repo actor payload
    by (intro reaches_attempt_ok reaches_event)
  obtain y d' where "(if is_agent (ru_kind run) then emit_agent_event marshal run ''agent.run.finished'' [(''status'', JStr (run_status_name st))]
     else attempt (append_feed_event ''ci.run.finished'' (ru_repo run) (ru_trigger run)
         (marshal [(''number'', JInt (ru_number run)), (''status'', JStr (run_status_name st)), (''ref'', JStr (ru_ref run)), (''sha'', JStr (ru_sha run))]))
       (\<lambda>_. ok ())) ([], ?d) = (y, ([], d'))" "same_core ?d d'"
    using ev reaches_emit unfolding reaches_def by (cases "is_agent (ru_kind run)") (simp_all; metis)+
  with f over show "\<exists>r d'. finish_ci marshal run st ([], d) = (r, ([], d')) \<and> runs_in (ru_id run) ((=) st) d'"
    by (auto simp: finish_ci_def attempt_def same_core_def runs_in_def)
qed

lemma healthy_try: "healthy m \<Longrightarrow> fst (ah_db h) = [] \<Longrightarrow> fst (ah_db (db_try m h)) = []"
  using db_try_reaches [of m "\<lambda>_ _. True" h "snd (ah_db h)"] by (fastforce simp: healthy_def prod_eq_iff)

lemma torn_db: "ah_db h = ([], d) \<Longrightarrow> \<exists>d'. ah_db (tear_down_agent run job h) = ([], d') \<and> ci_runs d' = ci_runs d"
  using db_try_reaches [OF reaches_revoke [of run], of "if job \<noteq> 0 then remove_container (agent_container_name job) h else h" d]
  by (auto simp: tear_down_agent_def Let_def remove_container_def remove_workspace_def split: if_splits)

lemma healthy_teardown: "fst (ah_db h) = [] \<Longrightarrow> fst (ah_db (tear_down_agent run job h)) = []"
  using torn_db [of h "snd (ah_db h)" run job] by (fastforce simp: prod_eq_iff)

lemma fails_as_error:
  assumes "fst (ah_db h) = []"
  shows "runs_in run ((=) RunError) (snd (ah_db (fail_agent_run marshal run job h)))"
proof -
  let ?h = "(if job \<noteq> 0 then db_try (finish_job job JobError None) (tear_down_agent run job h) else tear_down_agent run job h)"
  have "fst (ah_db ?h) = []" using healthy_teardown [OF assms] healthy_try [OF healthyI [OF reaches_finish_job]] by simp
  then have "ah_db ?h = ([], snd (ah_db ?h))" by (simp add: prod_eq_iff)
  from db_try_reaches [OF reaches_finish_as [of RunError marshal "bare_agent_run run"] this] show ?thesis
    by (auto simp: fail_agent_run_def Let_def finish_agent_def bare_agent_run_def)
qed

lemma dropped_db:
  assumes "ah_db h = ([], d)" shows "\<exists>d'. ah_db (drop_stopped run j h) = ([], d') \<and> ci_runs d' = ci_runs d"
proof -
  have t: "\<exists>d'. ah_db (tear_down_agent run job h') = ([], d') \<and> ci_runs d' = ci_runs d" if "ah_db h' = ([], d1)" "ci_runs d1 = ci_runs d" for job h' d1
    using torn_db [OF that(1)] that(2) by simp
  have "\<exists>d1. ah_db (db_try (finish_job job JobInterrupted None) h) = ([], d1) \<and> ci_runs d1 = ci_runs d" for job
    using db_try_reaches [OF reaches_finish_job [of job JobInterrupted None] assms] by (auto simp: same_core_def)
  with t assms show ?thesis unfolding drop_stopped_def Let_def by (simp split: if_splits) metis
qed

lemma stop_cancels:
  assumes "ah_db h = ([], d)" and "\<forall>r \<in> set (rows (ci_runs d)). ru_id r = run \<longrightarrow> ru_kind r = RunKindAgent \<and> ru_status r = RunRunning"
    and "\<exists>r \<in> set (rows (ci_runs d)). ru_id r = run"
  shows "fst (stop_agent_run run h)" and "fst (ah_db (snd (stop_agent_run run h))) = []"
    and "runs_in run ((=) RunCanceled) (snd (ah_db (snd (stop_agent_run run h))))"
proof -
  let ?P = "\<lambda>r. ru_id r = run \<and> ru_kind r = RunKindAgent \<and> ru_status r \<in> {RunQueued, RunRunning, RunAwaitingInput, RunFinishing}"
  let ?d = "d\<lparr>ci_runs := update_where ?P (end_run RunCanceled (now d)) (ci_runs d)\<rparr>"
  have "exists_where ?P (ci_runs d)" using assms(2,3) unfolding exists_where_iff by blast
  then have "count_where ?P (ci_runs d) \<noteq> 0" unfolding count_where_0 by simp
  then have c: "cancel_agent_run run ([], d) = (Inr (), ([], ?d))"
    unfolding cancel_agent_run_def update_runs_def exec.simps by (simp only: prod.case sum.case affected_def if_False ok_def)
  have can: "runs_in run ((=) RunCanceled) ?d" unfolding runs_in_def
  proof (intro ballI impI)
    fix r assume "r \<in> set (rows (ci_runs ?d))" and i: "ru_id r = run"
    then obtain r0 where r0: "r0 \<in> set (rows (ci_runs d))" "r = (if ?P r0 then end_run RunCanceled (now d) r0 else r0)"
      by (auto simp: rows_update_where)
    then have "ru_id r0 = run" using i by (simp add: end_run_def split: if_splits)
    with assms(2) r0(1) have "?P r0" by simp
    with r0(2) show "RunCanceled = ru_status r" by (simp only: if_True) (simp add: end_run_def)
  qed
  have s: "stop_agent_run run h = (True, db_step (agent_job_id run) (drop_stopped run) (stop_turn run (h\<lparr>ah_db := ([], ?d)\<rparr>)))"
    unfolding stop_agent_run_def assms(1) c by (simp only: prod.case sum.case)
  have reads: "agent_job_id run ([], d) = (fst (agent_job_id run ([], d)), ([], d))" for d
    by (simp add: agent_job_id_def list_jobs_def attempt_def)
  let ?h = "stop_turn run (h\<lparr>ah_db := ([], ?d)\<rparr>)"
  have h: "ah_db ?h = ([], ?d)" by (simp add: stop_turn_def)
  have j: "db_step (agent_job_id run) (drop_stopped run) ?h = drop_stopped run (fst (agent_job_id run (ah_db ?h))) ?h"
    by (rule db_step_reads) (use h reads in simp_all)
  obtain d' where d': "ah_db (drop_stopped run (fst (agent_job_id run (ah_db ?h))) ?h) = ([], d')" "ci_runs d' = ci_runs ?d"
    using dropped_db [OF h] by blast
  show "fst (stop_agent_run run h)" by (simp only: s fst_conv)
  show "fst (ah_db (snd (stop_agent_run run h))) = []" by (simp only: s j d' fst_conv snd_conv)
  show "runs_in run ((=) RunCanceled) (snd (ah_db (snd (stop_agent_run run h))))"
    using can by (simp only: s j d' fst_conv snd_conv runs_in_def)
qed

text \<open>C27: A stop that comes too late for its flag turns into an error. Between a turn's look at its canceled flag
  and the call that parks the run, an operator's stop succeeds: \<open>CancelAgentRun\<close> reports the run
  canceled and its rows are canceled. The parking then fails, which \<open>executeAgentRun\<close> and
  \<open>dispatchTurn\<close> take for a broken run: they finish it again, and every row of the run ends as \<open>error\<close>.\<close>

theorem late_stop_becomes_error:
  assumes "ah_db h = ([], d)" and "\<forall>r \<in> set (rows (ci_runs d)). ru_id r = ru_id run \<longrightarrow> ru_kind r = RunKindAgent \<and> ru_status r = RunRunning"
    and "\<exists>r \<in> set (rows (ci_runs d)). ru_id r = ru_id run" and "ae_late env = (\<lambda>h. snd (stop_agent_run (ru_id run) h))"
  shows "fst (stop_agent_run (ru_id run) h) \<and>
    runs_in (ru_id run) ((=) RunCanceled) (snd (ah_db (snd (stop_agent_run (ru_id run) h)))) \<and>
    runs_in (ru_id run) ((=) RunError) (snd (ah_db (park_agent_run env run job h)))"
proof -
  let ?h = "snd (stop_agent_run (ru_id run) h)" and ?P = "\<lambda>r. ru_id r = ru_id run \<and> ru_status r = RunRunning"
  note s = stop_cancels [OF assms(1-3)]
  obtain d' where d': "ah_db ?h = ([], d')" using s(2) by (cases "ah_db ?h") simp
  have "count_where ?P (ci_runs d') = 0" unfolding count_where_0 exists_where_iff using s(3) d' by (auto simp: runs_in_def)
  then obtain d2 where m: "mark_run_awaiting_input (ru_id run) ([], d') = (Inl ErrNotFound, ([], d2))"
    by (simp add: mark_run_awaiting_input_def update_runs_def affected_def)
  have "runs_in (ru_id run) ((=) RunError) (snd (ah_db (fail_agent_run (ae_marshal env) (ru_id run) job (?h\<lparr>ah_db := ([], d2)\<rparr>))))"
    by (rule fails_as_error) simp
  with d' m have "runs_in (ru_id run) ((=) RunError) (snd (ah_db (park_agent_run env run job h)))"
    by (simp add: park_agent_run_def db_step_def assms(4))
  with s show ?thesis by blast
qed

definition demo_agent_run :: run_row where
  "demo_agent_run = (bare_agent_run 1)\<lparr>ru_repo := 1, ru_number := 1, ru_sha := ''c1'', ru_status := RunRunning, ru_issue := Some 1\<rparr>"

definition demo_agent_db :: db where
  "demo_agent_db = demo_issues\<lparr>users := \<lparr>rows = [\<lparr>u_id = 1, u_name = ''alice'', u_created = 0, u_password = None\<rparr>], seqno = 1\<rparr>,
     ci_runs := \<lparr>rows = [demo_agent_run], seqno = 1\<rparr>\<rparr>"

definition demo_agent_host :: agent_host where
  "demo_agent_host = \<lparr>ah_db = ([], demo_agent_db), ah_world = ([], Map.empty), ah_containers = [''other''], ah_dirs = [], ah_teardown = True, ah_rm = (\<lambda>_. True),
     ah_rmdir = (\<lambda>_. True), ah_turns = Map.empty, ah_log = []\<rparr>"

definition demo_agent_env :: "agent_op \<Rightarrow> agent_env" where
  "demo_agent_env late = \<lparr>ae_marshal = (\<lambda>_. ''{}''), ae_workspace = True, ae_checkout = True, ae_spec = None, ae_log = True, ae_token = Some ''secret'',
     ae_sha256 = id, ae_sha1 = id, ae_quote = id, ae_mcp = True, ae_session = (\<lambda>_. Inr True), ae_attach = Inr True, ae_db_error = (\<lambda>_. ''db''),
     ae_decoder = demo_decoder, ae_exec = demo_exec True, ae_during = (\<lambda>h. h), ae_late = late,
     ae_config = \<lparr>ac_claude_token = ''t'', ac_api_key = '''', ac_base_url = '''', ac_server_url = '''', ac_addr = '':8080''\<rparr>,
     ae_git = demo_handoff, ae_error_text = (\<lambda>_. ''git''), ae_diff_stat = (\<lambda>_ _. ''''), ae_verdict = (\<lambda>_. None), ae_verdict_error = id,
     ae_verdict_json = (\<lambda>_. ''{}''), ae_frontmatter = (\<lambda>_. None), ae_write_spec = True, ae_date = ''2024-01-01'', ae_percent = (\<lambda>_. ''100''),
     ae_hundredths = (\<lambda>_. ''1.00'')\<rparr>"

lemma bystander_id: "bystander run C (\<lambda>h. h)"
  by (simp add: bystander_def)

theorem agent_run_ends_clean_witness:
  "agent_ready 1 {''other''} demo_agent_host \<and> undisturbed 1 {''other''} (demo_agent_env (\<lambda>h. h)) \<and>
    (parked 1 (execute_agent_run (demo_agent_env (\<lambda>h. h)) demo_agent_run demo_agent_host) \<or>
     run_ended 1 {''other''} (execute_agent_run (demo_agent_env (\<lambda>h. h)) demo_agent_run demo_agent_host))"
proof -
  have i: "ru_id demo_agent_run = 1" by code_simp
  have "tokens demo_agent_db = empty_table" "ci_jobs demo_agent_db = empty_table" by code_simp+
  then have r: "agent_ready (ru_id demo_agent_run) {''other''} demo_agent_host"
    by (simp add: i agent_ready_def demo_agent_host_def live_token_def empty_table_def ids_ok_def)
  have u: "undisturbed (ru_id demo_agent_run) {''other''} (demo_agent_env (\<lambda>h. h))" by (simp add: undisturbed_def demo_agent_env_def bystander_id)
  from agent_run_ends_clean [OF r u] r u show ?thesis by (simp only: i)
qed

theorem late_stop_becomes_error_witness:
  "let h = demo_agent_host; env = demo_agent_env (\<lambda>h. snd (stop_agent_run 1 h)) in
     fst (stop_agent_run 1 h) \<and> map ru_status (rows (ci_runs (snd (ah_db (snd (stop_agent_run 1 h)))))) = [RunCanceled] \<and>
     runs_in 1 ((=) RunError) (snd (ah_db (park_agent_run env demo_agent_run 0 h)))"
proof -
  have i: "ru_id demo_agent_run = 1" by code_simp
  have d: "ah_db demo_agent_host = ([], demo_agent_db)" by (simp add: demo_agent_host_def)
  have rs: "rows (ci_runs demo_agent_db) = [demo_agent_run]" by (simp add: demo_agent_db_def)
  have st: "ru_kind demo_agent_run = RunKindAgent" "ru_status demo_agent_run = RunRunning" by code_simp+
  have "map ru_status (rows (ci_runs (snd (ah_db (snd (stop_agent_run 1 demo_agent_host)))))) = [RunCanceled]" by code_simp
  moreover from late_stop_becomes_error [OF d, of demo_agent_run "demo_agent_env (\<lambda>h. snd (stop_agent_run 1 h))" 0] rs st i
  have "fst (stop_agent_run 1 demo_agent_host) \<and>
    runs_in 1 ((=) RunError) (snd (ah_db (park_agent_run (demo_agent_env (\<lambda>h. snd (stop_agent_run 1 h))) demo_agent_run 0 demo_agent_host)))"
    by (simp add: demo_agent_env_def)
  ultimately show ?thesis by (simp add: Let_def)
qed

end
