(* ===== verification/IssueApi.thy ===== *)
theory IssueApi imports Hooks IssueList IssueLocks Dependencies begin

text \<open>
  The issue endpoints of \<open>internal/server/issues.go\<close> and \<open>comments.go\<close>: what a request's query and body
  become before they reach the storage, what every refusal is answered with, and the names writes are
  attributed to. The number in the path is given as what \<open>strconv.Atoi\<close> makes of it.
\<close>

section \<open>Query parameters\<close>

text \<open>\<open>strconv.Atoi\<close>: a sign, decimal digits, and the range of an \<open>int\<close>.\<close>

fun decimal_value :: "int \<Rightarrow> string \<Rightarrow> int option" where
  "decimal_value acc [] = Some acc"
| "decimal_value acc (c # s) = (if is_digit c then decimal_value (10 * acc + int (of_char c - 48)) s else None)"

definition max_int :: int where
  "max_int = 9223372036854775807"

definition atoi :: "string \<Rightarrow> int option" where
  "atoi s =
     (let (neg, ds) = (case s of c # t \<Rightarrow> if c = CHR ''-'' then (True, t) else if c = CHR ''+'' then (False, t) else (False, s) | [] \<Rightarrow> (False, [])) in
      if ds = [] then None
      else (case decimal_value 0 ds of
          None \<Rightarrow> None
        | Some n \<Rightarrow> if neg then (if n \<le> max_int + 1 then Some (- n) else None) else if n \<le> max_int then Some n else None))"

type_synonym url_values = "string \<rightharpoonup> string list"

text \<open>\<open>q[key]\<close>, and its first value when it has one.\<close>

definition values_of :: "url_values \<Rightarrow> string \<Rightarrow> string list" where
  "values_of q key = (case q key of None \<Rightarrow> [] | Some vs \<Rightarrow> vs)"

definition first_of :: "url_values \<Rightarrow> string \<Rightarrow> string option" where
  "first_of q key = (case values_of q key of [] \<Rightarrow> None | v # _ \<Rightarrow> Some v)"

definition query_bool :: "url_values \<Rightarrow> string \<Rightarrow> bool" where
  "query_bool q key = (case first_of q key of
     None \<Rightarrow> False
   | Some v \<Rightarrow> map lower v \<in> {'''', ''1'', ''true'', ''yes''})"

definition issue_state_name :: "issue_state \<Rightarrow> string" where
  "issue_state_name s = (case s of IssueTodo \<Rightarrow> ''todo'' | IssueInProgress \<Rightarrow> ''in_progress'' | IssueDone \<Rightarrow> ''done'' | IssueClosed \<Rightarrow> ''closed'')"

text \<open>\<open>IssueState.Valid\<close> and \<open>IssueSort.Valid\<close>: the value a valid text stands for.\<close>

definition issue_state_of :: "string \<Rightarrow> issue_state option" where
  "issue_state_of s = (if s = ''todo'' then Some IssueTodo else if s = ''in_progress'' then Some IssueInProgress
     else if s = ''done'' then Some IssueDone else if s = ''closed'' then Some IssueClosed else None)"

definition issue_sort_of :: "string \<Rightarrow> issue_sort option" where
  "issue_sort_of s = (if s = ''newest'' then Some IssueSortNewest else if s = ''oldest'' then Some IssueSortOldest
     else if s = ''recently-updated'' then Some IssueSortRecentlyUpdated else None)"

fun parse_issue_states :: "string list \<Rightarrow> string + issue_state list" where
  "parse_issue_states [] = Inr []"
| "parse_issue_states (part # ps) = (let s = trim_space part in
     if s = [] then parse_issue_states ps
     else case issue_state_of s of
         None \<Rightarrow> Inl (''invalid state: '' @ s)
       | Some st \<Rightarrow> (case parse_issue_states ps of Inl e \<Rightarrow> Inl e | Inr sts \<Rightarrow> Inr (st # sts)))"

definition parse_sort :: "url_values \<Rightarrow> string + issue_sort option" where
  "parse_sort q = (case first_of q ''sort'' of
     None \<Rightarrow> Inr None
   | Some v \<Rightarrow> if v = [] then Inr None else (case issue_sort_of v of None \<Rightarrow> Inl (''invalid sort: '' @ v) | Some s \<Rightarrow> Inr (Some s)))"

definition parse_bound :: "url_values \<Rightarrow> string \<Rightarrow> string + int" where
  "parse_bound q key = (case first_of q key of
     None \<Rightarrow> Inr 0
   | Some v \<Rightarrow> (case atoi v of None \<Rightarrow> Inl (''invalid '' @ key) | Some n \<Rightarrow> if n < 0 then Inl (''invalid '' @ key) else Inr n))"

definition or_empty :: "string option \<Rightarrow> string" where
  "or_empty v = (case v of None \<Rightarrow> '''' | Some s \<Rightarrow> s)"

definition parse_list_filter :: "url_values \<Rightarrow> string + list_filter" where
  "parse_list_filter q =
     (case parse_issue_states (concat (map (split_on CHR '','') (values_of q ''state''))) of Inl e \<Rightarrow> Inl e | Inr states \<Rightarrow>
      case parse_sort q of Inl e \<Rightarrow> Inl e | Inr srt \<Rightarrow>
      case parse_bound q ''limit'' of Inl e \<Rightarrow> Inl e | Inr limit \<Rightarrow>
      case parse_bound q ''offset'' of Inl e \<Rightarrow> Inl e | Inr offset \<Rightarrow>
      let ready = query_bool q ''ready''; blocked = query_bool q ''blocked''; epics = query_bool q ''epics'' in
      if ready \<and> blocked then Inl ''ready and blocked are mutually exclusive''
      else if epics \<and> (ready \<or> blocked) then Inl ''epics cannot be combined with ready or blocked''
      else Inr \<lparr>lf_states = states, lf_assignee = or_empty (first_of q ''assignee''), lf_author = or_empty (first_of q ''author''),
        lf_query = trim_space (or_empty (first_of q ''q'')), lf_label = trim_space (or_empty (first_of q ''label'')),
        lf_sort = srt, lf_limit = limit, lf_offset = offset, lf_ready = ready, lf_blocked = blocked, lf_epics = epics\<rparr>)"

section \<open>Reading\<close>

definition with_progress :: "(int \<Rightarrow> epic_progress option) \<Rightarrow> issue \<Rightarrow> issue" where
  "with_progress progress i = (case progress (is_number i) of None \<Rightarrow> i | Some p \<Rightarrow> i\<lparr>is_progress := Some p\<rparr>)"

text \<open>The body and the \<open>X-Total-Count\<close> header.\<close>

definition count_and_answer :: "int \<Rightarrow> list_filter \<Rightarrow> issue list \<Rightarrow> (issue list \<times> int) reply srv" where
  "count_and_answer rid f is = call (count_issues rid f) (\<lambda>r. case r of Inl _ \<Rightarrow> answer internal | Inr n \<Rightarrow> answer (Done (is, n)))"

definition handle_list_issues :: "string \<Rightarrow> string \<Rightarrow> url_values \<Rightarrow> (issue list \<times> int) reply srv" where
  "handle_list_issues owner repo q =
     lookup_repo_or_fail owner repo Refuse (\<lambda>rid. case parse_list_filter q of
         Inl e \<Rightarrow> answer (Refuse 400 e)
       | Inr f \<Rightarrow> call (list_issues rid f) (\<lambda>r. case r of
           Inl _ \<Rightarrow> answer internal
         | Inr is \<Rightarrow> if lf_epics f \<and> is \<noteq> []
             then call (child_progress rid) (\<lambda>p. case p of
                 Inl _ \<Rightarrow> answer internal | Inr progress \<Rightarrow> count_and_answer rid f (map (with_progress progress) is))
             else count_and_answer rid f is))"

definition handle_list_all_issues :: "url_values \<Rightarrow> ((issue \<times> string \<times> string) list \<times> int) reply srv" where
  "handle_list_all_issues q = (case parse_list_filter q of
     Inl e \<Rightarrow> answer (Refuse 400 e)
   | Inr f \<Rightarrow> call (list_all_issues f) (\<lambda>r. case r of
       Inl _ \<Rightarrow> answer internal
     | Inr is \<Rightarrow> call (count_all_issues f) (\<lambda>n. case n of Inl _ \<Rightarrow> answer internal | Inr n \<Rightarrow> answer (Done (is, n)))))"

definition progress_from_children :: "child_summary list \<Rightarrow> epic_progress" where
  "progress_from_children cs = \<lparr>ep_total = int (length cs), ep_done = int (length (filter (\<lambda>c. ch_state c \<in> {IssueDone, IssueClosed}) cs))\<rparr>"

definition add_children :: "child_summary list \<Rightarrow> issue \<Rightarrow> issue" where
  "add_children cs i = (if cs = [] then i else i\<lparr>is_children := cs, is_progress := Some (progress_from_children cs)\<rparr>)"

definition add_depends :: "issue_ref list \<Rightarrow> issue \<Rightarrow> issue" where
  "add_depends ds i = (if ds = [] then i else i\<lparr>is_depends_on := ds\<rparr>)"

definition add_blocks :: "issue_ref list \<Rightarrow> issue \<Rightarrow> issue" where
  "add_blocks bs i = (if bs = [] then i else i\<lparr>is_blocks := bs\<rparr>)"

definition issue_or_fail :: "int \<Rightarrow> int \<Rightarrow> (issue \<Rightarrow> 'b reply srv) \<Rightarrow> 'b reply srv" where
  "issue_or_fail rid n k = call (get_issue rid n) (\<lambda>r. case r of
     Inl e \<Rightarrow> answer (if e = ErrNotFound then Refuse 404 ''issue not found'' else internal) | Inr i \<Rightarrow> k i)"

definition handle_get_issue :: "string \<Rightarrow> string \<Rightarrow> int option \<Rightarrow> issue reply srv" where
  "handle_get_issue owner repo num =
     with_number num ''invalid issue number'' (\<lambda>n.
     lookup_repo_or_fail owner repo Refuse (\<lambda>rid.
     issue_or_fail rid n (\<lambda>i.
     call (list_children rid n) (\<lambda>r. case r of Inl _ \<Rightarrow> answer internal | Inr cs \<Rightarrow>
     call (list_dependencies rid n) (\<lambda>r. case r of Inl _ \<Rightarrow> answer internal | Inr ds \<Rightarrow>
     call (list_dependents rid n) (\<lambda>r. case r of Inl _ \<Rightarrow> answer internal | Inr bs \<Rightarrow>
       answer (Done (add_blocks bs (add_depends ds (add_children cs i))))))))))"

text \<open>After a change of the edges: the same shape, a failing read leaves its part out.\<close>

definition lenient :: "(db_error + 'a list) \<Rightarrow> 'a list" where
  "lenient r = (case r of Inl _ \<Rightarrow> [] | Inr xs \<Rightarrow> xs)"

definition write_issue_with_edges :: "int \<Rightarrow> int \<Rightarrow> issue reply srv" where
  "write_issue_with_edges rid n =
     issue_or_fail rid n (\<lambda>i.
     call (list_children rid n) (\<lambda>cs. call (list_dependencies rid n) (\<lambda>ds. call (list_dependents rid n) (\<lambda>bs.
       answer (Done (add_blocks (lenient bs) (add_depends (lenient ds) (add_children (lenient cs) i))))))))"

section \<open>Writing\<close>

definition handle_create_issue ::
  "server_env \<Rightarrow> string \<Rightarrow> string \<Rightarrow> create_issue_request option \<Rightarrow> api_token option \<Rightarrow> issue reply srv" where
  "handle_create_issue env owner repo body tok =
     lookup_repo_or_fail owner repo Refuse (\<lambda>rid.
     with_body body (\<lambda>req.
       (let req = req\<lparr>cir_title := trim_space (cir_title req), cir_author := identity_from_context tok\<rparr> in
        if cir_title req = [] then answer (Refuse 400 ''title is required'')
        else if (case cir_parent req of None \<Rightarrow> False | Some p \<Rightarrow> p < 0) then answer (Refuse 400 ''parent must be a positive issue number'')
        else call (create_issue rid req) (\<lambda>r. case r of
            Inl e \<Rightarrow> answer (if e = ErrInvalidInput then Refuse 400 ''parent issue not found in this repo'' else internal)
          | Inr i \<Rightarrow> emit env ''issue.created'' rid (is_author i) [(''number'', JInt (is_number i)), (''title'', JStr (is_title i))] (answer (Done i))))))"

text \<open>The body of an update: the state as it is spelt.\<close>

record update_issue_request =
  uir_state :: "string option"
  uir_title :: "string option"
  uir_body :: "string option"
  uir_parent :: "int option"
  uir_labels :: "string list option"

definition changes_of :: "update_issue_request \<Rightarrow> issue_changes" where
  "changes_of req = \<lparr>ch_set_state = Option.bind (uir_state req) issue_state_of, ch_set_title = map_option trim_space (uir_title req),
     ch_set_body = uir_body req, ch_set_parent = uir_parent req, ch_set_labels = uir_labels req\<rparr>"

definition handle_update_issue ::
  "server_env \<Rightarrow> string \<Rightarrow> string \<Rightarrow> int option \<Rightarrow> update_issue_request option \<Rightarrow> api_token option \<Rightarrow> issue reply srv" where
  "handle_update_issue env owner repo num body tok =
     with_number num ''invalid issue number'' (\<lambda>n.
     with_body body (\<lambda>req.
       if uir_state req \<noteq> None \<and> ch_set_state (changes_of req) = None then answer (Refuse 400 (''invalid state: '' @ the (uir_state req)))
       else if ch_set_title (changes_of req) = Some [] then answer (Refuse 400 ''title cannot be empty'')
       else lookup_repo_or_fail owner repo Refuse (\<lambda>rid.
         if (case uir_parent req of None \<Rightarrow> False | Some p \<Rightarrow> p < 0) then answer (Refuse 400 ''parent must be a positive issue number or 0 to clear'')
         else call (update_issue rid n (changes_of req)) (\<lambda>r. case r of
             Inl e \<Rightarrow> answer (if e = ErrInvalidInput then Refuse 400 ''parent issue not found in this repo or is self-referential''
               else if e = ErrNoUpdateFields then Refuse 400 ''no fields to update (provide state, title, and/or body)''
               else if e = ErrNotFound then Refuse 404 ''issue not found'' else internal)
           | Inr i \<Rightarrow> (let data = (if uir_state req \<noteq> None then [(''state'', JStr (issue_state_name (is_state i)))] else []) in
               emit env (if uir_state req \<noteq> None then ''issue.state_changed'' else ''issue.updated'') rid (identity_from_context tok)
                 ((''number'', JInt (is_number i)) # data) (answer (Done i)))))))"

definition handle_delete_issue :: "string \<Rightarrow> string \<Rightarrow> int option \<Rightarrow> unit reply srv" where
  "handle_delete_issue owner repo num =
     with_number num ''invalid issue number'' (\<lambda>n.
     lookup_repo_or_fail owner repo Refuse (\<lambda>rid.
     call (delete_issue rid n) (\<lambda>r. answer (case r of
         Inl e \<Rightarrow> if e = ErrNotFound then Refuse 404 ''issue not found'' else internal | Inr _ \<Rightarrow> Done ()))))"

text \<open>The body of a claim: the state as it is spelt, empty for none; a name in it is not read.\<close>

definition handle_claim_issue ::
  "server_env \<Rightarrow> int \<Rightarrow> string \<Rightarrow> string \<Rightarrow> int option \<Rightarrow> string option \<Rightarrow> api_token option \<Rightarrow> issue reply srv" where
  "handle_claim_issue env lease owner repo num body tok =
     with_number num ''invalid issue number'' (\<lambda>n.
     with_body body (\<lambda>st.
       if st \<noteq> [] \<and> issue_state_of st = None then answer (Refuse 400 (''invalid state: '' @ st))
       else lookup_repo_or_fail owner repo Refuse (\<lambda>rid.
         let who = identity_from_context tok in
         call (claim rid n who (issue_state_of st) lease) (\<lambda>r. case r of
             Inl e \<Rightarrow> answer (if e = ErrNotFound then Refuse 404 ''issue not found''
               else if e = ErrAlreadyClaimed then Refuse 409 ''issue already claimed'' else internal)
           | Inr i \<Rightarrow> emit env ''issue.claimed'' rid who [(''number'', JInt (is_number i)), (''state'', JStr (issue_state_name (is_state i)))] (answer (Done i))))))"

definition handle_unclaim_issue :: "server_env \<Rightarrow> string \<Rightarrow> string \<Rightarrow> int option \<Rightarrow> api_token option \<Rightarrow> issue reply srv" where
  "handle_unclaim_issue env owner repo num tok =
     with_number num ''invalid issue number'' (\<lambda>n.
     lookup_repo_or_fail owner repo Refuse (\<lambda>rid.
       let who = identity_from_context tok in
       call (unclaim rid n who) (\<lambda>r. case r of
           Inl e \<Rightarrow> answer (if e = ErrNotFound then Refuse 404 ''issue not found''
             else if e = ErrNotOwner then Refuse 403 ''issue claimed by another agent'' else internal)
         | Inr i \<Rightarrow> emit env ''issue.unclaimed'' rid who [(''number'', JInt (is_number i))] (answer (Done i)))))"

section \<open>Edges\<close>

definition handle_add_dependency ::
  "server_env \<Rightarrow> string \<Rightarrow> string \<Rightarrow> int option \<Rightarrow> int option \<Rightarrow> api_token option \<Rightarrow> issue reply srv" where
  "handle_add_dependency env owner repo num body tok =
     with_number num ''invalid issue number'' (\<lambda>n.
     with_body body (\<lambda>m.
       if m \<le> 0 then answer (Refuse 400 ''depends_on must be a positive issue number'')
       else lookup_repo_or_fail owner repo Refuse (\<lambda>rid.
         call (add_dependency rid n m) (\<lambda>r. case r of
             Inl e \<Rightarrow> answer (if e = ErrSelfDependency then Refuse 400 ''an issue cannot depend on itself''
               else if e = ErrDependencyCycle then Refuse 409 ''dependency would create a cycle''
               else if e = ErrInvalidInput then Refuse 400 ''issue not found in this repo'' else internal)
           | Inr _ \<Rightarrow> emit env ''issue.updated'' rid (identity_from_context tok) [(''number'', JInt n), (''depends_on'', JInt m)]
               (write_issue_with_edges rid n)))))"

definition handle_remove_dependency ::
  "server_env \<Rightarrow> string \<Rightarrow> string \<Rightarrow> int option \<Rightarrow> int option \<Rightarrow> api_token option \<Rightarrow> issue reply srv" where
  "handle_remove_dependency env owner repo num target tok =
     with_number num ''invalid issue number'' (\<lambda>n.
     with_number target ''invalid dependency target'' (\<lambda>m.
     lookup_repo_or_fail owner repo Refuse (\<lambda>rid.
       call (remove_dependency rid n m) (\<lambda>r. case r of
           Inl _ \<Rightarrow> answer internal
         | Inr _ \<Rightarrow> emit env ''issue.updated'' rid (identity_from_context tok) [(''number'', JInt n), (''removed_depends_on'', JInt m)]
             (write_issue_with_edges rid n)))))"

section \<open>Comments\<close>

definition lookup_issue_or_fail :: "string \<Rightarrow> string \<Rightarrow> int option \<Rightarrow> (int \<Rightarrow> 'b reply srv) \<Rightarrow> 'b reply srv" where
  "lookup_issue_or_fail owner repo num k =
     with_number num ''invalid issue number'' (\<lambda>n.
     lookup_repo_or_fail owner repo Refuse (\<lambda>rid. issue_or_fail rid n (\<lambda>i. k (is_id i))))"

definition handle_list_comments :: "string \<Rightarrow> string \<Rightarrow> int option \<Rightarrow> comment_row list reply srv" where
  "handle_list_comments owner repo num =
     lookup_issue_or_fail owner repo num (\<lambda>iid.
     call (list_comments iid) (\<lambda>r. answer (case r of Inl _ \<Rightarrow> internal | Inr cs \<Rightarrow> Done cs)))"

definition handle_create_comment ::
  "server_env \<Rightarrow> string \<Rightarrow> string \<Rightarrow> int option \<Rightarrow> string option \<Rightarrow> api_token option \<Rightarrow> comment_row reply srv" where
  "handle_create_comment env owner repo num body tok =
     lookup_issue_or_fail owner repo num (\<lambda>iid.
     with_body body (\<lambda>b.
       (let b = trim_space b in
        if b = [] then answer (Refuse 400 ''body is required'')
        else call (create_comment iid (identity_from_context tok) b) (\<lambda>r. case r of
            Inl e \<Rightarrow> answer (if e = ErrInvalidInput then Refuse 400 ''invalid input'' else internal)
          | Inr c \<Rightarrow> call (lookup_repo owner (trim_suffix repo ''.git'')) (\<lambda>l. case l of
              Inl _ \<Rightarrow> answer (Done c)
            | Inr rid \<Rightarrow> emit env ''issue.commented'' rid (c_author c)
                [(''number'', JInt (case num of None \<Rightarrow> 0 | Some n \<Rightarrow> n)), (''comment_id'', JInt (c_id c))] (answer (Done c)))))))"

definition handle_delete_comment :: "int option \<Rightarrow> api_token option \<Rightarrow> unit reply srv" where
  "handle_delete_comment cid tok =
     with_number cid ''invalid comment id'' (\<lambda>i.
     call (delete_comment i (identity_from_context tok)) (\<lambda>r. answer (case r of
         Inl e \<Rightarrow> if e = ErrNotFound then Refuse 404 ''comment not found''
           else if e = ErrForbidden then Refuse 403 ''only the author can delete this comment'' else internal
       | Inr _ \<Rightarrow> Done ())))"

section \<open>What a list request is answered\<close>

lemma known_repo:
  assumes "h_db h = ([], d)" and "repo_named owner (trim_suffix repo ''.git'') d = Some x"
  shows "lookup_repo_or_fail owner repo refuse k h = k (r_id x) h"
proof -
  have "lookup_repo owner (trim_suffix repo ''.git'') ([], d) = (Inr (r_id x), ([], d))" using assms(2) by (simp add: lookup_repo_def)
  moreover have "h\<lparr>h_db := ([], d)\<rparr> = h" using assms(1) by (cases h) simp
  ultimately show ?thesis unfolding lookup_repo_or_fail_def Let_def call_def assms(1) by (simp only: prod.case sum.case)
qed

lemma call_reads:
  assumes "h_db h = ([], d)" and "m ([], d) = (r, ([], d))"
  shows "call m k h = k r h"
proof -
  have "h\<lparr>h_db := ([], d)\<rparr> = h" using assms(1) by (cases h) simp
  then show ?thesis unfolding call_def assms by (simp only: prod.case)
qed

lemma parsed_filter:
  assumes "parse_list_filter q = Inr f"
  shows "0 \<le> lf_limit f \<and> 0 \<le> lf_offset f \<and> \<not> (lf_ready f \<and> lf_blocked f) \<and> \<not> (lf_epics f \<and> (lf_ready f \<or> lf_blocked f))"
  using assms by (auto simp: parse_list_filter_def parse_bound_def Let_def split: sum.splits if_splits option.splits)

lemma matching_epic:
  assumes "r \<in> set (all_matches rid f d)" and "lf_epics f"
  shows "i_number r \<in> set (parent_numbers rid d)"
proof -
  have "i_repo r = rid" "is_epic d r" using assms by (auto simp: all_matches_def issue_matches_def ready_blocked_filters_def split: if_splits)
  then show ?thesis by (force simp: is_epic_def exists_where_iff parent_numbers_def)
qed

lemma page_subset: "set (page f xs) \<subseteq> set xs"
  by (auto simp: page_def dest: in_set_takeD in_set_dropD)

lemma page_map: "page f (map g xs) = map g (page f xs)"
  by (simp add: page_def take_map drop_map)

text \<open>Any other query: the parsed filter decides the page, and the epics view adds the progress.\<close>

lemma issue_list_response:
  assumes "h_db h = ([], d)" and "repo_named owner (trim_suffix repo ''.git'') d = Some x"
  shows "case parse_list_filter q of
      Inl e \<Rightarrow> handle_list_issues owner repo q h = (Refuse 400 e, h)
    | Inr f \<Rightarrow> 0 \<le> lf_limit f \<and> 0 \<le> lf_offset f \<and> \<not> (lf_ready f \<and> lf_blocked f) \<and> \<not> (lf_epics f \<and> (lf_ready f \<or> lf_blocked f)) \<and>
        handle_list_issues owner repo q h =
          (Done (map (\<lambda>r. (scan_issue r)\<lparr>is_progress := if lf_epics f then Some (progress_of (children (r_id x) (i_number r) d)) else None\<rparr>)
             (page f (all_matches (r_id x) f d)), int (length (all_matches (r_id x) f d))), h)"
proof (cases "parse_list_filter q")
  case (Inl e)
  then show ?thesis by (simp add: handle_list_issues_def known_repo [OF assms] answer_def)
next
  case (Inr f)
  let ?all = "all_matches (r_id x) f d"
  have list: "list_issues (r_id x) f ([], d) = (Inr (map scan_issue (page f ?all)), ([], d))"
    by (simp add: list_issues_def all_matches_def page_map select_where_def)
  have count: "count_and_answer (r_id x) f js h = (Done (js, int (length ?all)), h)" for js
  proof -
    have "count_issues (r_id x) f ([], d) = (Inr (int (length ?all)), ([], d))"
      by (simp add: count_issues_def all_matches_def count_where_def)
    then show ?thesis by (simp add: count_and_answer_def call_reads [OF assms(1)] answer_def)
  qed
  let ?p = "map_of (map (\<lambda>p. (p, progress_of (children (r_id x) p d))) (remdups (parent_numbers (r_id x) d)))"
  have progress: "child_progress (r_id x) ([], d) = (Inr ?p, ([], d))" by (simp add: child_progress_def)
  have "with_progress ?p (scan_issue r) = (scan_issue r)\<lparr>is_progress := Some (progress_of (children (r_id x) (i_number r) d))\<rparr>"
    if "lf_epics f" and "r \<in> set (page f ?all)" for r
  proof -
    have "i_number r \<in> set (parent_numbers (r_id x) d)" by (rule matching_epic [OF subsetD [OF page_subset that(2)] that(1)])
    then have "?p (i_number r) = Some (progress_of (children (r_id x) (i_number r) d))"
      by (simp add: map_of_map_restrict)
    then show ?thesis by (simp add: with_progress_def scan_issue_def)
  qed
  then have epics: "map (with_progress ?p) (map scan_issue (page f ?all)) =
      map (\<lambda>r. (scan_issue r)\<lparr>is_progress := Some (progress_of (children (r_id x) (i_number r) d))\<rparr>) (page f ?all)" if "lf_epics f"
    using that by simp
  have plain: "map scan_issue (page f ?all) = map (\<lambda>r. (scan_issue r)\<lparr>is_progress := None\<rparr>) (page f ?all)"
    by (simp add: scan_issue_def)
  have "handle_list_issues owner repo q h =
          (Done (map (\<lambda>r. (scan_issue r)\<lparr>is_progress := if lf_epics f then Some (progress_of (children (r_id x) (i_number r) d)) else None\<rparr>)
             (page f ?all), int (length ?all)), h)"
    using epics plain by (simp add: handle_list_issues_def known_repo [OF assms] Inr call_reads [where m = "list_issues (r_id x) f", OF assms(1) list]
        call_reads [where m = "child_progress (r_id x)", OF assms(1) progress] count)
  with Inr parsed_filter [OF Inr] show ?thesis by simp
qed

section \<open>Reading all pages\<close>

lemma decimal_value_append: "decimal_value a (s @ t) = Option.bind (decimal_value a s) (\<lambda>b. decimal_value b t)"
  by (induction s arbitrary: a) simp_all

lemma digit_char:
  assumes "n < 10" shows "is_digit (char_of (48 + n))" and "of_char (char_of (48 + n) :: char) = (48 + n :: nat)"
proof -
  have "list_all (\<lambda>k. is_digit (char_of (48 + k))) [0..<10::nat]" by code_simp
  then show "is_digit (char_of (48 + n))" using assms unfolding list_all_iff by (simp only: set_upt atLeastLessThan_iff) simp
  show "of_char (char_of (48 + n) :: char) = (48 + n :: nat)" using assms by simp
qed

lemma decimal_digit: "n < 10 \<Longrightarrow> decimal_value a [char_of (48 + n)] = Some (10 * a + int n)"
  using digit_char [of n] by simp

lemma decimal_digits: "decimal_value 0 (digits n) = Some (int n)"
proof (induction n rule: digits.induct)
  case (1 n)
  show ?case
  proof (cases "n < 10")
    case True
    then show ?thesis using decimal_digit [of n 0] by simp
  next
    case False
    have "10 * (n div 10) + n mod 10 = n" by simp
    then have "10 * int (n div 10) + int (n mod 10) = int n" by (metis of_nat_add of_nat_mult of_nat_numeral)
    with 1 [OF False] False decimal_digit [of "n mod 10" "int (n div 10)"] show ?thesis
      by (simp add: decimal_value_append)
  qed
qed

lemma hd_digits: "digits n \<noteq> [] \<and> is_digit (hd (digits n))"
proof (induction n rule: digits.induct)
  case (1 n)
  then show ?case using digit_char(1) [of n] by (cases "n < 10") auto
qed

lemma atoi_itoa: "int n \<le> max_int \<Longrightarrow> atoi (itoa (int n)) = Some (int n)"
  using hd_digits [of n] decimal_digits [of n]
  by (cases "digits n") (auto simp: atoi_def itoa_def is_digit_def simp del: digits.simps)

lemma parse_state_names: "parse_issue_states (map issue_state_name sts) = Inr sts"
proof (induction sts)
  case (Cons s sts)
  have "trim_space (issue_state_name s) = issue_state_name s" by (cases s) (simp_all add: issue_state_name_def, code_simp+)
  moreover have "issue_state_of (issue_state_name s) = Some s" "issue_state_name s \<noteq> []"
    by (cases s; simp add: issue_state_name_def issue_state_of_def)+
  ultimately show ?case using Cons by simp
qed simp

text \<open>The query of a client that reads the pages of the issues in some states.\<close>

definition page_query :: "issue_state list \<Rightarrow> nat \<Rightarrow> nat \<Rightarrow> url_values" where
  "page_query sts l k = [''state'' \<mapsto> map issue_state_name sts, ''limit'' \<mapsto> [itoa (int l)], ''offset'' \<mapsto> [itoa (int (k * l))]]"

definition states_filter :: "issue_state list \<Rightarrow> list_filter" where
  "states_filter sts = \<lparr>lf_states = sts, lf_assignee = [], lf_author = [], lf_query = [], lf_label = [], lf_sort = None,
     lf_limit = 0, lf_offset = 0, lf_ready = False, lf_blocked = False, lf_epics = False\<rparr>"

lemma page_query_filter:
  assumes "int l \<le> max_int" and "int (k * l) \<le> max_int"
  shows "parse_list_filter (page_query sts l k) = Inr ((states_filter sts)\<lparr>lf_limit := int l, lf_offset := int (k * l)\<rparr>)"
proof -
  have "split_on CHR '','' (issue_state_name s) = [issue_state_name s]" for s
    by (cases s) (simp_all add: issue_state_name_def)
  then have "concat (map (split_on CHR '','') (map issue_state_name sts)) = map issue_state_name sts"
    by (induction sts) simp_all
  moreover have "trim_space [] = []" by code_simp
  moreover have "parse_bound (page_query sts l k) ''limit'' = Inr (int l)"
    "parse_bound (page_query sts l k) ''offset'' = Inr (int (k * l))"
    using atoi_itoa [OF assms(1)] atoi_itoa [OF assms(2)]
    by (simp_all add: parse_bound_def first_of_def values_of_def page_query_def del: of_nat_mult)
  ultimately show ?thesis
    by (simp add: parse_list_filter_def parse_sort_def query_bool_def first_of_def values_of_def page_query_def
        parse_state_names or_empty_def states_filter_def)
qed

lemma states_matches:
  "issue_matches rid (states_filter sts) d r \<longleftrightarrow> i_repo r = rid \<and> (sts = [] \<or> i_state r \<in> set sts)"
proof -
  have "search_terms [] = []" by (simp add: search_terms_def strings_fields_def)
  then show ?thesis by (auto simp: issue_matches_def states_filter_def issue_filters_def ready_blocked_filters_def)
qed

text \<open>C12: Reading the list endpoint page by page gets every issue once. On an engine that answers, over issue tables that
  satisfy their invariant and for a registered repository, a client that asks for \<open>limit=l&offset=k*l\<close>, with \<open>l\<close> from
  1 to the cap of 1000, and for the states it wants (none for all), gets for \<open>k = 0, 1, ...\<close> the consecutive stretches of
  one list: the issues of the repository in those states, and no others, by falling number; every page's total is the
  length of that list, its first \<open>total div l + 1\<close> pages joined are the whole of it, each issue comes as its row is,
  and no request changes anything.\<close>

theorem issue_list_pages:
  assumes "h_db h = ([], d)" and "issues_ok d" and "repo_named owner (trim_suffix repo ''.git'') d = Some x"
    and "0 < l" and "l \<le> 1000"
  shows "\<exists>all. set all = {r \<in> set (rows (issues d)). i_repo r = r_id x \<and> (sts = [] \<or> i_state r \<in> set sts)} \<and>
    sorted_wrt (\<lambda>a b. i_number b < i_number a) all \<and>
    (\<forall>k. int (k * l) \<le> max_int \<longrightarrow> handle_list_issues owner repo (page_query sts l k) h =
      (Done (map scan_issue (take l (drop (k * l) all)), int (length all)), h)) \<and>
    concat (map (\<lambda>k. take l (drop (k * l) all)) [0..<length all div l + 1]) = all"
proof -
  let ?f = "states_filter sts"
  let ?all = "all_matches (r_id x) ?f d"
  have "filter (issue_matches (r_id x) ?f d) (rows (issues d)) =
      filter (\<lambda>r. i_repo r = r_id x \<and> (sts = [] \<or> i_state r \<in> set sts)) (rows (issues d))"
    by (rule filter_cong) (simp_all add: states_matches)
  then have all: "set ?all = {r \<in> set (rows (issues d)). i_repo r = r_id x \<and> (sts = [] \<or> i_state r \<in> set sts)}"
    "sorted_wrt (\<lambda>a b. i_number b < i_number a) ?all"
    using sorted_numbers_fall [OF assms(2), of "issue_order ?f" "r_id x" "\<lambda>r. sts = [] \<or> i_state r \<in> set sts"]
    by (simp_all add: all_matches_def issue_order_def states_filter_def title_hits_def search_terms_def strings_fields_def)
  have page: "handle_list_issues owner repo (page_query sts l k) h = (Done (map scan_issue (take l (drop (k * l) ?all)), int (length ?all)), h)"
    if k: "int (k * l) \<le> max_int" for k
  proof -
    obtain g where g: "g = ?f\<lparr>lf_limit := int l, lf_offset := int (k * l)\<rparr>" by simp
    have parse: "parse_list_filter (page_query sts l k) = Inr g"
      using page_query_filter [OF _ k] assms(5) unfolding g by (simp add: max_int_def del: of_nat_mult)
    have rows: "list_issues (r_id x) g ([], d) = (Inr (map scan_issue (take l (drop (k * l) ?all))), ([], d))"
      unfolding g by (rule list_issues_page [OF assms(4,5)])
    have count: "count_issues (r_id x) g ([], d) = (Inr (int (length ?all)), ([], d))"
      unfolding g by (simp add: count_issues_def all_matches_def count_where_def del: of_nat_mult)
    have plain: "\<not> lf_epics g" by (simp add: g states_filter_def del: of_nat_mult)
    show ?thesis
      using plain by (simp add: handle_list_issues_def known_repo [OF assms(1,3)] parse call_reads [where m = "list_issues (r_id x) g", OF assms(1) rows]
          count_and_answer_def call_reads [where m = "count_issues (r_id x) g", OF assms(1) count] answer_def)
  qed
  have "length ?all \<le> (length ?all div l + 1) * l"
    using assms(4) by (metis add.commute dividend_less_div_times less_imp_le mult.commute mult_Suc_right plus_1_eq_Suc)
  then have "concat (map (\<lambda>k. take l (drop (k * l) ?all)) [0..<length ?all div l + 1]) = ?all"
    by (subst concat_pages [OF assms(4)]) simp
  with all page show ?thesis by blast
qed

section \<open>Whose name a write carries\<close>

lemma created_issue:
  assumes "create_issue rid req (fs, d) = (Inr i, s)"
  shows "is_author i = cir_author req \<and> is_title i = cir_title req"
proof -
  obtain gs d' where s: "s = (gs, d')" by (cases s)
  have ins: "is_author i = cir_author req \<and> is_title i = cir_title req"
    if "exec (insert_issue rid n req parent) (\<lambda>r. ok (scan_issue r)) (gs, d) = (Inr i, s')" for n parent gs s'
    using that by (elim exec_InrE) (auto simp: insert_issue_def mk_issue_def scan_issue_def insert_row_def Let_def split: if_splits)
  obtain gs1 gs2 where b: "(case cir_parent req of
          None \<Rightarrow> exec (insert_issue rid (next_number i_repo i_number rid (issues d)) req None) (\<lambda>r. ok (scan_issue r))
        | Some p \<Rightarrow> if 0 < p then query (issue_exists rid p) (\<lambda>found.
                if found then exec (insert_issue rid (next_number i_repo i_number rid (issues d)) req (Some p)) (\<lambda>r. ok (scan_issue r)) else err ErrInvalidInput)
            else exec (insert_issue rid (next_number i_repo i_number rid (issues d)) req None) (\<lambda>r. ok (scan_issue r))) (gs1, d) = (Inr i, (gs2, d'))"
    using assms [unfolded s create_issue_def Let_def] by (elim tx_InrE query_InrE) (rule that, assumption)
  show ?thesis
  proof (cases "cir_parent req")
    case None
    with b show ?thesis by (auto dest: ins)
  next
    case (Some p)
    show ?thesis
    proof (cases "0 < p")
      case True
      with b Some obtain gs3 where "(if issue_exists rid p d then exec (insert_issue rid (next_number i_repo i_number rid (issues d)) req (Some p)) (\<lambda>r. ok (scan_issue r))
          else err ErrInvalidInput) (gs3, d) = (Inr i, (gs2, d'))" by (auto elim: query_InrE)
      then show ?thesis by (auto dest: ins split: if_splits)
    next
      case False
      with b Some show ?thesis by (auto dest: ins)
    qed
  qed
qed

lemma claimed_issue:
  assumes "claim rid n a st lease (fs, d) = (Inr i, s)" and "issues_ok d"
  shows "is_assignee i = Some a"
proof -
  obtain gs d' where s: "s = (gs, d')" by (cases s)
  let ?P = "\<lambda>r. issue_at rid n r \<and> claimable a lease (now d) r"
  let ?d = "d\<lparr>issues := update_where ?P (take_claim a st (now d)) (issues d)\<rparr>"
  obtain gs1 gs2 where b: "(if count_where ?P (issues d) = 0 then
         query (issue_exists rid n) (\<lambda>found. if found then err ErrAlreadyClaimed else err ErrNotFound)
       else query (select_issue rid n) (\<lambda>r. case r of None \<Rightarrow> err ErrNoRows | Some r \<Rightarrow> ok (scan_issue r))) (gs1, ?d) = (Inr i, (gs2, d'))"
    using assms(1) [unfolded s claim_def] by (elim tx_InrE exec_InrE) (auto simp: claim_row_def Let_def)
  have n: "count_where ?P (issues d) \<noteq> 0"
    using b by (auto elim!: query_InrE split: if_splits)
  then obtain r0 where r0: "r0 \<in> set (rows (issues d))" "?P r0" unfolding count_where_0 exists_where_iff by auto
  then have "select_issue rid n d = Some r0" using select_issue_unique [OF assms(2)] by (simp add: issue_at_def)
  then have "select_issue rid n ?d = Some (take_claim a st (now d) r0)"
    using r0(2) by (subst select_issue_update) (simp_all add: take_claim_def)
  with b n show ?thesis by (auto simp: take_claim_def scan_issue_def elim!: query_InrE)
qed

lemma created_comment: "create_comment iid a b (fs, d) = (Inr c, s) \<Longrightarrow> c_author c = a \<and> c_body c = b"
  by (auto simp: create_comment_def insert_comment_def mk_comment_def insert_row_def Let_def elim!: exec_InrE split: if_splits)

lemma emit_answers: "emit env ty rid a data (answer x) h = (y, h') \<Longrightarrow> y = x"
  by (auto simp: emit_def answer_def elim: callE)

lemma looked_up:
  assumes "lookup_repo_or_fail owner repo refuse k h = y"
  obtains (refused) e m where "fst y = refuse e m" | (found) rid fs where "k rid (h\<lparr>h_db := (fs, snd (h_db h))\<rparr>) = y"
proof -
  obtain r fs d where l: "lookup_repo owner (trim_suffix repo ''.git'') (h_db h) = (r, (fs, d))"
    "(case r of Inl e \<Rightarrow> answer (if e = ErrNotFound then refuse 404 (not_registered owner (trim_suffix repo ''.git'')) else refuse 500 ''internal error'')
        | Inr rid \<Rightarrow> k rid) (h\<lparr>h_db := (fs, d)\<rparr>) = y"
    using assms [unfolded lookup_repo_or_fail_def Let_def] by (rule callE)
  have "d = snd (h_db h)" using lookup_repo_reads [of owner "trim_suffix repo ''.git''" "fst (h_db h)" "snd (h_db h)" r fs d] l(1) by simp
  with l(2) refused found show ?thesis by (cases r) (auto simp: answer_def split: if_splits)
qed

lemma numbered: "with_number num msg k h = y \<Longrightarrow> (\<exists>c m. fst y = Refuse c m) \<or> (\<exists>n. num = Some n \<and> 0 < n \<and> k n h = y)"
  by (auto simp: with_number_def answer_def split: option.splits if_splits)

lemma bodied: "with_body body k h = y \<Longrightarrow> (\<exists>c m. fst y = Refuse c m) \<or> (\<exists>b. body = Some b \<and> k b h = y)"
  by (auto simp: with_body_def answer_def split: option.splits)

lemma answered: "answer x h = (y, h') \<longleftrightarrow> y = x \<and> h' = h"
  by (auto simp: answer_def)

lemma internal_not_done [simp]: "internal \<noteq> Done x" "Done x \<noteq> internal"
  by (simp_all add: internal_def)

lemma create_endpoint:
  assumes "handle_create_issue env owner repo body tok h = (Done i, h')"
  shows "is_author i = identity_from_context tok \<and> is_title i \<noteq> []"
  using assms unfolding handle_create_issue_def
proof (cases rule: looked_up)
  case (found rid fs)
  from bodied [OF this] obtain req where "body = Some req" and b: "(let req = req\<lparr>cir_title := trim_space (cir_title req), cir_author := identity_from_context tok\<rparr> in
        if cir_title req = [] then answer (Refuse 400 ''title is required'')
        else if (case cir_parent req of None \<Rightarrow> False | Some p \<Rightarrow> p < 0) then answer (Refuse 400 ''parent must be a positive issue number'')
        else call (create_issue rid req) (\<lambda>r. case r of
            Inl e \<Rightarrow> answer (if e = ErrInvalidInput then Refuse 400 ''parent issue not found in this repo'' else internal)
          | Inr i \<Rightarrow> emit env ''issue.created'' rid (is_author i) [(''number'', JInt (is_number i)), (''title'', JStr (is_title i))] (answer (Done i))))
      (h\<lparr>h_db := (fs, snd (h_db h))\<rparr>) = (Done i, h')" by auto
  let ?req = "req\<lparr>cir_title := trim_space (cir_title req), cir_author := identity_from_context tok\<rparr>"
  from b have t: "cir_title ?req \<noteq> []" by (simp add: Let_def answered split: if_splits)
  from b have "call (create_issue rid ?req) (\<lambda>r. case r of
            Inl e \<Rightarrow> answer (if e = ErrInvalidInput then Refuse 400 ''parent issue not found in this repo'' else internal)
          | Inr i \<Rightarrow> emit env ''issue.created'' rid (is_author i) [(''number'', JInt (is_number i)), (''title'', JStr (is_title i))] (answer (Done i)))
      (h\<lparr>h_db := (fs, snd (h_db h))\<rparr>) = (Done i, h')" by (simp add: Let_def answered split: if_splits)
  then obtain r gs d where r: "create_issue rid ?req (fs, snd (h_db h)) = (r, (gs, d))" and k: "(case r of
            Inl e \<Rightarrow> answer (if e = ErrInvalidInput then Refuse 400 ''parent issue not found in this repo'' else internal)
          | Inr i \<Rightarrow> emit env ''issue.created'' rid (is_author i) [(''number'', JInt (is_number i)), (''title'', JStr (is_title i))] (answer (Done i)))
      (h\<lparr>h_db := (gs, d)\<rparr>) = (Done i, h')" by (elim callE) simp
  from k obtain i' where "r = Inr i'" by (cases r) (simp_all add: answered split: if_splits)
  with k have "i' = i" by (auto dest: emit_answers)
  with created_issue r \<open>r = Inr i'\<close> t show ?thesis by fastforce
qed auto

lemma claim_endpoint:
  assumes "handle_claim_issue env lease owner repo num body tok h = (Done i, h')" and "issues_ok (snd (h_db h))"
  shows "is_assignee i = Some (identity_from_context tok)"
proof -
  let ?who = "identity_from_context tok"
  let ?k = "\<lambda>rid n r. case r of
             Inl e \<Rightarrow> answer (if e = ErrNotFound then Refuse 404 ''issue not found''
               else if e = ErrAlreadyClaimed then Refuse 409 ''issue already claimed'' else internal)
           | Inr i \<Rightarrow> emit env ''issue.claimed'' rid ?who [(''number'', JInt (is_number i)), (''state'', JStr (issue_state_name (is_state i)))] (answer (Done i))"
  obtain n st where l: "lookup_repo_or_fail owner repo Refuse (\<lambda>rid. call (claim rid n ?who (issue_state_of st) lease) (?k rid n)) h = (Done i, h')"
    using assms(1) unfolding handle_claim_issue_def Let_def
    by (auto simp: answered split: if_splits dest!: numbered bodied)
  then show ?thesis
  proof (cases rule: looked_up)
    case (found rid fs)
    obtain r gs d where r: "claim rid n ?who (issue_state_of st) lease (fs, snd (h_db h)) = (r, (gs, d))"
      and k: "?k rid n r (h\<lparr>h_db := (gs, d)\<rparr>) = (Done i, h')" using found by (elim callE) simp
    obtain i' where i': "r = Inr i'" using k by (cases r) (simp_all add: answered split: if_splits)
    with k have "i' = i" by (auto dest: emit_answers)
    with claimed_issue [OF r [unfolded i'] assms(2)] show ?thesis by simp
  qed auto
qed

lemma issue_found:
  assumes "issue_or_fail rid n k h = (Done x, h')"
  obtains i fs d where "k i (h\<lparr>h_db := (fs, d)\<rparr>) = (Done x, h')"
proof -
  obtain r fs d where k: "(case r of Inl e \<Rightarrow> answer (if e = ErrNotFound then Refuse 404 ''issue not found'' else internal) | Inr i \<Rightarrow> k i)
      (h\<lparr>h_db := (fs, d)\<rparr>) = (Done x, h')" using assms [unfolded issue_or_fail_def] by (rule callE)
  then show ?thesis using that by (cases r) (auto simp: answered split: if_splits)
qed

lemma comment_endpoint:
  assumes "handle_create_comment env owner repo num body tok h = (Done c, h')"
  shows "c_author c = identity_from_context tok \<and> c_body c \<noteq> []"
proof -
  let ?who = "identity_from_context tok"
  define k :: "string \<Rightarrow> db_error + comment_row \<Rightarrow> comment_row reply srv" where "k = (\<lambda>b r. case r of
            Inl e \<Rightarrow> answer (if e = ErrInvalidInput then Refuse 400 ''invalid input'' else internal)
          | Inr c \<Rightarrow> call (lookup_repo owner (trim_suffix repo ''.git'')) (\<lambda>l. case l of
              Inl _ \<Rightarrow> answer (Done c)
            | Inr rid \<Rightarrow> emit env ''issue.commented'' rid (c_author c)
                [(''number'', JInt (case num of None \<Rightarrow> 0 | Some n \<Rightarrow> n)), (''comment_id'', JInt (c_id c))] (answer (Done c))))"
  define w where "w = (\<lambda>iid. with_body body (\<lambda>b. (let b = trim_space b in
        if b = [] then answer (Refuse 400 ''body is required'') else call (create_comment iid ?who b) (k b))))"
  from assms obtain n where l: "lookup_repo_or_fail owner repo Refuse (\<lambda>rid. issue_or_fail rid n (\<lambda>i. w (is_id i))) h = (Done c, h')"
    unfolding handle_create_comment_def lookup_issue_or_fail_def w_def k_def by (auto dest!: numbered)
  then show ?thesis
  proof (cases rule: looked_up)
    case (found rid fs)
    then obtain i :: issue and gs :: "bool list" and d :: db where "w (is_id i) (h\<lparr>h_db := (fs, snd (h_db h))\<rparr>\<lparr>h_db := (gs, d)\<rparr>) = (Done c, h')"
      by (rule issue_found)
    then obtain b where b: "b \<noteq> []" "call (create_comment (is_id i) ?who b) (k b) (h\<lparr>h_db := (gs, d)\<rparr>) = (Done c, h')"
      unfolding w_def by (auto simp: Let_def answered split: if_splits dest!: bodied)
    obtain r gs' d' where r: "create_comment (is_id i) ?who b (gs, d) = (r, (gs', d'))" and kb: "k b r (h\<lparr>h_db := (gs', d')\<rparr>) = (Done c, h')"
      using b(2) by (elim callE) simp
    obtain c' where c': "r = Inr c'" using kb unfolding k_def by (cases r) (simp_all add: answered split: if_splits)
    have "c' = c" using kb c' unfolding k_def
      by (auto elim!: callE simp: answered split: sum.splits dest: emit_answers)
    with created_comment [OF r [unfolded c']] b(1) show ?thesis by simp
  qed auto
qed

text \<open>C13: A write carries the name behind the token and no other: whatever the body says and however the engine
  fails, an issue the create endpoint answers with is authored by the caller and has a title, an issue
  the claim endpoint answers with is assigned to the caller, and a comment is the caller's and not
  empty.\<close>

theorem writes_carry_the_token:
  assumes "issues_ok (snd (h_db h))"
  shows "(fst (handle_create_issue env owner repo body tok h) = Done i \<longrightarrow> is_author i = identity_from_context tok \<and> is_title i \<noteq> []) \<and>
    (fst (handle_claim_issue env lease owner repo num st tok h) = Done j \<longrightarrow> is_assignee j = Some (identity_from_context tok)) \<and>
    (fst (handle_create_comment env owner repo num cbody tok h) = Done c \<longrightarrow> c_author c = identity_from_context tok \<and> c_body c \<noteq> [])"
  using create_endpoint [of env owner repo body tok h i] claim_endpoint [of env lease owner repo num st tok h j, OF _ assms]
    comment_endpoint [of env owner repo num cbody tok h c]
  by (simp add: prod_eq_iff)

text \<open>A host with a repository and three issues, the second claimed by bob.\<close>

definition demo_api_host :: host where
  "demo_api_host = \<lparr>h_db = ([], demo_issues\<lparr>users := \<lparr>rows = [\<lparr>u_id = 1, u_name = ''alice'', u_created = 0, u_password = None\<rparr>], seqno = 1\<rparr>\<rparr>),
     h_git = ([], Map.empty), h_executing = Map.empty, h_mirrored = []\<rparr>"

definition demo_bob :: "api_token option" where
  "demo_bob = Some \<lparr>tk_id = 7, tk_name = ''bob'', tk_user = [], tk_created = 0, tk_last_used = None, tk_revoked = None\<rparr>"

fun listed :: "(issue list \<times> int) reply \<Rightarrow> (int list \<times> int) option" where
  "listed (Done (js, n)) = Some (map is_number js, n)"
| "listed _ = None"

theorem issue_list_pages_witness:
  "\<exists>js. handle_list_issues ''alice'' ''w.git'' (page_query [IssueTodo, IssueInProgress] 2 1) demo_api_host = (Done (js, 4), demo_api_host) \<and>
    map is_number js = [2, 1]"
proof -
  have h: "h_db demo_api_host = ([], snd (h_db demo_api_host))" by (simp add: demo_api_host_def)
  have "issues (snd (h_db demo_api_host)) = issues demo_issues" by (simp add: demo_api_host_def)
  then have ok: "issues_ok (snd (h_db demo_api_host))" using demo_issues_ok by (simp add: issues_ok_def)
  have l: "listed (fst (handle_list_issues ''alice'' ''w.git'' (page_query [IssueTodo, IssueInProgress] 2 1) demo_api_host)) = Some ([2, 1], 4)" by code_simp
  have "map_option r_id (repo_named ''alice'' (trim_suffix ''w.git'' ''.git'') (snd (h_db demo_api_host))) = Some 1" by code_simp
  then obtain x where x: "repo_named ''alice'' (trim_suffix ''w.git'' ''.git'') (snd (h_db demo_api_host)) = Some x" by blast
  have "int (1 * 2) \<le> max_int" by (simp add: max_int_def)
  with issue_list_pages [OF h ok x, of 2 "[IssueTodo, IssueInProgress]"] obtain js n where
    "handle_list_issues ''alice'' ''w.git'' (page_query [IssueTodo, IssueInProgress] 2 1) demo_api_host = (Done (js, n), demo_api_host)"
    by fastforce
  with l show ?thesis by simp
qed

theorem writes_carry_the_token_witness:
  "\<exists>i j c. fst (handle_create_issue demo_env ''alice'' ''w'' (Some demo_issue_req) demo_bob demo_api_host) = Done i \<and> is_author i = ''bob'' \<and>
    fst (handle_claim_issue demo_env 0 ''alice'' ''w'' (Some 1) (Some '''') demo_bob demo_api_host) = Done j \<and> is_assignee j = Some ''bob'' \<and>
    fst (handle_create_comment demo_env ''alice'' ''w'' (Some 1) (Some '' hi '') demo_bob demo_api_host) = Done c \<and> c_author c = ''bob''"
proof -
  have "issues (snd (h_db demo_api_host)) = issues demo_issues" by (simp add: demo_api_host_def)
  then have ok: "issues_ok (snd (h_db demo_api_host))" using demo_issues_ok by (simp add: issues_ok_def)
  have "case fst (handle_create_issue demo_env ''alice'' ''w'' (Some demo_issue_req) demo_bob demo_api_host) of Done _ \<Rightarrow> True | _ \<Rightarrow> False"
    "case fst (handle_claim_issue demo_env 0 ''alice'' ''w'' (Some 1) (Some '''') demo_bob demo_api_host) of Done _ \<Rightarrow> True | _ \<Rightarrow> False"
    "case fst (handle_create_comment demo_env ''alice'' ''w'' (Some 1) (Some '' hi '') demo_bob demo_api_host) of Done _ \<Rightarrow> True | _ \<Rightarrow> False"
    by code_simp+
  then obtain i j c where e: "fst (handle_create_issue demo_env ''alice'' ''w'' (Some demo_issue_req) demo_bob demo_api_host) = Done i"
    "fst (handle_claim_issue demo_env 0 ''alice'' ''w'' (Some 1) (Some '''') demo_bob demo_api_host) = Done j"
    "fst (handle_create_comment demo_env ''alice'' ''w'' (Some 1) (Some '' hi '') demo_bob demo_api_host) = Done c"
    by (auto split: reply.splits)
  have "identity_from_context demo_bob = ''bob''" by (simp add: identity_from_context_def demo_bob_def)
  with writes_carry_the_token [OF ok, of demo_env "''alice''" "''w''" "Some demo_issue_req" demo_bob i 0 "Some 1" "Some ''''" j "Some '' hi ''" c] e
  show ?thesis by auto
qed

end
