(* ===== verification/RunApi.thy ===== *)
theory RunApi imports IssueApi EventLog AgentRuns begin

text \<open>
  The run and agent endpoints of \<open>internal/server/ci.go\<close>, \<open>agent.go\<close>, \<open>settings.go\<close> and the cross-repository
  lists of \<open>aggregate.go\<close>: listing, reading, rerunning, triggering, canceling and streaming runs, spawning an
  agent on an issue, its turns, and the operator's settings. \<open>git rev-parse -q --verify <ref>^{commit}\<close> is the
  parameter \<open>peel\<close> and \<open>%q\<close> the parameter \<open>quote\<close>; the number in the path is what \<open>strconv.Atoi\<close> makes of it.
\<close>

section \<open>Wire forms\<close>

record api_run =
  ar_number :: int
  ar_kind :: string
  ar_issue :: "int option"
  ar_model :: string
  ar_profile :: string
  ar_sha :: string
  ar_msg :: string
  ar_author :: string
  ar_ref :: string
  ar_event :: string
  ar_trigger :: string
  ar_status :: string
  ar_created :: int
  ar_started :: "int option"
  ar_finished :: "int option"

record api_job =
  aj_name :: string
  aj_needs :: "string list"
  aj_status :: string
  aj_exit :: "int option"
  aj_started :: "int option"
  aj_finished :: "int option"

record api_turn =
  at_seq :: int
  at_author :: string
  at_body :: string
  at_status :: string
  at_created :: int
  at_finished :: "int option"

record run_detail =
  rd_run :: api_run
  rd_jobs :: "api_job list"
  rd_turns :: "api_turn list"

definition run_kind_name :: "run_kind \<Rightarrow> string" where
  "run_kind_name k = (case k of RunKindCI \<Rightarrow> ''ci'' | RunKindAgent \<Rightarrow> ''agent'' | RunKindSpecVerify \<Rightarrow> ''spec-verify'')"

definition job_status_name :: "job_status \<Rightarrow> string" where
  "job_status_name s = (case s of JobQueued \<Rightarrow> ''queued'' | JobRunning \<Rightarrow> ''running'' | JobSuccess \<Rightarrow> ''success'' | JobFailed \<Rightarrow> ''failed''
     | JobSkipped \<Rightarrow> ''skipped'' | JobError \<Rightarrow> ''error'' | JobInterrupted \<Rightarrow> ''interrupted'')"

definition turn_status_name :: "turn_status \<Rightarrow> string" where
  "turn_status_name s = (case s of TurnPending \<Rightarrow> ''pending'' | TurnRunning \<Rightarrow> ''running'' | TurnDone \<Rightarrow> ''done'' | TurnError \<Rightarrow> ''error'')"

definition to_api_run :: "run_row \<Rightarrow> api_run" where
  "to_api_run r = \<lparr>ar_number = ru_number r, ar_kind = run_kind_name (ru_kind r), ar_issue = ru_issue r, ar_model = ru_model r,
     ar_profile = ru_profile r, ar_sha = ru_sha r, ar_msg = ru_msg r, ar_author = ru_author r, ar_ref = ru_ref r, ar_event = ru_event r,
     ar_trigger = ru_trigger r, ar_status = run_status_name (ru_status r), ar_created = ru_created r, ar_started = ru_started r,
     ar_finished = ru_finished r\<rparr>"

definition to_api_job :: "job_row \<Rightarrow> api_job" where
  "to_api_job j = \<lparr>aj_name = j_name j, aj_needs = j_needs j, aj_status = job_status_name (j_status j), aj_exit = j_exit j,
     aj_started = j_started j, aj_finished = j_finished j\<rparr>"

definition to_api_turn :: "turn_row \<Rightarrow> api_turn" where
  "to_api_turn t = \<lparr>at_seq = tn_seq t, at_author = tn_author t, at_body = tn_body t, at_status = turn_status_name (tn_status t),
     at_created = tn_created t, at_finished = tn_finished t\<rparr>"

section \<open>Run lists\<close>

definition run_kind_of :: "string \<Rightarrow> run_kind option" where
  "run_kind_of s = find (\<lambda>k. run_kind_name k = s) [RunKindCI, RunKindAgent, RunKindSpecVerify]"

definition run_status_of :: "string \<Rightarrow> run_status option" where
  "run_status_of s = find (\<lambda>x. run_status_name x = s) [RunQueued, RunRunning, RunAwaitingInput, RunFinishing, RunSuccess, RunFailed,
     RunCanceled, RunError, RunInterrupted, RunStalled]"

text \<open>The filter is text and is compared with the column: \<open>None\<close> stands for one that no row can match, a kind that
  does not exist or statuses of which none does.\<close>

definition parse_run_filter :: "url_values \<Rightarrow> string + run_filter option" where
  "parse_run_filter q =
     (let kind = or_empty (first_of q ''kind''); lim = or_empty (first_of q ''limit'');
          states = filter (\<lambda>s. s \<noteq> []) (map trim_space (split_on CHR '','' (or_empty (first_of q ''state''))));
          known = List.map_filter run_status_of states
      in if lim \<noteq> [] \<and> (case atoi lim of None \<Rightarrow> True | Some n \<Rightarrow> n < 0) then Inl ''invalid limit''
         else if kind \<noteq> [] \<and> run_kind_of kind = None \<or> states \<noteq> [] \<and> known = [] then Inr None
         else Inr (Some \<lparr>rf_kind = run_kind_of kind, rf_statuses = known, rf_query = or_empty (first_of q ''q''),
           rf_limit = (case atoi lim of None \<Rightarrow> 0 | Some n \<Rightarrow> n)\<rparr>))"

definition runs_or_none :: "('f \<Rightarrow> (db, 'a list) dbm) \<Rightarrow> 'f option \<Rightarrow> (db, 'a list) dbm" where
  "runs_or_none list f = (case f of None \<Rightarrow> query (\<lambda>_. []) ok | Some f \<Rightarrow> list f)"

definition handle_list_ci_runs :: "string \<Rightarrow> string \<Rightarrow> url_values \<Rightarrow> api_run list reply srv" where
  "handle_list_ci_runs owner repo q =
     lookup_repo_or_fail owner repo Refuse (\<lambda>rid. case parse_run_filter q of
         Inl e \<Rightarrow> answer (Refuse 400 e)
       | Inr f \<Rightarrow> call (runs_or_none (list_runs rid) f) (\<lambda>r. answer (case r of Inl _ \<Rightarrow> internal | Inr rs \<Rightarrow> Done (map to_api_run rs))))"

definition handle_list_all_runs :: "url_values \<Rightarrow> (api_run \<times> string \<times> string) list reply srv" where
  "handle_list_all_runs q = (case parse_run_filter q of
     Inl e \<Rightarrow> answer (Refuse 400 e)
   | Inr f \<Rightarrow> call (runs_or_none list_all_runs f) (\<lambda>r. answer (case r of
       Inl _ \<Rightarrow> internal | Inr rs \<Rightarrow> Done (map (\<lambda>(run, o1, nm). (to_api_run run, o1, nm)) rs))))"

section \<open>One run\<close>

definition run_or_fail :: "string \<Rightarrow> string \<Rightarrow> int option \<Rightarrow> (int \<Rightarrow> run_row \<Rightarrow> 'b reply srv) \<Rightarrow> 'b reply srv" where
  "run_or_fail owner repo num k =
     lookup_repo_or_fail owner repo Refuse (\<lambda>rid. with_number num ''invalid run number'' (\<lambda>n.
     call (get_run rid n) (\<lambda>r. case r of
         Inl e \<Rightarrow> answer (if e = ErrNotFound then Refuse 404 ''run not found'' else internal) | Inr run \<Rightarrow> k rid run)))"

definition handle_get_ci_run :: "string \<Rightarrow> string \<Rightarrow> int option \<Rightarrow> run_detail reply srv" where
  "handle_get_ci_run owner repo num =
     run_or_fail owner repo num (\<lambda>rid run.
     call (list_jobs (ru_id run)) (\<lambda>r. case r of Inl _ \<Rightarrow> answer internal | Inr js \<Rightarrow>
       let detail = \<lparr>rd_run = to_api_run run, rd_jobs = map to_api_job js, rd_turns = []\<rparr> in
       if is_agent (ru_kind run)
       then call (list_turns (ru_id run)) (\<lambda>r. answer (case r of Inl _ \<Rightarrow> internal | Inr ts \<Rightarrow> Done (detail\<lparr>rd_turns := map to_api_turn ts\<rparr>)))
       else answer (Done detail)))"

text \<open>The tail of the endpoints that enqueue a run: the event, and the new run as the answer.\<close>

definition enqueue_and_answer :: "server_env \<Rightarrow> int \<Rightarrow> new_run \<Rightarrow> api_run reply srv" where
  "enqueue_and_answer env rid nr = call (enqueue_run rid nr) (\<lambda>r. case r of
     Inl _ \<Rightarrow> answer internal | Inr run \<Rightarrow> emit_run_queued env rid run (answer (Done (to_api_run run))))"

definition ci_enabled_or_fail :: "int \<Rightarrow> 'b reply srv \<Rightarrow> 'b reply srv" where
  "ci_enabled_or_fail rid k = call (repo_ci_enabled rid) (\<lambda>r. case r of
     Inl _ \<Rightarrow> answer internal | Inr enabled \<Rightarrow> if enabled then k else answer (Refuse 409 ''CI is disabled for this repo''))"

definition handle_rerun_ci_run :: "server_env \<Rightarrow> string \<Rightarrow> string \<Rightarrow> int option \<Rightarrow> api_token option \<Rightarrow> api_run reply srv" where
  "handle_rerun_ci_run env owner repo num tok =
     run_or_fail owner repo num (\<lambda>rid src.
     ci_enabled_or_fail rid (enqueue_and_answer env rid
       \<lparr>nr_kind = None, nr_issue = None, nr_model = '''', nr_profile = '''', nr_spec = '''', nr_sha = ru_sha src, nr_msg = ru_msg src,
        nr_author = ru_author src, nr_ref = ru_ref src, nr_event = ru_event src, nr_trigger = identity_from_context tok\<rparr>))"

definition resolved_or_fail :: "(string \<Rightarrow> string) \<Rightarrow> (string \<Rightarrow> string option) \<Rightarrow> string \<Rightarrow> (string \<Rightarrow> 'b reply srv) \<Rightarrow> 'b reply srv" where
  "resolved_or_fail quote peel ref k = (let sha = trim_space (or_empty (peel ref)) in
     if sha = [] then answer (Refuse 400 (''cannot peel ref '' @ quote ref)) else k sha)"

definition handle_trigger_ci_run ::
  "server_env \<Rightarrow> (string \<Rightarrow> string) \<Rightarrow> (string \<Rightarrow> string option) \<Rightarrow> string \<Rightarrow> string \<Rightarrow> string option \<Rightarrow> api_token option \<Rightarrow> api_run reply srv" where
  "handle_trigger_ci_run env quote peel owner repo body tok =
     lookup_repo_or_fail owner repo Refuse (\<lambda>rid. case body of
         None \<Rightarrow> answer (Refuse 400 ''invalid request body'')
       | Some b \<Rightarrow> (let ref = trim_space b in
           if ref = [] then answer (Refuse 400 ''ref is required'')
           else if has_prefix ref ''-'' then answer (Refuse 400 ''invalid ref'')
           else ci_enabled_or_fail rid (resolved_or_fail quote peel ref (\<lambda>sha.
             enqueue_and_answer env rid (ref_run env ref sha ''manual'' (identity_from_context tok))))))"

section \<open>Agents\<close>

definition exec_model_claude_edit :: string where
  "exec_model_claude_edit = ''claude-edit''"

definition valid_execution_model :: "string \<Rightarrow> bool" where
  "valid_execution_model m \<longleftrightarrow> m = exec_model_claude_edit"

record spawn_agent_request =
  sa_ref :: string
  sa_model :: string
  sa_profile :: string

text \<open>The body of a spawn: absent or empty, not JSON, or a request.\<close>

datatype spawn_body = NoSpawnBody | BadSpawnBody | SpawnBody spawn_agent_request

definition empty_spawn :: spawn_agent_request where
  "empty_spawn = \<lparr>sa_ref = [], sa_model = [], sa_profile = []\<rparr>"

definition agent_run :: "server_env \<Rightarrow> issue \<Rightarrow> string \<Rightarrow> string \<Rightarrow> string \<Rightarrow> string \<Rightarrow> string \<Rightarrow> new_run" where
  "agent_run env i model profile ref sha trigger = (ref_run env ref sha ''agent'' trigger)\<lparr>nr_kind := Some RunKindAgent,
     nr_issue := Some (is_number i), nr_model := model, nr_profile := profile\<rparr>"

definition spawn_with :: "server_env \<Rightarrow> (string \<Rightarrow> string) \<Rightarrow> (string \<Rightarrow> string option) \<Rightarrow> int \<Rightarrow> issue \<Rightarrow> string \<Rightarrow> string \<Rightarrow> string \<Rightarrow> api_token option \<Rightarrow> api_run reply srv" where
  "spawn_with env quote peel rid i ref model profile tok =
     (if \<not> valid_execution_model model then answer (Refuse 400 (''invalid execution model '' @ quote model))
      else if \<not> valid_tool_profile profile then answer (Refuse 400 (''invalid tool profile '' @ quote profile))
      else resolved_or_fail quote peel ref (\<lambda>sha.
        call (enqueue_run rid (agent_run env i model profile ref sha (identity_from_context tok))) (\<lambda>r. answer (case r of
          Inl _ \<Rightarrow> internal | Inr run \<Rightarrow> Done (to_api_run run)))))"

definition handle_spawn_agent ::
  "server_env \<Rightarrow> (string \<Rightarrow> string) \<Rightarrow> (string \<Rightarrow> string option) \<Rightarrow> string \<Rightarrow> string \<Rightarrow> int option \<Rightarrow> spawn_body \<Rightarrow> api_token option \<Rightarrow> api_run reply srv" where
  "handle_spawn_agent env quote peel owner repo num body tok =
     lookup_repo_or_fail owner repo Refuse (\<lambda>rid. with_number num ''invalid issue number'' (\<lambda>n.
     issue_or_fail rid n (\<lambda>i.
       if body = BadSpawnBody then answer (Refuse 400 ''invalid request body'')
       else (let req = (case body of SpawnBody b \<Rightarrow> b | _ \<Rightarrow> empty_spawn);
                 ref = (if trim_space (sa_ref req) = [] then ''HEAD'' else trim_space (sa_ref req));
                 asked = trim_space (sa_model req);
                 profile = (if trim_space (sa_profile req) = [] then default_tool_profile else trim_space (sa_profile req))
             in if has_prefix ref ''-'' then answer (Refuse 400 ''invalid ref'')
                else if asked \<noteq> [] then spawn_with env quote peel rid i ref asked profile tok
                else call (setting_value ''agent.execution_model'') (\<lambda>r.
                  let set = lenient r in
                  spawn_with env quote peel rid i ref (if set = [] then default_execution_model else set) profile tok)))))"

definition handle_create_agent_turn :: "string \<Rightarrow> string \<Rightarrow> int option \<Rightarrow> string option \<Rightarrow> api_token option \<Rightarrow> api_turn reply srv" where
  "handle_create_agent_turn owner repo num body tok =
     lookup_repo_or_fail owner repo Refuse (\<lambda>rid. with_number num ''invalid run number'' (\<lambda>n. case body of
         None \<Rightarrow> answer (Refuse 400 ''invalid request body'')
       | Some b \<Rightarrow> if trim_space b = [] then answer (Refuse 400 ''text is required'')
           else call (get_run rid n) (\<lambda>r. case r of
               Inl e \<Rightarrow> answer (if e = ErrNotFound then Refuse 404 ''run not found'' else internal)
             | Inr run \<Rightarrow>
                 if ru_kind run \<noteq> RunKindAgent then answer (Refuse 400 ''not an agent run'')
                 else if run_terminal (ru_status run) then answer (Refuse 409 ''agent run has finished'')
                 else call (enqueue_turn (ru_id run) (identity_from_context tok) (trim_space b)) (\<lambda>r. answer (case r of
                     Inl _ \<Rightarrow> internal | Inr t \<Rightarrow> Done (to_api_turn t))))))"

definition handle_finish_agent_run :: "string \<Rightarrow> string \<Rightarrow> int option \<Rightarrow> api_run reply srv" where
  "handle_finish_agent_run owner repo num =
     run_or_fail owner repo num (\<lambda>rid run.
       if ru_kind run \<noteq> RunKindAgent then answer (Refuse 400 ''not an agent run'')
       else call (mark_run_finishing (ru_id run)) (\<lambda>r. answer (case r of
           Inl e \<Rightarrow> if e = ErrNotFound then Refuse 409 ''run is not awaiting input (busy or already finished)'' else internal
         | Inr _ \<Rightarrow> Done (to_api_run (run\<lparr>ru_status := RunFinishing\<rparr>)))))"

text \<open>\<open>ciRunner.CancelCIRun\<close>, with its result.\<close>

definition stop_ci_run :: "int \<Rightarrow> (bool \<Rightarrow> 'b srv) \<Rightarrow> 'b srv" where
  "stop_ci_run rid k = (\<lambda>h. if h_executing h rid \<noteq> None then k True (h\<lparr>h_executing := (h_executing h)(rid \<mapsto> True)\<rparr>)
     else call (cancel_ci_run rid) (\<lambda>r. k (case r of Inl _ \<Rightarrow> False | Inr _ \<Rightarrow> True)) h)"

text \<open>Agent runs are stopped on the host of the agents \<open>ah\<close>, which shares the database with the server; the answer
  holds it as the stop left it.\<close>

definition stop_on_agents :: "agent_host \<Rightarrow> int \<Rightarrow> (bool \<Rightarrow> agent_host \<Rightarrow> 'b srv) \<Rightarrow> 'b srv" where
  "stop_on_agents ah rid k = (\<lambda>h. case stop_agent_run rid (ah\<lparr>ah_db := h_db h\<rparr>) of (stopped, ah') \<Rightarrow> k stopped ah' (h\<lparr>h_db := ah_db ah'\<rparr>))"

definition handle_cancel_run :: "server_env \<Rightarrow> agent_host \<Rightarrow> string \<Rightarrow> string \<Rightarrow> int option \<Rightarrow> (api_run \<times> agent_host) reply srv" where
  "handle_cancel_run env ah owner repo num =
     run_or_fail owner repo num (\<lambda>rid run.
       let reply = (\<lambda>stopped ah'. answer (if stopped then Done (to_api_run (run\<lparr>ru_status := RunCanceled\<rparr>), ah')
             else Refuse 409 ''run is already finished''))
       in if \<not> se_runner env then answer (Refuse 503 ''cancel unavailable (no runner)'')
          else if is_agent (ru_kind run) then stop_on_agents ah (ru_id run) reply
          else stop_ci_run (ru_id run) (\<lambda>stopped. reply stopped ah))"

section \<open>The operator's settings\<close>

record agent_settings_view =
  av_token_set :: bool
  av_env_fallback :: bool
  av_model :: string
  av_base_url :: string
  av_auth_set :: bool

definition setting_set :: "string \<Rightarrow> (db, bool) dbm" where
  "setting_set key = attempt (get_setting key) (\<lambda>r. ok (case r of Inl _ \<Rightarrow> False | Inr _ \<Rightarrow> True))"

text \<open>\<open>fallback\<close> says that the server's own configuration holds a credential.\<close>

definition view_agent_settings :: "bool \<Rightarrow> (db, agent_settings_view) dbm" where
  "view_agent_settings fallback =
     bind (setting_set ''agent.claude_oauth_token'') (\<lambda>token. bind (setting_value ''agent.execution_model'') (\<lambda>model.
     bind (setting_value ''agent.llm_base_url'') (\<lambda>url. bind (setting_set ''agent.anthropic_auth_token'') (\<lambda>auth.
       ok \<lparr>av_token_set = token, av_env_fallback = fallback, av_model = model, av_base_url = url, av_auth_set = auth\<rparr>))))"

definition handle_get_agent_settings :: "bool \<Rightarrow> agent_settings_view reply srv" where
  "handle_get_agent_settings fallback = call (view_agent_settings fallback) (\<lambda>r. answer (case r of Inl _ \<Rightarrow> internal | Inr v \<Rightarrow> Done v))"

record update_settings_request =
  us_token :: "string option"
  us_model :: "string option"
  us_base_url :: "string option"
  us_auth :: "string option"

definition set_or_clear_setting :: "string \<Rightarrow> string \<Rightarrow> (db, unit) dbm" where
  "set_or_clear_setting key v = (if v = [] then delete_setting key else set_setting key v)"

definition update_setting :: "string \<Rightarrow> string option \<Rightarrow> 'b reply srv \<Rightarrow> 'b reply srv" where
  "update_setting key v k = (case v of
     None \<Rightarrow> k
   | Some v \<Rightarrow> call (set_or_clear_setting key (trim_space v)) (\<lambda>r. case r of Inl _ \<Rightarrow> answer internal | Inr _ \<Rightarrow> k))"

definition bad_model :: "update_settings_request \<Rightarrow> bool" where
  "bad_model req = (case us_model req of None \<Rightarrow> False | Some m \<Rightarrow> trim_space m \<noteq> [] \<and> \<not> valid_execution_model (trim_space m))"

definition handle_update_agent_settings :: "bool \<Rightarrow> update_settings_request option \<Rightarrow> agent_settings_view reply srv" where
  "handle_update_agent_settings fallback body = (case body of
     None \<Rightarrow> answer (Refuse 400 ''invalid request body'')
   | Some req \<Rightarrow>
       update_setting ''agent.claude_oauth_token'' (us_token req)
       (if bad_model req then answer (Refuse 400 ''invalid execution model'')
        else update_setting ''agent.execution_model'' (us_model req)
          (update_setting ''agent.llm_base_url'' (us_base_url req)
          (update_setting ''agent.anthropic_auth_token'' (us_auth req) (handle_get_agent_settings fallback)))))"

section \<open>The event stream of a job\<close>

definition parse_last_event_id :: "string \<Rightarrow> url_values \<Rightarrow> int" where
  "parse_last_event_id header q = (let v = (if header = [] then or_empty (first_of q ''last_event_id'') else header) in
     case atoi (trim_space v) of None \<Rightarrow> 0 | Some n \<Rightarrow> if n < 0 then 0 else n)"

definition job_exists :: "job_row list \<Rightarrow> string \<Rightarrow> bool" where
  "job_exists js nm = list_ex (\<lambda>j. j_name j = nm) js"

definition safe_job_name :: "string \<Rightarrow> bool" where
  "safe_job_name nm \<longleftrightarrow> nm \<noteq> [] \<and> nm \<noteq> ''.'' \<and> nm \<noteq> ''..'' \<and> CHR ''/'' \<notin> set nm \<and> CHR 0x5C \<notin> set nm"

text \<open>What is written to the response.\<close>

datatype 'd sse = SseEvent "'d event" | SseResume | SsePing

definition sse_text :: "('d event \<Rightarrow> string) \<Rightarrow> 'd sse \<Rightarrow> string" where
  "sse_text enc f = (case f of
     SseEvent e \<Rightarrow> ''id: '' @ itoa (ev_seq e) @ [newline] @ ''event: '' @ ev_type e @ [newline] @ ''data: '' @ enc e @ [newline, newline]
   | SseResume \<Rightarrow> ''event: resume'' @ [newline, newline]
   | SsePing \<Rightarrow> '': ping'' @ [newline, newline])"

text \<open>What one turn of the loop sees: the log when it is read, the run's status (\<open>None\<close> when reading it fails), the log
  when a finished run's is drained, whether the response has been open long enough, and whether the client leaves
  during the pause.\<close>

record poll =
  po_file :: "string option"
  po_status :: "run_status option"
  po_tail :: "string option"
  po_expired :: bool
  po_gone :: bool

definition run_resting :: "run_status option \<Rightarrow> bool" where
  "run_resting st = (case st of None \<Rightarrow> False | Some s \<Rightarrow> run_terminal s \<or> s = RunAwaitingInput)"

fun send_new :: "int \<Rightarrow> 'd event list \<Rightarrow> 'd event list \<times> int" where
  "send_new seen [] = ([], seen)"
| "send_new seen (e # es) = (if ev_seq e \<le> seen then send_new seen es else (case send_new (ev_seq e) es of (xs, l) \<Rightarrow> (e # xs, l)))"

fun job_stream :: "(string \<Rightarrow> 'd event option) \<Rightarrow> nat \<Rightarrow> int \<Rightarrow> poll list \<Rightarrow> 'd sse list" where
  "job_stream dec off seen [] = []"
| "job_stream dec off seen (p # ps) = (case read_events dec (po_file p) off of (evs, off', okay) \<Rightarrow>
     if \<not> okay then []
     else (case send_new seen evs of (new, seen') \<Rightarrow> map SseEvent new @
       (if run_resting (po_status p) then (case read_events dec (po_tail p) off' of (rest, _, okay) \<Rightarrow>
          if okay then map SseEvent (fst (send_new seen' rest)) else [])
        else if po_expired p then [SseResume]
        else if po_gone p then []
        else SsePing # job_stream dec off' seen' ps)))"

text \<open>The path of the log is validated before it is opened: either the job is known, or the run is live and the name is
  a single path component.\<close>

definition handle_ci_job_events ::
  "(string \<Rightarrow> 'd event option) \<Rightarrow> string \<Rightarrow> (string list \<Rightarrow> poll list) \<Rightarrow> string \<Rightarrow> string \<Rightarrow> int option \<Rightarrow> string \<Rightarrow> string \<Rightarrow> url_values \<Rightarrow> 'd sse list reply srv" where
  "handle_ci_job_events dec data_dir polls owner repo num job header q =
     run_or_fail owner repo num (\<lambda>rid run.
     call (list_jobs (ru_id run)) (\<lambda>r. answer (case r of
         Inl _ \<Rightarrow> internal
       | Inr js \<Rightarrow> if \<not> job_exists js job \<and> (run_terminal (ru_status run) \<or> \<not> safe_job_name job) then Refuse 404 ''job not found''
           else Done (job_stream dec 0 (parse_last_event_id header q)
             (polls (event_log_path data_dir owner (trim_suffix repo ''.git'') (ru_number run) job))))))"

section \<open>A stream that is cut and resumed\<close>

fun stream_events :: "'d sse list \<Rightarrow> 'd event list" where
  "stream_events [] = []"
| "stream_events (SseEvent e # fs) = e # stream_events fs"
| "stream_events (_ # fs) = stream_events fs"

text \<open>An \<open>EventSource\<close>: every response may end early, after the frames that arrived; the next request carries the id of
  the last event that did.\<close>

definition last_id :: "int \<Rightarrow> 'd event list \<Rightarrow> int" where
  "last_id seen es = (if es = [] then seen else ev_seq (last es))"

definition cut_at_frame :: "nat option \<Rightarrow> 'd sse list \<Rightarrow> 'd sse list" where
  "cut_at_frame n fs = (case n of None \<Rightarrow> fs | Some n \<Rightarrow> take n fs)"

fun follow :: "(string \<Rightarrow> 'd event option) \<Rightarrow> int \<Rightarrow> (poll list \<times> nat option) list \<Rightarrow> 'd event list" where
  "follow dec seen [] = []"
| "follow dec seen ((polls, n) # rs) =
     (let es = stream_events (cut_at_frame n (job_stream dec 0 seen polls)) in es @ follow dec (last_id seen es) rs)"

text \<open>A log that holds the first \<open>k\<close> events and perhaps a part of the next line; the logs of a response grow.\<close>

definition log_shows :: "('d event \<Rightarrow> string) \<Rightarrow> 'd event list \<Rightarrow> nat \<Rightarrow> string option \<Rightarrow> bool" where
  "log_shows enc evs k f \<longleftrightarrow> k \<le> length evs \<and>
     (case f of None \<Rightarrow> k = 0 | Some s \<Rightarrow> \<exists>part. s = lines_of enc (take k evs) @ part \<and> newline \<notin> set part)"

fun log_grows :: "('d event \<Rightarrow> string) \<Rightarrow> 'd event list \<Rightarrow> nat \<Rightarrow> poll list \<Rightarrow> bool" where
  "log_grows enc evs k [] \<longleftrightarrow> True"
| "log_grows enc evs k (p # ps) \<longleftrightarrow> (\<exists>m t. k \<le> m \<and> m \<le> t \<and> log_shows enc evs m (po_file p) \<and> log_shows enc evs t (po_tail p) \<and> log_grows enc evs m ps)"

definition numbered_events :: "'d event list \<Rightarrow> bool" where
  "numbered_events evs \<longleftrightarrow> (\<forall>i<length evs. ev_seq (evs ! i) = int (Suc i))"

lemma stream_events_append: "stream_events (xs @ ys) = stream_events xs @ stream_events ys"
  by (induction xs rule: stream_events.induct) auto

lemma stream_events_map [simp]: "stream_events (map SseEvent es) = es"
  by (induction es) auto

lemma stream_events_take: "\<exists>m. stream_events (take n fs) = take m (stream_events fs)"
proof (induction fs arbitrary: n rule: stream_events.induct)
  case (2 e fs)
  show ?case
  proof (cases n)
    case (Suc n')
    with 2 obtain m where "stream_events (take n' fs) = take m (stream_events fs)" by blast
    with Suc have "stream_events (take n (SseEvent e # fs)) = take (Suc m) (stream_events (SseEvent e # fs))" by simp
    then show ?thesis by blast
  qed (auto intro: exI [of _ 0])
qed (auto simp: take_Cons' intro: exI [of _ 0])

lemma read_shown:
  assumes "codec_ok enc dec evs" and "log_shows enc evs k f" and "j \<le> k"
  shows "read_events dec f (length (lines_of enc (take j evs))) = (drop j (take k evs), length (lines_of enc (take k evs)), True)"
proof (cases f)
  case None
  with assms have "k = 0" "j = 0" by (auto simp: log_shows_def)
  with None show ?thesis by (simp add: read_events_def)
next
  case (Some s)
  with assms(2) obtain part where s: "s = lines_of enc (take k evs) @ part" "newline \<notin> set part" by (auto simp: log_shows_def)
  have "take k evs = take j evs @ drop j (take k evs)" using assms(3) by (metis append_take_drop_id min.absorb1 take_take)
  then have split: "lines_of enc (take k evs) = lines_of enc (take j evs) @ lines_of enc (drop j (take k evs))"
    unfolding lines_of_def by (metis concat_append map_append)
  have "set (drop j (take k evs)) \<subseteq> set evs" by (meson order_trans set_drop_subset set_take_subset)
  then have "codec_ok enc dec (drop j (take k evs))" using assms(1) by (auto simp: codec_ok_def list_all_iff)
  from read_loop_lines [OF this] s(2) show ?thesis by (simp add: Some read_events_def s(1) split read_loop_none)
qed

lemma send_new_above:
  assumes "numbered_events evs" and "k \<le> length evs"
  shows "j \<le> k \<Longrightarrow> j \<le> l \<Longrightarrow> send_new (int l) (drop j (take k evs)) = (drop l (take k evs), int (max l k))"
proof (induction "k - j" arbitrary: j l)
  case 0
  then show ?case by simp
next
  case (Suc n)
  then have "j < k" by simp
  then have d: "drop j (take k evs) = evs ! j # drop (Suc j) (take k evs)" and seq: "ev_seq (evs ! j) = int (Suc j)"
    using assms by (simp_all add: Cons_nth_drop_Suc [symmetric] numbered_events_def)
  show ?case
  proof (cases "l = j")
    case True
    have IH: "send_new (int (Suc j)) (drop (Suc j) (take k evs)) = (drop (Suc j) (take k evs), int (max (Suc j) k))"
      using Suc.hyps(1) [of "Suc j" "Suc j"] Suc.hyps(2) \<open>j < k\<close> by linarith
    have "send_new (int l)
 (drop j (take k evs)) = (evs ! j # drop (Suc j) (take k evs), int (max (Suc j) k))"
      using IH True by (simp add: d seq)
    with True \<open>j < k\<close> show ?thesis by (simp add: d [symmetric] max_def)
  next
    case False
    then have "Suc j \<le> l" using Suc by simp
    have IH: "send_new (int l) (drop (Suc j) (take k evs)) = (drop l (take k evs), int (max l k))"
      using Suc.hyps(1) [of "Suc j" l] Suc.hyps(2) \<open>j < k\<close> \<open>Suc j \<le> l\<close> by linarith
    with \<open>Suc j \<le> l\<close> show ?thesis by (simp add: d seq)
  qed
qed

lemma join_segments: "k \<le> t \<Longrightarrow> drop l (take k xs) @ drop (max l k) (take t xs) = drop l (take t xs)"
proof (cases "l \<le> k")
  case True
  assume "k \<le> t"
  then have "take t xs = take k xs @ drop k (take t xs)" by (metis append_take_drop_id min.absorb1 take_take)
  then have "drop l (take t xs) = drop l (take k xs) @ drop (l - length (take k xs)) (drop k (take t xs))" by (metis drop_append)
  moreover have "drop (l - length (take k xs)) (drop k (take t xs)) = drop k (take t xs)"
    using True by (cases "k \<le> length xs") auto
  ultimately show ?thesis using True by (simp add: max_absorb2)
next
  case False
  then show ?thesis by (simp add: max_absorb1)
qed

lemma segment_max: "drop l (take k xs) = drop l (take (max l k) xs)"
  by (cases "l \<le> k") (simp_all add: max_absorb1 max_absorb2)

definition poll_live :: "poll \<Rightarrow> bool" where
  "poll_live p \<longleftrightarrow> \<not> run_resting (po_status p) \<and> \<not> po_expired p \<and> \<not> po_gone p"

lemma job_stream_poll:
  assumes "codec_ok enc dec evs" and "numbered_events evs" and "log_shows enc evs k (po_file p)" and "log_shows enc evs t (po_tail p)"
    and "j \<le> k" and "k \<le> t" and "j \<le> l"
  shows "stream_events (job_stream dec (length (lines_of enc (take j evs))) (int l) (p # ps)) =
    drop l (take k evs) @ (if run_resting (po_status p) then drop (max l k) (take t evs)
      else if po_expired p \<or> po_gone p then []
      else stream_events (job_stream dec (length (lines_of enc (take k evs))) (int (max l k)) ps))"
proof -
  have n: "k \<le> length evs" "t \<le> length evs" using assms(3,4) by (auto simp: log_shows_def)
  have rest: "send_new (int (max l k)) (drop k (take t evs)) = (drop (max l k) (take t evs), int (max (max l k) t))"
    by (rule send_new_above [OF assms(2) n(2) assms(6)]) simp
  show ?thesis
    by (simp add: read_shown [OF assms(1,3,5)] read_shown [OF assms(1,4,6)] send_new_above [OF assms(2) n(1) assms(5,7)] rest
        stream_events_append del: of_nat_max)
qed

lemma job_stream_segment:
  assumes "codec_ok enc dec evs" and "numbered_events evs"
  shows "log_grows enc evs j ps \<Longrightarrow> j \<le> l \<Longrightarrow> l \<le> length evs \<Longrightarrow>
    \<exists>m. l \<le> m \<and> m \<le> length evs \<and> stream_events (job_stream dec (length (lines_of enc (take j evs))) (int l) ps) = drop l (take m evs)"
proof (induction ps arbitrary: j l)
  case Nil
  then show ?case by (intro exI [of _ l]) simp
next
  case (Cons p ps)
  then obtain k t where kt: "j \<le> k" "k \<le> t" "log_shows enc evs k (po_file p)" "log_shows enc evs t (po_tail p)" and g: "log_grows enc evs k ps" by auto
  have n: "k \<le> length evs" "t \<le> length evs" using kt by (auto simp: log_shows_def)
  note poll = job_stream_poll [OF assms kt(3,4,1,2) Cons.prems(2), of ps]
  consider (rest) "run_resting (po_status p)" | (over) "\<not> run_resting (po_status p)" "po_expired p \<or> po_gone p"
    | (live) "\<not> run_resting (po_status p)" "\<not> (po_expired p \<or> po_gone p)" by blast
  then show ?case
  proof cases
    case rest
    then show ?thesis using n Cons.prems(3) unfolding poll
      by (intro exI [of _ "max l t"]) (simp add: join_segments [OF kt(2)] segment_max [of l t])
  next
    case over
    then show ?thesis using n Cons.prems(3) unfolding poll
      by (intro exI [of _ "max l k"]) (simp add: segment_max [of l k])
  next
    case live
    obtain m where m: "max l k \<le> m" "m \<le> length evs"
      "stream_events (job_stream dec (length (lines_of enc (take k evs))) (int (max l k)) ps) = drop (max l k) (take m evs)"
      using Cons.IH [OF g, of "max l k"] n Cons.prems(3) by auto
    show ?thesis using live m n Cons.prems(3) unfolding poll
      by (intro exI [of _ m]) (simp add: join_segments del: of_nat_max)
  qed
qed

lemma job_stream_complete:
  assumes "codec_ok enc dec evs" and "numbered_events evs" and "run_resting (po_status p)" and "log_shows enc evs (length evs) (po_tail p)"
  shows "log_grows enc evs j (ps @ [p]) \<Longrightarrow> list_all poll_live ps \<Longrightarrow> j \<le> l \<Longrightarrow>
    stream_events (job_stream dec (length (lines_of enc (take j evs))) (int l) (ps @ [p])) = drop l evs"
proof (induction ps arbitrary: j l)
  case Nil
  then obtain k where k: "j \<le> k" "log_shows enc evs k (po_file p)" by auto
  then have n: "k \<le> length evs" by (simp add: log_shows_def)
  from job_stream_poll [OF assms(1,2) k(2) assms(4) k(1) n Nil.prems(3), of "[]"] assms(3) join_segments [OF n, of l evs] show ?case
    by (simp del: job_stream.simps)
next
  case (Cons q ps)
  then obtain k t where kt: "j \<le> k" "k \<le> t" "log_shows enc evs k (po_file q)" "log_shows enc evs t (po_tail q)" and g: "log_grows enc evs k (ps @ [p])" by auto
  have n: "k \<le> length evs" using kt by (simp add: log_shows_def)
  have live: "poll_live q" "list_all poll_live ps" using Cons.prems by simp_all
  have "stream_events (job_stream dec (length (lines_of enc (take k evs))) (int (max l k)) (ps @ [p])) = drop (max l k) evs"
    using Cons.IH [OF g live(2), of "max l k"] by simp
  with job_stream_poll [OF assms(1,2) kt(3,4,1,2) Cons.prems(3), of "ps @ [p]"] live(1) join_segments [OF n, of l evs] show ?case
    by (simp add: poll_live_def del: of_nat_max)
qed

lemma follow_append:
  "follow dec seen (xs @ ys) = follow dec seen xs @ follow dec (last_id seen (follow dec seen xs)) ys"
proof (induction xs arbitrary: seen)
  case (Cons x xs)
  obtain polls n where x: "x = (polls, n)" by (cases x)
  let ?es = "stream_events (cut_at_frame n (job_stream dec 0 seen polls))"
  have "last_id (last_id seen ?es) zs = last_id seen (?es @ zs)" for zs by (simp add: last_id_def)
  with Cons show ?case by (simp add: x Let_def)
qed (simp add: last_id_def)

lemma last_id_segment:
  assumes "numbered_events evs" and "l \<le> m" and "m \<le> length evs"
  shows "last_id (int l) (drop l (take m evs)) = int m"
proof (cases "l = m")
  case False
  then have "drop l (take m evs) \<noteq> []" "last (drop l (take m evs)) = evs ! (m - 1)"
    using assms by (simp_all add: last_conv_nth nth_append)
  with False assms show ?thesis by (simp add: last_id_def numbered_events_def)
qed (simp add: last_id_def)

lemma follow_segment:
  assumes "codec_ok enc dec evs" and "numbered_events evs"
  shows "list_all (\<lambda>(ps, n). log_grows enc evs 0 ps) rs \<Longrightarrow> l \<le> length evs \<Longrightarrow>
    \<exists>m. l \<le> m \<and> m \<le> length evs \<and> follow dec (int l) rs = drop l (take m evs)"
proof (induction rs arbitrary: l)
  case Nil
  then show ?case by (intro exI [of _ l]) simp
next
  case (Cons r rs)
  obtain ps n where r: "r = (ps, n)" by (cases r)
  let ?fs = "job_stream dec 0 (int l) ps"
  from Cons.prems r have g: "log_grows enc evs 0 ps" "list_all (\<lambda>(ps, n). log_grows enc evs 0 ps) rs" by simp_all
  obtain m where m: "l \<le> m" "m \<le> length evs" "stream_events ?fs = drop l (take m evs)"
    using job_stream_segment [OF assms g(1), of l] Cons.prems(2) by (auto simp: lines_of_def)
  obtain c where c: "stream_events (cut_at_frame n ?fs) = take c (stream_events ?fs)"
    using stream_events_take [of _ ?fs] that [of "length (stream_events ?fs)"]
    by (cases n) (auto simp: cut_at_frame_def)
  define k where "k = min m (l + c)"
  have k: "l \<le> k" "k \<le> length evs" using m by (simp_all add: k_def)
  have es: "stream_events (cut_at_frame n ?fs) = drop l (take k evs)"
    unfolding c m(3) by (simp add: k_def take_drop ac_simps)
  obtain m' where m': "k \<le> m'" "m' \<le> length evs" "follow dec (int k) rs = drop k (take m' evs)"
    using Cons.IH [OF g(2) k(2)] by blast
  have "follow dec (int l) (r # rs) = drop l (take k evs) @ drop k (take m' evs)"
    by (simp add: r Let_def es last_id_segment [OF assms(2) k] m'(3))
  also have "\<dots> = drop l (take m' evs)" using join_segments [OF m'(1), of l evs] k(1) by (simp add: max_absorb2)
  finally show ?case using k(1) m'(1,2) by (intro exI [of _ m']) simp
qed

text \<open>C31: A client of a job's event stream that resumes with the id of the last event it received sees the log, whatever
  happens on the way: over any number of responses, each ended by the server after its two seconds, by the run coming
  to rest, by the client, or cut after any frame, and while the runner appends to the log, the events received are an
  initial part of the log, every event once and in order; and they are the whole log as soon as one response is
  delivered up to its end by a run at rest whose final drain finds every event.\<close>

theorem job_stream_resumes:
  assumes "codec_ok enc dec evs" and "numbered_events evs" and "list_all (\<lambda>(ps, n). log_grows enc evs 0 ps) rs"
  shows "(\<exists>k \<le> length evs. follow dec 0 rs = take k evs) \<and>
    (list_all poll_live ps \<and> run_resting (po_status p) \<and> log_shows enc evs (length evs) (po_tail p) \<and> log_grows enc evs 0 (ps @ [p]) \<longrightarrow>
      follow dec 0 (rs @ [(ps @ [p], None)]) = evs)"
proof -
  obtain k where k: "k \<le> length evs" "follow dec 0 rs = take k evs" using follow_segment [OF assms, of 0] by auto
  have seen: "last_id 0 (take k evs) = int k" using last_id_segment [OF assms(2), of 0 k] k(1) by simp
  have "follow dec 0 (rs @ [(ps @ [p], None)]) = evs"
    if "list_all poll_live ps" "run_resting (po_status p)" "log_shows enc evs (length evs) (po_tail p)" "log_grows enc evs 0 (ps @ [p])"
    using job_stream_complete [OF assms(1,2) that(2,3,4,1), of k] by (simp add: follow_append k(2) seen cut_at_frame_def lines_of_def)
  with k show ?thesis by blast
qed

text \<open>Three events; the first response is cut after one of two, the second ended by the server, the third after the run.\<close>

definition demo_events :: "unit event list" where
  "demo_events = [demo_event 1, demo_event 2, demo_event 3]"

definition demo_poll :: "nat \<Rightarrow> run_status \<Rightarrow> poll" where
  "demo_poll n st = \<lparr>po_file = Some (lines_of demo_enc (take n demo_events) @ ''4''), po_status = Some st,
     po_tail = Some (lines_of demo_enc demo_events), po_expired = False, po_gone = False\<rparr>"

theorem job_stream_resumes_witness:
  "follow demo_dec 0 ([([demo_poll 2 RunRunning], Some 1), ([(demo_poll 2 RunRunning)\<lparr>po_expired := True\<rparr>], None)] @
     [([demo_poll 1 RunRunning] @ [demo_poll 2 RunSuccess], None)]) = demo_events"
proof -
  have c: "codec_ok demo_enc demo_dec demo_events" by code_simp
  have n: "numbered_events demo_events" by (simp add: numbered_events_def demo_events_def demo_event_def less_Suc_eq)
  have len: "length demo_events = 3" by (simp add: demo_events_def)
  have part: "newline \<notin> set ''4''" "newline \<notin> set ''''" by (simp_all add: newline_def)
  have fl: "log_shows demo_enc demo_events m (po_file (demo_poll m st))" if "m \<le> 3" for m st
    using that part unfolding log_shows_def demo_poll_def by (auto simp: len)
  have tail: "log_shows demo_enc demo_events 3 (po_tail (demo_poll m st))" for m st
    unfolding log_shows_def demo_poll_def by (simp add: len)
  have one: "log_grows demo_enc demo_events k [demo_poll m st]" if "k \<le> m" "m \<le> 3" for k m st
    using that fl tail by (simp only: log_grows.simps) blast
  have two: "log_grows demo_enc demo_events 0 [(demo_poll 2 RunRunning)\<lparr>po_expired := True\<rparr>]"
    using fl [of 2 RunRunning] tail [of 2 RunRunning] by (simp add: exI [of _ 2] exI [of _ 3])
  have three: "log_grows demo_enc demo_events 0 ([demo_poll 1 RunRunning] @ [demo_poll 2 RunSuccess])"
    using fl [of 1 RunRunning] tail [of 1 RunRunning] one [of 1 2 RunSuccess]
    by (simp only: append.simps log_grows.simps(2) [of _ _ _ _ "[_]"]) (intro exI [of _ 1] exI [of _ 3] conjI; simp)
  have live: "list_all poll_live [demo_poll 1 RunRunning]" by (simp add: poll_live_def demo_poll_def run_resting_def)
  have rest: "run_resting (po_status (demo_poll 2 RunSuccess))" by (simp add: demo_poll_def run_resting_def)
  show ?thesis
    using job_stream_resumes [OF c n, of "[([demo_poll 2 RunRunning], Some 1), ([(demo_poll 2 RunRunning)\<lparr>po_expired := True\<rparr>], None)]"
        "[demo_poll 1 RunRunning]" "demo_poll 2 RunSuccess"]
      one [of 0 2 RunRunning] two three live rest tail [of 2 RunSuccess] by (simp add: len del: follow.simps log_grows.simps)
qed

end
