(* ===== verification/RepoApi.thy ===== *)
theory RepoApi imports RunApi begin

text \<open>
  The repository, token, key and account endpoints: \<open>internal/server/repos.go\<close>, \<open>tokens.go\<close>, \<open>ssh_keys.go\<close>,
  \<open>auth_accounts.go\<close> and the rest of \<open>auth.go\<close>. The disk of the server is the set of its paths; an operation on it
  fails when the next entry of \<open>dk_fails\<close> says so and then changes nothing. What git writes into a new repository
  beside \<open>HEAD\<close> is not part of the disk.
\<close>

section \<open>Branch patterns\<close>

definition max_protected_refs :: nat where
  "max_protected_refs = 32"

definition max_protected_ref_len :: nat where
  "max_protected_ref_len = 200"

definition split_patterns :: "string \<Rightarrow> string list" where
  "split_patterns stored = filter (\<lambda>l. l \<noteq> []) (map trim_space (split_on newline stored))"

fun check_patterns :: "string list \<Rightarrow> string + string list" where
  "check_patterns [] = Inr []"
| "check_patterns (p # ps) = (let p = trim_space p in
     if p = [] then check_patterns ps
     else if max_protected_ref_len < length p then Inl ''branch pattern is longer than 200 characters''
     else if list_ex (\<lambda>c. c \<in> {newline, CHR 0x0D, CHR 0x00}) p then Inl ''branch pattern must be a single line''
     else (case check_patterns ps of Inl e \<Rightarrow> Inl e | Inr out \<Rightarrow> Inr (p # out)))"

definition join_patterns :: "string list \<Rightarrow> string + string" where
  "join_patterns ps = (case check_patterns ps of
     Inl e \<Rightarrow> Inl e
   | Inr out \<Rightarrow> if max_protected_refs < length out
       then Inl (''at most 32 branch patterns (got '' @ itoa (int (length out)) @ '')'') else Inr (join [newline] out))"

section \<open>Repositories\<close>

record api_repo =
  ap_id :: int
  ap_owner :: string
  ap_name :: string
  ap_created :: int
  ap_open_issues :: int
  ap_total_issues :: int
  ap_ci_enabled :: bool
  ap_require_approval :: bool
  ap_protected_refs :: "string list"
  ap_ci_status :: string
  ap_ci_number :: int
  ap_open_pulls :: int
  ap_open_reviews :: int
  ap_active_agents :: int
  ap_visibility :: string

definition to_api_repo :: "repo_summary \<Rightarrow> api_repo" where
  "to_api_repo s = \<lparr>ap_id = rs_id s, ap_owner = rs_owner s, ap_name = rs_name s, ap_created = rs_created s,
     ap_open_issues = rs_open_issues s, ap_total_issues = rs_total_issues s, ap_ci_enabled = rs_ci_enabled s,
     ap_require_approval = rs_require_approval s, ap_protected_refs = split_patterns (rs_protected_refs s),
     ap_ci_status = (case rs_ci_status s of None \<Rightarrow> [] | Some st \<Rightarrow> run_status_name st), ap_ci_number = rs_ci_number s,
     ap_open_pulls = rs_open_pulls s, ap_open_reviews = rs_open_reviews s, ap_active_agents = rs_active_agents s,
     ap_visibility = (if rs_visibility s = [] then ''public'' else rs_visibility s)\<rparr>"

definition handle_list_repos :: "api_token option \<Rightarrow> api_repo list reply srv" where
  "handle_list_repos tok = call (list_repos_for_caller (identity_from_context tok))
     (\<lambda>r. answer (case r of Inl _ \<Rightarrow> internal | Inr ss \<Rightarrow> Done (map to_api_repo ss)))"

definition repo_missing :: "string \<Rightarrow> string \<Rightarrow> db_error \<Rightarrow> 'a reply" where
  "repo_missing owner repo e = (if e = ErrNotFound then Refuse 404 (not_registered owner repo) else internal)"

definition handle_get_repo :: "string \<Rightarrow> string \<Rightarrow> api_repo reply srv" where
  "handle_get_repo owner repo = (let repo = trim_suffix repo ''.git'' in
     call (get_repo_summary owner repo) (\<lambda>r. answer (case r of Inl e \<Rightarrow> repo_missing owner repo e | Inr s \<Rightarrow> Done (to_api_repo s))))"

definition valid_repo_component :: "string \<Rightarrow> bool" where
  "valid_repo_component s \<longleftrightarrow> s \<noteq> [] \<and> s \<noteq> ''.'' \<and> s \<noteq> ''..'' \<and> length s \<le> 100 \<and>
     list_all (\<lambda>c. is_word c \<or> c = CHR ''.'' \<or> c = CHR ''-'') s"

record disk =
  dk_paths :: "string list set"
  dk_fails :: "bool list"

definition disk_op :: "(string list set \<Rightarrow> string list set) \<Rightarrow> disk \<Rightarrow> bool \<times> disk" where
  "disk_op f d = (case dk_fails d of
     [] \<Rightarrow> (True, d\<lparr>dk_paths := f (dk_paths d)\<rparr>)
   | True # fs \<Rightarrow> (False, d\<lparr>dk_fails := fs\<rparr>)
   | False # fs \<Rightarrow> (True, d\<lparr>dk_paths := f (dk_paths d), dk_fails := fs\<rparr>))"

definition and_then :: "(disk \<Rightarrow> bool \<times> disk) \<Rightarrow> (disk \<Rightarrow> bool \<times> disk) \<Rightarrow> disk \<Rightarrow> bool \<times> disk" where
  "and_then a b d = (case a d of (okay, d') \<Rightarrow> if okay then b d' else (False, d'))"

definition mkdir_all :: "string list \<Rightarrow> disk \<Rightarrow> bool \<times> disk" where
  "mkdir_all p = disk_op (\<lambda>ps. ps \<union> set (map (\<lambda>n. take n p) [1..<Suc (length p)]))"

definition write_at :: "string list \<Rightarrow> disk \<Rightarrow> bool \<times> disk" where
  "write_at p = disk_op (insert p)"

definition write_post_receive_hook :: "string list \<Rightarrow> disk \<Rightarrow> bool \<times> disk" where
  "write_post_receive_hook repo = and_then (mkdir_all (repo @ [''hooks''])) (write_at (repo @ [''hooks'', ''post-receive'']))"

definition write_pre_receive_hook :: "string list \<Rightarrow> disk \<Rightarrow> bool \<times> disk" where
  "write_pre_receive_hook repo = and_then (mkdir_all (repo @ [''hooks''])) (write_at (repo @ [''hooks'', ''pre-receive'']))"

text \<open>\<open>git config core.hooksPath\<close> writes the file \<open>config\<close>.\<close>

definition write_managed_hooks :: "string list \<Rightarrow> disk \<Rightarrow> bool \<times> disk" where
  "write_managed_hooks repo = and_then (write_post_receive_hook repo)
     (and_then (write_pre_receive_hook repo) (write_at (repo @ [''config''])))"

definition repo_git_dir :: "server_config \<Rightarrow> string \<Rightarrow> string \<Rightarrow> string list" where
  "repo_git_dir cfg owner name = [repos_dir cfg, owner, name @ ''.git'']"

definition provision_repo :: "string list \<Rightarrow> disk \<Rightarrow> bool \<times> disk" where
  "provision_repo repo d =
     (if repo @ [''HEAD''] \<in> dk_paths d then write_managed_hooks repo d
      else and_then (mkdir_all repo) (and_then (write_at (repo @ [''HEAD''])) (write_managed_hooks repo)) d)"

definition create_repo :: "server_config \<Rightarrow> string \<Rightarrow> string \<Rightarrow> disk \<Rightarrow> (int option \<Rightarrow> disk \<Rightarrow> 'b srv) \<Rightarrow> 'b srv" where
  "create_repo cfg owner name dk k = (case provision_repo (repo_git_dir cfg owner name) dk of (okay, dk') \<Rightarrow>
     if okay then call (ensure_repo owner name) (\<lambda>r. k (case r of Inl _ \<Rightarrow> None | Inr rid \<Rightarrow> Some rid) dk')
     else k None dk')"

record create_repo_request =
  crr_owner :: string
  crr_name :: string
  crr_visibility :: string

definition answer_summary :: "string \<Rightarrow> string \<Rightarrow> (api_repo reply \<Rightarrow> 'b) \<Rightarrow> 'b srv" where
  "answer_summary owner name f = call (get_repo_summary owner name)
     (\<lambda>r. answer (f (case r of Inl _ \<Rightarrow> internal | Inr s \<Rightarrow> Done (to_api_repo s))))"

definition handle_create_repo :: "server_config \<Rightarrow> create_repo_request option \<Rightarrow> disk \<Rightarrow> (api_repo reply \<times> disk) srv" where
  "handle_create_repo cfg body dk = (case body of
     None \<Rightarrow> answer (Refuse 400 ''invalid JSON'', dk)
   | Some req \<Rightarrow> (let owner = trim_space (crr_owner req); name = trim_suffix (trim_space (crr_name req)) ''.git'' in
       if \<not> valid_repo_component owner then answer (Refuse 400 ''invalid owner (allowed: letters, digits, . _ -)'', dk)
       else if \<not> valid_repo_component name then answer (Refuse 400 ''invalid repo name (allowed: letters, digits, . _ -)'', dk)
       else call (lookup_repo owner name) (\<lambda>r. case r of
           Inr _ \<Rightarrow> answer (Refuse 409 (''repo already exists: '' @ owner @ ''/'' @ name), dk)
         | Inl e \<Rightarrow> if e \<noteq> ErrNotFound then answer (internal, dk)
             else create_repo cfg owner name dk (\<lambda>rid dk'. case rid of
                 None \<Rightarrow> answer (internal, dk')
               | Some rid \<Rightarrow> if trim_space (crr_visibility req) = ''private''
                   then call (set_repo_visibility rid ''private'') (\<lambda>_. answer_summary owner name (\<lambda>a. (a, dk')))
                   else answer_summary owner name (\<lambda>a. (a, dk'))))))"

record update_repo_request =
  urr_ci :: "bool option"
  urr_visibility :: "string option"
  urr_approval :: "bool option"
  urr_protected :: "string list option"

text \<open>One field of the update: absent, or a call whose failure ends the request.\<close>

definition update_field :: "'f option \<Rightarrow> ('f \<Rightarrow> (db, unit) dbm) \<Rightarrow> (db_error \<Rightarrow> 'a reply) \<Rightarrow> 'a reply srv \<Rightarrow> 'a reply srv" where
  "update_field f m refuse k = (case f of None \<Rightarrow> k | Some v \<Rightarrow> call (m v) (\<lambda>r. case r of Inl e \<Rightarrow> answer (refuse e) | Inr _ \<Rightarrow> k))"

definition update_protected :: "int \<Rightarrow> string list option \<Rightarrow> 'a reply srv \<Rightarrow> 'a reply srv" where
  "update_protected rid f k = (case f of None \<Rightarrow> k | Some ps \<Rightarrow> (case join_patterns ps of
     Inl e \<Rightarrow> answer (Refuse 400 e)
   | Inr patterns \<Rightarrow> call (set_repo_protected_refs rid patterns) (\<lambda>r. case r of Inl _ \<Rightarrow> answer internal | Inr _ \<Rightarrow> k)))"

definition bad_visibility :: string where
  "bad_visibility = (let q = [CHR 0x27] in ''visibility must be '' @ q @ ''public'' @ q @ '' or '' @ q @ ''private'' @ q)"

definition handle_update_repo :: "string \<Rightarrow> string \<Rightarrow> update_repo_request option \<Rightarrow> api_repo reply srv" where
  "handle_update_repo owner repo body = (case body of
     None \<Rightarrow> answer (Refuse 400 ''invalid JSON'')
   | Some req \<Rightarrow>
       if urr_ci req = None \<and> urr_visibility req = None \<and> urr_approval req = None \<and> urr_protected req = None
       then answer (Refuse 400 ''no fields to update (provide ci_enabled, visibility, require_approval, or protected_refs)'')
       else lookup_repo_or_fail owner repo Refuse (\<lambda>rid.
         update_field (urr_ci req) (set_repo_ci_enabled rid) (\<lambda>_. internal) (
         update_field (urr_approval req) (set_repo_require_approval rid) (\<lambda>_. internal) (
         update_protected rid (urr_protected req) (
         update_field (urr_visibility req) (set_repo_visibility rid)
           (\<lambda>e. if e = ErrInvalidInput then Refuse 400 bad_visibility else internal) (
         answer_summary owner (trim_suffix repo ''.git'') id))))))"

definition remove_all :: "string list \<Rightarrow> disk \<Rightarrow> bool \<times> disk" where
  "remove_all p = disk_op (Set.filter (\<lambda>q. take (length p) q \<noteq> p))"

text \<open>\<open>os.Remove\<close> of a directory fails unless it is empty; the result is not looked at.\<close>

definition remove_empty :: "string list \<Rightarrow> disk \<Rightarrow> disk" where
  "remove_empty p d = (if \<forall>q \<in> dk_paths d. q = p \<or> take (length p) q \<noteq> p then snd (disk_op (\<lambda>ps. ps - {p}) d) else d)"

text \<open>A tree and, when it is gone and nothing else is beside it, the directory of its owner.\<close>

definition remove_tree :: "string list \<Rightarrow> disk \<Rightarrow> disk" where
  "remove_tree p d = (case remove_all p d of (okay, d') \<Rightarrow> if okay then remove_empty (butlast p) d' else d')"

definition in_flight_refusal :: "string \<Rightarrow> string \<Rightarrow> int \<Rightarrow> string" where
  "in_flight_refusal owner repo n = ''repo '' @ owner @ ''/'' @ repo @ '' has '' @ itoa n
     @ '' in-flight run(s); cancel or wait for them to finish before deleting''"

definition handle_delete_repo ::
  "server_env \<Rightarrow> string \<Rightarrow> string \<Rightarrow> string \<Rightarrow> api_token option \<Rightarrow> disk \<Rightarrow> (unit reply \<times> disk) srv" where
  "handle_delete_repo env data_dir owner repo tok dk =
     lookup_repo_or_fail owner repo (\<lambda>c m. (Refuse c m, dk)) (\<lambda>rid. let repo = trim_suffix repo ''.git'' in
     call (count_active_runs rid) (\<lambda>r. case r of
         Inl _ \<Rightarrow> answer (internal, dk)
       | Inr active \<Rightarrow> if 0 < active then answer (Refuse 409 (in_flight_refusal owner repo active), dk)
           else call (delete_repo rid) (\<lambda>r. case r of
               Inl _ \<Rightarrow> answer (internal, dk)
             | Inr _ \<Rightarrow> let dk' = remove_tree (repo_log_dir data_dir owner repo) (remove_tree (repo_git_dir (se_cfg env) owner repo) dk) in
                 emit env ''repo.deleted'' 0 (identity_from_context tok) [(''owner'', JStr owner), (''name'', JStr repo)]
                   (answer (Done (), dk')))))"

section \<open>Tokens\<close>

definition handle_list_tokens :: "api_token list reply srv" where
  "handle_list_tokens = call list_tokens (\<lambda>r. answer (case r of Inl _ \<Rightarrow> internal | Inr ts \<Rightarrow> Done ts))"

definition handle_create_token :: "(string \<Rightarrow> string) \<Rightarrow> string option \<Rightarrow> string option \<Rightarrow> (api_token \<times> string) reply srv" where
  "handle_create_token sha rnd body = with_body body (\<lambda>b. let name = trim_space b in
     if name = [] then answer (Refuse 400 ''token name is required'')
     else if 100 < length name then answer (Refuse 400 ''token name too long (max 100)'')
     else (case generate_token_string rnd of
         None \<Rightarrow> answer internal
       | Some plain \<Rightarrow> call (create_token sha name plain) (\<lambda>r. answer (case r of
           Inl e \<Rightarrow> if e = ErrTokenExists then Refuse 409 (''token name already exists: '' @ name) else internal
         | Inr tok \<Rightarrow> Done (tok, plain)))))"

definition handle_revoke_token :: "int option \<Rightarrow> unit reply srv" where
  "handle_revoke_token tid = (case tid of
     None \<Rightarrow> answer (Refuse 400 ''invalid token id'')
   | Some i \<Rightarrow> call (revoke_token_by_id i) (\<lambda>r. answer (case r of
       Inl e \<Rightarrow> if e = ErrNotFound then Refuse 404 ''token not found'' else internal | Inr _ \<Rightarrow> Done ())))"

section \<open>Keys\<close>

definition with_token :: "api_token option \<Rightarrow> (api_token \<Rightarrow> 'a reply srv) \<Rightarrow> 'a reply srv" where
  "with_token tok k = (case tok of None \<Rightarrow> answer (Refuse 500 ''no token on context'') | Some t \<Rightarrow> k t)"

definition handle_whoami :: "api_token option \<Rightarrow> string reply srv" where
  "handle_whoami tok = with_token tok (\<lambda>t. answer (Done (tk_name t)))"

definition handle_list_ssh_keys :: "api_token option \<Rightarrow> ssh_key list reply srv" where
  "handle_list_ssh_keys tok = with_token tok (\<lambda>t. call (list_ssh_keys (tk_id t)) (\<lambda>r. answer (case r of Inl _ \<Rightarrow> internal | Inr ks \<Rightarrow> Done ks)))"

definition handle_create_ssh_key ::
  "(string \<Rightarrow> (string \<times> string \<times> string) option) \<Rightarrow> (string \<times> string) option \<Rightarrow> api_token option \<Rightarrow> ssh_key reply srv" where
  "handle_create_ssh_key parse body tok = with_token tok (\<lambda>t. with_body body (\<lambda>(key, comment).
     call (add_ssh_key parse (tk_id t) key comment) (\<lambda>r. answer (case r of
         Inl e \<Rightarrow> if e = ErrInvalidSSHKey then Refuse 400 ''invalid ssh public key''
           else if e = ErrSSHKeyExists then Refuse 409 ''ssh key already registered'' else internal
       | Inr k \<Rightarrow> Done k))))"

definition handle_delete_ssh_key :: "int option \<Rightarrow> api_token option \<Rightarrow> unit reply srv" where
  "handle_delete_ssh_key kid tok = with_token tok (\<lambda>t. case kid of
     None \<Rightarrow> answer (Refuse 400 ''invalid ssh key id'')
   | Some i \<Rightarrow> call (delete_ssh_key i (tk_id t)) (\<lambda>r. answer (case r of
       Inl e \<Rightarrow> if e = ErrNotFound then Refuse 404 ''ssh key not found'' else internal | Inr _ \<Rightarrow> Done ())))"

section \<open>Accounts\<close>

text \<open>\<open>explain\<close> is the text of an error.\<close>

definition handle_register ::
  "(string \<Rightarrow> string option) \<Rightarrow> (string \<Rightarrow> string) \<Rightarrow> string option \<Rightarrow> (db_error \<Rightarrow> string) \<Rightarrow> (string \<times> string) option \<Rightarrow> (api_token \<times> string) reply srv" where
  "handle_register bcrypt sha rnd explain body = with_body body (\<lambda>(user, password).
     call (register_user bcrypt sha rnd user password) (\<lambda>r. answer (case r of
         Inl e \<Rightarrow> if e = ErrUserExists then Refuse 409 ''username already taken'' else Refuse 400 (explain e)
       | Inr (_, tok, plain) \<Rightarrow> Done (tok, plain))))"

definition handle_login ::
  "(string \<Rightarrow> string \<Rightarrow> bool) \<Rightarrow> (string \<Rightarrow> string) \<Rightarrow> string option \<Rightarrow> (string \<times> string) option \<Rightarrow> (api_token \<times> string) reply srv" where
  "handle_login check sha rnd body = with_body body (\<lambda>(user, password).
     call (login_user check sha rnd user password) (\<lambda>r. answer (case r of
         Inl e \<Rightarrow> if e = ErrBadCredentials then Refuse 401 ''invalid username or password''
           else if e = ErrNoPassword then Refuse 401 ''user has no password set; use a token instead'' else internal
       | Inr (tok, plain) \<Rightarrow> Done (tok, plain))))"

definition handle_get_user :: "string \<Rightarrow> api_user reply srv" where
  "handle_get_user username = call (get_user username) (\<lambda>r. answer (case r of
     Inl e \<Rightarrow> if e = ErrNotFound then Refuse 404 (''user not found: '' @ username) else internal | Inr u \<Rightarrow> Done u))"

text \<open>The gate in front of the web UI and git over HTTP, open when no user is configured.\<close>

definition with_basic_auth :: "string \<Rightarrow> string \<Rightarrow> request \<Rightarrow> unit gate" where
  "with_basic_auth user pass req = (if user = [] then Next ()
     else if rq_basic req = Some (user, pass) then Next () else Reply 401 ''unauthorized'')"

section \<open>The patterns of a repository\<close>

lemma space_width_three: "space_width s = space_width (take 3 s)"
proof -
  consider "length s \<le> 3" | a b c t where "s = a # b # c # t"
    by (metis Suc_le_length_iff not_less_eq_eq numeral_3_eq_3)
  then show ?thesis
  proof cases
    case 2
    have t: "take 3 (a # b # c # t) = [a, b, c]" by (simp add: numeral_3_eq_3)
    have n: "(b # c # t) ! 0 = [b, c] ! 0" "(b # c # t) ! 1 = [b, c] ! 1" "(2 \<le> length (b # c # t)) = (2 \<le> length [b, c])"
      "((b # c # t) = []) = ([b, c] = [])" by simp_all
    show ?thesis unfolding 2 t by (simp only: space_width.simps Let_def n)
  qed simp
qed

lemma space_width_take: "0 < space_width (take n s) \<Longrightarrow> space_width s = space_width (take n s)"
proof -
  assume pos: "0 < space_width (take n s)"
  consider "length s \<le> n" | "3 \<le> n" | "n < length s" "n < 3" by linarith
  then show ?thesis
  proof cases
    case 2
    then show ?thesis using space_width_three [of s] space_width_three [of "take n s"] by (simp add: min_def)
  next
    case 3
    have one: "space_width [a] = (if (of_char a :: nat) \<in> {9, 10, 11, 12, 13, 32} then 1 else 0)" for a
      by (simp only: space_width.simps Let_def) simp
    have two: "space_width [a, b] = (if (of_char a :: nat) \<in> {9, 10, 11, 12, 13, 32} then 1
        else if (of_char a :: nat) = 0xC2 \<and> (of_char b :: nat) \<in> {0x85, 0xA0} then 2 else 0)" for a b
      by (simp only: space_width.simps Let_def) simp
    have head1: "space_width (a # t) = 1" if "(of_char a :: nat) \<in> {9, 10, 11, 12, 13, 32}" for a t
      using that by (simp only: space_width.simps Let_def if_True)
    have head2: "space_width (a # b # t) = 2" if "(of_char a :: nat) \<notin> {9, 10, 11, 12, 13, 32}"
      and "(of_char a :: nat) = 0xC2 \<and> (of_char b :: nat) \<in> {0x85, 0xA0}" for a b t
      using that by (simp only: space_width.simps Let_def if_True if_False nth_Cons_0 list.distinct simp_thms)
    have "n = 1 \<or> n = 2"
    proof (cases "n = 0")
      case True
      with pos show ?thesis by simp
    qed (use 3 in linarith)
    moreover have "Suc (Suc 0) \<le> length s" using 3 calculation by linarith
    then obtain a b t where "s = a # b # t" by (auto simp: Suc_le_length_iff)
    ultimately consider a b t where "n = 1" "s = a # b # t" | a b t where "n = 2" "s = a # b # t" by blast
    then show ?thesis
    proof cases
      case 1
      then have "take n s = [a]" by simp
      with pos 1 head1 [of a "b # t"] one [of a] show ?thesis by (metis less_irrefl)
    next
      case 2
      then have "take n s = [a, b]" by simp
      with pos 2 head1 [of a "b # t"] head2 [of a b t] two [of a b] show ?thesis by (metis less_irrefl)
    qed
  qed simp
qed

lemma trim_left_none: "space_width s = 0 \<Longrightarrow> trim_left s = s"
  by (simp add: trim_left.simps)

lemma space_width_trim_left [simp]: "space_width (trim_left s) = 0"
  by (induction s rule: trim_left.induct) (subst trim_left.simps, simp)

lemma trim_right_none: "space_width_end s = 0 \<Longrightarrow> trim_right s = s"
  by (simp add: trim_right.simps)

lemma space_width_end_trim_right [simp]: "space_width_end (trim_right s) = 0"
  by (induction s rule: trim_right.induct) (subst trim_right.simps, simp)

lemma trim_right_take: "\<exists>n. trim_right s = take n s"
proof (induction s rule: trim_right.induct)
  case (1 s)
  show ?case
  proof (cases "space_width_end s = 0")
    case True
    then show ?thesis by (intro exI [of _ "length s"]) (simp add: trim_right_none)
  next
    case False
    with 1 show ?thesis by (subst trim_right.simps) (auto simp: min_def)
  qed
qed

lemma trim_space_idem [simp]: "trim_space (trim_space s) = trim_space s"
proof -
  obtain n where n: "trim_right (trim_left s) = take n (trim_left s)" using trim_right_take by blast
  have "space_width (take n (trim_left s)) = 0" using space_width_take [of n "trim_left s"] by fastforce
  then show ?thesis unfolding trim_space_def n [symmetric] by (simp add: trim_left_none trim_right_none)
qed

definition nonblank :: "string list \<Rightarrow> string list" where
  "nonblank ps = filter (\<lambda>p. p \<noteq> []) (map trim_space ps)"

definition pattern_ok :: "string \<Rightarrow> bool" where
  "pattern_ok p \<longleftrightarrow> p \<noteq> [] \<and> length p \<le> max_protected_ref_len \<and> newline \<notin> set p"

lemma nonblank_Cons: "nonblank (p # ps) = (if trim_space p = [] then nonblank ps else trim_space p # nonblank ps)"
  by (simp add: nonblank_def)

lemma nonblank_idem: "nonblank (nonblank ps) = nonblank ps"
  unfolding nonblank_def by (induction ps) auto

lemma check_patterns_InrD: "check_patterns ps = Inr out \<Longrightarrow> out = nonblank ps \<and> list_all pattern_ok (nonblank ps)"
proof (induction ps arbitrary: out)
  case (Cons p ps)
  show ?case
  proof (cases "trim_space p = []")
    case True
    with Cons show ?thesis by (simp add: Let_def nonblank_Cons)
  next
    case False
    with Cons.prems obtain out' where out': "check_patterns ps = Inr out'" "out = trim_space p # out'"
      and len: "length (trim_space p) \<le> max_protected_ref_len"
      and line: "\<not> list_ex (\<lambda>c. c \<in> {newline, CHR 0x0D, CHR 0x00}) (trim_space p)"
      by (simp add: Let_def split: if_splits sum.splits)
    from line have "newline \<notin> set (trim_space p)" by (simp only: list_ex_iff) blast
    with False len have "pattern_ok (trim_space p)" by (simp add: pattern_ok_def)
    with False Cons.IH [OF out'(1)] show ?thesis by (simp add: out'(2) nonblank_Cons)
  qed
qed (simp add: nonblank_def)

lemma joined_patterns:
  assumes "join_patterns ps = Inr stored"
  shows "split_patterns stored = nonblank ps \<and> filter (\<lambda>p. p \<noteq> []) (split_on newline stored) = nonblank ps \<and>
    length (nonblank ps) \<le> max_protected_refs \<and> list_all pattern_ok (nonblank ps)"
proof -
  from assms obtain out where out: "check_patterns ps = Inr out" "length out \<le> max_protected_refs" "stored = join [newline] out"
    by (auto simp: join_patterns_def split: sum.splits if_splits)
  note D = check_patterns_InrD [OF out(1)]
  have each: "p \<noteq> [] \<and> newline \<notin> set p" if "p \<in> set out" for p using D that by (auto simp: list_all_iff pattern_ok_def)
  have idem: "nonblank out = out" using D nonblank_idem by simp
  have parts: "nonblank (split_on newline stored) = out \<and> filter (\<lambda>p. p \<noteq> []) (split_on newline stored) = out"
  proof (cases "out = []")
    case True
    have "trim_space [] = []" by code_simp
    with True show ?thesis by (simp add: out(3) nonblank_def)
  next
    case False
    have "split_on newline stored = out" unfolding out(3) using each by (intro split_on_join [OF False]) blast
    moreover have "filter (\<lambda>p. p \<noteq> []) out = out" using each by (simp add: filter_id_conv)
    ultimately show ?thesis using idem by simp
  qed
  with D out(2) show ?thesis by (simp add: split_patterns_def nonblank_def [symmetric])
qed

text \<open>The branch patterns of a repository read back as they were submitted: a list the server accepts is stored so
  that the API shows exactly its entries, trimmed and without the blank ones, at most 32 of at most 200 bytes, and the
  push hook, which splits the stored text on its own, works through the same list.\<close>

theorem protected_patterns_roundtrip:
  assumes "join_patterns ps = Inr stored"
  shows "split_patterns stored = nonblank ps \<and>
    hook_patterns sh stored = concat (map (sh_expand sh) (split_patterns stored)) \<and>
    length (split_patterns stored) \<le> 32 \<and> list_all pattern_ok (split_patterns stored)"
proof -
  have "filter (\<lambda>p. p \<noteq> []) (split_on CHR 0x0A stored) = split_patterns stored" using joined_patterns [OF assms] by (simp add: newline_def)
  then have "hook_patterns sh stored = concat (map (sh_expand sh) (split_patterns stored))" by (simp only: hook_patterns_def)
  with joined_patterns [OF assms] show ?thesis by (simp add: max_protected_refs_def)
qed

section \<open>Updating a repository\<close>

text \<open>A healthy host on which the repository has the row \<open>x\<close>.\<close>

definition repo_on :: "string \<Rightarrow> string \<Rightarrow> host \<Rightarrow> repo_row \<Rightarrow> bool" where
  "repo_on owner name h x \<longleftrightarrow> (\<exists>d. h_db h = ([], d) \<and> repo_named owner name d = Some x)"

definition keeps_name :: "(repo_row \<Rightarrow> repo_row) \<Rightarrow> bool" where
  "keeps_name f \<longleftrightarrow> (\<forall>r. r_id (f r) = r_id r \<and> r_name (f r) = r_name r \<and> r_owner (f r) = r_owner r)"

lemma set_repo_named:
  assumes "repo_named owner name d = Some x" and "keeps_name f"
  shows "repo_named owner name (d\<lparr>repos := update_where (\<lambda>r. r_id r = r_id x) f (repos d)\<rparr>) = Some (f x)"
proof -
  let ?d = "d\<lparr>repos := update_where (\<lambda>r. r_id r = r_id x) f (repos d)\<rparr>"
  let ?g = "\<lambda>r. if r_id r = r_id x then f r else r"
  have "repo_owner ?d r = repo_owner d r" for r by (simp add: repo_owner_def)
  moreover have "repo_owner d (?g r) = repo_owner d r \<and> r_name (?g r) = r_name r" for r
    using assms(2) by (simp add: repo_owner_def keeps_name_def)
  ultimately have "find (\<lambda>r. repo_owner ?d r = Some owner \<and> r_name r = name) (map ?g (rows (repos d))) =
      map_option ?g (find (\<lambda>r. repo_owner d r = Some owner \<and> r_name r = name) (rows (repos d)))"
    by (subst find_map_keep [symmetric]) auto
  with assms(1) show ?thesis by (simp add: repo_named_def select_one_def update_where_def)
qed

lemma set_repo_call:
  assumes "repo_on owner name h x" and "keeps_name f"
  shows "\<exists>h'. repo_on owner name h' (f x) \<and> call (exec (set_repo (r_id x) f) affected) k h = k (Inr ()) h'"
proof -
  from assms(1) obtain d where d: "h_db h = ([], d)" "repo_named owner name d = Some x" by (auto simp: repo_on_def)
  let ?d = "d\<lparr>repos := update_where (\<lambda>r. r_id r = r_id x) f (repos d)\<rparr>"
  have "x \<in> set (rows (repos d))" using d(2) by (auto simp: repo_named_def dest: select_one_SomeD)
  then have "count_where (\<lambda>r. r_id r = r_id x) (repos d) \<noteq> 0" by (auto simp: count_where_0 exists_where_iff)
  then have "exec (set_repo (r_id x) f) affected ([], d) = (Inr (), ([], ?d))" by (simp add: set_repo_def affected_def)
  then have "call (exec (set_repo (r_id x) f) affected) k h = k (Inr ()) (h\<lparr>h_db := ([], ?d)\<rparr>)" by (simp add: call_def d(1))
  moreover have "repo_on owner name (h\<lparr>h_db := ([], ?d)\<rparr>) (f x)" using set_repo_named [OF d(2) assms(2)] by (simp add: repo_on_def)
  ultimately show ?thesis by blast
qed

lemma update_field_call:
  assumes "repo_on owner name h x" and "\<And>v. m v = exec (set_repo (r_id x) (f v)) affected" and "\<And>v. keeps_name (f v)"
  shows "\<exists>h'. repo_on owner name h' (case v of None \<Rightarrow> x | Some b \<Rightarrow> f b x) \<and> update_field v m refuse k h = k h'"
proof (cases v)
  case (Some b)
  from set_repo_call [OF assms(1) assms(3) [of b], of "\<lambda>r. case r of Inl e \<Rightarrow> answer (refuse e) | Inr _ \<Rightarrow> k"] assms(2) show ?thesis
    by (simp add: update_field_def Some)
qed (use assms(1) in \<open>auto simp: update_field_def\<close>)

lemma answer_summary_found:
  assumes "repo_on owner name h x"
  shows "\<exists>a. answer_summary owner name id h = (Done a, h) \<and> ap_id a = r_id x \<and> ap_ci_enabled a = r_ci_enabled x \<and> ap_require_approval a = r_require_approval x \<and>
    ap_protected_refs a = split_patterns (r_protected_refs x) \<and> (r_visibility x \<noteq> [] \<longrightarrow> ap_visibility a = r_visibility x)"
proof -
  from assms obtain d where d: "h_db h = ([], d)" "repo_named owner name d = Some x" by (auto simp: repo_on_def)
  have found: "get_repo_summary owner name ([], d) = (Inr (summary_of d (x, owner)), ([], d))" by (simp add: get_repo_summary_def d(2))
  have "answer_summary owner name id h = (Done (to_api_repo (summary_of d (x, owner))), h)"
    unfolding answer_summary_def
    by (subst call_reads [where m = "get_repo_summary owner name", OF d(1) found]) (simp only: sum.case id_apply answer_def)
  then show ?thesis by (intro exI [of _ "to_api_repo (summary_of d (x, owner))"]) (simp add: to_api_repo_def summary_of_def)
qed

definition or_keep :: "'a option \<Rightarrow> 'a \<Rightarrow> 'a" where
  "or_keep v x = (case v of None \<Rightarrow> x | Some y \<Rightarrow> y)"

definition set_visibility :: "string \<Rightarrow> string \<Rightarrow> int \<Rightarrow> update_repo_request \<Rightarrow> api_repo reply srv" where
  "set_visibility owner name rid req = update_field (urr_visibility req) (set_repo_visibility rid)
     (\<lambda>e. if e = ErrInvalidInput then Refuse 400 bad_visibility else internal) (answer_summary owner name id)"

definition visibility_done :: "string \<Rightarrow> string \<Rightarrow> int \<Rightarrow> update_repo_request \<Rightarrow> repo_row \<Rightarrow> api_repo reply \<Rightarrow> host \<Rightarrow> repo_row \<Rightarrow> bool" where
  "visibility_done owner name rid req z r h' y \<longleftrightarrow> repo_on owner name h' y \<and> r_ci_enabled y = r_ci_enabled z \<and>
      r_require_approval y = r_require_approval z \<and> r_protected_refs y = r_protected_refs z \<and>
      (if urr_visibility req \<in> {None, Some ''public'', Some ''private''}
       then (\<exists>a. r = Done a \<and> ap_id a = rid \<and> ap_ci_enabled a = r_ci_enabled y \<and> ap_require_approval a = r_require_approval y \<and>
         ap_protected_refs a = split_patterns (r_protected_refs y)) \<and> r_visibility y = or_keep (urr_visibility req) (r_visibility z)
       else r = Refuse 400 bad_visibility \<and> r_visibility y = r_visibility z)"

lemma visibility_step:
  assumes z: "repo_on owner name h0 z" "r_id z = rid"
  shows "\<exists>r h' y. set_visibility owner name rid req h0 = (r, h') \<and> visibility_done owner name rid req z r h' y"
proof (cases "urr_visibility req")
  case None
  from answer_summary_found [OF z(1)] z show ?thesis by (auto simp: set_visibility_def update_field_def None or_keep_def visibility_done_def)
next
  case (Some v)
  show ?thesis
  proof (cases "v = ''public'' \<or> v = ''private''")
    case True
    have "set_repo_visibility rid v = exec (set_repo (r_id z) (\<lambda>r. r\<lparr>r_visibility := v\<rparr>)) affected"
      using True z(2) by (auto simp: set_repo_visibility_def)
    then obtain h3 where h3: "repo_on owner name h3 (z\<lparr>r_visibility := v\<rparr>)" "set_visibility owner name rid req h0 = answer_summary owner name id h3"
      using set_repo_call [OF z(1), of "\<lambda>r. r\<lparr>r_visibility := v\<rparr>" "\<lambda>r. case r of
          Inl e \<Rightarrow> answer (if e = ErrInvalidInput then Refuse 400 bad_visibility else internal) | Inr _ \<Rightarrow> answer_summary owner name id"]
      by (auto simp: set_visibility_def update_field_def Some keeps_name_def)
    have "urr_visibility req \<in> {None, Some ''public'', Some ''private''}" using True Some by auto
    moreover obtain a where "answer_summary owner name id h3 = (Done a, h3)" "ap_id a = r_id z" "ap_ci_enabled a = r_ci_enabled z"
        "ap_require_approval a = r_require_approval z" "ap_protected_refs a = split_patterns (r_protected_refs z)"
      using answer_summary_found [OF h3(1)] by auto
    ultimately show ?thesis using h3 z(2)
      by (intro exI [of _ "Done a"] exI [of _ h3] exI [of _ "z\<lparr>r_visibility := v\<rparr>"]) (simp add: Some or_keep_def visibility_done_def)
  next
    case False
    obtain d0 where d0: "h_db h0 = ([], d0)" using z(1) by (auto simp: repo_on_def)
    have "set_repo_visibility rid v ([], d0) = (Inl ErrInvalidInput, ([], d0))" using False by (simp add: set_repo_visibility_def)
    then have "set_visibility owner name rid req h0 = (Refuse 400 bad_visibility, h0)"
      by (simp add: set_visibility_def update_field_def Some call_reads [OF d0] answer_def)
    with False z show ?thesis by (auto simp: Some visibility_done_def)
  qed
qed

text \<open>What an update of a repository's settings does, on a healthy engine: the CI switch and the review gate take
  the submitted values; an unacceptable pattern list is then refused with 400 and changes nothing more; otherwise the
  patterns become the submitted ones, trimmed and without the blanks, and an unknown visibility is refused with 400. So
  a refused update is not undone: what precedes the bad field has been applied. When no field is bad the answer is the
  repository as it now is, visibility included.\<close>

theorem repo_update_response:
  assumes "h_db h = ([], d)" and "repo_named owner (trim_suffix repo ''.git'') d = Some x"
    and "urr_ci req \<noteq> None \<or> urr_visibility req \<noteq> None \<or> urr_approval req \<noteq> None \<or> urr_protected req \<noteq> None"
  shows "\<exists>r h' y. handle_update_repo owner repo (Some req) h = (r, h') \<and> repo_on owner (trim_suffix repo ''.git'') h' y \<and>
    r_ci_enabled y = or_keep (urr_ci req) (r_ci_enabled x) \<and> r_require_approval y = or_keep (urr_approval req) (r_require_approval x) \<and>
    (case map_option join_patterns (urr_protected req) of
       Some (Inl e) \<Rightarrow> r = Refuse 400 e \<and> r_protected_refs y = r_protected_refs x \<and> r_visibility y = r_visibility x
     | _ \<Rightarrow> split_patterns (r_protected_refs y) = or_keep (map_option nonblank (urr_protected req)) (split_patterns (r_protected_refs x)) \<and>
        (if urr_visibility req \<in> {None, Some ''public'', Some ''private''}
         then (\<exists>a. r = Done a \<and> ap_id a = r_id x \<and> ap_ci_enabled a = r_ci_enabled y \<and> ap_require_approval a = r_require_approval y \<and>
           ap_protected_refs a = split_patterns (r_protected_refs y)) \<and> r_visibility y = or_keep (urr_visibility req) (r_visibility x)
         else r = Refuse 400 bad_visibility \<and> r_visibility y = r_visibility x))"
proof -
  let ?nm = "trim_suffix repo ''.git''"
  define vis where "vis = set_visibility owner ?nm (r_id x) req"
  define prot where "prot = update_protected (r_id x) (urr_protected req) vis"
  have on: "repo_on owner ?nm h x" using assms(1,2) by (simp add: repo_on_def)
  have start: "handle_update_repo owner repo (Some req) h =
      update_field (urr_ci req) (set_repo_ci_enabled (r_id x)) (\<lambda>_. internal)
        (update_field (urr_approval req) (set_repo_require_approval (r_id x)) (\<lambda>_. internal) prot) h"
    using assms(3) by (auto simp: handle_update_repo_def known_repo [OF assms(1,2)] prot_def vis_def set_visibility_def)
  have ci: "set_repo_ci_enabled i b = exec (set_repo i (\<lambda>r. r\<lparr>r_ci_enabled := b\<rparr>)) affected" for i b
    by (simp add: set_repo_ci_enabled_def update_repos_def [abs_def] set_repo_def [abs_def])
  let ?x1 = "case urr_ci req of None \<Rightarrow> x | Some b \<Rightarrow> x\<lparr>r_ci_enabled := b\<rparr>"
  obtain h1 where h1: "repo_on owner ?nm h1 ?x1" "handle_update_repo owner repo (Some req) h =
      update_field (urr_approval req) (set_repo_require_approval (r_id x)) (\<lambda>_. internal) prot h1"
    using update_field_call [where f = "\<lambda>b r. r\<lparr>r_ci_enabled := b\<rparr>" and v = "urr_ci req" and refuse = "\<lambda>_. internal"
        and k = "update_field (urr_approval req) (set_repo_require_approval (r_id x)) (\<lambda>_. internal) prot", OF on ci]
    unfolding start by (auto simp: keeps_name_def)
  have id1: "r_id x = r_id ?x1" by (simp split: option.split)
  let ?x2 = "case urr_approval req of None \<Rightarrow> ?x1 | Some b \<Rightarrow> ?x1\<lparr>r_require_approval := b\<rparr>"
  have "set_repo_require_approval (r_id x) b = exec (set_repo (r_id ?x1) (\<lambda>r. r\<lparr>r_require_approval := b\<rparr>)) affected" for b
    unfolding id1 [symmetric] by (simp add: set_repo_require_approval_def)
  then obtain h2 where h2: "repo_on owner ?nm h2 ?x2" "handle_update_repo owner repo (Some req) h = prot h2"
    using update_field_call [where f = "\<lambda>b r. r\<lparr>r_require_approval := b\<rparr>" and v = "urr_approval req" and refuse = "\<lambda>_. internal"
        and k = prot and m = "set_repo_require_approval (r_id x)", OF h1(1)] unfolding h1(2) by (auto simp: keeps_name_def)
  define x2 where "x2 = ?x2"
  have x2: "r_id x2 = r_id x" "r_ci_enabled x2 = or_keep (urr_ci req) (r_ci_enabled x)"
    "r_require_approval x2 = or_keep (urr_approval req) (r_require_approval x)"
    "r_protected_refs x2 = r_protected_refs x" "r_visibility x2 = r_visibility x"
    by (simp_all add: x2_def or_keep_def split: option.split)
  note visible = visibility_step [of owner ?nm _ _ "r_id x" req, folded vis_def]
  show ?thesis
  proof (cases "urr_protected req")
    case None
    obtain r h' y where v: "vis h2 = (r, h')" "visibility_done owner ?nm (r_id x) req x2 r h' y"
      using visible [OF h2(1) [folded x2_def] x2(1)] by blast
    then show ?thesis using x2 by (intro exI [of _ r] exI [of _ h'] exI [of _ y])
      (simp add: h2(2) prot_def update_protected_def None or_keep_def visibility_done_def split del: if_split cong: if_cong; auto split: if_splits)
  next
    case (Some ps)
    show ?thesis
    proof (cases "join_patterns ps")
      case (Inl e)
      with h2 x2 show ?thesis
        by (intro exI [of _ "Refuse 400 e"] exI [of _ h2] exI [of _ x2]) (simp add: prot_def update_protected_def Some answer_def x2_def)
    next
      case (Inr stored)
      have "set_repo_protected_refs (r_id x) stored = exec (set_repo (r_id x2) (\<lambda>r. r\<lparr>r_protected_refs := stored\<rparr>)) affected"
        by (simp add: set_repo_protected_refs_def x2(1))
      then obtain h3 where h3: "repo_on owner ?nm h3 (x2\<lparr>r_protected_refs := stored\<rparr>)" "prot h2 = vis h3"
        using set_repo_call [OF h2(1) [folded x2_def], of "\<lambda>r. r\<lparr>r_protected_refs := stored\<rparr>" "\<lambda>r. case r of Inl _ \<Rightarrow> answer internal | Inr _ \<Rightarrow> vis"]
        by (auto simp: prot_def update_protected_def Some Inr keeps_name_def)
      obtain r h' y where v: "vis h3 = (r, h')" "visibility_done owner ?nm (r_id x) req (x2\<lparr>r_protected_refs := stored\<rparr>) r h' y"
        using visible [OF h3(1)] x2(1) by auto
      then show ?thesis using x2 h2(2) h3(2) joined_patterns [OF Inr] by (intro exI [of _ r] exI [of _ h'] exI [of _ y])
        (simp add: Some Inr or_keep_def visibility_done_def split del: if_split cong: if_cong; auto split: if_splits)
    qed
  qed
qed

section \<open>Deleting a repository\<close>

definition beneath :: "string list \<Rightarrow> string list \<Rightarrow> bool" where
  "beneath t p \<longleftrightarrow> take (length t) p = t"

lemma remove_tree_paths:
  assumes "dk_fails dk = []" and "t \<noteq> []"
  shows "dk_fails (remove_tree t dk) = [] \<and> dk_paths (remove_tree t dk) \<subseteq> dk_paths dk \<and>
    (\<forall>p \<in> dk_paths dk. p \<in> dk_paths (remove_tree t dk) \<or> beneath t p \<or> p = butlast t) \<and>
    (\<forall>p \<in> dk_paths (remove_tree t dk). \<not> beneath t p)"
  using assms by (auto simp: remove_tree_def remove_all_def remove_empty_def disk_op_def beneath_def split: if_splits)

lemma event_frame:
  assumes "append_feed_event ty repo actor payload ([], d) = (r, (fs, d'))"
  shows "fs = [] \<and> repos d' = repos d \<and> ci_runs d' = ci_runs d"
  using assms by (auto simp: append_feed_event_def insert_event_def insert_row_def Let_def split: if_splits prod.splits sum.splits)

lemma emit_frame:
  assumes "h_db h = ([], d)" and "emit env ty repo actor data (answer x) h = (y, h')"
  shows "y = x \<and> (\<exists>d'. h_db h' = ([], d') \<and> repos d' = repos d \<and> ci_runs d' = ci_runs d)"
proof -
  obtain r fs d' where a: "append_feed_event ty repo actor (se_marshal env data) ([], d) = (r, (fs, d'))" by (metis surj_pair)
  with assms have "y = x" "h_db h' = (fs, d')" by (auto simp: emit_def call_def answer_def)
  with event_frame [OF a] show ?thesis by simp
qed

lemma active_iff: "s \<in> {RunQueued, RunRunning, RunAwaitingInput, RunFinishing} \<longleftrightarrow> \<not> run_terminal s"
  by (cases s) simp_all

text \<open>Deleting a repository spares the work in flight and everything that is not its own: on a healthy engine and disk
  it is refused with 409, and changes nothing, while one of the repository's runs has not ended; otherwise the row is
  gone, the runs that went with it all belonged to it and had ended, nothing is left below its git directory or its log
  directory, and no other path is removed but the directories of its owner.\<close>

theorem delete_spares_running_work:
  assumes "h_db h = ([], d)" and "repo_named owner (trim_suffix repo ''.git'') d = Some x" and "dk_fails dk = []"
    and "handle_delete_repo env data_dir owner repo tok dk h = ((r, dk'), h')"
  shows "if \<exists>run \<in> set (rows (ci_runs d)). ru_repo run = r_id x \<and> \<not> run_terminal (ru_status run)
    then (\<exists>m. r = Refuse 409 m) \<and> dk' = dk \<and> h' = h
    else r = Done () \<and>
      (\<exists>d'. h_db h' = ([], d') \<and> repos d' = delete_where (\<lambda>y. r_id y = r_id x) (repos d) \<and>
        (\<forall>run \<in> set (rows (ci_runs d)). run \<in> set (rows (ci_runs d')) \<or> ru_repo run = r_id x \<and> run_terminal (ru_status run))) \<and>
      (let git = repo_git_dir (se_cfg env) owner (trim_suffix repo ''.git''); logs = repo_log_dir data_dir owner (trim_suffix repo ''.git'') in
        (\<forall>p \<in> dk_paths dk'. p \<in> dk_paths dk \<and> \<not> beneath git p \<and> \<not> beneath logs p) \<and>
        (\<forall>p \<in> dk_paths dk. p \<in> dk_paths dk' \<or> beneath git p \<or> beneath logs p \<or> p = butlast git \<or> p = butlast logs))"
proof -
  let ?nm = "trim_suffix repo ''.git''"
  let ?dk = "remove_tree (repo_log_dir data_dir owner ?nm) (remove_tree (repo_git_dir (se_cfg env) owner ?nm) dk)"
  let ?busy = "\<exists>run \<in> set (rows (ci_runs d)). ru_repo run = r_id x \<and> \<not> run_terminal (ru_status run)"
  define n where "n = count_where (\<lambda>r. ru_repo r = r_id x \<and> ru_status r \<in> {RunQueued, RunRunning, RunAwaitingInput, RunFinishing}) (ci_runs d)"
  have count: "count_active_runs (r_id x) ([], d) = (Inr n, ([], d))" by (simp add: count_active_runs_def n_def)
  have n: "0 < n \<longleftrightarrow> ?busy" unfolding n_def active_iff by (auto simp: count_where_def filter_empty_conv)
  have x: "x \<in> set (rows (repos d))" using assms(2) by (auto simp: repo_named_def dest: select_one_SomeD)
  note start = assms(4) [unfolded handle_delete_repo_def Let_def known_repo [OF assms(1,2)] call_reads [where m = "count_active_runs (r_id x)", OF assms(1) count] sum.case]
  show ?thesis
  proof (cases ?busy)
    case True
    then have "0 < n" using n by blast
    with start show ?thesis unfolding if_P [OF True] by (auto simp: answer_def)
  next
    case False
    then have "\<not> 0 < n" using n by blast
    let ?d = "cascade_repo (r_id x) d"
    have "delete_repo (r_id x) ([], d) = (Inr (), ([], ?d))"
      using x by (auto simp: delete_repo_def delete_repo_row_def affected_def count_where_0 exists_where_iff repo_exists_def)
    with start \<open>\<not> 0 < n\<close> have e: "emit env ''repo.deleted'' 0 (identity_from_context tok) [(''owner'', JStr owner), (''name'', JStr ?nm)]
        (answer (Done (), ?dk)) (h\<lparr>h_db := ([], ?d)\<rparr>) = ((r, dk'), h')" by (simp add: call_def assms(1))
    have "h_db (h\<lparr>h_db := ([], ?d)\<rparr>) = ([], ?d)" by simp
    from emit_frame [OF this e] obtain d' where d': "(r, dk') = (Done (), ?dk)" "h_db h' = ([], d')" "repos d' = repos ?d" "ci_runs d' = ci_runs ?d" by blast
    have git: "repo_git_dir (se_cfg env) owner ?nm \<noteq> []" and log: "repo_log_dir data_dir owner ?nm \<noteq> []"
      by (simp_all add: repo_git_dir_def repo_log_dir_def)
    note t1 = remove_tree_paths [OF assms(3) git]
    note t2 = remove_tree_paths [OF conjunct1 [OF t1] log]
    have "run \<in> set (rows (ci_runs d')) \<or> ru_repo run = r_id x \<and> run_terminal (ru_status run)" if "run \<in> set (rows (ci_runs d))" for run
      using that False unfolding d'(4) by (auto simp: cascade_repo_def Let_def rows_delete_where)
    moreover have "repos d' = delete_where (\<lambda>y. r_id y = r_id x) (repos d)" unfolding d'(3) by (simp add: cascade_repo_def Let_def)
    moreover have "dk' = ?dk" "r = Done ()" using d'(1) by simp_all
    ultimately show ?thesis unfolding if_not_P [OF False] Let_def using d'(2) t1 t2 by blast
  qed
qed

section \<open>Who is who\<close>

lemma repo_names_access:
  assumes "repos_ok d" and "x \<in> set (rows (repos d))" and "repo_owner d x = Some owner"
  shows "can_access_repo (r_id x) owner ([], d) = (Inr True, ([], d)) \<and> can_write_repo (r_id x) owner ([], d) = (Inr True, ([], d))"
proof -
  have "repo_with_owner (r_id x) d = Some (x, owner)" using assms by (simp add: repo_with_owner_iff)
  then show ?thesis by (simp add: can_access_repo_def can_write_repo_def)
qed

text \<open>Privacy is guarded by names anybody may take: the token endpoint gives whoever holds a token another one of any
  free name, and the access check takes a token without an account for the account of its name. When the owner of a
  repository has no token of that name, as after the creation of the repository by an operator or by another user, the
  new token reads and writes the repository, private or not.\<close>

theorem minted_token_opens_private:
  assumes "h_db h = ([], d)" and "repos_ok d" and "x \<in> set (rows (repos d))" and "repo_owner d x = Some owner"
    and "trim_space name = owner" and "owner \<noteq> []" and "length owner \<le> 100" and "generate_token_string rnd = Some plain"
    and "\<not> exists_where (\<lambda>t. t_name t = owner \<or> t_hash t = hash_token sha plain) (tokens d)"
  shows "\<exists>tok h' d' a. handle_create_token sha rnd (Some name) h = (Done (tok, plain), h') \<and> h_db h' = ([], d') \<and>
    lookup_token sha plain ([], d') = (Inr a, ([], d')) \<and>
    can_access_repo (r_id x) (principal_from_context (Some a)) ([], d') = (Inr True, ([], d')) \<and>
    can_write_repo (r_id x) (principal_from_context (Some a)) ([], d') = (Inr True, ([], d'))"
proof -
  let ?p = "(owner, hash_token sha plain, None :: int option, now d)"
  let ?t = "mk_token ?p (seqno (tokens d) + 1)"
  let ?d = "d\<lparr>tokens := snd (insert_row (mk_token ?p) (tokens d))\<rparr>"
  have acc: "accounts_ok d" using assms(2) by (simp add: repos_ok_def)
  have ins: "insert_token owner (hash_token sha plain) None d = (Inr (seqno (tokens d) + 1), ?d)"
    using assms(9) by (auto simp: insert_token_ok exists_where_iff user_known_def)
  have acc': "accounts_ok ?d" using insert_token_inv [OF accounts_inv_refl [OF acc] ins] by (simp add: accounts_inv_def)
  have t: "?t \<in> set (rows (tokens ?d))" "t_id ?t = seqno (tokens d) + 1" "t_name ?t = owner" "t_hash ?t = hash_token sha plain"
    "t_revoked ?t = None" "t_user ?t = None" by (auto simp: row_simps)
  have found: "select_one (\<lambda>t. t_id t = seqno (tokens d) + 1) (tokens ?d) = Some ?t"
    using acc' select_one_id [of t_id "tokens ?d" ?t] t by (simp add: accounts_ok_def keyed_ok_def)
  have idem: "trim_space owner = owner" using assms(5) trim_space_idem by metis
  have create: "create_token sha owner plain ([], d) = (Inr (scan_token '''' ?t), ([], ?d))"
    unfolding create_token_def Let_def idem using assms(6) ins found by (simp add: get_token_by_id_def)
  have h: "handle_create_token sha rnd (Some name) h = (Done (scan_token '''' ?t, plain), h\<lparr>h_db := ([], ?d)\<rparr>)"
    using assms(6,7) create by (simp add: handle_create_token_def with_body_def Let_def assms(5,8) call_def assms(1) answer_def)
  have lookup: "lookup_token sha plain ([], ?d) = (Inr (scan_token [] ?t), ([], ?d))"
    using found_by_hash [OF acc' t(1,4,5)] by (simp add: t(6) user_name_of_def)
  have "principal_from_context (Some (scan_token [] ?t)) = owner"
    by (simp add: principal_from_context_def token_account_def scan_token_def t(3))
  moreover have "repos_ok ?d" using assms(2) acc' by (simp add: repos_ok_def)
  moreover have "repo_owner ?d x = Some owner" using assms(4) by (simp add: repo_owner_def)
  ultimately show ?thesis using h lookup repo_names_access [of ?d x owner] assms(3) by auto
qed

text \<open>The repository list answers for the token's name, not for its account: a caller who signed in, whose session
  token is named differently from the account, reads and writes the account's private repository but does not find
  it in the list, unless an account of the token's name happens to be let in.\<close>

theorem session_list_hides_own:
  assumes "h_db h = ([], d)" and "repos_ok d" and "x \<in> set (rows (repos d))" and "repo_owner d x = Some (tk_user a)" and "tk_user a \<noteq> []"
    and "\<not> visible_to d (tk_name a) (x, tk_user a)"
  shows "can_write_repo (r_id x) (principal_from_context (Some a)) ([], d) = (Inr True, ([], d)) \<and>
    (\<exists>rs. handle_list_repos (Some a) h = (Done rs, h) \<and> r_id x \<notin> ap_id ` set rs)"
proof -
  have p: "principal_from_context (Some a) = tk_user a" using assms(5) by (simp add: principal_from_context_def token_account_def)
  let ?ss = "map (summary_of d) (sort_key (\<lambda>(r, owner). (owner, r_name r)) (filter (visible_to d (tk_name a)) (joined_repos d)))"
  have listed: "list_repos_for_caller (identity_from_context (Some a)) ([], d) = (Inr ?ss, ([], d))"
    by (simp add: list_repos_for_caller_def identity_from_context_def)
  have "handle_list_repos (Some a) h = (Done (map to_api_repo ?ss), h)" unfolding handle_list_repos_def
    by (subst call_reads [where m = "list_repos_for_caller (identity_from_context (Some a))", OF assms(1) listed]) (simp only: sum.case answer_def)
  moreover have "r_id x \<notin> ap_id ` set (map to_api_repo ?ss)"
  proof
    assume "r_id x \<in> ap_id ` set (map to_api_repo ?ss)"
    then obtain r o1 where r: "(r, o1) \<in> set (joined_repos d)" "visible_to d (tk_name a) (r, o1)" "r_id r = r_id x"
      by (auto simp: to_api_repo_def summary_of_def)
    then have "r \<in> set (rows (repos d))" by (simp only: joined_repos_iff)
    from repo_by_id [OF assms(2) this] repo_by_id [OF assms(2,3)] r(3) have "r = x" by (metis option.inject)
    with r assms(4,6) show False by (auto simp: joined_repos_iff)
  qed
  ultimately show ?thesis using repo_names_access [OF assms(2,3,4)] p by auto
qed

text \<open>A host for the concrete runs: alice owns a private repository, bob reads it.\<close>

definition host_of :: "db \<Rightarrow> host" where
  "host_of d = \<lparr>h_db = ([], d), h_git = ([], Map.empty), h_executing = Map.empty, h_mirrored = []\<rparr>"

lemma host_of_db [simp]: "h_db (host_of d) = ([], d)"
  by (simp add: host_of_def)

theorem protected_patterns_roundtrip_witness:
  "\<exists>stored. join_patterns ['' main '', '''', ''release-1''] = Inr stored \<and> split_patterns stored = [''main'', ''release-1''] \<and>
     hook_patterns demo_shell stored = [''main'', ''release-1'']"
proof -
  have j: "join_patterns ['' main '', '''', ''release-1''] = Inr (''main'' @ [newline] @ ''release-1'')" by code_simp
  have n: "nonblank ['' main '', '''', ''release-1''] = [''main'', ''release-1'']" by code_simp
  have e: "concat (map (sh_expand demo_shell) [''main'', ''release-1'']) = [''main'', ''release-1'']" by code_simp
  from protected_patterns_roundtrip [OF j, of demo_shell] j show ?thesis unfolding n by (metis e)
qed

definition demo_update :: update_repo_request where
  "demo_update = \<lparr>urr_ci = Some True, urr_visibility = Some ''secret'', urr_approval = None, urr_protected = None\<rparr>"

theorem repo_update_response_witness:
  "\<exists>h' y. handle_update_repo ''alice'' ''web.git'' (Some demo_update) (host_of demo_repos) = (Refuse 400 bad_visibility, h') \<and>
     repo_on ''alice'' ''web'' h' y \<and> r_ci_enabled y"
proof -
  have t: "trim_suffix ''web.git'' ''.git'' = ''web''" by code_simp
  have "map_option r_id (repo_named ''alice'' (trim_suffix ''web.git'' ''.git'') demo_repos) = Some 1" by code_simp
  then obtain x where x: "repo_named ''alice'' (trim_suffix ''web.git'' ''.git'') demo_repos = Some x" by blast
  have f: "urr_ci demo_update \<noteq> None \<or> urr_visibility demo_update \<noteq> None \<or> urr_approval demo_update \<noteq> None \<or> urr_protected demo_update \<noteq> None"
    by (simp add: demo_update_def)
  from repo_update_response [OF host_of_db x f] show ?thesis unfolding t by (auto simp: demo_update_def or_keep_def)
qed

definition demo_disk :: disk where
  "demo_disk = \<lparr>dk_paths = {[''repos''], [''repos'', ''alice''], [''repos'', ''alice'', ''web.git''], [''repos'', ''alice'', ''web.git'', ''HEAD''],
     [''repos'', ''bob''], [''repos'', ''bob'', ''lib.git'']}, dk_fails = []\<rparr>"

theorem delete_spares_running_work_witness:
  "\<exists>dk' h'. handle_delete_repo demo_env ''data'' ''alice'' ''web'' None demo_disk (host_of demo_repos) = ((Done (), dk'), h') \<and>
     [''repos'', ''bob'', ''lib.git''] \<in> dk_paths dk'"
proof -
  have t: "trim_suffix ''web'' ''.git'' = ''web''" by code_simp
  have "map_option r_id (repo_named ''alice'' (trim_suffix ''web'' ''.git'') demo_repos) = Some 1" by code_simp
  then obtain x where x: "repo_named ''alice'' (trim_suffix ''web'' ''.git'') demo_repos = Some x" by blast
  obtain r dk' h' where e: "handle_delete_repo demo_env ''data'' ''alice'' ''web'' None demo_disk (host_of demo_repos) = ((r, dk'), h')"
    by (metis surj_pair)
  have "dk_fails demo_disk = []" by (simp add: demo_disk_def)
  note D = delete_spares_running_work [OF host_of_db x this e]
  have no: "\<not> (\<exists>run \<in> set (rows (ci_runs demo_repos)). ru_repo run = r_id x \<and> \<not> run_terminal (ru_status run))"
  proof -
    have "rows (ci_runs demo_repos) = []" by code_simp
    then show ?thesis by simp
  qed
  have "[''repos'', ''bob'', ''lib.git''] \<in> dk_paths demo_disk" by (simp add: demo_disk_def)
  with D e show ?thesis unfolding if_not_P [OF no] Let_def
    by (auto simp: repo_git_dir_def repo_log_dir_def beneath_def)
qed

theorem minted_token_opens_private_witness:
  "\<exists>tok h' d' a. handle_create_token id (Some ''r'') (Some '' alice '') (host_of demo_repos) = (Done (tok, ''cf_72''), h') \<and>
     lookup_token id ''cf_72'' ([], d') = (Inr a, ([], d')) \<and> can_access_repo 1 (principal_from_context (Some a)) ([], d') = (Inr True, ([], d')) \<and>
     fst (can_access_repo 1 ''mallory'' ([], demo_repos)) = Inr False"
proof -
  have "map_option r_id (repo_named ''alice'' ''web'' demo_repos) = Some 1" by code_simp
  then obtain x where x: "repo_named ''alice'' ''web'' demo_repos = Some x" "r_id x = 1" by blast
  then have m: "x \<in> set (rows (repos demo_repos))" and o1: "repo_owner demo_repos x = Some ''alice''"
    by (auto simp: repo_named_def dest: select_one_SomeD)
  have t: "trim_space '' alice '' = ''alice''" and g: "generate_token_string (Some ''r'') = Some ''cf_72''"
    and n: "\<not> exists_where (\<lambda>t. t_name t = ''alice'' \<or> t_hash t = hash_token id ''cf_72'') (tokens demo_repos)"
    and f: "fst (can_access_repo 1 ''mallory'' ([], demo_repos)) = Inr False" by code_simp+
  from minted_token_opens_private [OF host_of_db demo_repos_ok m o1 t _ _ g n] x(2) f show ?thesis by auto
qed

definition demo_session :: api_token where
  "demo_session = \<lparr>tk_id = 9, tk_name = ''alice-session'', tk_user = ''alice'', tk_created = 0, tk_last_used = None, tk_revoked = None\<rparr>"

theorem session_list_hides_own_witness:
  "can_write_repo 1 (principal_from_context (Some demo_session)) ([], demo_repos) = (Inr True, ([], demo_repos)) \<and>
    (\<exists>rs. handle_list_repos (Some demo_session) (host_of demo_repos) = (Done rs, host_of demo_repos) \<and> 1 \<notin> ap_id ` set rs)"
proof -
  have "map_option r_id (repo_named ''alice'' ''web'' demo_repos) = Some 1" by code_simp
  then obtain x where x: "repo_named ''alice'' ''web'' demo_repos = Some x" "r_id x = 1" by blast
  then have m: "x \<in> set (rows (repos demo_repos))" and o1: "repo_owner demo_repos x = Some (tk_user demo_session)"
    by (auto simp: repo_named_def demo_session_def dest: select_one_SomeD)
  have "case repo_named ''alice'' ''web'' demo_repos of None \<Rightarrow> False | Some x \<Rightarrow> \<not> visible_to demo_repos ''alice-session'' (x, ''alice'')" by code_simp
  with x have v: "\<not> visible_to demo_repos (tk_name demo_session) (x, tk_user demo_session)" by (simp add: demo_session_def)
  have "tk_user demo_session \<noteq> []" by (simp add: demo_session_def)
  from session_list_hides_own [OF host_of_db demo_repos_ok m o1 this v] x(2) show ?thesis by simp
qed

end
