(* ===== verification/Browse.thy ===== *)
theory Browse imports RepoApi begin

text \<open>
  Reading a repository: \<open>internal/server/tree.go\<close> (directories, files, refs), \<open>commits.go\<close> (history, diffs, compare)
  and \<open>code_comments.go\<close>. \<open>git\<close> is a parameter: what a read-only command with these arguments prints on the bare
  repository, \<open>None\<close> when it fails; the refs are those of the host. Every argument list is the one the code builds.
\<close>

type_synonym git_read = "string list \<Rightarrow> string option"

section \<open>Paths\<close>

definition trim_chars :: "char set \<Rightarrow> string \<Rightarrow> string" where
  "trim_chars cs s = rev (dropWhile (\<lambda>c. c \<in> cs) (rev (dropWhile (\<lambda>c. c \<in> cs) s)))"

text \<open>\<open>path.Clean\<close> of a relative path, on its components; the first argument is the result so far, last component first.\<close>

fun clean_parts :: "string list \<Rightarrow> string list \<Rightarrow> string list" where
  "clean_parts st [] = rev st"
| "clean_parts st (x # xs) =
     (if x = [] \<or> x = ''.'' then clean_parts st xs
      else if x = ''..'' then (case st of [] \<Rightarrow> clean_parts [x] xs | t # ts \<Rightarrow> if t = ''..'' then clean_parts (x # st) xs else clean_parts ts xs)
      else clean_parts (x # st) xs)"

definition path_clean :: "string \<Rightarrow> string" where
  "path_clean p = (let cs = clean_parts [] (split_on slash p) in if cs = [] then ''.'' else join [slash] cs)"

definition clean_tree_path :: "string \<Rightarrow> string + string" where
  "clean_tree_path p = (let p = trim_chars {slash} p in
     if p = [] then Inr []
     else (let cleaned = path_clean p in
       if cleaned = ''.'' \<or> cleaned = ''..'' \<or> has_prefix cleaned ''../'' then Inl ''invalid path'' else Inr cleaned))"

section \<open>Requests\<close>

definition q_get :: "url_values \<Rightarrow> string \<Rightarrow> string" where
  "q_get q key = or_empty (first_of q key)"

definition in_repo :: "server_env \<Rightarrow> string \<Rightarrow> string \<Rightarrow> (int \<Rightarrow> 'a reply srv) \<Rightarrow> 'a reply srv" where
  "in_repo env owner repo k = lookup_repo_or_fail owner repo Refuse (\<lambda>rid. repo_dir_or_fail env owner repo Refuse (\<lambda>_. k rid))"

definition tree_path_or_fail :: "string \<Rightarrow> (string \<Rightarrow> 'a reply srv) \<Rightarrow> 'a reply srv" where
  "tree_path_or_fail p k = (case clean_tree_path p of Inl e \<Rightarrow> answer (Refuse 400 e) | Inr p \<Rightarrow> k p)"

definition head_ref :: "git_read \<Rightarrow> string" where
  "head_ref git = (case git [''symbolic-ref'', ''--short'', ''HEAD''] of None \<Rightarrow> ''HEAD'' | Some out \<Rightarrow> trim_space out)"

definition has_commits :: "git_read \<Rightarrow> bool" where
  "has_commits git \<longleftrightarrow> git [''rev-parse'', ''--verify'', ''-q'', ''HEAD''] \<noteq> None"

definition resolve_ref :: "git_read \<Rightarrow> url_values \<Rightarrow> (string \<Rightarrow> 'a reply srv) \<Rightarrow> 'a reply srv" where
  "resolve_ref git q k = (let ref = trim_space (q_get q ''ref'') in
     if ref = [] then k (head_ref git)
     else on_refs (branch_exists ref) (\<lambda>found. if found then k ref else answer (Refuse 404 (''branch not found: '' @ ref))))"

text \<open>The records of a \<open>-z\<close> listing.\<close>

definition nul_records :: "string \<Rightarrow> string list" where
  "nul_records s = filter (\<lambda>r. r \<noteq> []) (split_on CHR 0x00 s)"

definition nonblank_lines :: "string \<Rightarrow> string list" where
  "nonblank_lines s = nonblank (split_on newline (trim_space s))"

section \<open>Directories\<close>

record tree_entry =
  te_name :: string
  te_path :: string
  te_type :: string
  te_size :: int

definition child_path :: "string \<Rightarrow> string \<Rightarrow> string" where
  "child_path dir name = (if dir = [] then name else dir @ slash # name)"

text \<open>\<open>strconv.ParseInt\<close> with its error dropped: 0, or the bound of the type when only the range is at fault; a size of
  git is neither.\<close>

definition parse_size :: "string \<Rightarrow> int" where
  "parse_size s = (case atoi s of None \<Rightarrow> 0 | Some n \<Rightarrow> n)"

definition parse_tree_record :: "string \<Rightarrow> string \<Rightarrow> tree_entry option" where
  "parse_tree_record rec dir = (case cut_at CHR 0x09 rec of
     None \<Rightarrow> None
   | Some (meta, name) \<Rightarrow> (let fields = strings_fields meta in
       if length fields < 4 then None
       else if fields ! 1 \<noteq> ''blob'' \<and> fields ! 1 \<noteq> ''tree'' then None
       else Some \<lparr>te_name = name, te_path = child_path dir name, te_type = fields ! 1,
         te_size = (if fields ! 1 = ''blob'' then parse_size (fields ! 3) else 0)\<rparr>))"

text \<open>A stable sort: directories first, then by the lower-case name, which \<open>to_lower\<close> gives.\<close>

definition sort_entries :: "(string \<Rightarrow> string) \<Rightarrow> tree_entry list \<Rightarrow> tree_entry list" where
  "sort_entries to_lower es = sort_key (\<lambda>e. (if te_type e = ''tree'' then 0 else 1 :: nat, to_lower (te_name e))) es"

definition handle_tree ::
  "server_env \<Rightarrow> git_read \<Rightarrow> (string \<Rightarrow> string) \<Rightarrow> string \<Rightarrow> string \<Rightarrow> url_values \<Rightarrow> (string \<times> string \<times> tree_entry list) reply srv" where
  "handle_tree env git to_lower owner repo q = in_repo env owner repo (\<lambda>_.
     tree_path_or_fail (q_get q ''path'') (\<lambda>p. resolve_ref git q (\<lambda>ref.
       if \<not> has_commits git then answer (Done (ref, p, []))
       else (case git [''ls-tree'', ''--long'', ''-z'', ref @ CHR '':'' # p] of
           None \<Rightarrow> answer (Refuse 404 (''path not found: '' @ p))
         | Some raw \<Rightarrow> answer (Done (ref, p, sort_entries to_lower (List.map_filter (\<lambda>rec. parse_tree_record rec p) (nul_records raw))))))))"

section \<open>Files\<close>

definition max_blob_bytes :: int where
  "max_blob_bytes = 2097152"

definition is_binary :: "string \<Rightarrow> bool" where
  "is_binary c \<longleftrightarrow> CHR 0x00 \<in> set (take 8000 c)"

record blob =
  bl_ref :: string
  bl_path :: string
  bl_size :: int
  bl_binary :: bool
  bl_too_large :: bool
  bl_content :: string

text \<open>What the file handlers share: the path must name a file on the ref; \<open>what\<close> is how a refusal calls it.\<close>

definition file_or_fail :: "git_read \<Rightarrow> string \<Rightarrow> string \<Rightarrow> string \<Rightarrow> 'a reply srv \<Rightarrow> 'a reply srv" where
  "file_or_fail git what ref p k = (case map_option trim_space (git [''cat-file'', ''-t'', ref @ CHR '':'' # p]) of
     None \<Rightarrow> answer (Refuse 404 (what @ '' not found: '' @ p))
   | Some typ \<Rightarrow> if typ = ''blob'' then k
       else if typ = ''tree'' then answer (Refuse 400 (''path is a directory: '' @ p))
       else answer (Refuse 404 (what @ '' not found: '' @ p)))"

definition size_or_fail :: "git_read \<Rightarrow> string \<Rightarrow> string \<Rightarrow> (int \<Rightarrow> 'a reply srv) \<Rightarrow> 'a reply srv" where
  "size_or_fail git ref p k = (case git [''cat-file'', ''-s'', ref @ CHR '':'' # p] of
     None \<Rightarrow> answer internal | Some out \<Rightarrow> k (parse_size (trim_space out)))"

definition content_or_fail :: "git_read \<Rightarrow> string \<Rightarrow> string \<Rightarrow> (string \<Rightarrow> 'a reply srv) \<Rightarrow> 'a reply srv" where
  "content_or_fail git ref p k = (case git [''cat-file'', ''blob'', ref @ CHR '':'' # p] of None \<Rightarrow> answer internal | Some c \<Rightarrow> k c)"

definition file_request :: "server_env \<Rightarrow> git_read \<Rightarrow> string \<Rightarrow> string \<Rightarrow> url_values \<Rightarrow> (string \<Rightarrow> string \<Rightarrow> 'a reply srv) \<Rightarrow> 'a reply srv" where
  "file_request env git owner repo q k = in_repo env owner repo (\<lambda>_. tree_path_or_fail (q_get q ''path'') (\<lambda>p.
     if p = [] then answer (Refuse 400 ''path is required'')
     else resolve_ref git q (\<lambda>ref. file_or_fail git ''path'' ref p (k ref p))))"

definition handle_blob :: "server_env \<Rightarrow> git_read \<Rightarrow> string \<Rightarrow> string \<Rightarrow> url_values \<Rightarrow> blob reply srv" where
  "handle_blob env git owner repo q = file_request env git owner repo q (\<lambda>ref p. size_or_fail git ref p (\<lambda>size.
     let b = \<lparr>bl_ref = ref, bl_path = p, bl_size = size, bl_binary = False, bl_too_large = False, bl_content = []\<rparr> in
     if max_blob_bytes < size then answer (Done (b\<lparr>bl_too_large := True\<rparr>))
     else content_or_fail git ref p (\<lambda>c. answer (Done (if is_binary c then b\<lparr>bl_binary := True\<rparr> else b\<lparr>bl_content := c\<rparr>)))))"

text \<open>The type of raw content: by the extension when the table of the host knows it, else sniffed.\<close>

definition raw_content_type :: "(string \<Rightarrow> string) \<Rightarrow> (string \<Rightarrow> string) \<Rightarrow> string \<Rightarrow> string \<Rightarrow> string" where
  "raw_content_type by_ext sniff p c = (if by_ext (path_ext p) \<noteq> [] then by_ext (path_ext p) else sniff c)"

record raw_file =
  rw_type :: string
  rw_options :: string
  rw_policy :: string
  rw_content :: string

definition handle_raw ::
  "server_env \<Rightarrow> git_read \<Rightarrow> (string \<Rightarrow> string) \<Rightarrow> (string \<Rightarrow> string) \<Rightarrow> string \<Rightarrow> string \<Rightarrow> url_values \<Rightarrow> raw_file reply srv" where
  "handle_raw env git by_ext sniff owner repo q = file_request env git owner repo q (\<lambda>ref p. size_or_fail git ref p (\<lambda>size.
     if max_blob_bytes < size then answer (Refuse 413 ''file too large'')
     else content_or_fail git ref p (\<lambda>c. answer (Done \<lparr>rw_type = raw_content_type by_ext sniff p c, rw_options = ''nosniff'',
       rw_policy = ''default-src '' @ CHR 0x27 # ''none'' @ CHR 0x27 # ''; sandbox'', rw_content = c\<rparr>))))"

section \<open>Branches and tags\<close>

text \<open>\<open>git branch --contains\<close>: the default branch if it is listed, else the first one.\<close>

fun label_of :: "string \<Rightarrow> string \<Rightarrow> string list \<Rightarrow> string" where
  "label_of main first [] = first"
| "label_of main first (line # ls) = (let name = trim_space line in
     if name = [] then label_of main first ls
     else if name = main then main
     else label_of main (if first = [] then name else first) ls)"

definition primary_branch :: "git_read \<Rightarrow> string \<Rightarrow> string \<Rightarrow> string" where
  "primary_branch git sha main =
     (case git [''branch'', ''--format=%(refname:short)'', ''--sort=refname'', ''--contains'', sha] of
        None \<Rightarrow> [] | Some raw \<Rightarrow> label_of main [] (split_on newline (trim_space raw)))"

definition list_branches :: "git_read \<Rightarrow> string list option" where
  "list_branches git = map_option nonblank_lines
     (git [''for-each-ref'', ''--format=%(refname:short)'', ''--sort=refname'', ''refs/heads''])"

record tag =
  tg_name :: string
  tg_sha :: string
  tg_created :: string
  tg_message :: string

text \<open>\<open>strings.SplitN\<close> with 4: the last part keeps the separators that follow.\<close>

definition parse_tag :: "string \<Rightarrow> tag option" where
  "parse_tag line = (case split_on CHR 0x00 line of
     name # sha # date # m # ms \<Rightarrow> Some \<lparr>tg_name = name, tg_sha = take 40 (trim_space sha), tg_created = date,
       tg_message = trim_space (join [CHR 0x00] (m # ms))\<rparr>
   | _ \<Rightarrow> None)"

definition list_tags :: "git_read \<Rightarrow> tag list option" where
  "list_tags git = map_option (\<lambda>raw. List.map_filter parse_tag (nonblank_lines raw))
     (git [''for-each-ref'', ''--format=%(refname:short)%00%(*objectname)%(objectname)%00%(creatordate:iso-strict)%00%(subject)'',
       ''--sort=-version:refname'', ''refs/tags''])"

record ref_list =
  rl_default :: string
  rl_branches :: "string list"
  rl_tags :: "tag list"

definition handle_list_refs :: "server_env \<Rightarrow> git_read \<Rightarrow> string \<Rightarrow> string \<Rightarrow> ref_list reply srv" where
  "handle_list_refs env git owner repo = in_repo env owner repo (\<lambda>_. answer (case list_branches git of
     None \<Rightarrow> internal
   | Some bs \<Rightarrow> (case list_tags git of None \<Rightarrow> internal
       | Some ts \<Rightarrow> Done \<lparr>rl_default = head_ref git, rl_branches = bs, rl_tags = ts\<rparr>)))"

section \<open>Code comments\<close>

definition file_lines :: "git_read \<Rightarrow> string \<Rightarrow> string \<Rightarrow> string list" where
  "file_lines git ref p = (case git [''cat-file'', ''blob'', ref @ CHR '':'' # p] of
     None \<Rightarrow> []
   | Some c \<Rightarrow> if is_binary c \<or> max_blob_bytes < int (length c) then [] else split_on newline (trim_suffix c [newline]))"

text \<open>The lines \<open>start\<close> to \<open>end\<close>, which a stored comment has in this order.\<close>

definition slice_lines :: "string list \<Rightarrow> int \<Rightarrow> int \<Rightarrow> string" where
  "slice_lines ls start till =
     (if ls = [] \<or> start < 1 \<or> int (length ls) < start then []
      else join [newline] (drop (nat (start - 1)) (take (nat (min till (int (length ls)))) ls)))"

text \<open>The cache of \<open>fillSnippets\<close> only saves reading a file twice: every comment gets the lines of its own file.\<close>

definition fill_snippets :: "git_read \<Rightarrow> string \<Rightarrow> code_comment_row list \<Rightarrow> (code_comment_row \<times> string) list" where
  "fill_snippets git ref cs = map (\<lambda>c. (c, slice_lines (file_lines git ref (cc_path c)) (cc_start c) (cc_end c))) cs"

definition handle_list_code_comments ::
  "server_env \<Rightarrow> git_read \<Rightarrow> string \<Rightarrow> string \<Rightarrow> url_values \<Rightarrow> (code_comment_row \<times> string) list reply srv" where
  "handle_list_code_comments env git owner repo q = in_repo env owner repo (\<lambda>rid. resolve_ref git q (\<lambda>ref.
     tree_path_or_fail (q_get q ''path'') (\<lambda>p.
       let state = q_get q ''state'' in
       call (list_code_comments rid ref p (state = ''all'' \<or> state = ''resolved'')) (\<lambda>r. answer (case r of
         Inl _ \<Rightarrow> internal
       | Inr cs \<Rightarrow> Done (fill_snippets git ref (if state = ''resolved'' then filter cc_resolved cs else cs)))))))"

text \<open>The branch a comment is made on: the default one, or one that exists.\<close>

definition comment_ref :: "git_read \<Rightarrow> string \<Rightarrow> (string \<Rightarrow> 'a reply srv) \<Rightarrow> 'a reply srv" where
  "comment_ref git ref k = (if ref = [] then k (head_ref git)
     else on_refs (branch_exists ref) (\<lambda>found. if found then k ref else answer (Refuse 404 (''branch not found: '' @ ref))))"

definition handle_create_code_comment ::
  "server_env \<Rightarrow> git_read \<Rightarrow> string \<Rightarrow> string \<Rightarrow> create_code_comment_request option \<Rightarrow> api_token option \<Rightarrow> code_comment_row reply srv" where
  "handle_create_code_comment env git owner repo body tok = in_repo env owner repo (\<lambda>rid. with_body body (\<lambda>req.
     if trim_space (ccr_body req) = [] then answer (Refuse 400 ''body is required'')
     else tree_path_or_fail (ccr_path req) (\<lambda>p.
       if p = [] then answer (Refuse 400 ''path is required'')
       else if ccr_start req < 1 \<or> ccr_end req < ccr_start req then answer (Refuse 400 ''invalid line range'')
       else comment_ref git (trim_space (ccr_ref req)) (\<lambda>ref.
         if map_option trim_space (git [''cat-file'', ''-t'', ref @ CHR '':'' # p]) \<noteq> Some ''blob''
         then answer (Refuse 404 (''path not found on branch: '' @ p))
         else call (create_code_comment rid (req\<lparr>ccr_body := trim_space (ccr_body req), ccr_path := p, ccr_ref := ref,
             ccr_sha := (case git [''rev-parse'', ref] of None \<Rightarrow> ccr_sha req | Some sha \<Rightarrow> trim_space sha),
             ccr_author := identity_from_context tok\<rparr>))
           (\<lambda>r. answer (case r of Inl _ \<Rightarrow> internal | Inr c \<Rightarrow> Done c))))))"

text \<open>What both writes to a comment answer when it is missing or someone else's.\<close>

definition comment_reply :: "string \<Rightarrow> db_error + 'a \<Rightarrow> 'a reply" where
  "comment_reply refusal r = (case r of
     Inr c \<Rightarrow> Done c
   | Inl e \<Rightarrow> if e = ErrNotFound then Refuse 404 ''comment not found''
       else if e = ErrForbidden then Refuse 403 refusal else internal)"

definition handle_patch_code_comment :: "int option \<Rightarrow> bool option option \<Rightarrow> api_token option \<Rightarrow> code_comment_row reply srv" where
  "handle_patch_code_comment num body tok = with_number num ''invalid comment id'' (\<lambda>i. with_body body (\<lambda>resolved.
     case resolved of None \<Rightarrow> answer (Refuse 400 ''resolved is required'')
     | Some b \<Rightarrow> call (set_code_comment_resolved i b (identity_from_context tok))
         (\<lambda>r. answer (comment_reply ''only the author can update this comment'' r))))"

definition handle_delete_code_comment :: "int option \<Rightarrow> api_token option \<Rightarrow> unit reply srv" where
  "handle_delete_code_comment num tok = with_number num ''invalid comment id'' (\<lambda>i.
     call (delete_code_comment i (identity_from_context tok))
       (\<lambda>r. answer (comment_reply ''only the author can delete this comment'' r)))"

section \<open>What cleaning a path guarantees\<close>

text \<open>Walking down from the root of a tree: \<open>None\<close> when a step leaves it.\<close>

fun walk :: "string list \<Rightarrow> string list \<Rightarrow> string list option" where
  "walk st [] = Some (rev st)"
| "walk st (x # xs) =
     (if x = [] \<or> x = ''.'' then walk st xs
      else if x = ''..'' then (case st of [] \<Rightarrow> None | _ # ts \<Rightarrow> walk ts xs)
      else walk (x # st) xs)"

definition plain_part :: "string \<Rightarrow> bool" where
  "plain_part x \<longleftrightarrow> x \<noteq> [] \<and> x \<noteq> ''.'' \<and> x \<noteq> ''..'' \<and> slash \<notin> set x"

lemma split_end: "\<exists>xs. split_on c (u @ [c]) = xs @ [[]] \<and> xs \<noteq> []"
proof (induction u)
  case (Cons a u)
  then obtain xs where xs: "split_on c (u @ [c]) = xs @ [[]]" "xs \<noteq> []" by blast
  show ?case
  proof (cases "a = c")
    case True
    then show ?thesis using xs by (intro exI [of _ "[] # xs"]) simp
  next
    case False
    then show ?thesis using xs by (cases xs) auto
  qed
qed (intro exI [of _ "[[]]"], simp)

text \<open>A parent at the bottom of the result stays there.\<close>

lemma clean_parts_climbed: "\<exists>cs. clean_parts (st @ [''..'']) xs = ''..'' # cs"
proof (induction xs arbitrary: st)
  case (Cons x xs)
  show ?case
  proof (cases st)
    case Nil
    then show ?thesis using Cons.IH [of "[]"] Cons.IH [of "[x]"] Cons.IH [of "[''..'']"] by simp
  next
    case (Cons s ts)
    then show ?thesis using Cons.IH [of st] Cons.IH [of "x # st"] Cons.IH [of ts] by auto
  qed
qed simp

lemma clean_parts_walk:
  assumes "\<forall>x \<in> set st. plain_part x" and "\<forall>x \<in> set xs. slash \<notin> set x"
  shows "case walk st xs of None \<Rightarrow> \<exists>cs. clean_parts st xs = ''..'' # cs
         | Some q \<Rightarrow> clean_parts st xs = q \<and> (\<forall>x \<in> set q. plain_part x)"
  using assms
proof (induction xs arbitrary: st)
  case (Cons x xs)
  consider "x = [] \<or> x = ''.''" | "x = ''..''" "st = []" | t ts where "x = ''..''" "st = t # ts" | "x \<noteq> []" "x \<noteq> ''.''" "x \<noteq> ''..''"
    by (cases st) auto
  then show ?case
  proof cases
    case 2
    then show ?thesis using clean_parts_climbed [of "[]" xs] by simp
  next
    case 3
    then have "t \<noteq> ''..''" "\<forall>x \<in> set ts. plain_part x" using Cons.prems(1) by (auto simp: plain_part_def)
    then have "walk st (x # xs) = walk ts xs" "clean_parts st (x # xs) = clean_parts ts xs" using 3 by simp_all
    then show ?thesis using Cons.IH [of ts] Cons.prems(2) \<open>\<forall>x \<in> set ts. plain_part x\<close> by (simp only: list.simps ball_simps) blast
  next
    case 4
    then have "\<forall>y \<in> set (x # st). plain_part y" using Cons.prems by (simp add: plain_part_def)
    moreover have "walk st (x # xs) = walk (x # st) xs" "clean_parts st (x # xs) = clean_parts (x # st) xs" using 4 by simp_all
    ultimately show ?thesis using Cons.IH [of "x # st"] Cons.prems(2) by (simp only: list.simps ball_simps) blast
  next
    case 1
    then have "walk st (x # xs) = walk st xs" "clean_parts st (x # xs) = clean_parts st xs" by auto
    then show ?thesis using Cons.IH [of st] Cons.prems by (simp only: list.simps ball_simps) blast
  qed
qed auto

lemma walk_plain: "\<forall>x \<in> set xs. plain_part x \<Longrightarrow> walk st xs = Some (rev st @ xs)"
  by (induction xs arbitrary: st) (auto simp: plain_part_def)

lemma split_plain: "q \<noteq> [] \<Longrightarrow> \<forall>x \<in> set q. plain_part x \<Longrightarrow> split_on slash (join [slash] q) = q"
  by (rule split_on_join) (auto simp: plain_part_def)

lemma trim_chars_ends: "c \<notin> cs \<Longrightarrow> d \<notin> cs \<Longrightarrow> s = c # t \<Longrightarrow> s = u @ [d] \<Longrightarrow> trim_chars cs s = s"
  unfolding trim_chars_def by (metis dropWhile.simps(2) rev.simps(2) rev_append rev_rev_ident rev_singleton_conv append_Cons append_Nil)

text \<open>\<open>cleanTreePath\<close> resolves the components from the root, and refuses a path that leaves it or ends at it.\<close>

lemma clean_tree_path_walk:
  "clean_tree_path p = (let p = trim_chars {slash} p in
     if p = [] then Inr [] else (case walk [] (split_on slash p) of
       None \<Rightarrow> Inl ''invalid path'' | Some q \<Rightarrow> if q = [] then Inl ''invalid path'' else Inr (join [slash] q)))"
proof (cases "trim_chars {slash} p = []")
  case False
  define xs where "xs = split_on slash (trim_chars {slash} p)"
  have "\<forall>x \<in> set xs. slash \<notin> set x" unfolding xs_def using split_on_no_sep by blast
  note walked = clean_parts_walk [of "[]" xs, OF _ this]
  show ?thesis
  proof (cases "walk [] xs")
    case None
    then obtain cs where "clean_parts [] xs = ''..'' # cs" using walked by auto
    then have "path_clean (trim_chars {slash} p) = ''..'' \<or> has_prefix (path_clean (trim_chars {slash} p)) ''../''"
      unfolding path_clean_def xs_def [symmetric] by (cases cs) (simp_all add: has_prefix_def slash_def)
    then show ?thesis using False None unfolding clean_tree_path_def xs_def by (auto simp: Let_def)
  next
    case (Some q)
    then have q: "clean_parts [] xs = q" "\<forall>x \<in> set q. plain_part x" using walked by auto
    show ?thesis
    proof (cases q)
      case Nil
      then show ?thesis using False Some q(1) unfolding clean_tree_path_def path_clean_def xs_def by (simp add: Let_def)
    next
      case (Cons a as)
      have split: "split_on slash (join [slash] q) = q" using Cons q(2) by (intro split_plain) auto
      have a: "plain_part a" using Cons q(2) by simp
      have "split_on slash ''.'' = [''.'']" "split_on slash ''..'' = [''..'']" by (simp_all add: slash_def)
      then have "join [slash] q \<noteq> ''.''" "join [slash] q \<noteq> ''..''" using split a Cons by (auto simp: plain_part_def)
      moreover have "\<not> has_prefix (join [slash] q) ''../''"
      proof
        assume "has_prefix (join [slash] q) ''../''"
        then obtain t where "join [slash] q = ''..'' @ slash # t" by (auto simp: has_prefix_iff slash_def)
        then have "q = ''..'' # split_on slash t" using split split_on_append_sep [of slash "''..''" t] by (simp add: slash_def)
        then show False using a Cons by (simp add: plain_part_def)
      qed
      ultimately show ?thesis using False Some q(1) Cons unfolding clean_tree_path_def path_clean_def xs_def by (simp add: Let_def)
    qed
  qed
qed (simp add: clean_tree_path_def Let_def)

text \<open>C32: A path the file, tree and history endpoints accept stays inside the tree. What \<open>cleanTreePath\<close> returns is
  what walking the request's path from the root reaches, without ever stepping above the root; it has no empty, \<open>.\<close> or
  \<open>..\<close> component, and cleaning it again changes nothing.\<close>

theorem tree_paths_stay_inside:
  assumes "clean_tree_path p = Inr q" and "q \<noteq> []"
  shows "walk [] (split_on slash (trim_chars {slash} p)) = Some (split_on slash q)
    \<and> {[], ''.'', ''..''} \<inter> set (split_on slash q) = {} \<and> clean_tree_path q = Inr q"
proof (intro conjI)
  obtain cs where w: "walk [] (split_on slash (trim_chars {slash} p)) = Some cs" and cs: "cs \<noteq> []" "q = join [slash] cs"
    using assms by (auto simp: clean_tree_path_walk Let_def split: if_splits option.splits)
  have "\<forall>x \<in> set (split_on slash (trim_chars {slash} p)). slash \<notin> set x" using split_on_no_sep by blast
  from clean_parts_walk [of "[]", OF _ this] have plain: "\<forall>x \<in> set cs. plain_part x" using w by auto
  have split: "split_on slash q = cs" using cs plain by (simp add: split_plain)
  show "walk [] (split_on slash (trim_chars {slash} p)) = Some (split_on slash q)" using w split by simp
  show "{[], ''.'', ''..''} \<inter> set (split_on slash q) = {}" using plain split by (auto simp: plain_part_def)
  obtain c t where c: "q = c # t" using assms(2) by (cases q) auto
  obtain u d where d: "q = u @ [d]" using assms(2) by (cases q rule: rev_cases) auto
  have none: "[] \<notin> set (split_on slash q)" using plain split by (auto simp: plain_part_def)
  then have "c \<noteq> slash" unfolding c by auto
  moreover have "d \<noteq> slash" using none split_end [of slash u] unfolding d by auto
  ultimately have "trim_chars {slash} q = q" using c d trim_chars_ends [of c "{slash}" d q t u] by simp
  then show "clean_tree_path q = Inr q"
    using walk_plain [of cs "[]"] plain split cs assms(2) by (simp add: clean_tree_path_walk Let_def)
qed

lemma tree_paths_stay_inside_witness:
  "walk [] (split_on slash (trim_chars {slash} ''/a/./b/../c//'')) = Some (split_on slash ''a/c'')
   \<and> {[], ''.'', ''..''} \<inter> set (split_on slash ''a/c'') = {} \<and> clean_tree_path ''a/c'' = Inr ''a/c''"
proof -
  have "clean_tree_path ''/a/./b/../c//'' = Inr ''a/c''"
    by (simp add: clean_tree_path_walk trim_chars_def slash_def)
  from tree_paths_stay_inside [OF this] show ?thesis by blast
qed

end
