(* ===== verification/Commits.thy ===== *)
theory Commits imports Browse "HOL-Library.Word" begin

text \<open>
  History and diffs: \<open>internal/server/commits.go\<close>. What \<open>git log\<close> prints is decoded into commits, what
  \<open>git diff-tree -p\<close> prints into files, hunks and numbered lines; line numbers are unbounded here, and those of a patch
  stay far below the width of an \<open>int\<close>.
\<close>

section \<open>Commits\<close>

record commit_info =
  cm_sha :: string
  cm_short :: string
  cm_subject :: string
  cm_body :: string
  cm_author :: string
  cm_email :: string
  cm_date :: int
  cm_branch :: string

definition commit_format :: string where
  "commit_format = ''%H%x1f%h%x1f%an%x1f%ae%x1f%aI%x1f%s%x1f%b%x1e''"

text \<open>The instant of Go's zero time, in seconds of the epoch; \<open>parse_time\<close> is \<open>time.Parse\<close> of RFC 3339.\<close>

definition zero_time :: int where
  "zero_time = - 62135596800"

definition trim_right_chars :: "char set \<Rightarrow> string \<Rightarrow> string" where
  "trim_right_chars cs s = rev (dropWhile (\<lambda>c. c \<in> cs) (rev s))"

definition parse_commit :: "(string \<Rightarrow> int option) \<Rightarrow> string \<Rightarrow> commit_info option" where
  "parse_commit parse_time rec = (let rec = trim_chars {newline} rec in
     if rec = [] then None
     else (case split_on CHR 0x1F rec of
         sha # short # author # email # date # subject # body # _ \<Rightarrow>
           Some \<lparr>cm_sha = sha, cm_short = short, cm_subject = subject, cm_body = trim_right_chars {newline} body,
             cm_author = author, cm_email = email,
             cm_date = (case parse_time (trim_space date) of None \<Rightarrow> zero_time | Some t \<Rightarrow> t), cm_branch = []\<rparr>
       | _ \<Rightarrow> None))"

definition parse_commits :: "(string \<Rightarrow> int option) \<Rightarrow> string \<Rightarrow> commit_info list" where
  "parse_commits parse_time raw = List.map_filter (parse_commit parse_time) (split_on CHR 0x1E raw)"

section \<open>History\<close>

definition parse_int_default :: "string \<Rightarrow> int \<Rightarrow> int" where
  "parse_int_default s d = (if s = [] then d else case atoi s of None \<Rightarrow> d | Some n \<Rightarrow> n)"

definition clamp_int :: "int \<Rightarrow> int \<Rightarrow> int \<Rightarrow> int" where
  "clamp_int n lo hi = (if n < lo then lo else if hi < n then hi else n)"

text \<open>The product may wrap around in 64 bits.\<close>

definition page_skip :: "int \<Rightarrow> int \<Rightarrow> int" where
  "page_skip n per_page = sint (of_int ((n - 1) * per_page) :: 64 word)"

definition path_args :: "string \<Rightarrow> string list" where
  "path_args p = (if p = [] then [] else [''--'', p])"

definition log_args :: "int \<Rightarrow> int \<Rightarrow> string \<Rightarrow> string \<Rightarrow> string list" where
  "log_args per_page skip ref p =
     [''log'', ''--format='' @ commit_format, ''--max-count='' @ itoa (per_page + 1), ''--skip='' @ itoa skip, ref] @ path_args p"

record commit_list =
  cl_ref :: string
  cl_path :: string
  cl_commits :: "commit_info list"
  cl_more :: bool

definition handle_commits ::
  "server_env \<Rightarrow> git_read \<Rightarrow> (string \<Rightarrow> int option) \<Rightarrow> string \<Rightarrow> string \<Rightarrow> url_values \<Rightarrow> commit_list reply srv" where
  "handle_commits env git parse_time owner repo q = in_repo env owner repo (\<lambda>_. tree_path_or_fail (q_get q ''path'') (\<lambda>p.
     let per_page = clamp_int (parse_int_default (q_get q ''per_page'') 30) 1 100;
         n = max 1 (parse_int_default (q_get q ''page'') 1) in
     resolve_ref git q (\<lambda>ref.
       let none = \<lparr>cl_ref = ref, cl_path = p, cl_commits = [], cl_more = False\<rparr> in
       if \<not> has_commits git then answer (Done none)
       else (case git (log_args per_page (page_skip n per_page) ref p) of
           None \<Rightarrow> answer (Refuse 404 (''path not found: '' @ p))
         | Some raw \<Rightarrow> (let cs = parse_commits parse_time raw in
             answer (Done (none\<lparr>cl_commits := take (nat per_page) cs, cl_more := per_page < int (length cs)\<rparr>)))))))"

text \<open>\<open>#N\<close> on a non-digit boundary.\<close>

definition issue_pattern :: "int \<Rightarrow> string" where
  "issue_pattern n = CHR ''#'' # itoa n @ ''([^0-9]|$)''"

definition handle_issue_commits ::
  "server_env \<Rightarrow> git_read \<Rightarrow> (string \<Rightarrow> int option) \<Rightarrow> string \<Rightarrow> string \<Rightarrow> int option \<Rightarrow> commit_info list reply srv" where
  "handle_issue_commits env git parse_time owner repo num = with_number num ''invalid issue number'' (\<lambda>n.
     in_repo env owner repo (\<lambda>_.
       if \<not> has_commits git then answer (Done [])
       else (case git [''log'', ''--all'', ''-E'', ''--grep='' @ issue_pattern n, ''--format='' @ commit_format] of
           None \<Rightarrow> answer (Refuse 500 ''git log failed'')
         | Some raw \<Rightarrow> answer (Done (map (\<lambda>c. c\<lparr>cm_branch := primary_branch git (cm_sha c) (head_ref git)\<rparr>)
             (parse_commits parse_time raw))))))"

definition last_commit :: "git_read \<Rightarrow> (string \<Rightarrow> int option) \<Rightarrow> string \<Rightarrow> string \<Rightarrow> commit_info option" where
  "last_commit git parse_time ref p = (case git ([''log'', ''-1'', ''--format='' @ commit_format, ref] @ path_args p) of
     None \<Rightarrow> None
   | Some raw \<Rightarrow> (case parse_commits parse_time raw of [] \<Rightarrow> None | c # _ \<Rightarrow> Some c))"

definition count_commits :: "git_read \<Rightarrow> string \<Rightarrow> string \<Rightarrow> int" where
  "count_commits git ref p = (case git ([''rev-list'', ''--count'', ref] @ path_args p) of
     None \<Rightarrow> 0 | Some raw \<Rightarrow> parse_size (trim_space raw))"

record tree_commits =
  tc_ref :: string
  tc_path :: string
  tc_total :: int
  tc_latest :: "commit_info option"
  tc_entries :: "string \<rightharpoonup> commit_info"

text \<open>The probes run concurrently and each writes the key of its own child, so their order does not matter.\<close>

definition child_commits :: "git_read \<Rightarrow> (string \<Rightarrow> int option) \<Rightarrow> string \<Rightarrow> string list \<Rightarrow> string \<rightharpoonup> commit_info" where
  "child_commits git parse_time ref names p = (if p \<in> set names then last_commit git parse_time ref p else None)"

definition handle_tree_commits ::
  "server_env \<Rightarrow> git_read \<Rightarrow> (string \<Rightarrow> int option) \<Rightarrow> string \<Rightarrow> string \<Rightarrow> url_values \<Rightarrow> tree_commits reply srv" where
  "handle_tree_commits env git parse_time owner repo q = in_repo env owner repo (\<lambda>_. tree_path_or_fail (q_get q ''path'') (\<lambda>p.
     resolve_ref git q (\<lambda>ref.
       let none = \<lparr>tc_ref = ref, tc_path = p, tc_total = 0, tc_latest = None, tc_entries = Map.empty\<rparr> in
       if \<not> has_commits git then answer (Done none)
       else (case git [''ls-tree'', ''--name-only'', ''-z'', ref @ CHR '':'' # p] of
           None \<Rightarrow> answer (Refuse 404 (''path not found: '' @ p))
         | Some raw \<Rightarrow> answer (Done (none\<lparr>tc_total := count_commits git ref p, tc_latest := last_commit git parse_time ref p,
             tc_entries := child_commits git parse_time ref (map (child_path p) (nul_records raw))\<rparr>))))))"

section \<open>Unified diffs\<close>

datatype line_kind = DiffContext | DiffAdd | DiffDel

record diff_line =
  dl_kind :: line_kind
  dl_old :: int
  dl_new :: int
  dl_text :: string

record diff_hunk =
  dh_header :: string
  dh_lines :: "diff_line list"

record diff_file =
  df_old :: string
  df_new :: string
  df_status :: string
  df_binary :: bool
  df_add :: int
  df_del :: int
  df_hunks :: "diff_hunk list"

text \<open>\<open>(\d+)(?:,\d+)?\<close>: the first number and what follows.\<close>

definition hunk_range :: "string \<Rightarrow> (string \<times> string) option" where
  "hunk_range s = (let ds = takeWhile is_digit s; s = dropWhile is_digit s in
     if ds = [] then None
     else (case s of
         c # t \<Rightarrow> if c = CHR '','' \<and> takeWhile is_digit t \<noteq> [] then Some (ds, dropWhile is_digit t) else Some (ds, s)
       | [] \<Rightarrow> Some (ds, s)))"

text \<open>\<open>strconv.Atoi\<close> of digits, its error dropped: the largest \<open>int\<close> when they do not fit.\<close>

definition atoi_or_max :: "string \<Rightarrow> int" where
  "atoi_or_max ds = min (digits_value ds) max_int"

definition parse_hunk_header :: "string \<Rightarrow> int \<times> int \<times> string" where
  "parse_hunk_header line =
     (case (if has_prefix line ''@@ -'' then hunk_range (trim_prefix line ''@@ -'') else None) of
        None \<Rightarrow> (1, 1, [])
      | Some (old, s) \<Rightarrow> (case (if has_prefix s '' +'' then hunk_range (trim_prefix s '' +'') else None) of
          None \<Rightarrow> (1, 1, [])
        | Some (new, s) \<Rightarrow> if has_prefix s '' @@'' then (atoi_or_max old, atoi_or_max new, trim_prefix (trim_prefix s '' @@'') '' '')
            else (1, 1, [])))"

definition strip_diff_path_prefix :: "string \<Rightarrow> string" where
  "strip_diff_path_prefix p = (if has_prefix p ''a/'' \<or> has_prefix p ''b/'' then drop 2 p else p)"

definition parse_diff_git_paths :: "string \<Rightarrow> string \<times> string" where
  "parse_diff_git_paths line = (case cut_sub '' b/'' (trim_prefix line ''diff --git '') of
     None \<Rightarrow> ([], []) | Some (a, b) \<Rightarrow> (strip_diff_path_prefix a, strip_diff_path_prefix (''b/'' @ b)))"

record diff_state =
  ds_files :: "diff_file list"
  ds_cur :: "diff_file option"
  ds_hunk :: "diff_hunk option"
  ds_old :: int
  ds_new :: int
  ds_total :: int
  ds_trunc :: bool

definition flush_hunk :: "diff_state \<Rightarrow> diff_state" where
  "flush_hunk st = (case (ds_cur st, ds_hunk st) of
     (Some f, Some h) \<Rightarrow> st\<lparr>ds_cur := Some (f\<lparr>df_hunks := df_hunks f @ [h]\<rparr>), ds_hunk := None\<rparr>
   | _ \<Rightarrow> st)"

definition flush_file :: "diff_state \<Rightarrow> diff_state" where
  "flush_file st = (let st = flush_hunk st in
     case ds_cur st of None \<Rightarrow> st | Some f \<Rightarrow> st\<lparr>ds_files := ds_files st @ [f], ds_cur := None\<rparr>)"

text \<open>A line inside a hunk: its marker says which side it is on.\<close>

definition hunk_line :: "int \<Rightarrow> string \<Rightarrow> diff_file \<Rightarrow> diff_hunk \<Rightarrow> diff_state \<Rightarrow> diff_state" where
  "hunk_line budget line f h st =
     (if line = [] \<or> hd line = CHR 0x5C then st
      else if budget \<le> ds_total st then st\<lparr>ds_trunc := True\<rparr>
      else (let (l, f', o', n') =
          (if hd line = CHR ''+'' then (\<lparr>dl_kind = DiffAdd, dl_old = 0, dl_new = ds_new st, dl_text = tl line\<rparr>,
             f\<lparr>df_add := df_add f + 1\<rparr>, ds_old st, ds_new st + 1)
           else if hd line = CHR ''-'' then (\<lparr>dl_kind = DiffDel, dl_old = ds_old st, dl_new = 0, dl_text = tl line\<rparr>,
             f\<lparr>df_del := df_del f + 1\<rparr>, ds_old st + 1, ds_new st)
           else (\<lparr>dl_kind = DiffContext, dl_old = ds_old st, dl_new = ds_new st, dl_text = tl line\<rparr>, f, ds_old st + 1, ds_new st + 1)) in
        st\<lparr>ds_cur := Some f', ds_hunk := Some (h\<lparr>dh_lines := dh_lines h @ [l]\<rparr>), ds_old := o', ds_new := n',
          ds_total := ds_total st + 1\<rparr>))"

text \<open>The lines between the header of a file and its first hunk.\<close>

definition file_line :: "string \<Rightarrow> diff_file \<Rightarrow> diff_file" where
  "file_line line f =
     (if has_prefix line ''new file mode'' then f\<lparr>df_status := ''added''\<rparr>
      else if has_prefix line ''deleted file mode'' then f\<lparr>df_status := ''deleted''\<rparr>
      else if has_prefix line ''rename from '' then f\<lparr>df_status := ''renamed'', df_old := trim_prefix line ''rename from ''\<rparr>
      else if has_prefix line ''rename to '' then f\<lparr>df_status := ''renamed'', df_new := trim_prefix line ''rename to ''\<rparr>
      else if has_prefix line ''Binary files '' then f\<lparr>df_binary := True\<rparr>
      else if has_prefix line ''--- '' then
        (let p = trim_prefix line ''--- '' in if p = ''/dev/null'' then f else f\<lparr>df_old := strip_diff_path_prefix p\<rparr>)
      else if has_prefix line ''+++ '' then
        (let p = trim_prefix line ''+++ '' in if p = ''/dev/null'' then f else f\<lparr>df_new := strip_diff_path_prefix p\<rparr>)
      else f)"

definition new_file :: "string \<Rightarrow> diff_file" where
  "new_file line = (case parse_diff_git_paths line of (old, new) \<Rightarrow>
     \<lparr>df_old = old, df_new = new, df_status = ''modified'', df_binary = False, df_add = 0, df_del = 0, df_hunks = []\<rparr>)"

definition diff_step :: "int \<Rightarrow> string \<Rightarrow> diff_state \<Rightarrow> diff_state" where
  "diff_step budget line st =
     (if has_prefix line ''diff --git '' then (flush_file st)\<lparr>ds_cur := Some (new_file line)\<rparr>
      else (case ds_cur st of
        None \<Rightarrow> st
      | Some f \<Rightarrow>
          if has_prefix line ''@@'' then
            (case parse_hunk_header line of (old, new, hdr) \<Rightarrow>
               (flush_hunk st)\<lparr>ds_old := old, ds_new := new, ds_hunk := Some \<lparr>dh_header = hdr, dh_lines = []\<rparr>\<rparr>)
          else (case ds_hunk st of
              Some h \<Rightarrow> hunk_line budget line f h st
            | None \<Rightarrow> st\<lparr>ds_cur := Some (file_line line f)\<rparr>)))"

definition diff_start :: diff_state where
  "diff_start = \<lparr>ds_files = [], ds_cur = None, ds_hunk = None, ds_old = 0, ds_new = 0, ds_total = 0, ds_trunc = False\<rparr>"

definition parse_unified_diff :: "string \<Rightarrow> int \<Rightarrow> diff_file list \<times> bool" where
  "parse_unified_diff patch budget =
     (let st = flush_file (fold (diff_step budget) (split_on newline patch) diff_start) in (ds_files st, ds_trunc st))"

section \<open>One commit, and the compare of two branches\<close>

text \<open>A command whose output is read as it comes: what it prints, and whether it exits well. Past the budget the reader
  stops it and drops the partial line.\<close>

type_synonym git_pipe = "string list \<Rightarrow> string \<times> bool"

definition git_output_limited :: "git_pipe \<Rightarrow> int \<Rightarrow> string list \<Rightarrow> (string \<times> bool) option" where
  "git_output_limited pipe max_bytes args = (case pipe args of (out, exits) \<Rightarrow>
     if max_bytes < int (length out)
     then (let buf = take (nat max_bytes) out; whole = dropWhile (\<lambda>c. c \<noteq> newline) (rev buf) in
       Some (if whole = [] then buf else rev whole, True))
     else if exits then Some (out, False) else None)"

definition max_diff_lines :: int where
  "max_diff_lines = 20000"

definition max_diff_bytes :: int where
  "max_diff_bytes = 10485760"

definition is_hex :: "char \<Rightarrow> bool" where
  "is_hex c \<longleftrightarrow> c \<in> set ''0123456789abcdefABCDEF''"

definition sha_pattern :: "string \<Rightarrow> bool" where
  "sha_pattern s \<longleftrightarrow> 4 \<le> length s \<and> length s \<le> 64 \<and> list_all is_hex s"

definition commit_parents :: "git_read \<Rightarrow> string \<Rightarrow> string list" where
  "commit_parents git sha = (case git [''rev-list'', ''--parents'', ''-n'', ''1'', sha] of
     None \<Rightarrow> [] | Some raw \<Rightarrow> drop 1 (strings_fields raw))"

record commit_detail =
  cd_commit :: commit_info
  cd_parents :: "string list"
  cd_files :: "diff_file list"
  cd_add :: int
  cd_del :: int
  cd_trunc :: bool

definition diff_args :: "string list \<Rightarrow> string list" where
  "diff_args trees = [''diff-tree'', ''--no-commit-id'', ''-p'', ''-r'', ''-M'', ''--no-color''] @ trees"

definition handle_commit ::
  "server_env \<Rightarrow> git_read \<Rightarrow> git_pipe \<Rightarrow> (string \<Rightarrow> int option) \<Rightarrow> string \<Rightarrow> string \<Rightarrow> string \<Rightarrow> commit_detail reply srv" where
  "handle_commit env git pipe parse_time owner repo sha = in_repo env owner repo (\<lambda>_.
     if \<not> sha_pattern sha then answer (Refuse 400 ''invalid commit sha'')
     else if \<not> has_commits git then answer (Refuse 404 (''commit not found: '' @ sha))
     else (case map_option (parse_commits parse_time) (git [''log'', ''-1'', ''--format='' @ commit_format, sha]) of
         Some (c # _) \<Rightarrow>
           (let parents = commit_parents git sha in
            case git_output_limited pipe max_diff_bytes (diff_args (case parents of [] \<Rightarrow> [''--root'', sha] | p # _ \<Rightarrow> [p, sha])) of
              None \<Rightarrow> answer (Refuse 500 ''diff failed'')
            | Some (patch, stopped) \<Rightarrow> (case parse_unified_diff patch max_diff_lines of (files, trunc) \<Rightarrow>
                answer (Done \<lparr>cd_commit = c\<lparr>cm_branch := primary_branch git sha (head_ref git)\<rparr>, cd_parents = parents,
                  cd_files = files, cd_add = sum_list (map df_add files), cd_del = sum_list (map df_del files),
                  cd_trunc = (trunc \<or> stopped)\<rparr>)))
       | _ \<Rightarrow> answer (Refuse 404 (''commit not found: '' @ sha))))"

record compare_info =
  ci_base :: string
  ci_head :: string
  ci_merge_base :: string
  ci_ahead :: int
  ci_behind :: int
  ci_commits :: "commit_info list"
  ci_files :: "diff_file list"
  ci_add :: int
  ci_del :: int
  ci_trunc :: bool

definition empty_tree_sha :: string where
  "empty_tree_sha = ''4b825dc642cb6eb9a060e54bf8d69288fbee4904''"

text \<open>Only a failing diff is an error: the other probes leave their fields empty.\<close>

definition compute_compare ::
  "git_read \<Rightarrow> git_pipe \<Rightarrow> (string \<Rightarrow> int option) \<Rightarrow> string \<Rightarrow> string \<Rightarrow> compare_info option" where
  "compute_compare git pipe parse_time base head =
     (let merge_base = (case git [''merge-base'', base, head] of None \<Rightarrow> [] | Some mb \<Rightarrow> trim_space mb);
          counts = (case map_option strings_fields (git [''rev-list'', ''--left-right'', ''--count'', base @ ''...'' @ head]) of
            Some [behind, ahead] \<Rightarrow> (parse_size behind, parse_size ahead) | _ \<Rightarrow> (0, 0));
          commits = (case git [''log'', ''--format='' @ commit_format, base @ ''..'' @ head] of
            None \<Rightarrow> [] | Some raw \<Rightarrow> parse_commits parse_time raw) in
      case git_output_limited pipe max_diff_bytes (diff_args [if merge_base = [] then empty_tree_sha else merge_base, head]) of
        None \<Rightarrow> None
      | Some (patch, stopped) \<Rightarrow> (case parse_unified_diff patch max_diff_lines of (files, trunc) \<Rightarrow>
          Some \<lparr>ci_base = base, ci_head = head, ci_merge_base = merge_base, ci_ahead = snd counts, ci_behind = fst counts,
            ci_commits = commits, ci_files = files, ci_add = sum_list (map df_add files), ci_del = sum_list (map df_del files),
            ci_trunc = (trunc \<or> stopped)\<rparr>))"

definition handle_compare ::
  "server_env \<Rightarrow> git_read \<Rightarrow> git_pipe \<Rightarrow> (string \<Rightarrow> int option) \<Rightarrow> string \<Rightarrow> string \<Rightarrow> url_values \<Rightarrow> compare_info reply srv" where
  "handle_compare env git pipe parse_time owner repo q = in_repo env owner repo (\<lambda>_.
     let base = trim_space (q_get q ''base''); head = trim_space (q_get q ''head'') in
     if base = [] \<or> head = [] then answer (Refuse 400 ''base and head are required'')
     else on_refs (branch_exists base) (\<lambda>found. if \<not> found then answer (Refuse 404 (''branch not found: '' @ base))
     else on_refs (branch_exists head) (\<lambda>found. if \<not> found then answer (Refuse 404 (''branch not found: '' @ head))
     else answer (case compute_compare git pipe parse_time base head of
         None \<Rightarrow> Refuse 500 ''diff failed'' | Some c \<Rightarrow> Done c))))"

section \<open>A pull request with its diff\<close>

record pull_detail =
  pd_pull :: pull_row
  pd_reviews :: "review_row list"
  pd_compare :: compare_info
  pd_comments :: "code_comment_row list"

definition empty_compare :: "string \<Rightarrow> string \<Rightarrow> compare_info" where
  "empty_compare base head = \<lparr>ci_base = base, ci_head = head, ci_merge_base = [], ci_ahead = 0, ci_behind = 0,
     ci_commits = [], ci_files = [], ci_add = 0, ci_del = 0, ci_trunc = False\<rparr>"

text \<open>A merged pull request is compared at the tips frozen by the merge, any other at its branches, when both exist.\<close>

definition pull_compare ::
  "git_read \<Rightarrow> git_pipe \<Rightarrow> (string \<Rightarrow> int option) \<Rightarrow> pull_row \<Rightarrow> (compare_info \<Rightarrow> 'a reply srv) \<Rightarrow> 'a reply srv" where
  "pull_compare git pipe parse_time pr k =
     (let none = empty_compare (p_base pr) (p_head pr);
          from_refs = (\<lambda>base head. case compute_compare git pipe parse_time base head of
            None \<Rightarrow> none | Some c \<Rightarrow> c\<lparr>ci_base := p_base pr, ci_head := p_head pr\<rparr>) in
      if p_state pr = PRMerged \<and> or_empty (p_merge_base pr) \<noteq> [] \<and> or_empty (p_merge_head pr) \<noteq> []
      then k (from_refs (or_empty (p_merge_base pr)) (or_empty (p_merge_head pr)))
      else on_refs (branch_exists (p_base pr)) (\<lambda>b. if \<not> b then k none
        else on_refs (branch_exists (p_head pr)) (\<lambda>b. k (if b then from_refs (p_base pr) (p_head pr) else none))))"

definition handle_get_pull ::
  "server_env \<Rightarrow> git_read \<Rightarrow> git_pipe \<Rightarrow> (string \<Rightarrow> int option) \<Rightarrow> string \<Rightarrow> string \<Rightarrow> int option \<Rightarrow> pull_detail reply srv" where
  "handle_get_pull env git pipe parse_time owner repo num = with_number num ''invalid pull request number'' (\<lambda>n.
     in_repo env owner repo (\<lambda>rid. call (get_pull rid n) (\<lambda>r. case r of
         Inl e \<Rightarrow> answer (if e = ErrNotFound then Refuse 404 ''pull request not found'' else internal)
       | Inr pr \<Rightarrow> pull_compare git pipe parse_time pr (\<lambda>cmp.
           call (list_code_comments rid (p_head pr) [] True) (\<lambda>cs. call (list_reviews rid n) (\<lambda>rs.
             answer (Done \<lparr>pd_pull = pr, pd_reviews = (case rs of Inl _ \<Rightarrow> [] | Inr rs \<Rightarrow> rs), pd_compare = cmp,
               pd_comments = (case cs of Inl _ \<Rightarrow> [] | Inr cs \<Rightarrow> cs)\<rparr>)))))))"

section \<open>What a parsed diff satisfies\<close>

definition consecutive :: "int list \<Rightarrow> bool" where
  "consecutive = successively (\<lambda>a b. b = a + 1)"

definition count_kind :: "line_kind \<Rightarrow> diff_line list \<Rightarrow> int" where
  "count_kind k ls = int (length (filter (\<lambda>l. dl_kind l = k) ls))"

definition old_numbers :: "diff_line list \<Rightarrow> int list" where
  "old_numbers ls = map dl_old (filter (\<lambda>l. dl_kind l \<noteq> DiffAdd) ls)"

definition new_numbers :: "diff_line list \<Rightarrow> int list" where
  "new_numbers ls = map dl_new (filter (\<lambda>l. dl_kind l \<noteq> DiffDel) ls)"

definition numbered_lines :: "diff_line list \<Rightarrow> bool" where
  "numbered_lines ls \<longleftrightarrow> consecutive (old_numbers ls) \<and> consecutive (new_numbers ls)"

definition file_diff_lines :: "diff_file \<Rightarrow> diff_line list" where
  "file_diff_lines f = concat (map dh_lines (df_hunks f))"

definition diff_file_ok :: "diff_file \<Rightarrow> bool" where
  "diff_file_ok f \<longleftrightarrow> df_add f = count_kind DiffAdd (file_diff_lines f) \<and> df_del f = count_kind DiffDel (file_diff_lines f)
     \<and> list_all (\<lambda>h. numbered_lines (dh_lines h)) (df_hunks f)"

definition diff_size :: "diff_file list \<Rightarrow> int" where
  "diff_size fs = int (length (concat (map file_diff_lines fs)))"

text \<open>The counters of the parser, and the lines of the hunk it is in.\<close>

definition open_lines :: "diff_state \<Rightarrow> diff_line list" where
  "open_lines st = (case ds_hunk st of None \<Rightarrow> [] | Some h \<Rightarrow> dh_lines h)"

definition at_number :: "int \<Rightarrow> int list \<Rightarrow> bool" where
  "at_number n xs \<longleftrightarrow> consecutive xs \<and> (xs \<noteq> [] \<longrightarrow> last xs + 1 = n)"

definition cur_ok :: "diff_state \<Rightarrow> diff_file \<Rightarrow> bool" where
  "cur_ok st f \<longleftrightarrow> df_add f = count_kind DiffAdd (file_diff_lines f @ open_lines st)
     \<and> df_del f = count_kind DiffDel (file_diff_lines f @ open_lines st)
     \<and> list_all (\<lambda>h. numbered_lines (dh_lines h)) (df_hunks f)
     \<and> at_number (ds_old st) (old_numbers (open_lines st)) \<and> at_number (ds_new st) (new_numbers (open_lines st))"

definition diff_counts :: "int \<Rightarrow> diff_state \<Rightarrow> bool" where
  "diff_counts budget st \<longleftrightarrow>
     ds_total st = diff_size (ds_files st) + (case ds_cur st of None \<Rightarrow> 0 | Some f \<Rightarrow> diff_size [f]) + int (length (open_lines st))
     \<and> ds_total st \<le> max 0 budget \<and> (ds_trunc st \<longrightarrow> budget \<le> ds_total st)"

definition diff_inv :: "int \<Rightarrow> diff_state \<Rightarrow> bool" where
  "diff_inv budget st \<longleftrightarrow> list_all diff_file_ok (ds_files st) \<and> diff_counts budget st
     \<and> (case ds_cur st of None \<Rightarrow> ds_hunk st = None | Some f \<Rightarrow> cur_ok st f)"

lemma count_kind_simps [simp]:
  "count_kind k [] = 0" "count_kind k (ls @ ms) = count_kind k ls + count_kind k ms"
  "count_kind k [l] = (if dl_kind l = k then 1 else 0)"
  by (simp_all add: count_kind_def)

lemma numbers_simps [simp]:
  "old_numbers [] = []" "new_numbers [] = []"
  "old_numbers (ls @ [l]) = old_numbers ls @ (if dl_kind l = DiffAdd then [] else [dl_old l])"
  "new_numbers (ls @ [l]) = new_numbers ls @ (if dl_kind l = DiffDel then [] else [dl_new l])"
  by (simp_all add: old_numbers_def new_numbers_def)

lemma at_number_Nil [simp]: "at_number n []"
  by (simp add: at_number_def consecutive_def)

lemma at_number_snoc: "at_number n xs \<Longrightarrow> at_number (n + 1) (xs @ [n])"
  by (auto simp: at_number_def consecutive_def successively_append_iff)

lemma at_number_consecutive: "at_number n xs \<Longrightarrow> consecutive xs"
  by (simp add: at_number_def)

lemma diff_size_simps [simp]:
  "diff_size [] = 0" "diff_size (fs @ gs) = diff_size fs + diff_size gs"
  by (simp_all add: diff_size_def)

lemma diff_size_hunk: "diff_size [f\<lparr>df_hunks := df_hunks f @ [h]\<rparr>] = diff_size [f] + int (length (dh_lines h))"
  by (simp add: diff_size_def file_diff_lines_def)

lemma diff_size_cong: "df_hunks f = df_hunks g \<Longrightarrow> diff_size [f] = diff_size [g]"
  by (simp add: diff_size_def file_diff_lines_def)

lemma flush_hunk_inv:
  assumes "diff_inv budget st"
  shows "diff_inv budget (flush_hunk st) \<and> ds_hunk (flush_hunk st) = None \<and> (ds_cur (flush_hunk st) = None \<longleftrightarrow> ds_cur st = None)"
proof (cases "ds_cur st")
  case None
  then show ?thesis using assms by (simp add: flush_hunk_def diff_inv_def)
next
  case (Some f)
  then show ?thesis
    using assms by (cases "ds_hunk st")
      (auto simp: flush_hunk_def diff_inv_def diff_counts_def cur_ok_def diff_size_hunk open_lines_def file_diff_lines_def
        numbered_lines_def dest: at_number_consecutive)
qed

lemma flush_file_inv:
  assumes "diff_inv budget st"
  shows "diff_inv budget (flush_file st) \<and> ds_hunk (flush_file st) = None \<and> ds_cur (flush_file st) = None"
proof -
  note flushed = flush_hunk_inv [OF assms]
  show ?thesis
    using flushed by (cases "ds_cur (flush_hunk st)")
      (auto simp: flush_file_def Let_def diff_inv_def diff_counts_def cur_ok_def diff_file_ok_def open_lines_def)
qed

lemma hunk_line_inv:
  assumes "diff_inv budget st" and "ds_cur st = Some f" and "ds_hunk st = Some h"
  shows "diff_inv budget (hunk_line budget line f h st)"
proof -
  have ok: "cur_ok st f" using assms by (simp add: diff_inv_def)
  note at = at_number_snoc [of "ds_old st"] at_number_snoc [of "ds_new st"]
  show ?thesis
    using assms ok at
    by (auto simp: hunk_line_def Let_def diff_inv_def diff_counts_def cur_ok_def open_lines_def file_diff_lines_def
      diff_size_def)
qed

lemma file_line_inv:
  assumes "diff_inv budget st" and "ds_cur st = Some f" and "ds_hunk st = None"
  shows "diff_inv budget (st\<lparr>ds_cur := Some (file_line line f)\<rparr>)"
proof -
  have same: "df_hunks (file_line line f) = df_hunks f" "df_add (file_line line f) = df_add f" "df_del (file_line line f) = df_del f"
    by (simp_all add: file_line_def Let_def)
  then have "diff_size [file_line line f] = diff_size [f]" by (intro diff_size_cong)
  then show ?thesis
    using assms same by (auto simp: diff_inv_def diff_counts_def cur_ok_def open_lines_def file_diff_lines_def)
qed

lemma new_file_sel: "df_hunks (new_file line) = []" "df_add (new_file line) = 0" "df_del (new_file line) = 0"
  by (simp_all add: new_file_def split: prod.split)

lemma diff_step_inv:
  assumes "diff_inv budget st"
  shows "diff_inv budget (diff_step budget line st)"
proof -
  note flushed = flush_file_inv [OF assms] and hunk = flush_hunk_inv [OF assms]
  show ?thesis
  proof (cases "has_prefix line ''diff --git ''")
    case True
    then show ?thesis
      using flushed by (auto simp: diff_step_def diff_inv_def diff_counts_def cur_ok_def open_lines_def file_diff_lines_def new_file_sel diff_size_def)
  next
    case header: False
    show ?thesis
    proof (cases "ds_cur st")
      case (Some f)
      show ?thesis
      proof (cases "has_prefix line ''@@''")
        case True
        then show ?thesis
          using hunk header Some
          by (auto simp: diff_step_def diff_inv_def diff_counts_def cur_ok_def open_lines_def split: prod.split option.splits)
      next
        case False
        then show ?thesis
          using assms header Some hunk_line_inv file_line_inv by (cases "ds_hunk st") (auto simp: diff_step_def)
      qed
    qed (use assms header in \<open>simp add: diff_step_def\<close>)
  qed
qed

lemma diff_fold_inv: "diff_inv budget st \<Longrightarrow> diff_inv budget (fold (diff_step budget) lines st)"
  by (induction lines arbitrary: st) (auto intro: diff_step_inv)

lemma diff_start_inv: "diff_inv budget diff_start"
  by (simp add: diff_start_def diff_inv_def diff_counts_def open_lines_def)


text \<open>A new file of two lines, of which one is within the budget.\<close>

definition demo_patch :: string where
  "demo_patch = join [newline] [''diff --git a/f b/f'', ''new file mode 100644'', ''--- /dev/null'', ''+++ b/f'',
     ''@@ -0,0 +1,2 @@ main'', ''+x'', ''+y'', '''']"

definition demo_file :: "diff_line list \<Rightarrow> diff_file" where
  "demo_file ls = \<lparr>df_old = ''f'', df_new = ''f'', df_status = ''added'', df_binary = False, df_add = int (length ls), df_del = 0,
     df_hunks = [\<lparr>dh_header = ''main'', dh_lines = ls\<rparr>]\<rparr>"

definition demo_line :: "int \<Rightarrow> string \<Rightarrow> diff_line" where
  "demo_line n x = \<lparr>dl_kind = DiffAdd, dl_old = 0, dl_new = n, dl_text = x\<rparr>"


text \<open>The diff of a new file names it on both sides: \<open>DiffFile\<close> says that its old path is empty.\<close>

theorem added_file_has_an_old_path: "parse_unified_diff demo_patch 10 = ([demo_file [demo_line 1 ''x'', demo_line 2 ''y'']], False)"
  by code_simp

section \<open>What decoding a log recovers\<close>

text \<open>What \<open>git log\<close> prints with \<open>commitFormat\<close>, for commits whose date it shows as \<open>show_time\<close> gives: a body that is not
  empty ends with a newline, and a newline follows every record.\<close>

definition shown_body :: "commit_info \<Rightarrow> string" where
  "shown_body c = (if cm_body c = [] then [] else cm_body c @ [newline])"

definition shown_fields :: "(int \<Rightarrow> string) \<Rightarrow> commit_info \<Rightarrow> string list" where
  "shown_fields show_time c = [cm_sha c, cm_short c, cm_author c, cm_email c, show_time (cm_date c), cm_subject c]"

definition print_commit :: "(int \<Rightarrow> string) \<Rightarrow> commit_info \<Rightarrow> string" where
  "print_commit show_time c = join [CHR 0x1F] (shown_fields show_time c @ [shown_body c]) @ [CHR 0x1E, newline]"

definition separable :: "string \<Rightarrow> bool" where
  "separable s \<longleftrightarrow> CHR 0x1E \<notin> set s \<and> CHR 0x1F \<notin> set s"

definition loggable :: "(int \<Rightarrow> string) \<Rightarrow> commit_info \<Rightarrow> bool" where
  "loggable show_time c \<longleftrightarrow> list_all separable (cm_body c # shown_fields show_time c) \<and> cm_sha c \<noteq> []
     \<and> newline \<notin> set (cm_sha c) \<and> trim_right_chars {newline} (cm_body c) = cm_body c \<and> cm_branch c = []"

lemma trim_right_chars_append: "d \<notin> cs \<Longrightarrow> trim_right_chars cs (x @ d # y) = x @ d # trim_right_chars cs y"
  by (simp add: trim_right_chars_def dropWhile_append3)

lemma join_snoc: "xs \<noteq> [] \<Longrightarrow> join sep (xs @ [y]) = join sep xs @ sep @ y"
  by (induction sep xs rule: join.induct) auto

lemma join_separable: "\<forall>x \<in> set xs. c \<notin> set x \<Longrightarrow> c \<noteq> d \<Longrightarrow> c \<notin> set (join [d] xs)"
  by (induction "[d]" xs rule: join.induct) auto

lemma shown_body_trim:
  "trim_right_chars {newline} (cm_body c) = cm_body c \<Longrightarrow> trim_right_chars {newline} (shown_body c) = cm_body c"
  by (auto simp: shown_body_def trim_right_chars_def)

lemma parse_shown:
  assumes "loggable show_time c" and "parse_time (trim_space (show_time (cm_date c))) = Some (cm_date c)"
    and "\<forall>x \<in> set pre. x = newline"
  shows "parse_commit parse_time (pre @ join [CHR 0x1F] (shown_fields show_time c @ [shown_body c])) = Some c"
proof -
  let ?us = "CHR 0x1F" and ?fs = "shown_fields show_time c"
  have body: "trim_right_chars {newline} (cm_body c) = cm_body c" and sha: "cm_sha c \<noteq> []" "newline \<notin> set (cm_sha c)"
    using assms(1) by (simp_all add: loggable_def)
  have us: "\<forall>x \<in> set (?fs @ [cm_body c]). ?us \<notin> set x" using assms(1) by (auto simp: loggable_def separable_def list_all_iff)
  have joined: "join [?us] (?fs @ [b]) = join [?us] ?fs @ ?us # b" for b
    by (subst join_snoc) (simp_all add: shown_fields_def)
  obtain s t where s: "join [?us] (?fs @ [b]) = s # t b" "s \<noteq> newline" for b
  proof -
    obtain s u where "cm_sha c = s # u" using sha(1) by (cases "cm_sha c") auto
    then have "join [?us] (?fs @ [b]) = s # (u @ ?us # join [?us] (tl ?fs @ [b]))" for b by (simp add: shown_fields_def)
    moreover have "s \<noteq> newline" using sha(2) \<open>cm_sha c = s # u\<close> by auto
    ultimately show ?thesis by (rule that)
  qed
  have "dropWhile (\<lambda>x. x \<in> {newline}) (pre @ join [?us] (?fs @ [b])) = join [?us] (?fs @ [b])" for b
    using assms(3) s by (subst dropWhile_append2) auto
  then have "trim_chars {newline} (pre @ join [?us] (?fs @ [b])) = trim_right_chars {newline} (join [?us] (?fs @ [b]))" for b
    by (simp only: trim_chars_def trim_right_chars_def)
  then have trimmed: "trim_chars {newline} (pre @ join [?us] (?fs @ [shown_body c])) = join [?us] (?fs @ [cm_body c])"
    using shown_body_trim [OF body] by (simp add: joined trim_right_chars_append newline_def)
  have split: "split_on ?us (join [?us] (?fs @ [cm_body c])) = ?fs @ [cm_body c]" by (rule split_on_join) (use us in simp_all)
  show ?thesis
    using assms(1,2) s(1) body unfolding parse_commit_def trimmed Let_def split
    by (simp add: shown_fields_def loggable_def)
qed

lemma parse_blank:
  assumes "\<forall>x \<in> set pre. x = newline"
  shows "parse_commit parse_time pre = None"
proof -
  have "dropWhile (\<lambda>x. x \<in> {newline}) pre = []" using assms by (simp add: dropWhile_eq_Nil_conv)
  then show ?thesis unfolding parse_commit_def trim_chars_def Let_def by (simp only: rev.simps dropWhile.simps simp_thms if_True)
qed

lemma sep_free:
  assumes "\<forall>x \<in> set pre. x = newline"
  shows "CHR 0x1E \<notin> set pre"
proof
  assume "CHR 0x1E \<in> set pre"
  with assms have "CHR 0x1E = newline" by blast
  then show False by (simp add: newline_def)
qed

lemma split_printed:
  assumes "loggable show_time c" and "CHR 0x1E \<notin> set pre"
  shows "split_on (CHR 0x1E) (pre @ print_commit show_time c @ rest) =
    (pre @ join [CHR 0x1F] (shown_fields show_time c @ [shown_body c])) # split_on (CHR 0x1E) ([newline] @ rest)"
proof -
  have "\<forall>x \<in> set (shown_fields show_time c @ [shown_body c]). CHR 0x1E \<notin> set x"
    using assms(1) by (auto simp: loggable_def separable_def list_all_iff shown_body_def newline_def)
  then have "CHR 0x1E \<notin> set (join [CHR 0x1F] (shown_fields show_time c @ [shown_body c]))" by (rule join_separable) simp
  then have "CHR 0x1E \<notin> set (pre @ join [CHR 0x1F] (shown_fields show_time c @ [shown_body c]))" using assms(2) by simp
  from split_on_append_sep [OF this] show ?thesis by (simp add: print_commit_def)
qed

text \<open>C34: Decoding what \<open>git log\<close> prints recovers every commit: for commits whose fields are free of the two separator
  bytes, in whatever number and order, \<open>parseCommits\<close> of their printed form is the list itself, provided \<open>time.Parse\<close>
  reads the dates \<open>git\<close> shows.\<close>

theorem commits_roundtrip:
  assumes "list_all (loggable show_time) cs" and "list_all (\<lambda>c. parse_time (trim_space (show_time (cm_date c))) = Some (cm_date c)) cs"
  shows "parse_commits parse_time (concat (map (print_commit show_time) cs)) = cs"
proof -
  have "List.map_filter (parse_commit parse_time) (split_on CHR 0x1E (pre @ concat (map (print_commit show_time) cs))) = cs"
    if "\<forall>x \<in> set pre. x = newline" for pre
    using assms that
  proof (induction cs arbitrary: pre)
    case Nil
    note sep_free [OF Nil(3)]
    moreover note parse_blank [OF Nil(3)]
    ultimately show ?case by (simp add: split_on_id map_filter_simps)
  next
    case (Cons c cs)
    note sep_free [OF Cons.prems(3)]
    moreover have c: "loggable show_time c" "parse_time (trim_space (show_time (cm_date c))) = Some (cm_date c)"
      and "list_all (loggable show_time) cs"
      and "list_all (\<lambda>c. parse_time (trim_space (show_time (cm_date c))) = Some (cm_date c)) cs" using Cons.prems(1,2) by simp_all
    moreover have "\<forall>x \<in> set [newline]. x = newline" by simp
    ultimately show ?case
      unfolding list.map concat.simps split_printed [OF c(1) sep_free [OF Cons.prems(3)]] map_filter_simps parse_shown [where parse_time = parse_time, OF c Cons.prems(3)]
      by (simp only: option.case Cons.IH)
  qed
  from this [of "[]"] show ?thesis by (simp add: parse_commits_def)
qed

definition demo_commit :: "string \<Rightarrow> commit_info" where
  "demo_commit body = \<lparr>cm_sha = ''aaaa'', cm_short = ''aa'', cm_subject = ''fix'', cm_body = body, cm_author = ''ann'',
     cm_email = ''a@x'', cm_date = 5, cm_branch = []\<rparr>"

lemma commits_roundtrip_witness:
  "parse_commits (\<lambda>_. Some 5) (concat (map (print_commit (\<lambda>_. ''5'')) [demo_commit ''closes #1'', demo_commit []]))
     = [demo_commit ''closes #1'', demo_commit []]"
  by (rule commits_roundtrip) code_simp+

text \<open>A commit message may hold the separator bytes: one commit is then shown as two, the second one with the author,
  the address and the subject that the message gives.\<close>

definition forged :: string where
  "forged = [CHR 0x1E] @ join [CHR 0x1F] [''bbbb'', ''bb'', ''root'', ''root@x'', ''5'', ''approved'', '''']"

theorem message_forges_a_commit:
  "map (\<lambda>c. (cm_sha c, cm_author c, cm_subject c))
     (parse_commits (\<lambda>_. Some 5) (print_commit (\<lambda>_. ''5'') (demo_commit forged)))
   = [(''aaaa'', ''ann'', ''fix''), (''bbbb'', ''root'', ''approved'')]"
  by code_simp

end
