(* ===== verification/SpecApi.thy ===== *)
theory SpecApi imports Commits begin

text \<open>
  The specification endpoints, \<open>internal/server/specs.go\<close>: listing and reading specs on a branch, their drift against
  the last verification, writing one as a commit on a feature branch, and starting a verify run. \<open>decode\<close> is the
  YAML decoder of the frontmatter; the git commands that only read are those of \<open>Browse\<close>, the ones that make objects
  a record of functions.
\<close>

definition specs_dir :: string where
  "specs_dir = ''specs''"

definition is_markdown :: "string \<Rightarrow> bool" where
  "is_markdown p \<longleftrightarrow> map lower (path_ext p) = ''.md''"

section \<open>Listing\<close>

record listed_spec =
  si_path :: string
  si_id :: string
  si_title :: string
  si_status :: string
  si_owners :: "string list"
  si_covers :: "string list"
  si_last_verified :: string
  si_alignment :: "rat option"

definition stem_of :: "string \<Rightarrow> string" where
  "stem_of p = trim_suffix (path_base p) (path_ext p)"

definition spec_list_item :: "(string \<Rightarrow> frontmatter option) \<Rightarrow> string \<Rightarrow> string \<Rightarrow> listed_spec" where
  "spec_list_item decode p data = (case parse_spec decode p data of
     None \<Rightarrow> \<lparr>si_path = p, si_id = stem_of p, si_title = stem_of p, si_status = [], si_owners = [], si_covers = [],
       si_last_verified = [], si_alignment = None\<rparr>
   | Some s \<Rightarrow> (let fm = sp_frontmatter s in
       \<lparr>si_path = sp_path s, si_id = fm_id fm, si_title = sp_title s, si_status = fm_status fm, si_owners = fm_owners fm,
        si_covers = fm_covers fm, si_last_verified = fm_last_verified fm, si_alignment = fm_alignment fm\<rparr>))"

definition spec_blob_paths :: "git_read \<Rightarrow> string \<Rightarrow> string list" where
  "spec_blob_paths git ref = (if \<not> has_commits git then []
     else (case git [''ls-tree'', ''-r'', ''-z'', ''--name-only'', ref @ CHR '':'' # specs_dir] of
         None \<Rightarrow> []
       | Some raw \<Rightarrow> map (\<lambda>rel. specs_dir @ slash # rel) (filter is_markdown (nul_records raw))))"

text \<open>The specs that can be read, with their contents.\<close>

definition spec_blobs :: "git_read \<Rightarrow> string \<Rightarrow> (string \<times> string) list" where
  "spec_blobs git ref = List.map_filter (\<lambda>p. map_option (Pair p) (git [''cat-file'', ''blob'', ref @ CHR '':'' # p]))
     (spec_blob_paths git ref)"

definition handle_list_specs ::
  "server_env \<Rightarrow> git_read \<Rightarrow> (string \<Rightarrow> frontmatter option) \<Rightarrow> string \<Rightarrow> string \<Rightarrow> url_values \<Rightarrow> (string \<times> listed_spec list) reply srv" where
  "handle_list_specs env git decode owner repo q = in_repo env owner repo (\<lambda>_. resolve_ref git q (\<lambda>ref.
     answer (Done (ref, sort_key si_path (map (\<lambda>(p, c). spec_list_item decode p c) (spec_blobs git ref))))))"

section \<open>Drift\<close>

definition git_diff_globs :: "git_read \<Rightarrow> string \<Rightarrow> string \<Rightarrow> string list \<Rightarrow> string list option" where
  "git_diff_globs git base ref covers = map_option nonblank_lines
     (git ([''diff'', ''--name-only'', base @ ''..'' @ ref, ''--''] @ map (\<lambda>c. '':(glob)'' @ c) covers))"

record spec_drift =
  di_path :: string
  di_id :: string
  di_status :: string
  di_covers :: "string list"
  di_base :: string
  di_changed :: "string list"
  di_last_verified :: string

definition drift_item :: "string \<Rightarrow> string \<Rightarrow> string \<Rightarrow> string list \<Rightarrow> string \<Rightarrow> spec_drift" where
  "drift_item p i status covers verified = \<lparr>di_path = p, di_id = i, di_status = status, di_covers = covers, di_base = [],
     di_changed = [], di_last_verified = verified\<rparr>"

definition spec_drift_item ::
  "git_read \<Rightarrow> (string \<Rightarrow> frontmatter option) \<Rightarrow> int \<Rightarrow> string \<Rightarrow> string \<times> string \<Rightarrow> (db, spec_drift) dbm" where
  "spec_drift_item git decode rid ref blob = (case blob of (p, data) \<Rightarrow> (case parse_spec decode p data of
     None \<Rightarrow> ok (drift_item p (stem_of p) ''uncovered'' [] [])
   | Some s \<Rightarrow> (let fm = sp_frontmatter s; item = (\<lambda>status. drift_item p (fm_id fm) status (fm_covers fm) (fm_last_verified fm)) in
       if fm_covers fm = [] then ok (item ''uncovered'')
       else attempt (latest_verification rid (fm_id fm)) (\<lambda>r. ok (case r of
           Inl _ \<Rightarrow> item ''unverified''
         | Inr v \<Rightarrow> (case git_diff_globs git (v_sha v) ref (fm_covers fm) of
             None \<Rightarrow> (item ''stale'')\<lparr>di_base := v_sha v\<rparr>
           | Some changed \<Rightarrow> if changed \<noteq> [] then (item ''stale'')\<lparr>di_base := v_sha v, di_changed := changed\<rparr>
               else (item ''fresh'')\<lparr>di_base := v_sha v\<rparr>))))))"

fun drift_items ::
  "git_read \<Rightarrow> (string \<Rightarrow> frontmatter option) \<Rightarrow> int \<Rightarrow> string \<Rightarrow> (string \<times> string) list \<Rightarrow> (db, spec_drift list) dbm" where
  "drift_items git decode rid ref [] = ok []"
| "drift_items git decode rid ref (b # bs) =
     bind (spec_drift_item git decode rid ref b) (\<lambda>x. bind (drift_items git decode rid ref bs) (\<lambda>xs. ok (x # xs)))"

definition handle_specs_drift ::
  "server_env \<Rightarrow> git_read \<Rightarrow> (string \<Rightarrow> frontmatter option) \<Rightarrow> string \<Rightarrow> string \<Rightarrow> url_values \<Rightarrow> (string \<times> spec_drift list) reply srv" where
  "handle_specs_drift env git decode owner repo q = in_repo env owner repo (\<lambda>rid. resolve_ref git q (\<lambda>ref.
     call (drift_items git decode rid ref (spec_blobs git ref)) (\<lambda>r. answer (case r of
       Inl _ \<Rightarrow> internal | Inr items \<Rightarrow> Done (ref, sort_key di_path items)))))"

section \<open>Reading one spec\<close>

record spec_verification =
  sv_alignment :: rat
  sv_markers :: "line_marker list"
  sv_conflicts :: "string list"
  sv_notes :: string
  sv_verified_at :: int
  sv_commit :: string
  sv_stale :: bool

record spec_page =
  sc_ref :: string
  sc_item :: listed_spec
  sc_content :: string
  sc_body :: string
  sc_sections :: "section_row list"
  sc_checklist :: "checklist_item list"
  sc_verification :: "spec_verification option"

definition spec_content :: "(string \<Rightarrow> frontmatter option) \<Rightarrow> string \<Rightarrow> string \<Rightarrow> string \<Rightarrow> spec_page" where
  "spec_content decode ref p data = (let out = \<lparr>sc_ref = ref, sc_item = spec_list_item decode p data, sc_content = data,
       sc_body = data, sc_sections = [], sc_checklist = [], sc_verification = None\<rparr> in
     (case parse_spec decode p data of
        None \<Rightarrow> out
      | Some s \<Rightarrow> out\<lparr>sc_body := sp_body s, sc_sections := sp_sections s, sc_checklist := sp_checklist s\<rparr>))"

text \<open>The stored result is decoded by \<open>decode_result\<close>; the empty one stands for a text that is no result.\<close>

definition no_result :: verification_result where
  "no_result = \<lparr>vr_alignment = 0, vr_markers = [], vr_conflicts = [], vr_notes = []\<rparr>"

definition shown_verification ::
  "git_read \<Rightarrow> (string \<Rightarrow> verification_result option) \<Rightarrow> string \<Rightarrow> string \<Rightarrow> frontmatter \<Rightarrow> verification_row \<Rightarrow> spec_verification" where
  "shown_verification git decode_result ref p fm v =
     (let res = (case decode_result (v_result v) of None \<Rightarrow> no_result | Some res \<Rightarrow> res) in
      \<lparr>sv_alignment = v_alignment v, sv_markers = vr_markers res, sv_conflicts = vr_conflicts res, sv_notes = vr_notes res,
       sv_verified_at = v_created v, sv_commit = v_sha v,
       sv_stale = (git_diff_globs git (v_sha v) ref (p # fm_covers fm) \<noteq> Some [])\<rparr>)"

definition latest_shown ::
  "git_read \<Rightarrow> (string \<Rightarrow> frontmatter option) \<Rightarrow> (string \<Rightarrow> verification_result option) \<Rightarrow> int \<Rightarrow> string \<Rightarrow> string \<Rightarrow> string \<Rightarrow>
     (db, spec_verification option) dbm" where
  "latest_shown git decode decode_result rid ref p data = (case parse_spec decode p data of
     None \<Rightarrow> ok None
   | Some s \<Rightarrow> attempt (latest_verification rid (fm_id (sp_frontmatter s))) (\<lambda>r. ok (case r of
       Inl _ \<Rightarrow> None | Inr v \<Rightarrow> Some (shown_verification git decode_result ref p (sp_frontmatter s) v))))"

definition handle_get_spec ::
  "server_env \<Rightarrow> git_read \<Rightarrow> (string \<Rightarrow> frontmatter option) \<Rightarrow> (string \<Rightarrow> verification_result option) \<Rightarrow>
     string \<Rightarrow> string \<Rightarrow> string \<Rightarrow> url_values \<Rightarrow> spec_page reply srv" where
  "handle_get_spec env git decode decode_result owner repo p q = in_repo env owner repo (\<lambda>rid. tree_path_or_fail p (\<lambda>rel.
     if rel = [] then answer (Refuse 400 ''path is required'')
     else (let full = specs_dir @ slash # rel in
       resolve_ref git q (\<lambda>ref. file_or_fail git ''spec'' ref full (size_or_fail git ref full (\<lambda>size.
         if max_blob_bytes < size then answer (Refuse 413 ''spec too large'')
         else content_or_fail git ref full (\<lambda>data.
           call (latest_shown git decode decode_result rid ref full data) (\<lambda>r.
             answer (Done ((spec_content decode ref full data)\<lparr>sc_verification := (case r of Inl _ \<Rightarrow> None | Inr v \<Rightarrow> v)\<rparr>))))))))))"

text \<open>The heading a line stands under: the last one at or before it, of equal lines the later.\<close>

definition spec_section_at :: "section_row list \<Rightarrow> int \<Rightarrow> string" where
  "spec_section_at secs line = fst (fold (\<lambda>s (title, best).
     if sec_line s \<le> line \<and> best \<le> sec_line s then (sec_title s, sec_line s) else (title, best)) secs ([], 0))"

section \<open>Writing a spec\<close>

text \<open>The commands that make objects: the tree of a commit, \<open>hash-object\<close>, and the tree that \<open>read-tree\<close>, \<open>update-index\<close>
  and \<open>write-tree\<close> make of a tree, a blob and its path on a throwaway index.\<close>

record spec_git =
  sg_tree :: "string \<Rightarrow> string option"
  sg_hash :: "string \<Rightarrow> string option"
  sg_write :: "string \<Rightarrow> string \<Rightarrow> string \<Rightarrow> string option"

definition hash_object :: "spec_git \<Rightarrow> string \<Rightarrow> string option" where
  "hash_object sg data = map_option trim_space (sg_hash sg data)"

definition write_tree_with_blob :: "spec_git \<Rightarrow> string \<Rightarrow> string \<Rightarrow> string \<Rightarrow> string option" where
  "write_tree_with_blob sg base_tree blob p = map_option trim_space (sg_write sg base_tree blob p)"

record write_spec_request =
  ws_content :: string
  ws_message :: string
  ws_branch :: string
  ws_base :: string

record write_spec_result =
  wr_branch :: string
  wr_commit :: string
  wr_created :: bool

text \<open>The commit of the new content, on a parent; \<open>Inl\<close> is the refusal.\<close>

definition spec_commit ::
  "git \<Rightarrow> spec_git \<Rightarrow> string \<Rightarrow> string \<Rightarrow> string \<Rightarrow> string \<Rightarrow> string \<Rightarrow> write_spec_result reply + string" where
  "spec_commit g sg full data msg who parent =
     (case sg_tree sg parent of None \<Rightarrow> Inl (Refuse 500 ''resolve tree failed'')
      | Some base_tree \<Rightarrow> (case hash_object sg data of None \<Rightarrow> Inl internal
      | Some blob \<Rightarrow> (case write_tree_with_blob sg base_tree blob full of None \<Rightarrow> Inl internal
      | Some tree \<Rightarrow> if tree = base_tree then Inl (Refuse 409 ''spec content is unchanged'')
          else (case commit_tree g tree (let m = trim_space msg in if m = [] then ''docs(specs): update '' @ full else m) who [parent] of
              None \<Rightarrow> Inl internal | Some made \<Rightarrow> Inr made))))"

text \<open>Where the branch is extended or started: whether it is new, and the tip its commit goes on.\<close>

definition spec_parent :: "string \<Rightarrow> string \<Rightarrow> (bool \<Rightarrow> string \<Rightarrow> 'a reply srv) \<Rightarrow> 'a reply srv" where
  "spec_parent branch base k =
     (let tip = (\<lambda>created name. on_refs (rev_parse (head_ref_name name)) (\<lambda>r. case r of
            None \<Rightarrow> answer (Refuse 500 ''resolve branch failed'') | Some parent \<Rightarrow> k created parent)) in
      on_refs (branch_exists branch) (\<lambda>there. if there then tip False branch
        else on_refs (branch_exists base) (\<lambda>found. if \<not> found then answer (Refuse 404 (''base branch not found: '' @ base))
          else tip True base)))"

definition publish_spec :: "git \<Rightarrow> spec_git \<Rightarrow> string \<Rightarrow> write_spec_request \<Rightarrow> string \<Rightarrow> string \<Rightarrow> bool \<Rightarrow> string \<Rightarrow> write_spec_result reply srv" where
  "publish_spec g sg full req who branch created parent = (case spec_commit g sg full (ws_content req) (ws_message req) who parent of
     Inl refusal \<Rightarrow> answer refusal
   | Inr made \<Rightarrow> on_refs (update_ref (head_ref_name branch) made (if created then zero_oid else parent)) (\<lambda>moved.
       answer (if moved then Done \<lparr>wr_branch = branch, wr_commit = made, wr_created = created\<rparr>
         else Refuse 409 (''branch '' @ branch @ '' moved during write; retry''))))"

definition handle_write_spec ::
  "server_env \<Rightarrow> git_read \<Rightarrow> spec_git \<Rightarrow> string \<Rightarrow> string \<Rightarrow> string \<Rightarrow> write_spec_request option \<Rightarrow> api_token option \<Rightarrow>
     write_spec_result reply srv" where
  "handle_write_spec env git sg owner repo p body tok = in_repo env owner repo (\<lambda>_. tree_path_or_fail p (\<lambda>rel.
     if rel = [] then answer (Refuse 400 ''path is required'')
     else if \<not> is_markdown rel then answer (Refuse 400 ''spec path must end in .md'')
     else with_body body (\<lambda>req.
       let main = head_ref git;
           base = (if ws_base req = [] then main else ws_base req);
           branch = (if trim_space (ws_branch req) = [] then ''spec/'' @ stem_of rel else trim_space (ws_branch req)) in
       if branch = main then answer (Refuse 400 (''refusing to write specs directly to the default branch '' @ main @ ''; use a feature branch''))
       else spec_parent branch base
         (publish_spec (se_git env) sg (specs_dir @ slash # rel) req (identity_from_context tok) branch))))"

section \<open>Verifying a spec\<close>

definition spec_verify_run :: "(string \<times> string) \<Rightarrow> string \<Rightarrow> string \<Rightarrow> string \<Rightarrow> string \<Rightarrow> new_run" where
  "spec_verify_run meta p sha ref who = \<lparr>nr_kind = Some RunKindSpecVerify, nr_issue = None, nr_model = ''claude-edit'',
     nr_profile = ''review'', nr_spec = p, nr_sha = sha, nr_msg = fst meta, nr_author = snd meta, nr_ref = ref,
     nr_event = ''spec-verify'', nr_trigger = who\<rparr>"

definition handle_verify_spec ::
  "server_env \<Rightarrow> git_read \<Rightarrow> string \<Rightarrow> string \<Rightarrow> (string \<times> string) option \<Rightarrow> api_token option \<Rightarrow> api_run reply srv" where
  "handle_verify_spec env git owner repo body tok = in_repo env owner repo (\<lambda>rid. with_body body (\<lambda>(path, asked).
     tree_path_or_fail path (\<lambda>p.
       if p = [] \<or> \<not> has_prefix p (specs_dir @ [slash]) \<or> \<not> is_markdown p then answer (Refuse 400 ''path must be a .md file under specs/'')
       else (let ref = (if trim_space asked = [] then head_ref git else trim_space asked) in
         if has_prefix ref ''-'' then answer (Refuse 400 ''invalid ref'')
         else (let sha = (case git [''rev-parse'', ''-q'', ''--verify'', ref @ ''^{commit}''] of None \<Rightarrow> [] | Some out \<Rightarrow> trim_space out) in
           if sha = [] then answer (Refuse 400 (''cannot resolve ref '' @ ref))
           else if git [''cat-file'', ''-e'', sha @ CHR '':'' # p] = None then answer (Refuse 404 (''spec not found: '' @ p))
           else call (enqueue_run rid (spec_verify_run (git_commit_meta env sha) p sha ref (identity_from_context tok)))
             (\<lambda>r. answer (case r of Inl _ \<Rightarrow> internal | Inr run \<Rightarrow> Done (to_api_run run))))))))"

section \<open>What a write can do to the refs\<close>

text \<open>A write that succeeds moved its own branch once, from the tip its commit was made on, or from nothing when it is
  reported as created; a refused one moved nothing.\<close>

definition made_commit :: "git \<Rightarrow> spec_git \<Rightarrow> string \<Rightarrow> string \<Rightarrow> string \<Rightarrow> bool" where
  "made_commit g sg who parent new \<longleftrightarrow> (\<exists>tree msg. commit_tree g tree msg who [parent] = Some new \<and> sg_tree sg parent \<noteq> Some tree)"

definition write_result :: "git \<Rightarrow> spec_git \<Rightarrow> string \<Rightarrow> string \<Rightarrow> world \<Rightarrow> write_spec_result reply \<Rightarrow> world \<Rightarrow> bool" where
  "write_result g sg who main w r w' \<longleftrightarrow> (case r of
     Refuse c m \<Rightarrow> others w w'
   | Done x \<Rightarrow> wr_branch x \<noteq> main \<and> (\<exists>parent. made_commit g sg who parent (wr_commit x)
       \<and> moved_ref (head_ref_name (wr_branch x)) (if wr_created x then zero_oid else parent) (wr_commit x) w w'))"

definition writes_safely :: "git \<Rightarrow> spec_git \<Rightarrow> string \<Rightarrow> string \<Rightarrow> write_spec_result reply srv \<Rightarrow> bool" where
  "writes_safely g sg who main m \<longleftrightarrow> (\<forall>h. case m h of (r, h') \<Rightarrow> write_result g sg who main (h_git h) r (h_git h'))"

lemma write_result_later: "others w v \<Longrightarrow> write_result g sg who main v r w' \<Longrightarrow> write_result g sg who main w r w'"
proof (cases r)
  case (Refuse c m)
  then show "others w v \<Longrightarrow> write_result g sg who main v r w' \<Longrightarrow> ?thesis" using others_trans by (simp add: write_result_def)
next
  case (Done x)
  then show "others w v \<Longrightarrow> write_result g sg who main v r w' \<Longrightarrow> ?thesis" unfolding write_result_def using others_then_moved by (simp only: reply.case) blast
qed

lemma safe_refusal: "writes_safely g sg who main (answer (Refuse c m))"
  by (simp add: writes_safely_def answer_def write_result_def others_def)

lemma safe_internal: "writes_safely g sg who main (answer internal)"
  unfolding internal_def by (rule safe_refusal)

lemma safe_call: "(\<And>r. writes_safely g sg who main (k r)) \<Longrightarrow> writes_safely g sg who main (call m k)"
  by (fastforce simp: writes_safely_def call_def split: prod.splits)

lemma safe_refs:
  assumes "\<And>w x v. m w = (x, v) \<Longrightarrow> others w v" and "\<And>x. writes_safely g sg who main (k x)"
  shows "writes_safely g sg who main (on_refs m k)"
  unfolding writes_safely_def
proof
  fix h :: host
  obtain x v where m: "m (h_git h) = (x, v)" by (metis surj_pair)
  obtain r h' where k: "k x (h\<lparr>h_git := v\<rparr>) = (r, h')" by (metis surj_pair)
  have "write_result g sg who main v r (h_git h')" using assms(2) [of x] k unfolding writes_safely_def by (auto dest!: spec [of _ "h\<lparr>h_git := v\<rparr>"])
  from write_result_later [OF assms(1) [OF m] this]
  show "case on_refs m k h of (r, h') \<Rightarrow> write_result g sg who main (h_git h) r (h_git h')" by (simp add: on_refs_def m k)
qed

lemma branch_exists_others: "branch_exists b w = (x, v) \<Longrightarrow> others w v"
  by (auto simp: branch_exists_def dest: rev_parse_others split: prod.splits)

lemma safe_lookup: "(\<And>rid. writes_safely g sg who main (k rid)) \<Longrightarrow> writes_safely g sg who main (lookup_repo_or_fail owner repo Refuse k)"
  unfolding lookup_repo_or_fail_def Let_def by (intro safe_call) (auto intro: safe_refusal split: sum.split)

lemma safe_dir: "(\<And>d. writes_safely g sg who main (k d)) \<Longrightarrow> writes_safely g sg who main (repo_dir_or_fail env owner repo Refuse k)"
  unfolding repo_dir_or_fail_def by (auto intro: safe_refusal split: sum.split)

lemma safe_publish:
  assumes "branch \<noteq> main"
  shows "writes_safely g sg who main (publish_spec g sg full req who branch created parent)"
proof (cases "spec_commit g sg full (ws_content req) (ws_message req) who parent")
  case (Inl refusal)
  then obtain c m where "refusal = Refuse c m"
    by (auto simp: spec_commit_def internal_def split: option.splits if_splits)
  then show ?thesis using Inl by (simp add: publish_spec_def safe_refusal)
next
  case (Inr new)
  then have made: "made_commit g sg who parent new"
    by (auto simp: spec_commit_def made_commit_def Let_def split: option.splits if_splits)
  show ?thesis
    unfolding writes_safely_def
  proof
    fix h :: host
    obtain moved v where u: "update_ref (head_ref_name branch) new (if created then zero_oid else parent) (h_git h) = (moved, v)"
      by (metis surj_pair)
    show "case publish_spec g sg full req who branch created parent h of (r, h') \<Rightarrow> write_result g sg who main (h_git h) r (h_git h')"
      using update_ref_cases [OF u] made assms by (auto simp: publish_spec_def Inr on_refs_def u answer_def write_result_def split: if_splits)
  qed
qed

lemma safe_parent:
  assumes "\<And>created parent. writes_safely g sg who main (k created parent)"
  shows "writes_safely g sg who main (spec_parent branch base k)"
proof -
  have tip: "writes_safely g sg who main (on_refs (rev_parse (head_ref_name name)) (\<lambda>r. case r of
      None \<Rightarrow> answer (Refuse 500 ''resolve branch failed'') | Some parent \<Rightarrow> k created parent))" for created name
    using assms by (intro safe_refs) (auto intro: safe_refusal rev_parse_others split: option.split)
  show ?thesis
    unfolding spec_parent_def Let_def using tip
    by (intro safe_refs) (auto intro!: safe_refs intro: safe_refusal branch_exists_others)
qed

text \<open>C35: Writing a spec never touches the default branch and never loses a commit. Whatever pushes race with the write, a
  success means that exactly the named branch, which is not the default one, was moved once: a created branch from not
  existing, an existing one from the very tip the new commit has as its parent, and the commit changes that tip's tree;
  when the write is refused, the server has moved no ref.\<close>

theorem spec_writes_spare_the_default_branch:
  fixes h :: host
  shows "case handle_write_spec env git sg owner repo p body tok h of (r, h') \<Rightarrow>
     write_result (se_git env) sg (identity_from_context tok) (head_ref git) (h_git h) r (h_git h')"
proof -
  have "writes_safely (se_git env) sg (identity_from_context tok) (head_ref git) (handle_write_spec env git sg owner repo p body tok)"
    unfolding handle_write_spec_def in_repo_def tree_path_or_fail_def with_body_def Let_def
    by (auto intro!: safe_lookup safe_dir safe_refusal safe_parent safe_publish split: sum.split option.split)
  from this [unfolded writes_safely_def, THEN spec, of h] show ?thesis .
qed

end
