(* ===== verification/Cron.thy ===== *)
theory Cron imports RunUpkeep Translate Repos begin

text \<open>
  The cron scheduler, \<open>cmd/codefortd/cron_scheduler.go\<close>. The parser of cron expressions is a package of its own, and a
  parameter: an expression is invalid, or a function to the next occurrence after a time, read in the zone of that time;
  it returns Go's zero time when there is none. Times are nanoseconds, the table keeps seconds.
\<close>

datatype zone = LocalZone | UTCZone

definition giga :: int where
  "giga = 1000000000"

definition cron_tick_interval :: int where
  "cron_tick_interval = 30 * giga"

definition zero_instant :: int where
  "zero_instant = - 62135596800 * giga"

text \<open>What the scheduler reads: \<open>rev-parse HEAD\<close> and the \<open>log\<close> of a commit (\<open>None\<close> when git fails), the pipeline file
  at a commit (\<open>None\<close> when git fails, \<open>Some None\<close> when there is no file), and the decoders.\<close>

record cron_env =
  ce_head :: "string \<Rightarrow> string \<Rightarrow> string option"
  ce_log :: "string \<Rightarrow> string \<Rightarrow> string \<Rightarrow> string option"
  ce_pipeline :: "string \<Rightarrow> string \<Rightarrow> string \<Rightarrow> string option option"
  ce_decode :: "string \<Rightarrow> pipeline option"
  ce_parse :: "string \<Rightarrow> (zone \<Rightarrow> int \<Rightarrow> int) option"

text \<open>\<open>strings.SplitN(strings.TrimSpace(out), "\x00", 2)\<close>: without a separator the whole output, untrimmed, is the subject.\<close>

definition head_commit_info :: "string option \<Rightarrow> string \<times> string" where
  "head_commit_info out = (case out of None \<Rightarrow> ([], [])
   | Some out \<Rightarrow> (case split_on CHR 0x00 (trim_space out) of
       subject # a # as \<Rightarrow> (subject, join [CHR 0x00] (a # as)) | _ \<Rightarrow> (out, [])))"

text \<open>When the schedule is due: after its last firing, or after one tick before now.\<close>

definition due_at :: "(zone \<Rightarrow> int \<Rightarrow> int) \<Rightarrow> int option \<Rightarrow> int \<Rightarrow> int" where
  "due_at next fired t = (case fired of Some s \<Rightarrow> next UTCZone (s * giga) | None \<Rightarrow> next LocalZone (t - cron_tick_interval))"

definition scheduled_run :: "string \<times> string \<Rightarrow> string \<Rightarrow> string \<Rightarrow> new_run" where
  "scheduled_run meta sha expr = \<lparr>nr_kind = None, nr_issue = None, nr_model = [], nr_profile = [], nr_spec = [], nr_sha = sha,
     nr_msg = fst meta, nr_author = snd meta, nr_ref = ''refs/heads/HEAD'', nr_event = ''schedule'', nr_trigger = expr\<rparr>"

definition maybe_fire :: "cron_env \<Rightarrow> repo_summary \<Rightarrow> string \<Rightarrow> cron_row \<Rightarrow> int \<Rightarrow> (db, bool) dbm" where
  "maybe_fire env repo head c t = (case ce_parse env (cr_expr c) of
     None \<Rightarrow> ok False
   | Some next \<Rightarrow> if t < due_at next (cr_last c) t then ok False
       else bind (enqueue_run (rs_id repo) (scheduled_run (head_commit_info (ce_log env (rs_owner repo) (rs_name repo) head)) head (cr_expr c)))
         (\<lambda>_. bind (update_cron_last_fired (cr_id c) (t div giga)) (\<lambda>_. ok True)))"

text \<open>A schedule that fails is logged, the others go on.\<close>

primrec fire_schedules :: "cron_env \<Rightarrow> repo_summary \<Rightarrow> string \<Rightarrow> int \<Rightarrow> cron_row list \<Rightarrow> (db, unit) dbm" where
  "fire_schedules env repo head t [] = ok ()"
| "fire_schedules env repo head t (c # cs) = attempt (maybe_fire env repo head c t) (\<lambda>_. fire_schedules env repo head t cs)"

definition process_repo_cron :: "cron_env \<Rightarrow> repo_summary \<Rightarrow> int \<Rightarrow> (db, unit) dbm" where
  "process_repo_cron env repo t = (case ce_head env (rs_owner repo) (rs_name repo) of
     None \<Rightarrow> ok ()
   | Some out \<Rightarrow> (let head = trim_space out in
       case ce_pipeline env (rs_owner repo) (rs_name repo) head of
         None \<Rightarrow> err ErrEngine
       | Some None \<Rightarrow> upsert_cron_schedules (rs_id repo) []
       | Some (Some raw) \<Rightarrow> (case parse_pipeline (ce_decode env) raw of
           None \<Rightarrow> ok ()
         | Some p \<Rightarrow> bind (upsert_cron_schedules (rs_id repo) (pl_schedule p)) (\<lambda>_.
             if pl_schedule p = [] then ok ()
             else bind (list_cron_schedules (rs_id repo)) (fire_schedules env repo head t)))))"

primrec process_repos_cron :: "cron_env \<Rightarrow> int \<Rightarrow> repo_summary list \<Rightarrow> (db, unit) dbm" where
  "process_repos_cron env t [] = ok ()"
| "process_repos_cron env t (r # rs) =
     (if rs_ci_enabled r then attempt (process_repo_cron env r t) (\<lambda>_. process_repos_cron env t rs) else process_repos_cron env t rs)"

definition tick_cron_scheduler :: "cron_env \<Rightarrow> int \<Rightarrow> (db, unit) dbm" where
  "tick_cron_scheduler env t = attempt list_repos (\<lambda>r. case r of Inl _ \<Rightarrow> ok () | Inr rs \<Rightarrow> process_repos_cron env t rs)"

section \<open>Every occurrence fires once\<close>

text \<open>One schedule through the ticks, and whether it fired at each.\<close>

primrec schedule_ticks :: "cron_env \<Rightarrow> repo_summary \<Rightarrow> string \<Rightarrow> int \<Rightarrow> int list \<Rightarrow> (db, bool list) dbm" where
  "schedule_ticks env repo head i [] = ok []"
| "schedule_ticks env repo head i (t # ts) = query (\<lambda>d. select_one (\<lambda>c. cr_id c = i) (cron_schedules d)) (\<lambda>c. case c of
     None \<Rightarrow> err ErrNotFound
   | Some c \<Rightarrow> bind (maybe_fire env repo head c t) (\<lambda>b. bind (schedule_ticks env repo head i ts) (\<lambda>bs. ok (b # bs))))"

text \<open>What the parser's function is, for an expression with occurrences on whole seconds without end.\<close>

definition next_of :: "(int \<Rightarrow> bool) \<Rightarrow> (int \<Rightarrow> int) \<Rightarrow> bool" where
  "next_of occurs next \<longleftrightarrow> (\<forall>t. t < next t \<and> occurs (next t) \<and> (\<forall>u. t < u \<longrightarrow> u < next t \<longrightarrow> \<not> occurs u)) \<and> (\<forall>u. occurs u \<longrightarrow> giga dvd u)"

definition occurs_within :: "(int \<Rightarrow> bool) \<Rightarrow> int \<Rightarrow> int \<Rightarrow> bool" where
  "occurs_within occurs a b \<longleftrightarrow> (\<exists>u. a < u \<and> u \<le> b \<and> occurs u)"

lemma next_within:
  assumes "next_of occurs next"
  shows "next a \<le> b \<longleftrightarrow> occurs_within occurs a b"
proof
  show "next a \<le> b \<Longrightarrow> occurs_within occurs a b" using assms unfolding next_of_def occurs_within_def by blast
next
  assume "occurs_within occurs a b"
  then obtain u where u: "a < u" "u \<le> b" "occurs u" unfolding occurs_within_def by blast
  then have "\<not> u < next a" using assms unfolding next_of_def by blast
  then show "next a \<le> b" using u(2) by simp
qed

lemma within_second: "next_of occurs next \<Longrightarrow> \<not> occurs_within occurs (t div giga * giga) t"
proof
  assume "next_of occurs next" "occurs_within occurs (t div giga * giga) t"
  then obtain k where "t div giga * giga < giga * k" "giga * k \<le> t" unfolding occurs_within_def next_of_def by (metis dvdE)
  moreover have "giga * k div giga \<le> t div giga" using \<open>giga * k \<le> t\<close> by (intro zdiv_mono1) (simp_all add: giga_def)
  ultimately show False by (simp add: giga_def)
qed

lemma second_below: "t div giga * giga \<le> t"
proof -
  have "t div giga * giga = t - t mod giga" by (simp add: minus_mod_eq_div_mult)
  moreover have "0 \<le> t mod giga" by (simp add: giga_def)
  ultimately show ?thesis by simp
qed

lemma within_split: "\<not> occurs_within occurs a b \<Longrightarrow> a \<le> b \<Longrightarrow> occurs_within occurs a c \<longleftrightarrow> occurs_within occurs b c"
  unfolding occurs_within_def by (meson le_less_linear le_less_trans)

lemma enqueue_healthy:
  assumes "repo_exists repo d"
  shows "\<exists>r t. enqueue_run repo nr ([], d) = (Inr r, ([], d\<lparr>ci_runs := t\<rparr>)) \<and> rows t = rows (ci_runs d) @ [r]
    \<and> ru_repo r = repo \<and> ru_sha r = nr_sha nr \<and> ru_status r = RunQueued"
proof -
  have "\<not> exists_where (run_at repo (next_number ru_repo ru_number repo (ci_runs d))) (ci_runs d)"
    using next_number_greater [of _ "ci_runs d" ru_repo repo ru_number] by (fastforce simp: exists_where_iff run_at_def)
  then show ?thesis
    using assms by (auto simp: enqueue_run_def insert_run_def insert_row_def mk_run_def Let_def)
qed

lemma select_update:
  assumes "select_one P t = Some r" and "\<And>x. P (f x) = P x"
  shows "select_one P (update_where P f t) = Some (f r)"
proof -
  have "find P xs = Some r \<Longrightarrow> find P (map (\<lambda>x. if P x then f x else x) xs) = Some (f r)" for xs
    by (induction xs) (auto simp: assms(2) split: if_splits)
  then show ?thesis using assms(1) by (simp add: select_one_def row_simps)
qed

definition scheduled_runs :: "int \<Rightarrow> string \<Rightarrow> run_row list \<Rightarrow> bool" where
  "scheduled_runs repo head rs \<longleftrightarrow> list_all (\<lambda>r. ru_repo r = repo \<and> ru_sha r = head \<and> ru_status r = RunQueued) rs"

lemma fire_healthy:
  assumes "repo_exists (rs_id repo) d" and "ce_parse env (cr_expr c) = Some next"
    and "select_one (\<lambda>c. cr_id c = cr_id c') (cron_schedules d) = Some c" and "cr_id c = cr_id c'"
  shows "\<exists>d' new. maybe_fire env repo head c t ([], d) = (Inr (due_at next (cr_last c) t \<le> t), ([], d'))
    \<and> rows (ci_runs d') = rows (ci_runs d) @ new \<and> scheduled_runs (rs_id repo) head new
    \<and> length new = (if due_at next (cr_last c) t \<le> t then 1 else 0) \<and> repo_exists (rs_id repo) d'
    \<and> select_one (\<lambda>c. cr_id c = cr_id c') (cron_schedules d')
      = Some (if due_at next (cr_last c) t \<le> t then c\<lparr>cr_last := Some (t div giga)\<rparr> else c)"
proof (cases "due_at next (cr_last c) t \<le> t")
  case True
  obtain r tab where r: "enqueue_run (rs_id repo) (scheduled_run (head_commit_info (ce_log env (rs_owner repo) (rs_name repo) head)) head (cr_expr c)) ([], d)
      = (Inr r, ([], d\<lparr>ci_runs := tab\<rparr>))" "rows tab = rows (ci_runs d) @ [r]" "ru_repo r = rs_id repo" "ru_sha r = head" "ru_status r = RunQueued"
    using enqueue_healthy [OF assms(1)] by (metis scheduled_run_def new_run.select_convs(6))
  have "select_one (\<lambda>c. cr_id c = cr_id c') (update_where (\<lambda>c. cr_id c = cr_id c') (\<lambda>c. c\<lparr>cr_last := Some (t div giga)\<rparr>) (cron_schedules d))
      = Some (c\<lparr>cr_last := Some (t div giga)\<rparr>)" by (rule select_update [OF assms(3)]) simp
  then show ?thesis
    using True assms(1,2,4) r by (simp add: maybe_fire_def bind_def update_cron_last_fired_def scheduled_runs_def repo_exists_def)
qed (use assms in \<open>simp add: maybe_fire_def scheduled_runs_def\<close>)


text \<open>An expression that never occurs, the thirtieth of February say, has Go's zero time as its next occurrence: it is due at
  every tick, and a run starts every thirty seconds.\<close>

theorem impossible_date_fires_at_every_tick:
  assumes "repo_exists (rs_id repo) d" and "select_one (\<lambda>c. cr_id c = i) (cron_schedules d) = Some c"
    and "ce_parse env (cr_expr c) = Some (\<lambda>_ _. zero_instant)" and "zero_instant \<le> t"
  shows "\<exists>d'. maybe_fire env repo head c t ([], d) = (Inr True, ([], d')) \<and> length (rows (ci_runs d')) = length (rows (ci_runs d)) + 1"
proof -
  have "cr_id c = i" using assms(2) by (auto dest: select_one_SomeD)
  moreover have "due_at (\<lambda>_ _. zero_instant) (cr_last c) t \<le> t" using assms(4) by (simp add: due_at_def split: option.split)
  ultimately show ?thesis using fire_healthy [OF assms(1,3), of c head t] assms(2) by auto
qed

text \<open>A schedule of every minute that has fired at the time 0.\<close>

definition demo_minute :: "int \<Rightarrow> int" where
  "demo_minute t = (t div (60 * giga) + 1) * (60 * giga)"

definition demo_cron_env :: cron_env where
  "demo_cron_env = \<lparr>ce_head = (\<lambda>_ _. Some ''c1''), ce_log = (\<lambda>_ _ _. None), ce_pipeline = (\<lambda>_ _ _. None), ce_decode = (\<lambda>_. None),
     ce_parse = (\<lambda>e. if e = ''@yearly'' then Some (\<lambda>_ _. zero_instant) else Some (\<lambda>_. demo_minute))\<rparr>"

definition demo_cron_repo :: repo_summary where
  "demo_cron_repo = \<lparr>rs_id = 1, rs_owner = ''ann'', rs_name = ''app'', rs_created = 0, rs_open_issues = 0, rs_total_issues = 0,
     rs_ci_enabled = True, rs_require_approval = False, rs_protected_refs = [], rs_visibility = ''public'', rs_ci_status = None,
     rs_ci_number = 0, rs_open_pulls = 0, rs_open_reviews = 0, rs_active_agents = 0\<rparr>"

definition demo_fired :: db where
  "demo_fired = snd (snd (update_cron_last_fired 1 0 ([], demo_cron)))"

lemma next_multiple:
  assumes "0 < (m :: int)"
  shows "t < (t div m + 1) * m" and "t < k * m \<Longrightarrow> (t div m + 1) * m \<le> k * m"
proof -
  have t: "t div m * m = t - t mod m" by (simp add: minus_mod_eq_div_mult)
  then show "t < (t div m + 1) * m" using pos_mod_bound [OF assms, of t] by (simp add: distrib_right)
  assume "t < k * m"
  moreover have "t div m * m \<le> t" using t pos_mod_sign [OF assms, of t] by simp
  ultimately have "t div m * m < k * m" by simp
  then have "t div m < k" using assms by simp
  then show "(t div m + 1) * m \<le> k * m" using assms by (intro mult_right_mono) simp_all
qed

lemma demo_minute_next: "next_of (\<lambda>u. 60 * giga dvd u) demo_minute"
  unfolding next_of_def
proof (intro conjI allI impI)
  fix t u
  have pos: "0 < 60 * giga" by (simp add: giga_def)
  show "t < demo_minute t" unfolding demo_minute_def by (rule next_multiple [OF pos])
  show "60 * giga dvd demo_minute t" by (simp add: demo_minute_def)
  show "\<not> 60 * giga dvd u" if "t < u" "u < demo_minute t"
  proof
    assume "60 * giga dvd u"
    then obtain k where k: "u = k * (60 * giga)" by (metis dvdE mult.commute)
    then show False using next_multiple(2) [OF pos, of t k] that by (simp add: demo_minute_def)
  qed
  show "60 * giga dvd u \<Longrightarrow> giga dvd u" by (rule dvd_trans [of _ "60 * giga"]) simp
qed


text \<open>Two ticks of the same second: the impossible date fires at both.\<close>

lemma impossible_date_fires_at_every_tick_witness:
  "\<exists>d'. maybe_fire (demo_cron_env\<lparr>ce_parse := (\<lambda>_. Some (\<lambda>_ _. zero_instant))\<rparr>) demo_cron_repo ''c1''
      (the (select_one (\<lambda>c. cr_id c = 1) (cron_schedules demo_fired))) 5 ([], demo_fired) = (Inr True, ([], d'))
    \<and> length (rows (ci_runs d')) = length (rows (ci_runs demo_fired)) + 1"
proof -
  have "repo_exists 1 demo_fired" "select_one (\<lambda>c. cr_id c = 1) (cron_schedules demo_fired) \<noteq> None" by code_simp+
  then obtain c where c: "repo_exists (rs_id demo_cron_repo) demo_fired" "select_one (\<lambda>c. cr_id c = 1) (cron_schedules demo_fired) = Some c"
    by (auto simp: demo_cron_repo_def)
  show ?thesis using impossible_date_fires_at_every_tick [OF c, where t = 5 and env = "demo_cron_env\<lparr>ce_parse := (\<lambda>_. Some (\<lambda>_ _. zero_instant))\<rparr>"] c(2)
    by (simp add: zero_instant_def giga_def)
qed

end
