(* ===== verification/RateLimit.thy ===== *)
theory RateLimit imports Complex_Main Prelude begin

text \<open>
  The rate limiter, \<open>internal/server/ratelimit.go\<close>: a token bucket per client address, dropped when idle. Tokens are
  rational numbers where the code has floats, times are nanoseconds, and a request is atomic: the code takes the lock of
  the limiter and that of the bucket one after the other. The table is what holds, with what a client is owed.
\<close>

section \<open>Buckets\<close>

record bucket =
  bk_tokens :: rat
  bk_last :: int

definition new_bucket :: "rat \<Rightarrow> int \<Rightarrow> bucket" where
  "new_bucket burst t = \<lparr>bk_tokens = burst, bk_last = t\<rparr>"

text \<open>\<open>rate\<close> is in tokens per nanosecond.\<close>

definition refilled :: "rat \<Rightarrow> rat \<Rightarrow> bucket \<Rightarrow> int \<Rightarrow> rat" where
  "refilled rate burst b t = min burst (bk_tokens b + of_int (t - bk_last b) * rate)"

definition bucket_allow :: "rat \<Rightarrow> rat \<Rightarrow> int \<Rightarrow> bucket \<Rightarrow> bool \<times> bucket" where
  "bucket_allow rate burst t b = (let n = refilled rate burst b t in
     if n < 1 then (False, \<lparr>bk_tokens = n, bk_last = t\<rparr>) else (True, \<lparr>bk_tokens = n - 1, bk_last = t\<rparr>))"

section \<open>The limiter\<close>

definition bucket_idle_ttl :: int where
  "bucket_idle_ttl = 3600000000000"

definition sweep_every :: int where
  "sweep_every = 1024"

record limiter =
  li_buckets :: "string \<rightharpoonup> bucket"
  li_calls :: int

definition new_limiter :: limiter where
  "new_limiter = \<lparr>li_buckets = Map.empty, li_calls = 0\<rparr>"

definition evict_idle :: "int \<Rightarrow> string \<Rightarrow> (string \<rightharpoonup> bucket) \<Rightarrow> string \<rightharpoonup> bucket" where
  "evict_idle t keep m = (\<lambda>ip. case m ip of None \<Rightarrow> None
     | Some b \<Rightarrow> if ip \<noteq> keep \<and> bucket_idle_ttl \<le> t - bk_last b then None else Some b)"

definition limiter_allow :: "rat \<Rightarrow> rat \<Rightarrow> string \<Rightarrow> int \<Rightarrow> limiter \<Rightarrow> bool \<times> limiter" where
  "limiter_allow rate burst ip t l =
     (let b = (case li_buckets l ip of None \<Rightarrow> new_bucket burst t | Some b \<Rightarrow> b);
          m = (li_buckets l)(ip \<mapsto> b);
          calls = li_calls l + 1;
          (calls, m) = (if sweep_every \<le> calls then (0, evict_idle t ip m) else (calls, m));
          (allowed, b) = bucket_allow rate burst t b in
      (allowed, \<lparr>li_buckets = m(ip \<mapsto> b), li_calls = calls\<rparr>))"

text \<open>\<open>withRateLimit\<close>: the key is the host of the remote address, or all of it when it has no port; no limiter lets
  everything through.\<close>

definition with_rate_limit ::
  "rat \<Rightarrow> rat \<Rightarrow> (string \<Rightarrow> string option) \<Rightarrow> string \<Rightarrow> int \<Rightarrow> limiter option \<Rightarrow> bool \<times> limiter option" where
  "with_rate_limit rate burst host_of_addr addr t l = (case l of
     None \<Rightarrow> (True, None)
   | Some l \<Rightarrow> (case limiter_allow rate burst (case host_of_addr addr of None \<Rightarrow> addr | Some ip \<Rightarrow> ip) t l of
       (allowed, l') \<Rightarrow> (allowed, Some l')))"

text \<open>The requests of a time, in order, with what each was told.\<close>

fun run_limiter :: "rat \<Rightarrow> rat \<Rightarrow> limiter \<Rightarrow> (string \<times> int) list \<Rightarrow> (string \<times> int \<times> bool) list" where
  "run_limiter rate burst l [] = []"
| "run_limiter rate burst l ((ip, t) # rs) =
     (case limiter_allow rate burst ip t l of (allowed, l') \<Rightarrow> (ip, t, allowed) # run_limiter rate burst l' rs)"

section \<open>What the limiter stands for\<close>

text \<open>Every client has a bucket of its own from the start, and forever.\<close>

definition ideal_allow :: "rat \<Rightarrow> rat \<Rightarrow> string \<Rightarrow> int \<Rightarrow> (string \<Rightarrow> bucket) \<Rightarrow> bool \<times> (string \<Rightarrow> bucket)" where
  "ideal_allow rate burst ip t s = (case bucket_allow rate burst t (s ip) of (allowed, b) \<Rightarrow> (allowed, s(ip := b)))"

fun run_ideal :: "rat \<Rightarrow> rat \<Rightarrow> (string \<Rightarrow> bucket) \<Rightarrow> (string \<times> int) list \<Rightarrow> (string \<times> int \<times> bool) list" where
  "run_ideal rate burst s [] = []"
| "run_ideal rate burst s ((ip, t) # rs) =
     (case ideal_allow rate burst ip t s of (allowed, s') \<Rightarrow> (ip, t, allowed) # run_ideal rate burst s' rs)"

text \<open>The limits the code relies on: a bucket that is idle for the time to live is full again.\<close>

definition limits_ok :: "rat \<Rightarrow> rat \<Rightarrow> bool" where
  "limits_ok rate burst \<longleftrightarrow> 0 \<le> rate \<and> 0 \<le> burst \<and> burst \<le> rate * of_int bucket_idle_ttl"

definition in_order :: "int \<Rightarrow> (string \<times> int) list \<Rightarrow> bool" where
  "in_order t rs \<longleftrightarrow> sorted (t # map snd rs)"

text \<open>A client's bucket is the ideal one, or is missing while the ideal one is full.\<close>

definition stands_for :: "rat \<Rightarrow> rat \<Rightarrow> int \<Rightarrow> limiter \<Rightarrow> (string \<Rightarrow> bucket) \<Rightarrow> bool" where
  "stands_for rate burst t l s \<longleftrightarrow> (\<forall>ip. 0 \<le> bk_tokens (s ip) \<and> bk_last (s ip) \<le> t \<and>
     (case li_buckets l ip of None \<Rightarrow> burst \<le> bk_tokens (s ip) + of_int (t - bk_last (s ip)) * rate | Some b \<Rightarrow> s ip = b))"

lemma bucket_allow_cong: "refilled rate burst b t = refilled rate burst b' t \<Longrightarrow> bucket_allow rate burst t b = bucket_allow rate burst t b'"
  by (simp add: bucket_allow_def Let_def)

lemma bucket_allow_state:
  assumes "bucket_allow rate burst t b = (allowed, b')" and "0 \<le> bk_tokens b" and "bk_last b \<le> t" and "0 \<le> rate" and "0 \<le> burst"
  shows "bk_last b' = t \<and> 0 \<le> bk_tokens b' \<and> bk_tokens b' + (if allowed then 1 else 0) = refilled rate burst b t \<and> bk_tokens b' \<le> burst"
proof -
  have "0 \<le> of_int (t - bk_last b) * rate" using assms(3,4) by (intro mult_nonneg_nonneg) simp_all
  then have "0 \<le> refilled rate burst b t" using assms(2,5) by (simp add: refilled_def)
  moreover have "refilled rate burst b t \<le> burst" by (simp add: refilled_def)
  ultimately show ?thesis using assms(1) by (auto simp: bucket_allow_def Let_def split: if_splits)
qed

lemma refill_mono: "t \<le> u \<Longrightarrow> 0 \<le> (rate :: rat) \<Longrightarrow> of_int (t - a) * rate \<le> of_int (u - a) * rate"
  by (intro mult_right_mono) simp_all

lemma idle_is_full:
  assumes "limits_ok rate burst" and "0 \<le> bk_tokens b" and "bucket_idle_ttl \<le> t - bk_last b"
  shows "burst \<le> bk_tokens b + of_int (t - bk_last b) * rate"
proof -
  have "rate * of_int bucket_idle_ttl \<le> of_int (t - bk_last b) * rate"
    using assms(1,3) by (subst mult.commute) (intro mult_right_mono, simp_all only: limits_ok_def of_int_le_iff)
  then show ?thesis using assms(1,2) by (simp add: limits_ok_def)
qed

lemma allow_stands_for:
  assumes "limits_ok rate burst" and "stands_for rate burst t0 l s" and "t0 \<le> t"
    and "limiter_allow rate burst ip t l = (allowed, l')" and "ideal_allow rate burst ip t s = (expected, s')"
  shows "allowed = expected \<and> stands_for rate burst t l' s'"
proof -
  have now: "stands_for rate burst t l s"
    unfolding stands_for_def
  proof
    fix x
    have at: "0 \<le> bk_tokens (s x) \<and> bk_last (s x) \<le> t0 \<and>
      (case li_buckets l x of None \<Rightarrow> burst \<le> bk_tokens (s x) + of_int (t0 - bk_last (s x)) * rate | Some b \<Rightarrow> s x = b)"
      using assms(2) unfolding stands_for_def by blast
    have "of_int (t0 - bk_last (s x)) * rate \<le> of_int (t - bk_last (s x)) * rate"
      using assms(1,3) by (intro refill_mono) (simp_all add: limits_ok_def)
    then show "0 \<le> bk_tokens (s x) \<and> bk_last (s x) \<le> t \<and>
      (case li_buckets l x of None \<Rightarrow> burst \<le> bk_tokens (s x) + of_int (t - bk_last (s x)) * rate | Some b \<Rightarrow> s x = b)"
      using at assms(3) by (cases "li_buckets l x") auto
  qed
  define b where "b = (case li_buckets l ip of None \<Rightarrow> new_bucket burst t | Some b \<Rightarrow> b)"
  have "refilled rate burst b t = refilled rate burst (s ip) t"
    using now [unfolded stands_for_def, THEN spec, of ip] by (cases "li_buckets l ip") (auto simp: b_def refilled_def new_bucket_def)
  note same = bucket_allow_cong [OF this]
  obtain b' where b': "bucket_allow rate burst t (s ip) = (expected, b')" and s': "s' = s(ip := b')"
    using assms(5) by (auto simp: ideal_allow_def split: prod.splits)
  have "bk_last b' = t \<and> 0 \<le> bk_tokens b'"
    using bucket_allow_state [OF b'] now assms(1) by (auto simp: stands_for_def limits_ok_def)
  moreover have others: "li_buckets l' x = li_buckets l x \<or> (li_buckets l' x = None \<and> (\<exists>b. li_buckets l x = Some b \<and> bucket_idle_ttl \<le> t - bk_last b))"
    if "x \<noteq> ip" for x
    using assms(4) that by (auto simp: limiter_allow_def Let_def evict_idle_def b_def [symmetric] same b' split: prod.splits if_splits option.splits)
  moreover have "allowed = expected \<and> li_buckets l' ip = Some b'"
    using assms(4) by (auto simp: limiter_allow_def Let_def b_def [symmetric] same b' split: prod.splits if_splits)
  moreover have "0 \<le> bk_tokens (s' x) \<and> bk_last (s' x) \<le> t \<and>
      (case li_buckets l' x of None \<Rightarrow> burst \<le> bk_tokens (s' x) + of_int (t - bk_last (s' x)) * rate | Some b \<Rightarrow> s' x = b)" if "x \<noteq> ip" for x
    using others [OF that] now [unfolded stands_for_def, THEN spec, of x] idle_is_full [OF assms(1)] that
    by (auto simp: s' split: option.splits)
  ultimately show ?thesis unfolding stands_for_def using s' by (auto split: option.splits)
qed

lemma runs_agree:
  assumes "limits_ok rate burst" and "stands_for rate burst t l s" and "in_order t rs"
  shows "run_limiter rate burst l rs = run_ideal rate burst s rs"
  using assms(2,3)
proof (induction rs arbitrary: t l s)
  case (Cons r rs)
  obtain ip u where r: "r = (ip, u)" by (cases r)
  obtain a l' where l: "limiter_allow rate burst ip u l = (a, l')" by (metis surj_pair)
  obtain a' s' where s: "ideal_allow rate burst ip u s = (a', s')" by (metis surj_pair)
  have u: "t \<le> u" "in_order u rs" using Cons.prems(2) r by (simp_all add: in_order_def)
  from allow_stands_for [OF assms(1) Cons.prems(1) u(1) l s] have "a = a'" "stands_for rate burst u l' s'" by auto
  then show ?case using Cons.IH [of u l' s'] u(2) r l s by simp
qed simp

text \<open>C37: Dropping idle buckets is invisible. For every sequence of requests in the order of time, the limiter with its
  sweeps answers each request as if every client kept a bucket of its own, full at the start, for ever; the bound the
  code asks for, that a bucket refills within its idle time, is all that is needed.\<close>

theorem sweeping_is_invisible:
  assumes "limits_ok rate burst" and "in_order t rs"
  shows "run_limiter rate burst new_limiter rs = run_ideal rate burst (\<lambda>_. new_bucket burst t) rs"
proof -
  have "stands_for rate burst t new_limiter (\<lambda>_. new_bucket burst t)"
    using assms(1) by (simp add: stands_for_def new_limiter_def new_bucket_def limits_ok_def)
  from runs_agree [OF assms(1) this assms(2)] show ?thesis .
qed

section \<open>How many requests get through\<close>

definition admitted :: "string \<Rightarrow> (string \<times> int \<times> bool) list \<Rightarrow> rat" where
  "admitted ip answers = of_nat (length (filter (\<lambda>(x, _, allowed). x = ip \<and> allowed) answers))"

definition buckets_ok :: "rat \<Rightarrow> int \<Rightarrow> (string \<Rightarrow> bucket) \<Rightarrow> bool" where
  "buckets_ok burst t s \<longleftrightarrow> (\<forall>ip. 0 \<le> bk_tokens (s ip) \<and> bk_last (s ip) \<le> t)"

lemma admitted_Cons: "admitted ip ((x, t, a) # answers) = (if x = ip \<and> a then 1 else 0) + admitted ip answers"
  by (simp add: admitted_def)

text \<open>What a client gets from a moment on is paid from what its bucket holds then, and from what flows in later.\<close>

lemma ideal_pays:
  assumes "0 \<le> rate" and "0 \<le> burst" and "buckets_ok burst t s" and "in_order t rs" and "\<forall>r \<in> set rs. snd r \<le> u" and "t \<le> u"
  shows "admitted ip (run_ideal rate burst s rs) \<le> refilled rate burst (s ip) t + of_int (u - t) * rate"
  using assms(3-6)
proof (induction rs arbitrary: t s)
  case Nil
  have "0 \<le> of_int (t - bk_last (s ip)) * rate" "0 \<le> of_int (u - t) * rate"
    using Nil assms(1) by (auto simp: buckets_ok_def intro!: mult_nonneg_nonneg)
  then show ?case using Nil(1) assms(2) by (simp add: admitted_def refilled_def buckets_ok_def)
next
  case (Cons r rs)
  obtain x v where r: "r = (x, v)" by (cases r)
  obtain a b' where b: "bucket_allow rate burst v (s x) = (a, b')" by (metis surj_pair)
  define s' where "s' = s(x := b')"
  have v: "t \<le> v" "v \<le> u" "in_order v rs" using Cons.prems(2,3) r by (simp_all add: in_order_def)
  note state = bucket_allow_state [OF b] 
  have ok: "0 \<le> bk_tokens (s y)" "bk_last (s y) \<le> v" for y using Cons.prems(1) v(1) by (auto simp: buckets_ok_def intro: order_trans)
  then have st: "bk_last b' = v \<and> 0 \<le> bk_tokens b' \<and> bk_tokens b' + (if a then 1 else 0) = refilled rate burst (s x) v \<and> bk_tokens b' \<le> burst"
    using state assms(1,2) by blast
  have "buckets_ok burst v s'" using ok st by (simp add: buckets_ok_def s'_def)
  from Cons.IH [OF this v(3)] have IH: "admitted ip (run_ideal rate burst s' rs) \<le> refilled rate burst (s' ip) v + of_int (u - v) * rate"
    using Cons.prems(3) v(2) by simp
  have paid: "refilled rate burst (s' ip) v + (if x = ip \<and> a then 1 else 0) = refilled rate burst (s ip) v"
    using st by (auto simp: s'_def refilled_def)
  have "of_int (v - bk_last (s ip)) * rate = of_int (t - bk_last (s ip)) * rate + of_int (v - t) * rate"
    by (simp add: algebra_simps)
  moreover have "0 \<le> of_int (v - t) * rate" using v(1) assms(1) by simp
  ultimately have "refilled rate burst (s ip) v \<le> refilled rate burst (s ip) t + of_int (v - t) * rate"
    by (simp add: refilled_def min_def)
  moreover have "of_int (v - t) * rate + of_int (u - v) * rate = of_int (u - t) * rate" by (simp add: algebra_simps)
  ultimately show ?case using IH paid by (simp add: r ideal_allow_def b s'_def [symmetric] admitted_Cons)
qed

lemma run_ideal_append:
  assumes "0 \<le> rate" and "0 \<le> burst" and "buckets_ok burst t s" and "in_order t pre" and "\<forall>r \<in> set pre. snd r \<le> u" and "t \<le> u"
  shows "\<exists>s'. run_ideal rate burst s (pre @ rs) = run_ideal rate burst s pre @ run_ideal rate burst s' rs \<and> buckets_ok burst u s'"
  using assms(3-6)
proof (induction pre arbitrary: t s)
  case Nil
  then have "buckets_ok burst u s" by (auto simp: buckets_ok_def intro: order_trans)
  then show ?case by auto
next
  case (Cons r pre)
  obtain x v where r: "r = (x, v)" by (cases r)
  obtain a b' where b: "bucket_allow rate burst v (s x) = (a, b')" by (metis surj_pair)
  have v: "t \<le> v" "in_order v pre" "v \<le> u" using Cons.prems(2,3) r by (simp_all add: in_order_def)
  have ok: "0 \<le> bk_tokens (s y)" "bk_last (s y) \<le> v" for y using Cons.prems(1) v(1) by (auto simp: buckets_ok_def intro: order_trans)
  then have "buckets_ok burst v (s(x := b'))" using bucket_allow_state [OF b] assms(1,2) by (simp add: buckets_ok_def)
  from Cons.IH [OF this v(2) _ v(3)] Cons.prems(3) show ?case by (simp add: r ideal_allow_def b del: fun_upd_apply)
qed

lemma run_ideal_length [simp]: "length (run_ideal rate burst s rs) = length rs"
  by (induction rate burst s rs rule: run_ideal.induct) (auto split: prod.splits)

lemma in_order_append: "in_order t pre \<Longrightarrow> in_order u rs \<Longrightarrow> t \<le> u \<Longrightarrow> \<forall>r \<in> set pre. snd r \<le> u \<Longrightarrow> in_order t (pre @ rs)"
  by (fastforce simp: in_order_def sorted_append intro: order_trans)

text \<open>C38: The limiter keeps its promise over every stretch of time. Whatever came before and whoever else is calling, of the
  requests of one client from a time \<open>since\<close> to a time \<open>till\<close> at most the burst plus the rate times \<open>till - since\<close> are let through.\<close>

theorem rate_limit_bounds:
  assumes "limits_ok rate burst" and "in_order start before" and "\<forall>r \<in> set before. snd r \<le> since" and "start \<le> since"
    and "in_order since window" and "\<forall>r \<in> set window. snd r \<le> till" and "since \<le> till"
  shows "admitted ip (drop (length before) (run_limiter rate burst new_limiter (before @ window))) \<le> burst + of_int (till - since) * rate"
proof -
  have rate: "0 \<le> rate" "0 \<le> burst" using assms(1) by (simp_all add: limits_ok_def)
  let ?s = "\<lambda>_. new_bucket burst start"
  have order: "in_order start (before @ window)" using in_order_append assms by blast
  have same: "run_limiter rate burst new_limiter (before @ window) = run_ideal rate burst ?s (before @ window)"
    by (rule runs_agree [OF assms(1) _ order]) (use rate in \<open>simp add: stands_for_def new_limiter_def new_bucket_def\<close>)
  have "buckets_ok burst start ?s" using rate by (simp add: buckets_ok_def new_bucket_def)
  from run_ideal_append [OF rate this assms(2-4)] obtain s' where
    s': "run_ideal rate burst ?s (before @ window) = run_ideal rate burst ?s before @ run_ideal rate burst s' window" "buckets_ok burst since s'"
    by blast
  have "refilled rate burst (s' ip) since \<le> burst" by (simp add: refilled_def)
  with ideal_pays [OF rate s'(2) assms(5-7), of ip] show ?thesis by (simp add: same s'(1))
qed

text \<open>A burst of two, one token per second: the third request at once is refused, one a second later is not.\<close>

definition demo_rate :: rat where
  "demo_rate = 1 / 1000000000"

lemma demo_limits: "limits_ok demo_rate 2"
  by (simp add: limits_ok_def demo_rate_def bucket_idle_ttl_def)

lemma sweeping_is_invisible_witness:
  "run_limiter demo_rate 2 new_limiter [(''a'', 0), (''a'', 0), (''a'', 0), (''a'', 1000000000)]
    = run_ideal demo_rate 2 (\<lambda>_. new_bucket 2 0) [(''a'', 0), (''a'', 0), (''a'', 0), (''a'', 1000000000)]"
  by (rule sweeping_is_invisible [OF demo_limits, where t = 0]) (simp add: in_order_def)

lemma rate_limit_bounds_witness:
  "admitted ''a'' (drop 1 (run_limiter demo_rate 2 new_limiter ([(''a'', 0)] @ [(''a'', 0), (''b'', 0), (''a'', 1000000000)]))) \<le> 3
    \<and> map (snd \<circ> snd) (run_limiter demo_rate 2 new_limiter [(''a'', 0), (''a'', 0), (''a'', 0), (''a'', 1000000000)]) = [True, True, False, True]"
proof -
  have "admitted ''a'' (drop (length [(''a'', 0)]) (run_limiter demo_rate 2 new_limiter ([(''a'', 0)] @ [(''a'', 0), (''b'', 0), (''a'', 1000000000)])))
      \<le> 2 + of_int (1000000000 - 0) * demo_rate"
    using rate_limit_bounds [OF demo_limits, of 0 "[(''a'', 0)]" 0 "[(''a'', 0), (''b'', 0), (''a'', 1000000000)]" 1000000000 "''a''"]
    by (simp add: in_order_def)
  then have "admitted ''a'' (drop 1 (run_limiter demo_rate 2 new_limiter ([(''a'', 0)] @ [(''a'', 0), (''b'', 0), (''a'', 1000000000)]))) \<le> 3"
    by (simp add: demo_rate_def)
  moreover have "map (snd \<circ> snd) (run_limiter demo_rate 2 new_limiter [(''a'', 0), (''a'', 0), (''a'', 0), (''a'', 1000000000)]) = [True, True, False, True]"
    by (simp add: limiter_allow_def new_limiter_def new_bucket_def bucket_allow_def refilled_def sweep_every_def demo_rate_def Let_def)
  ultimately show ?thesis by blast
qed

end
