(* ===== verification/FeedStream.thy ===== *)
theory FeedStream imports Browse begin

text \<open>
  The event feed from end to end: \<open>handleEvents\<close> of \<open>internal/server/events.go\<close> streams the events table as server-sent
  events, \<open>cf events\<close> (\<open>cmd/cf/events.go\<close>) reads the text line by line, prints the events and reconnects where it
  left off. The table changes between the queries of a stream, and a stream can be cut at any byte.
\<close>

section \<open>The server\<close>

record wire_event =
  we_seq :: int
  we_type :: string
  we_time :: int
  we_repo :: string
  we_actor :: string
  we_data :: "(string \<times> jvalue) list option"

definition to_api_event :: "(string \<Rightarrow> (string \<times> jvalue) list option) \<Rightarrow> feed_event \<Rightarrow> wire_event" where
  "to_api_event decode e = \<lparr>we_seq = fe_seq e, we_type = fe_type e, we_time = fe_created e * 1000,
     we_repo = (if fe_owner e \<noteq> [] \<and> fe_name e \<noteq> [] then fe_owner e @ slash # fe_name e else []),
     we_actor = fe_actor e, we_data = (if fe_payload e = [] then None else decode (fe_payload e))\<rparr>"

definition events_batch :: int where
  "events_batch = 500"

text \<open>\<open>?types=\<close>: the types asked for, none for all.\<close>

definition parse_type_filter :: "string \<Rightarrow> string list" where
  "parse_type_filter raw = (if trim_space raw = [] then [] else nonblank (split_on CHR '','' raw))"

definition type_passes :: "string list \<Rightarrow> string \<Rightarrow> bool" where
  "type_passes types ty \<longleftrightarrow> types = [] \<or> ty \<in> set types"

datatype chunk = WireEvent wire_event | WirePing

text \<open>The stream, given the engine as each query finds it: a full batch is followed by the next query at once, a short one
  by a pause and a ping, or by the end in snapshot mode; a query that fails ends it.\<close>

fun serve :: "(string \<Rightarrow> (string \<times> jvalue) list option) \<Rightarrow> string list \<Rightarrow> int \<Rightarrow> bool \<Rightarrow> int \<Rightarrow> db session list \<Rightarrow> chunk list" where
  "serve decode types repo once seq [] = []"
| "serve decode types repo once seq (s # ss) = (case fst (list_events_since seq repo events_batch s) of
     Inl _ \<Rightarrow> []
   | Inr batch \<Rightarrow>
       map (\<lambda>e. WireEvent (to_api_event decode e)) (filter (\<lambda>e. type_passes types (fe_type e)) batch) @
       (let seq' = (if batch = [] then seq else fe_seq (last batch)) in
        if int (length batch) = events_batch then serve decode types repo once seq' ss
        else if once then [] else WirePing # serve decode types repo once seq' ss))"

definition chunk_text :: "(wire_event \<Rightarrow> string) \<Rightarrow> chunk \<Rightarrow> string" where
  "chunk_text enc c = (case c of
     WireEvent e \<Rightarrow> ''id: '' @ itoa (we_seq e) @ [newline] @ ''event: '' @ we_type e @ [newline] @ ''data: '' @ enc e @ [newline, newline]
   | WirePing \<Rightarrow> '': ping'' @ [newline, newline])"

definition handle_events ::
  "(string \<Rightarrow> (string \<times> jvalue) list option) \<Rightarrow> url_values \<Rightarrow> string \<Rightarrow> db session list \<Rightarrow> chunk list reply srv" where
  "handle_events decode q header polls =
     (let stream = (\<lambda>rid. answer (Done (serve decode (parse_type_filter (q_get q ''types'')) rid (q_get q ''once'' = ''true'')
            (parse_last_event_id header q) polls)));
          rs = trim_space (q_get q ''repo'') in
      if rs = [] then stream 0
      else (case cut_at slash rs of
          None \<Rightarrow> answer (Refuse 400 ''repo must be owner/name'')
        | Some (owner, name) \<Rightarrow> if owner = [] \<or> name = [] then answer (Refuse 400 ''repo must be owner/name'')
            else call (lookup_repo owner (trim_suffix name ''.git'')) (\<lambda>r. case r of
                Inl _ \<Rightarrow> answer (Refuse 404 (''repo not registered: '' @ rs)) | Inr rid \<Rightarrow> stream rid)))"

section \<open>The client\<close>

text \<open>\<open>bufio.ScanLines\<close>: the lines without their ends, the last one also when no newline follows it; a line that does
  not fit the buffer is an error.\<close>

definition strip_cr :: "string \<Rightarrow> string" where
  "strip_cr l = trim_suffix l [CHR 0x0D]"

definition raw_lines :: "string \<Rightarrow> string list" where
  "raw_lines s = (let ls = split_on newline s in if last ls = [] then butlast ls else ls)"

definition max_token :: int where
  "max_token = 1048576"

definition fits :: "string \<Rightarrow> bool" where
  "fits l \<longleftrightarrow> int (length l) < max_token"

record stream_client =
  st_data :: string
  st_seq :: int
  st_printed :: "wire_event list"

definition flush_event :: "(string \<Rightarrow> wire_event option) \<Rightarrow> stream_client \<Rightarrow> stream_client" where
  "flush_event dec st = (if st_data st = [] then st
     else (case dec (st_data st) of
         None \<Rightarrow> st\<lparr>st_data := []\<rparr>
       | Some e \<Rightarrow> st\<lparr>st_data := [], st_seq := max (st_seq st) (we_seq e), st_printed := st_printed st @ [e]\<rparr>))"

definition client_line :: "(string \<Rightarrow> wire_event option) \<Rightarrow> string \<Rightarrow> stream_client \<Rightarrow> stream_client" where
  "client_line dec line st = (if line = [] then flush_event dec st
     else if has_prefix line ''data:'' then st\<lparr>st_data := st_data st @ trim_space (trim_prefix line ''data:'')\<rparr>
     else st)"

definition start_client :: "int \<Rightarrow> stream_client" where
  "start_client seq = \<lparr>st_data = [], st_seq = seq, st_printed = []\<rparr>"

text \<open>What a response of status 200 leaves the client with: the last number, and the events it printed.\<close>

definition read_stream :: "(string \<Rightarrow> wire_event option) \<Rightarrow> int \<Rightarrow> string \<Rightarrow> int \<times> wire_event list" where
  "read_stream dec seq text =
     (let st = flush_event dec (fold (client_line dec) (map strip_cr (takeWhile fits (raw_lines text))) (start_client seq))
      in (st_seq st, st_printed st))"

text \<open>The reconnect loop: every response arrives up to some byte; the next request resumes after the last number (a number
  that is not positive is not sent, and the server starts at 0).\<close>

fun tail_events ::
  "(wire_event \<Rightarrow> string) \<Rightarrow> (string \<Rightarrow> wire_event option) \<Rightarrow> (string \<Rightarrow> (string \<times> jvalue) list option) \<Rightarrow> string list \<Rightarrow> int \<Rightarrow>
     int \<Rightarrow> (db session list \<times> nat) list \<Rightarrow> int \<times> wire_event list" where
  "tail_events enc dec decode types repo seq [] = (seq, [])"
| "tail_events enc dec decode types repo seq ((ss, n) # cs) =
     (let text = take n (concat (map (chunk_text enc) (serve decode types repo False (max 0 seq) ss)));
          (seq', printed) = read_stream dec seq text;
          (seq'', later) = tail_events enc dec decode types repo seq' cs in
      (seq'', printed @ later))"

section \<open>One line for an event\<close>

text \<open>\<open>%v\<close> of a JSON value that is no string is given as \<open>show\<close>.\<close>

definition value_str :: "(jvalue \<Rightarrow> string) \<Rightarrow> jvalue option \<Rightarrow> string" where
  "value_str show v = (case v of None \<Rightarrow> [] | Some JNull \<Rightarrow> [] | Some (JStr s) \<Rightarrow> s | Some v \<Rightarrow> show v)"

definition brief_sha :: "string \<Rightarrow> string" where
  "brief_sha sha = take 12 sha"

definition join_non_empty :: "string list \<Rightarrow> string" where
  "join_non_empty parts = join '' '' (filter (\<lambda>p. trim_space p \<noteq> []) parts)"

definition event_summary :: "(jvalue \<Rightarrow> string) \<Rightarrow> wire_event \<Rightarrow> string" where
  "event_summary show e = (case we_data e of None \<Rightarrow> [] | Some d \<Rightarrow>
     let field = (\<lambda>key. value_str show (map_of d key));
         num = (if map_of d ''number'' = None then [] else CHR ''#'' # field ''number'') in
     if we_type e = ''push'' then join_non_empty [field ''ref'', brief_sha (field ''after'')]
     else if we_type e = ''issue.created'' then join_non_empty [num, field ''title'']
     else if we_type e \<in> {''issue.claimed'', ''issue.state_changed''} then join_non_empty [num, field ''state'']
     else if we_type e \<in> {''issue.updated'', ''issue.unclaimed'', ''issue.commented''} then num
     else if we_type e = ''ci.run.queued'' then join_non_empty [''run '' @ num, field ''ref'', brief_sha (field ''sha'')]
     else if we_type e = ''ci.run.finished'' then join_non_empty [''run '' @ num, field ''status'']
     else [])"

definition format_event :: "(jvalue \<Rightarrow> string) \<Rightarrow> (int \<Rightarrow> string) \<Rightarrow> wire_event \<Rightarrow> string" where
  "format_event show clock e = join ''  '' (filter (\<lambda>p. p \<noteq> [])
     [clock (we_time e), we_type e, we_repo e, if we_actor e = [] then [] else CHR ''@'' # we_actor e, event_summary show e])"

section \<open>Reading a text that is cut\<close>

definition chunk_lines :: "(wire_event \<Rightarrow> string) \<Rightarrow> chunk \<Rightarrow> string list" where
  "chunk_lines enc c = (case c of
     WireEvent e \<Rightarrow> [''id: '' @ itoa (we_seq e), ''event: '' @ we_type e, ''data: '' @ enc e, []]
   | WirePing \<Rightarrow> ['': ping'', []])"

definition lines_text :: "string list \<Rightarrow> string" where
  "lines_text ls = concat (map (\<lambda>l. l @ [newline]) ls)"

text \<open>What the stream relies on of the JSON of an event, as \<open>json.Marshal\<close> writes it: one line without control bytes, that
  decodes to the event where no shorter part of it does; and every line fits the buffer of the client.\<close>

definition wire_law :: "(wire_event \<Rightarrow> string) \<Rightarrow> (string \<Rightarrow> wire_event option) \<Rightarrow> wire_event \<Rightarrow> bool" where
  "wire_law enc dec e \<longleftrightarrow> enc e \<noteq> [] \<and> newline \<notin> set (enc e) \<and> CHR 0x0D \<notin> set (enc e) \<and> trim_space (enc e) = enc e
     \<and> dec (enc e) = Some e \<and> (\<forall>j \<in> set [0..<length (enc e)]. dec (trim_space (take j (enc e))) = None)
     \<and> newline \<notin> set (we_type e) \<and> list_all fits (chunk_lines enc (WireEvent e))"

lemma chunk_text_lines: "chunk_text enc c = lines_text (chunk_lines enc c)"
  by (simp add: chunk_text_def chunk_lines_def lines_text_def split: chunk.split)

lemma split_lines_append:
  "\<forall>l \<in> set ls. newline \<notin> set l \<Longrightarrow> split_on newline (lines_text ls @ t) = ls @ split_on newline t"
  by (induction ls) (simp_all add: lines_text_def split_on_append_sep)

lemma raw_lines_append: "\<forall>l \<in> set ls. newline \<notin> set l \<Longrightarrow> raw_lines (lines_text ls @ t) = ls @ raw_lines t"
  by (simp add: raw_lines_def Let_def split_lines_append butlast_append)

lemma split_lines_cut:
  assumes "\<forall>l \<in> set ls. newline \<notin> set l" and "n < length (lines_text ls)"
  shows "\<exists>k m. k < length ls \<and> split_on newline (take n (lines_text ls)) = take k ls @ [take m (ls ! k)]"
  using assms
proof (induction ls arbitrary: n)
  case (Cons l ls)
  have l: "newline \<notin> set l" using Cons.prems(1) by simp
  show ?case
  proof (cases "n \<le> length l")
    case True
    then have "take n (lines_text (l # ls)) = take n l" by (simp add: lines_text_def)
    moreover have "newline \<notin> set (take n l)" using l by (meson in_set_takeD)
    ultimately show ?thesis by (intro exI [of _ 0] exI [of _ n]) (simp add: split_on_id)
  next
    case False
    define j where "j = n - length l - 1"
    with False have j: "n = length l + 1 + j" by simp
    then have cut: "take n (lines_text (l # ls)) = l @ newline # take j (lines_text ls)" by (simp add: lines_text_def)
    have "j < length (lines_text ls)" using Cons.prems(2) j by (simp add: lines_text_def)
    with Cons.IH Cons.prems(1) obtain k m where
      "k < length ls" "split_on newline (take j (lines_text ls)) = take k ls @ [take m (ls ! k)]"
      by (metis list.set_intros(2))
    then show ?thesis by (intro exI [of _ "Suc k"] exI [of _ m]) (simp add: cut split_on_append_sep [OF l])
  qed
qed (simp add: lines_text_def)

lemma raw_lines_cut:
  assumes "\<forall>l \<in> set ls. newline \<notin> set l" and "n < length (lines_text ls)"
  shows "\<exists>k m. k < length ls \<and> raw_lines (take n (lines_text ls)) = take k ls @ (if take m (ls ! k) = [] then [] else [take m (ls ! k)])"
proof -
  from split_lines_cut [OF assms] obtain k m where
    "k < length ls" "split_on newline (take n (lines_text ls)) = take k ls @ [take m (ls ! k)]" by blast
  then show ?thesis by (intro exI [of _ k] exI [of _ m]) (simp add: raw_lines_def Let_def del: take_eq_Nil)
qed

section \<open>What the client makes of it\<close>

definition quiet :: "string \<Rightarrow> bool" where
  "quiet l \<longleftrightarrow> l \<noteq> [] \<and> hd l \<noteq> CHR ''d'' \<and> hd l \<noteq> CHR 0x0D"

lemma strip_cr_hd: "quiet l \<Longrightarrow> quiet (strip_cr l)"
  by (cases l rule: rev_cases) (auto simp: quiet_def strip_cr_def trim_suffix_def has_suffix_def has_prefix_def hd_append split: if_splits)

lemma quiet_line: "quiet l \<Longrightarrow> client_line dec (strip_cr l) st = st"
  using strip_cr_hd [of l] by (cases "strip_cr l") (auto simp: quiet_def client_line_def has_prefix_def)

lemma quiet_take: "quiet l \<Longrightarrow> take m l \<noteq> [] \<Longrightarrow> quiet (take m l)"
  by (cases m; cases l) (auto simp: quiet_def)

lemma strip_cr_id: "CHR 0x0D \<notin> set l \<Longrightarrow> strip_cr l = l"
  by (cases l rule: rev_cases) (auto simp: strip_cr_def trim_suffix_def has_suffix_def has_prefix_def)

lemma fits_take: "fits l \<Longrightarrow> fits (take m l)"
  by (simp add: fits_def)

text \<open>The client on a text, from a state.\<close>

definition read_from :: "(string \<Rightarrow> wire_event option) \<Rightarrow> string list \<Rightarrow> stream_client \<Rightarrow> stream_client" where
  "read_from dec ls st = flush_event dec (fold (client_line dec) (map strip_cr (takeWhile fits ls)) st)"

definition took :: "wire_event \<Rightarrow> stream_client \<Rightarrow> stream_client" where
  "took e st = st\<lparr>st_seq := max (st_seq st) (we_seq e), st_printed := st_printed st @ [e]\<rparr>"

lemma read_stream_from: "read_stream dec seq text = (let st = read_from dec (raw_lines text) (start_client seq) in (st_seq st, st_printed st))"
  by (simp add: read_stream_def read_from_def)

lemma read_from_append:
  assumes "list_all fits ls"
  shows "read_from dec (ls @ ms) st = read_from dec ms (fold (client_line dec) (map strip_cr ls) st)"
proof -
  have "takeWhile fits (ls @ ms) = ls @ takeWhile fits ms" using assms by (simp add: list_all_iff takeWhile_append2)
  then show ?thesis by (simp add: read_from_def)
qed

lemma trim_blank: "trim_space (CHR '' '' # s) = trim_space s"
  by (simp add: trim_space_def trim_left.simps [of "CHR '' '' # s"])

lemma trim_nothing: "trim_space [] = []"
  by code_simp

lemma quiet_lines: "quiet (''id: '' @ s)" "quiet (''event: '' @ s)" "quiet '': ping''"
  by (simp_all add: quiet_def)

lemma data_line:
  "CHR 0x0D \<notin> set s \<Longrightarrow> client_line dec (strip_cr (''data: '' @ s)) st = st\<lparr>st_data := st_data st @ trim_space s\<rparr>"
  by (simp add: strip_cr_id client_line_def has_prefix_def trim_prefix_def trim_blank)

lemma strip_Nil [simp]: "strip_cr [] = []"
  by (simp add: strip_cr_def trim_suffix_def has_suffix_def has_prefix_def)

lemma whole_chunk:
  assumes "case c of WireEvent e \<Rightarrow> wire_law enc dec e | WirePing \<Rightarrow> True" and "st_data st = []"
  shows "fold (client_line dec) (map strip_cr (chunk_lines enc c)) st = (case c of WireEvent e \<Rightarrow> took e st | WirePing \<Rightarrow> st)"
proof (cases c)
  case (WireEvent e)
  then have law: "enc e \<noteq> []" "CHR 0x0D \<notin> set (enc e)" "trim_space (enc e) = enc e" "dec (enc e) = Some e"
    using assms(1) by (simp_all add: wire_law_def)
  have "fold (client_line dec) (map strip_cr (chunk_lines enc c)) st = client_line dec [] (st\<lparr>st_data := enc e\<rparr>)"
    unfolding WireEvent chunk_lines_def chunk.case list.map fold.simps comp_apply id_apply quiet_line [OF quiet_lines(1)]
      quiet_line [OF quiet_lines(2)] data_line [OF law(2)] law(3) strip_Nil assms(2) append_Nil ..
  then show ?thesis using WireEvent law(1,4) assms(2) by (simp add: client_line_def flush_event_def took_def)
next
  case WirePing
  have "fold (client_line dec) (map strip_cr (chunk_lines enc c)) st = client_line dec [] st"
    using WirePing by (simp only: chunk_lines_def chunk.case list.map fold.simps comp_apply id_apply quiet_line [OF quiet_lines(3)] strip_Nil)
  then show ?thesis using WirePing assms(2) by (simp add: client_line_def flush_event_def)
qed

text \<open>The events of a stream, and a client that got some of them.\<close>

definition chunk_event :: "chunk \<Rightarrow> wire_event list" where
  "chunk_event c = (case c of WireEvent e \<Rightarrow> [e] | WirePing \<Rightarrow> [])"

definition stream_of :: "chunk list \<Rightarrow> wire_event list" where
  "stream_of cs = concat (map chunk_event cs)"

definition good_chunk :: "(wire_event \<Rightarrow> string) \<Rightarrow> (string \<Rightarrow> wire_event option) \<Rightarrow> chunk \<Rightarrow> bool" where
  "good_chunk enc dec c \<longleftrightarrow> (case c of WireEvent e \<Rightarrow> wire_law enc dec e | WirePing \<Rightarrow> True)"

lemma good_chunk_lines:
  assumes "good_chunk enc dec c"
  shows "\<forall>l \<in> set (chunk_lines enc c). newline \<notin> set l" and "list_all fits (chunk_lines enc c)"
proof -
  have digits: "newline \<notin> set (digits n)" for n
    using digits_chars [of n] by (auto simp: newline_def simp del: digits.simps)
  show "\<forall>l \<in> set (chunk_lines enc c). newline \<notin> set l"
    using assms digits by (auto simp: good_chunk_def chunk_lines_def wire_law_def itoa_def newline_def simp del: digits.simps split: chunk.splits)
  show "list_all fits (chunk_lines enc c)"
    using assms by (auto simp: good_chunk_def chunk_lines_def wire_law_def fits_def max_token_def split: chunk.splits)
qed

lemma nothing_pending: "st_data st = [] \<Longrightarrow> read_from dec [] st = st"
  by (simp add: read_from_def flush_event_def)

lemma quiet_rest:
  assumes "list_all quiet ls" and "list_all fits ls" and "st_data st = []"
  shows "read_from dec ls st = st"
proof -
  have "fold (client_line dec) (map strip_cr ls) st = st" using assms(1) by (induction ls) (simp_all add: quiet_line)
  moreover have "read_from dec (ls @ []) st = read_from dec [] (fold (client_line dec) (map strip_cr ls) st)"
    using read_from_append [OF assms(2), of dec "[]" st] .
  ultimately show ?thesis using nothing_pending [OF assms(3)] by simp
qed

text \<open>A data line of which only a part has arrived.\<close>

lemma partial_data:
  assumes "wire_law enc dec e" and "st_data st = []" and "l = take m (''data: '' @ enc e)" and "l \<noteq> []"
  shows "read_from dec [l] st = st \<or> read_from dec [l] st = took e st"
proof -
  have law: "enc e \<noteq> []" "CHR 0x0D \<notin> set (enc e)" "trim_space (enc e) = enc e" "dec (enc e) = Some e"
    using assms(1) by (simp_all add: wire_law_def)
  have part: "dec (trim_space (take j (enc e))) = None" if "j < length (enc e)" for j
    using assms(1) that by (simp add: wire_law_def)
  have fit: "list_all fits [l]" using assms(1,3) by (simp add: wire_law_def chunk_lines_def fits_take)
  show ?thesis
  proof (cases "m < 6")
    case True
    then have "m \<in> {1, 2, 3, 4, 5}" using assms(3,4) by (auto simp: eval_nat_numeral less_Suc_eq)
    then have "client_line dec (strip_cr l) st = st"
      using assms(2,3) by (auto simp: strip_cr_def trim_suffix_def has_suffix_def has_prefix_def client_line_def trim_prefix_def trim_nothing)
    then show ?thesis using read_from_append [OF fit, of dec "[]" st] nothing_pending [OF assms(2)] by simp
  next
    case False
    define j where "j = m - 6"
    have l: "l = ''data: '' @ take j (enc e)" using False assms(3) by (simp add: j_def take_Cons' numeral_eq_Suc)
    have "CHR 0x0D \<notin> set (take j (enc e))" using law(2) by (meson in_set_takeD)
    from data_line [OF this, of dec st] have line: "client_line dec (strip_cr l) st = st\<lparr>st_data := trim_space (take j (enc e))\<rparr>"
      by (simp add: l assms(2))
    have "read_from dec [l] st = flush_event dec (st\<lparr>st_data := trim_space (take j (enc e))\<rparr>)"
      using read_from_append [OF fit, of dec "[]" st] line by (simp add: read_from_def)
    then show ?thesis
      using part [of j] law assms(2) by (cases "j < length (enc e)") (simp_all add: flush_event_def took_def)
  qed
qed

lemma quiet_head:
  assumes "list_all quiet ls" and "list_all fits ls"
  shows "read_from dec (ls @ ms) st = read_from dec ms st"
proof -
  have "fold (client_line dec) (map strip_cr ls) st = st" using assms(1) by (induction ls) (simp_all add: quiet_line)
  then show ?thesis using read_from_append [OF assms(2)] by simp
qed

lemma cut_chunk:
  assumes "good_chunk enc dec c" and "st_data st = []" and "n < length (chunk_text enc c)"
  shows "\<exists>es rest. chunk_event c = es @ rest \<and> read_from dec (raw_lines (take n (chunk_text enc c))) st = fold took es st"
proof -
  define part where "part k m = (if take m (chunk_lines enc c ! k) = [] then [] else [take m (chunk_lines enc c ! k)])" for k m
  from raw_lines_cut [OF good_chunk_lines(1) [OF assms(1)], of n] obtain k m where
    k: "k < length (chunk_lines enc c)" and ls: "raw_lines (take n (chunk_text enc c)) = take k (chunk_lines enc c) @ part k m"
    using assms(3) by (auto simp: chunk_text_lines part_def)
  have fit: "list_all fits (take k (chunk_lines enc c))" "list_all fits (part k m)"
    using good_chunk_lines(2) [OF assms(1)] k by (auto simp: part_def list_all_iff fits_take dest: in_set_takeD)
  have silent: ?thesis if "list_all quiet (take k (chunk_lines enc c) @ part k m)"
    using quiet_rest [OF that _ assms(2), of dec] fit ls by (intro exI [of _ "[]"] exI [of _ "chunk_event c"]) simp
  show ?thesis
  proof (cases c)
    case WirePing
    then have "k = 0 \<or> k = 1" using k by (auto simp: chunk_lines_def)
    then have "list_all quiet (take k (chunk_lines enc c) @ part k m)"
      using quiet_take [OF quiet_lines(3), of m] quiet_lines(3) WirePing by (auto simp: chunk_lines_def part_def simp del: take_eq_Nil)
    then show ?thesis by (rule silent)
  next
    case (WireEvent e)
    have law: "wire_law enc dec e" using assms(1) WireEvent by (simp add: good_chunk_def)
    have lines: "chunk_lines enc c = [''id: '' @ itoa (we_seq e), ''event: '' @ we_type e, ''data: '' @ enc e, []]"
      using WireEvent by (simp add: chunk_lines_def)
    consider "k = 0" | "k = 1" | "k = 2" | "k = 3" using k lines by fastforce
    then show ?thesis
    proof cases
      case 1
      then have "list_all quiet (take k (chunk_lines enc c) @ part k m)"
        using quiet_take [OF quiet_lines(1), of m] by (simp add: lines part_def del: append.simps take_eq_Nil)
      then show ?thesis by (rule silent)
    next
      case 2
      then have "list_all quiet (take k (chunk_lines enc c) @ part k m)"
        using quiet_take [OF quiet_lines(2), of m] quiet_lines(1) by (simp add: lines part_def del: append.simps take_eq_Nil)
      then show ?thesis by (rule silent)
    next
      case 3
      have head: "take k (chunk_lines enc c) = [''id: '' @ itoa (we_seq e), ''event: '' @ we_type e]" using 3 lines by (simp add: numeral_2_eq_2)
      have "read_from dec (raw_lines (take n (chunk_text enc c))) st = read_from dec (part k m) st"
        unfolding ls by (rule quiet_head [OF _ fit(1)]) (simp add: head quiet_lines del: append.simps)
      moreover have "read_from dec (part k m) st = st \<or> read_from dec (part k m) st = took e st"
        using partial_data [OF law assms(2), of "chunk_lines enc c ! k" m] partial_data [OF law assms(2) refl, of m] nothing_pending [OF assms(2)] 3
        by (simp add: part_def lines del: append.simps take_eq_Nil)
      ultimately show ?thesis using WireEvent by (auto simp: chunk_event_def intro: exI [of _ "[]"] exI [of _ "[e]"])
    next
      case 4
      have "take k (chunk_lines enc c) = [''id: '' @ itoa (we_seq e), ''event: '' @ we_type e] @ [''data: '' @ enc e]" "part k m = []"
        using 4 lines by (simp_all add: numeral_3_eq_3 part_def)
      then have "read_from dec (raw_lines (take n (chunk_text enc c))) st = read_from dec [''data: '' @ enc e] st"
        unfolding ls using fit(1) by (simp only: append_Nil2) (rule quiet_head, simp_all add: quiet_lines list_all_append del: append.simps)
      moreover have "read_from dec [''data: '' @ enc e] st = st \<or> read_from dec [''data: '' @ enc e] st = took e st"
        by (rule partial_data [OF law assms(2), of _ "length (''data: '' @ enc e)"]) simp_all
      ultimately show ?thesis using WireEvent by (auto simp: chunk_event_def intro: exI [of _ "[]"] exI [of _ "[e]"])
    qed
  qed
qed

lemma took_data [simp]: "st_data (took e st) = st_data st"
  by (simp add: took_def)

text \<open>However the stream is cut, the client has printed the events at its head, each once and in order.\<close>

lemma read_cut:
  assumes "list_all (good_chunk enc dec) cs" and "st_data st = []"
  shows "\<exists>es rest. stream_of cs = es @ rest \<and> read_from dec (raw_lines (take n (concat (map (chunk_text enc) cs)))) st = fold took es st"
  using assms
proof (induction cs arbitrary: n st)
  case Nil
  then show ?case using nothing_pending by (simp add: raw_lines_def stream_of_def)
next
  case (Cons c cs)
  have c: "good_chunk enc dec c" using Cons.prems(1) by simp
  show ?case
  proof (cases "n < length (chunk_text enc c)")
    case True
    then have cut: "take n (concat (map (chunk_text enc) (c # cs))) = take n (chunk_text enc c)" by simp
    from cut_chunk [OF c Cons.prems(2) True] obtain es rest where
      "chunk_event c = es @ rest" "read_from dec (raw_lines (take n (chunk_text enc c))) st = fold took es st" by blast
    then show ?thesis unfolding cut by (intro exI [of _ es] exI [of _ "rest @ stream_of cs"]) (simp add: stream_of_def)
  next
    case False
    define j where "j = n - length (chunk_text enc c)"
    with False have cut: "take n (concat (map (chunk_text enc) (c # cs))) = chunk_text enc c @ take j (concat (map (chunk_text enc) cs))" by simp
    define st' where "st' = fold took (chunk_event c) st"
    have st': "st_data st' = []" using Cons.prems(2) by (simp add: st'_def chunk_event_def split: chunk.split)
    have "fold (client_line dec) (map strip_cr (chunk_lines enc c)) st = st'"
      using whole_chunk [where c = c and enc = enc and dec = dec and st = st] c Cons.prems(2) by (simp add: good_chunk_def st'_def chunk_event_def split: chunk.splits)
    then have "read_from dec (raw_lines (take n (concat (map (chunk_text enc) (c # cs))))) st
        = read_from dec (raw_lines (take j (concat (map (chunk_text enc) cs)))) st'"
      unfolding cut by (simp add: chunk_text_lines raw_lines_append [OF good_chunk_lines(1) [OF c]] read_from_append [OF good_chunk_lines(2) [OF c]])
    moreover obtain es rest where "stream_of cs = es @ rest"
      "read_from dec (raw_lines (take j (concat (map (chunk_text enc) cs)))) st' = fold took es st'"
      using Cons.IH [OF _ st', of j] Cons.prems(1) by fastforce
    ultimately show ?thesis
      by (intro exI [of _ "chunk_event c @ es"] exI [of _ rest]) (simp add: stream_of_def st'_def)
  qed
qed

lemma fold_took: "st_printed (fold took es st) = st_printed st @ es" "st_seq (fold took es st) = fold max (map we_seq es) (st_seq st)"
  by (induction es arbitrary: st) (simp_all add: took_def max.commute)

lemma read_stream_cut:
  assumes "list_all (good_chunk enc dec) cs"
  shows "\<exists>es rest. stream_of cs = es @ rest \<and> read_stream dec seq (take n (concat (map (chunk_text enc) cs))) = (fold max (map we_seq es) seq, es)"
proof -
  obtain es rest where "stream_of cs = es @ rest"
    "read_from dec (raw_lines (take n (concat (map (chunk_text enc) cs)))) (start_client seq) = fold took es (start_client seq)"
    using read_cut [OF assms, of "start_client seq" n] by (auto simp: start_client_def)
  then show ?thesis by (intro exI [of _ es] exI [of _ rest]) (simp add: read_stream_from fold_took start_client_def Let_def)
qed

section \<open>What a stream carries\<close>

text \<open>The engines a reader meets, in the order of time, between a first and a last state of the database.\<close>

fun grows_through :: "db \<Rightarrow> db session list \<Rightarrow> db \<Rightarrow> bool" where
  "grows_through d [] d' \<longleftrightarrow> feed_step\<^sup>*\<^sup>* d d'"
| "grows_through d (s # ss) d' \<longleftrightarrow> feed_step\<^sup>*\<^sup>* d (snd s) \<and> grows_through (snd s) ss d'"

lemma grows_through_steps: "grows_through d ss d' \<Longrightarrow> feed_step\<^sup>*\<^sup>* d d'"
  by (induction ss arbitrary: d) (auto intro: rtranclp_trans)

lemma grows_through_append: "grows_through d (ss @ ts) d' \<Longrightarrow> \<exists>m. grows_through d ss m \<and> grows_through m ts d' \<and> grows_through d ss d'"
proof (induction ss arbitrary: d)
  case Nil
  then show ?case using grows_through_steps by auto
qed auto

lemma feed_batch:
  assumes "fst (list_events_since seq repo n s) = Inr batch"
  shows "batch = map (scan_event (snd s)) (take (feed_limit n) (filter (in_feed seq repo) (rows (events (snd s)))))"
proof -
  obtain fs d where s: "s = (fs, d)" by (cases s)
  show ?thesis
    using assms unfolding s list_events_since_def
    by (cases "(\<lambda>d. map (scan_event d) (take (nat (if n \<le> 0 then 500 else n)) (select_where (in_feed seq repo) (events d))),
        ok :: feed_event list \<Rightarrow> (db, feed_event list) dbm, fs, d)" rule: query.cases) (simp_all add: feed_limit_def select_where_def)
qed

lemma scan_type [simp]: "fe_type (scan_event d e) = e_type e"
  by (simp add: scan_event_def Let_def)

lemma to_api_sel [simp]: "we_seq (to_api_event decode e) = fe_seq e"
  by (simp add: to_api_event_def)

lemma stream_of_append [simp]: "stream_of (cs @ ds) = stream_of cs @ stream_of ds" "stream_of [] = []" "stream_of (WirePing # cs) = stream_of cs"
  by (simp_all add: stream_of_def chunk_event_def)

lemma stream_of_events: "stream_of (map (\<lambda>e. WireEvent (f e)) es) = map f es"
  by (induction es) (simp_all add: stream_of_def chunk_event_def)

definition feed_covers :: "string list \<Rightarrow> int \<Rightarrow> int \<Rightarrow> db \<Rightarrow> wire_event list \<Rightarrow> int \<Rightarrow> bool" where
  "feed_covers types repo seq d es till \<longleftrightarrow> (\<forall>e \<in> set (rows (events d)).
     in_feed seq repo e \<and> type_passes types (e_type e) \<and> e_id e \<le> till \<longrightarrow> e_id e \<in> we_seq ` set es)"

lemma serve_step:
  assumes "fst (list_events_since seq repo events_batch s) = Inr batch"
  shows "stream_of (serve decode types repo False seq (s # ss)) =
    map (to_api_event decode) (filter (\<lambda>e. type_passes types (fe_type e)) batch) @
    stream_of (serve decode types repo False (if batch = [] then seq else fe_seq (last batch)) ss)"
  by (simp add: assms Let_def stream_of_events)

lemma serve_covers:
  assumes "ids_ok e_id (events d0)" and "grows_through d0 ss d1"
  shows "sorted_wrt (<) (seq # map we_seq (stream_of (serve decode types repo False seq ss)))
    \<and> (\<forall>x \<in> set (stream_of (serve decode types repo False seq ss)). feed_covers types repo seq d1 (stream_of (serve decode types repo False seq ss)) (we_seq x))"
  using assms
proof (induction ss arbitrary: d0 seq)
  case (Cons s ss)
  show ?case
  proof (cases "fst (list_events_since seq repo events_batch s)")
    case (Inr batch)
    define d where "d = snd s"
    define P where "P = take (feed_limit events_batch) (filter (in_feed seq repo) (rows (events d)))"
    define nxt where "nxt = (if batch = [] then seq else fe_seq (last batch))"
    define R where "R = stream_of (serve decode types repo False nxt ss)"
    define B where "B = map (to_api_event decode) (filter (\<lambda>e. type_passes types (fe_type e)) batch)"
    have S: "stream_of (serve decode types repo False seq (s # ss)) = B @ R"
      using serve_step [OF Inr, of decode types ss] unfolding B_def R_def nxt_def .
    have batch: "batch = map (scan_event d) P" using feed_batch [OF Inr] by (simp add: P_def d_def)
    have ids: "ids_ok e_id (events d)" and ext: "feed_extends d d1"
      using Cons.prems feed_steps_extend [of d0 d] feed_steps_extend [OF grows_through_steps, of d ss d1] by (auto simp: d_def feed_extends_def)
    have IH: "sorted_wrt (<) (nxt # map we_seq R)" "\<And>x. x \<in> set R \<Longrightarrow> feed_covers types repo nxt d1 R (we_seq x)"
      using Cons.IH [OF ids, of nxt] Cons.prems(2) by (auto simp: R_def d_def)
    have P: "sorted_wrt (<) (map e_id P)" "\<And>e. e \<in> set P \<Longrightarrow> e \<in> set (rows (events d)) \<and> in_feed seq repo e"
      using ids by (auto simp: P_def ids_ok_def take_map [symmetric] sorted_wrt_take sorted_wrt_map_filterI dest: in_set_takeD)
    have till: "e_id e \<le> nxt" if "e \<in> set P" for e
      using strict_le_last [OF P(1), of "e_id e"] that by (cases P rule: rev_cases) (auto simp: nxt_def batch)
    have "seq \<le> nxt" using P(2) by (cases P rule: rev_cases) (auto simp: nxt_def batch in_feed_def order.strict_implies_order)
    have seqs: "map we_seq B = map e_id (filter (\<lambda>e. type_passes types (e_type e)) P)"
      by (simp add: B_def batch filter_map comp_def)
    have B: "sorted_wrt (<) (map we_seq B)" using P(1) by (simp add: seqs sorted_wrt_map_filterI)
    have below: "seq < x \<and> x \<le> nxt" if "x \<in> set (map we_seq B)" for x
      using that till P(2) by (auto simp: seqs in_feed_def)
    have above: "nxt < x" if "x \<in> set (map we_seq R)" for x using IH(1) that by auto
    have "sorted_wrt (<) (seq # map we_seq (B @ R))"
      using B IH(1) below above \<open>seq \<le> nxt\<close> by (fastforce simp: sorted_wrt_append)
    moreover have "feed_covers types repo seq d1 (B @ R) (we_seq x)" if x: "x \<in> set (B @ R)" for x
      unfolding feed_covers_def
    proof (intro ballI impI)
      fix e
      assume e: "e \<in> set (rows (events d1))" and f: "in_feed seq repo e \<and> type_passes types (e_type e) \<and> e_id e \<le> we_seq x"
      show "e_id e \<in> we_seq ` set (B @ R)"
      proof (cases "e_id e \<le> nxt")
        case True
        have ne: "P \<noteq> []" using True f by (cases P) (auto simp: nxt_def batch in_feed_def)
        have lst: "nxt = e_id (last P)" using ne by (simp add: nxt_def batch last_map)
        have "last P \<in> set (rows (events d))" using P(2) ne last_in_set by blast
        then have "nxt \<le> seqno (events d)" using ids lst by (simp add: ids_ok_def)
        then have "e \<in> set (rows (events d))" using ext e True by (force simp: feed_extends_def)
        then have mem: "e \<in> set (filter (in_feed seq repo) (rows (events d)))" using f by simp
        have sorted: "sorted_wrt (<) (map e_id (filter (in_feed seq repo) (rows (events d))))"
          using ids by (simp add: ids_ok_def sorted_wrt_map_filterI)
        have "e \<in> set P"
          using sorted_take_drop [OF sorted mem ne [unfolded P_def]] True lst unfolding P_def by linarith
        then have "e_id e \<in> set (map we_seq B)" using f by (simp add: seqs)
        then show ?thesis by auto
      next
        case False
        then have "x \<in> set R" using x below f by fastforce
        from IH(2) [OF this] have "e_id e \<in> we_seq ` set R" using e f False by (auto simp: feed_covers_def in_feed_def)
        then show ?thesis by auto
      qed
    qed
    ultimately show ?thesis unfolding S by blast
  qed simp
qed simp

definition feed_law :: "(wire_event \<Rightarrow> string) \<Rightarrow> (string \<Rightarrow> wire_event option) \<Rightarrow> (string \<Rightarrow> (string \<times> jvalue) list option) \<Rightarrow> db session list \<Rightarrow> bool" where
  "feed_law enc dec decode ss \<longleftrightarrow> list_all (\<lambda>s. list_all (\<lambda>e. wire_law enc dec (to_api_event decode (scan_event (snd s) e))) (rows (events (snd s)))) ss"

lemma serve_good: "feed_law enc dec decode ss \<Longrightarrow> list_all (good_chunk enc dec) (serve decode types repo once seq ss)"
proof (induction ss arbitrary: seq)
  case (Cons s ss)
  show ?case
  proof (cases "fst (list_events_since seq repo events_batch s)")
    case (Inr batch)
    have "list_all (good_chunk enc dec) (map (\<lambda>e. WireEvent (to_api_event decode e)) (filter (\<lambda>e. type_passes types (fe_type e)) batch))"
      using Cons.prems unfolding feed_batch [OF Inr] by (auto simp: list_all_iff feed_law_def good_chunk_def dest: in_set_takeD)
    moreover have "feed_law enc dec decode ss" using Cons.prems by (simp add: feed_law_def)
    moreover have "good_chunk enc dec WirePing" by (simp add: good_chunk_def)
    ultimately show ?thesis using Cons.IH by (auto simp: Inr Let_def)
  qed simp
qed simp

lemma sorted_max: "sorted_wrt (<) (a # xs) \<Longrightarrow> fold max xs (a :: int) = last (a # xs)"
  by (induction xs arbitrary: a) (auto simp: max_def)

lemma prefix_covers:
  assumes "sorted_wrt (<) (seq # map we_seq (es @ rest))" and "\<forall>x \<in> set (es @ rest). feed_covers types repo seq d (es @ rest) (we_seq x)"
  shows "feed_covers types repo seq d es (last (seq # map we_seq es))"
proof (cases es rule: rev_cases)
  case Nil
  then show ?thesis by (auto simp: feed_covers_def in_feed_def)
next
  case (snoc fs x)
  have "feed_covers types repo seq d (es @ rest) (we_seq x)" using assms(2) snoc by simp
  moreover have "we_seq x < we_seq y" if "y \<in> set rest" for y using assms(1) that by (auto simp: snoc sorted_wrt_append)
  ultimately show ?thesis by (fastforce simp: feed_covers_def snoc)
qed

lemma covers_append:
  assumes "feed_covers types repo seq d es mid" and "feed_covers types repo mid d fs till"
  shows "feed_covers types repo seq d (es @ fs) till"
  unfolding feed_covers_def
proof (intro ballI impI)
  fix e
  assume "e \<in> set (rows (events d))" "in_feed seq repo e \<and> type_passes types (e_type e) \<and> e_id e \<le> till"
  then show "e_id e \<in> we_seq ` set (es @ fs)"
    using assms by (cases "e_id e \<le> mid") (auto simp: feed_covers_def in_feed_def)
qed

text \<open>C39: The event feed is delivered exactly once, from the table to the terminal. Whatever is appended, pruned or deleted
  between the server's queries, and at whatever byte the network cuts each of the client's connections: the numbers of
  the events that \<open>cf events\<close> prints increase strictly, the number it resumes from is the last one printed, and every
  event of the last table up to that number which passes the filters was printed. Assumed of the JSON is that an event
  is one line that fits the client's buffer and that only the whole of it decodes.\<close>

theorem feed_is_delivered_exactly_once:
  assumes "ids_ok e_id (events d)" and "grows_through d (concat (map fst conns)) d'" and "feed_law enc dec decode (concat (map fst conns))"
    and "0 \<le> seq" and "tail_events enc dec decode types repo seq conns = (resume, printed)"
  shows "sorted_wrt (<) (seq # map we_seq printed) \<and> resume = last (seq # map we_seq printed) \<and> feed_covers types repo seq d' printed resume"
  using assms
proof (induction conns arbitrary: d seq resume printed)
  case Nil
  then show ?case by (auto simp: feed_covers_def in_feed_def)
next
  case (Cons c conns)
  obtain ss n where c: "c = (ss, n)" by (cases c)
  obtain m where m: "grows_through d ss m" "grows_through m (concat (map fst conns)) d'" "grows_through d ss d'"
    using grows_through_append [of d ss "concat (map fst conns)" d'] Cons.prems(2) by (auto simp: c)
  have ids: "ids_ok e_id (events m)"
    using feed_steps_extend [OF grows_through_steps [OF m(1)] Cons.prems(1)] by (simp add: feed_extends_def)
  define cs where "cs = serve decode types repo False seq ss"
  have laws: "feed_law enc dec decode ss" "feed_law enc dec decode (concat (map fst conns))" using Cons.prems(3) by (simp_all add: c feed_law_def)
  obtain es rest where es: "stream_of cs = es @ rest"
    and read: "read_stream dec seq (take n (concat (map (chunk_text enc) cs))) = (fold max (map we_seq es) seq, es)"
    using read_stream_cut [OF serve_good [OF laws(1), of types repo False seq, folded cs_def]] by blast
  have S: "sorted_wrt (<) (seq # map we_seq (es @ rest))" "\<forall>x \<in> set (es @ rest). feed_covers types repo seq d' (es @ rest) (we_seq x)"
    using serve_covers [OF Cons.prems(1) m(3), of seq decode types repo] unfolding cs_def [symmetric] es by blast+
  define mid where "mid = last (seq # map we_seq es)"
  have sorted: "sorted_wrt (<) (seq # map we_seq es)" using S(1) by (auto simp: sorted_wrt_append)
  have mid: "fold max (map we_seq es) seq = mid" using sorted_max [OF sorted] by (simp only: mid_def)
  have "seq \<le> mid" using sorted by (cases es rule: rev_cases) (auto simp: mid_def order.strict_implies_order)
  obtain q later where later: "tail_events enc dec decode types repo mid conns = (q, later)" by (metis surj_pair)
  have out: "resume = q" "printed = es @ later"
    using Cons.prems(4,5) read mid later by (simp_all add: c Let_def cs_def max_def)
  have IH: "sorted_wrt (<) (mid # map we_seq later)" "q = last (mid # map we_seq later)" "feed_covers types repo mid d' later q"
    using Cons.IH [OF ids m(2) laws(2) _ later] Cons.prems(4) \<open>seq \<le> mid\<close> by auto
  have "x \<le> mid" if "x \<in> set (map we_seq es)" for x
    using strict_le_last [of "map we_seq es" x] sorted that by (cases es rule: rev_cases) (auto simp: mid_def)
  then have "sorted_wrt (<) (seq # map we_seq printed)"
    using sorted IH(1) \<open>seq \<le> mid\<close> by (fastforce simp: out sorted_wrt_append)
  moreover have "q = last (seq # map we_seq printed)" using IH(2) by (auto simp: out mid_def)
  moreover have "feed_covers types repo seq d' printed q"
    using covers_append [OF prefix_covers [OF S] IH(3) [unfolded mid_def]] by (simp only: out)
  ultimately show ?case using out by simp
qed

text \<open>Two connections: the first is cut inside its second event, between them an event is pruned and one appended.\<close>

definition demo_wire :: "wire_event \<Rightarrow> string" where
  "demo_wire e = ''{'' @ itoa (we_seq e) @ ''}''"

definition demo_unwire :: "string \<Rightarrow> wire_event option" where
  "demo_unwire s = find (\<lambda>e. demo_wire e = s) (concat (map (\<lambda>d. map (\<lambda>e. to_api_event (\<lambda>_. None) (scan_event d e)) (rows (events d)))
     [demo_feed, demo_feed_later]))"

definition demo_conns :: "(db session list \<times> nat) list" where
  "demo_conns = [([([], demo_feed)], 48), ([([], demo_feed_later)], 1000)]"

lemma feed_is_delivered_exactly_once_witness:
  "map we_seq (snd (tail_events demo_wire demo_unwire (\<lambda>_. None) [] 0 0 demo_conns)) = [1, 2, 3, 4]
    \<and> feed_covers [] 0 0 demo_feed_later (snd (tail_events demo_wire demo_unwire (\<lambda>_. None) [] 0 0 demo_conns)) 4"
proof -
  let ?out = "tail_events demo_wire demo_unwire (\<lambda>_. None) [] 0 0 demo_conns"
  have run: "fst ?out = 4" "map we_seq (snd ?out) = [1, 2, 3, 4]" by code_simp+
  have law: "feed_law demo_wire demo_unwire (\<lambda>_. None) (concat (map fst demo_conns))" by code_simp
  have through: "grows_through demo_feed (concat (map fst demo_conns)) demo_feed_later"
    using demo_feed_steps by (simp add: demo_conns_def)
  have out: "?out = (4, snd ?out)" using run(1) by (metis prod.collapse)
  show ?thesis using feed_is_delivered_exactly_once [OF demo_feed_ids through law order_refl out] run(2) by blast
qed

end
