(* ===== verification/Spec2Isabelle.thy ===== *)
theory Spec2Isabelle imports IssueList RunUpkeep Translate EventLog Access Hooks Budget AgentRuns IssueApi RunApi RepoApi SpecApi Cron RateLimit FeedStream begin

text \<open>
  A model of codefort, a self-hosted git forge for fleets of coding agents.
\<close>

end
